(* ===== verification/IL2C_Base.thy ===== *)
theory IL2C_Base
  imports Main "HOL-Library.Word"
begin

text \<open>
  Shared base of the development: the types the runtime's C code is written in
  (addresses, fixed-width integers, wide characters), the outcomes a C function can
  have, reads and writes of C arrays with the out-of-range case written out, and the
  small facts on lists and words that several components use.

  Configuration modelled: the 64-bit Linux/GCC build of IL2C.Runtime (LP64,
  \<open>wchar_t\<close> of 32 bits).  Where a component is only compiled for another platform
  (the \<open>IL2C_USE_WTOI\<close> and \<open>IL2C_USE_TWTOI\<close> parsers), its theory says so.
\<close>

unbundle bit_operations_syntax

section \<open>Types and outcomes\<close>

type_synonym addr = nat          \<comment> \<open>a pointer; \<open>NULL\<close> is 0\<close>
type_synonym u8 = "8 word"
type_synonym u16 = "16 word"
type_synonym u32 = "32 word"
type_synonym u64 = "64 word"
type_synonym wchar = "32 word"   \<comment> \<open>\<open>wchar_t\<close> on Linux\<close>

abbreviation (input) NULL :: addr where "NULL \<equiv> 0"

text \<open>
  The ways a runtime function can fail to return a value.  \<open>AssertionFailed\<close> is a
  violated \<open>il2c_assert\<close>: it aborts a debug build and is undefined behaviour
  (\<open>il2c_assume__\<close>) in a release build, so in neither does the call have a meaning.
  \<open>BadAccess\<close> is a read or a write outside the memory the code owns.
  \<open>StackOverflow\<close> is native recursion deeper than the stack allows.  \<open>WouldBlock\<close>
  is a lock held by another thread: the call waits, and has no effect until it is made
  again with the lock released.  The rest are the
  managed exceptions thrown by the runtime itself (Core/il2c_exception.c).
\<close>

datatype error =
    AssertionFailed
  | BadAccess
  | StackOverflow
  | WouldBlock
  | NullReferenceException
  | InvalidCastException
  | IndexOutOfRangeException
  | FormatException

type_synonym 'a result = "error + 'a"

definition bind_result :: "'a result \<Rightarrow> ('a \<Rightarrow> 'b result) \<Rightarrow> 'b result" where
  "bind_result m k = (case m of Inl e \<Rightarrow> Inl e | Inr x \<Rightarrow> k x)"

text \<open>\<open>il2c_assert(c)\<close> followed by the rest of the function.\<close>

definition il2c_assert :: "bool \<Rightarrow> 'a result \<Rightarrow> 'a result" where
  "il2c_assert c k = (if c then k else Inl AssertionFailed)"

lemma bind_result_simps [simp]:
  "bind_result (Inl e) k = Inl e"
  "bind_result (Inr x) k = k x"
  by (simp_all add: bind_result_def)

lemma bind_result_Inr [simp]:
  "bind_result m k = Inr y \<longleftrightarrow> (\<exists>x. m = Inr x \<and> k x = Inr y)"
  by (cases m) auto

lemma bind_result_right [simp]: "bind_result m Inr = m"
  by (cases m) auto

lemma bind_result_assoc:
  "bind_result (bind_result m f) g = bind_result m (\<lambda>x. bind_result (f x) g)"
  by (cases m) auto

lemma bind_result_cong [fundef_cong]:
  "m = m' \<Longrightarrow> (\<And>x. m' = Inr x \<Longrightarrow> k x = k' x) \<Longrightarrow> bind_result m k = bind_result m' k'"
  by (cases m') auto

lemma il2c_assert_simps [simp]:
  "il2c_assert True k = k"
  "il2c_assert False k = Inl AssertionFailed"
  by (simp_all add: il2c_assert_def)

lemma il2c_assert_Inr [simp]: "il2c_assert c k = Inr y \<longleftrightarrow> c \<and> k = Inr y"
  by (simp add: il2c_assert_def)

lemma il2c_assert_cong [fundef_cong]:
  "c = c' \<Longrightarrow> (c' \<Longrightarrow> k = k') \<Longrightarrow> il2c_assert c k = il2c_assert c' k'"
  by (simp add: il2c_assert_def)

section \<open>C arrays\<close>

text \<open>
  A C array is the list of its cells; an access outside it is \<open>BadAccess\<close>.
  \<open>array_copy\<close> is \<open>memcpy\<close> in units of cells.
\<close>

definition array_read :: "'a list \<Rightarrow> nat \<Rightarrow> 'a result" where
  "array_read xs i = (if i < length xs then Inr (xs ! i) else Inl BadAccess)"

definition array_write :: "'a list \<Rightarrow> nat \<Rightarrow> 'a \<Rightarrow> 'a list result" where
  "array_write xs i x = (if i < length xs then Inr (xs[i := x]) else Inl BadAccess)"

definition array_copy :: "'a list \<Rightarrow> nat \<Rightarrow> 'a list \<Rightarrow> nat \<Rightarrow> nat \<Rightarrow> 'a list result" where
  "array_copy dst d src s n =
     (if d + n \<le> length dst \<and> s + n \<le> length src
      then Inr (take d dst @ take n (drop s src) @ drop (d + n) dst)
      else Inl BadAccess)"

lemma array_read_nth [simp]: "i < length xs \<Longrightarrow> array_read xs i = Inr (xs ! i)"
  by (simp add: array_read_def)

lemma array_write_update [simp]: "i < length xs \<Longrightarrow> array_write xs i x = Inr (xs[i := x])"
  by (simp add: array_write_def)

lemma array_copy_length: "array_copy dst d src s n = Inr r \<Longrightarrow> length r = length dst"
  by (auto simp: array_copy_def split: if_splits)

section \<open>Null-terminated strings\<close>

text \<open>
  A string buffer is the list of its cells; its text runs to the first zero cell.
  \<open>cstr_len\<close> is \<open>wcslen\<close>/\<open>strlen\<close>, which reads past the buffer when
  there is no terminator in it.
\<close>

fun cstr_len :: "'a::zero list \<Rightarrow> nat result" where
  "cstr_len [] = Inl BadAccess"
| "cstr_len (c # cs) = (if c = 0 then Inr 0 else bind_result (cstr_len cs) (\<lambda>n. Inr (Suc n)))"

definition cstr_text :: "'a::zero list \<Rightarrow> 'a list" where
  "cstr_text xs = takeWhile (\<lambda>c. c \<noteq> 0) xs"

lemma cstr_len_iff: "cstr_len xs = (if 0 \<in> set xs then Inr (length (cstr_text xs)) else Inl BadAccess)"
  by (induction xs) (auto simp: cstr_text_def)

lemma cstr_text_terminated [simp]: "0 \<notin> set xs \<Longrightarrow> cstr_text (xs @ 0 # ys) = xs"
  by (induction xs) (auto simp: cstr_text_def)

lemma cstr_text_no_zero [simp]: "0 \<notin> set (cstr_text xs)"
  by (auto simp: cstr_text_def dest: set_takeWhileD)

lemma cstr_len_terminated [simp]: "0 \<notin> set xs \<Longrightarrow> cstr_len (xs @ 0 # ys) = Inr (length xs)"
  by (simp add: cstr_len_iff)

lemma cstr_text_split: "0 \<in> set xs \<Longrightarrow> \<exists>ys. xs = cstr_text xs @ 0 # ys"
  by (induction xs) (auto simp: cstr_text_def)

section \<open>Words\<close>

lemma word_eq_iff_bits: "(x :: 'a::len word) = y \<longleftrightarrow> (\<forall>n < LENGTH('a). bit x n = bit y n)"
  by (metis bit_word_eqI)

section \<open>Rule collections\<close>

text \<open>
  \<open>runtime_defs\<close>: the definitions a component's proofs unfold together;
  \<open>characteristic_simps\<close>: the bit facts on object headers.
\<close>

named_theorems runtime_defs
named_theorems characteristic_simps

end
