(* ===== verification/Delegates.thy ===== *)
theory Delegates
  imports IL2C_Base
begin

text \<open>
  System.Delegate (src/System/Delegate.c): a delegate object is a counted table of
  (target, method pointer) entries.  \<open>Combine\<close> and \<open>Remove\<close> build new objects
  and never change an existing one, so the state is a store of delegate objects by
  address.  The address a new object gets is decided by the allocator of Core and is an
  argument (\<open>pNew\<close>); the collection that the allocation starts leaves the rooted
  delegates alone and is the subject of the collector theories.

  The interface \<open>multicast\<close> states what a holder of a multicast handler relies on;
  it is interpreted on \<open>Combine\<close>, \<open>Remove\<close> and \<open>Invoke\<close> as the code has
  them and used by the AppDomain component.
\<close>

section \<open>Data\<close>

record method_table =
  target :: addr
  methodPtr :: addr

record delegate =
  delegate_type :: addr            \<comment> \<open>\<open>il2c_get_header__(p)->type\<close>\<close>
  count :: nat
  methodtbl :: "method_table list" \<comment> \<open>the cells allocated behind \<open>methodtbl__\<close>\<close>
  initialized :: bool              \<comment> \<open>\<open>IL2C_CHARACTERISTIC_INITIALIZED\<close>\<close>

type_synonym delegates = "addr \<rightharpoonup> delegate"

text \<open>Zero-filled object with room for \<open>n\<close> entries, as the allocator returns it.\<close>

definition allocate_delegate :: "addr \<Rightarrow> nat \<Rightarrow> delegate" where
  "allocate_delegate ty n =
     \<lparr>delegate_type = ty, count = 0,
      methodtbl = replicate n \<lparr>target = NULL, methodPtr = NULL\<rparr>, initialized = False\<rparr>"

definition get_delegate :: "delegates \<Rightarrow> addr \<Rightarrow> delegate result" where
  "get_delegate d p = (case d p of None \<Rightarrow> Inl BadAccess | Some x \<Rightarrow> Inr x)"

section \<open>Operations\<close>

definition il2c_new_delegate ::
  "delegates \<Rightarrow> addr \<Rightarrow> addr \<Rightarrow> addr \<Rightarrow> addr \<Rightarrow> (addr \<times> delegates) result" where
  "il2c_new_delegate d pNew delegateType object method =
     il2c_assert (delegateType \<noteq> NULL)
     (il2c_assert (method \<noteq> NULL)
     (let dlg = allocate_delegate delegateType 1 in
      bind_result (array_write (methodtbl dlg) 0 \<lparr>target = object, methodPtr = method\<rparr>)
        (\<lambda>tbl. Inr (pNew, d(pNew \<mapsto> dlg\<lparr>methodtbl := tbl, count := 1, initialized := True\<rparr>)))))"

text \<open>Both branches of \<open>Combine\<close> that return an argument check it first.\<close>

definition checked_delegate :: "delegates \<Rightarrow> addr \<Rightarrow> delegate result" where
  "checked_delegate d p = bind_result (get_delegate d p) (\<lambda>x. il2c_assert (1 \<le> count x) (Inr x))"

definition System_Delegate_Combine ::
  "delegates \<Rightarrow> addr \<Rightarrow> addr \<Rightarrow> addr \<Rightarrow> (addr \<times> delegates) result" where
  "System_Delegate_Combine d pNew a b =
     (if a = NULL then
        (if b = NULL then Inr (NULL, d)
         else bind_result (checked_delegate d b) (\<lambda>_. Inr (b, d)))
      else if b = NULL then bind_result (checked_delegate d a) (\<lambda>_. Inr (a, d))
      else
        bind_result (checked_delegate d a) (\<lambda>da.
        bind_result (checked_delegate d b) (\<lambda>db.
        il2c_assert (delegate_type da = delegate_type db)
        (let cnt = count da + count db;
             dlg = allocate_delegate (delegate_type da) cnt in
         bind_result (array_copy (methodtbl dlg) 0 (methodtbl da) 0 (count da)) (\<lambda>t1.
         bind_result (array_copy t1 (count da) (methodtbl db) 0 (count db)) (\<lambda>t2.
         Inr (pNew, d(pNew \<mapsto> dlg\<lparr>methodtbl := t2, count := cnt, initialized := True\<rparr>))))))))"

text \<open>
  \<open>memcmp\<close> of \<open>n\<close> table entries (an entry is two words, without padding), and the
  loop of \<open>Remove\<close> from the last possible index down to 0.
\<close>

definition methods_equal :: "method_table list \<Rightarrow> method_table list \<Rightarrow> nat \<Rightarrow> nat \<Rightarrow> bool result" where
  "methods_equal v s index n =
     (if n \<le> length v \<and> index + n \<le> length s
      then Inr (take n v = take n (drop index s)) else Inl BadAccess)"

fun remove_search :: "method_table list \<Rightarrow> method_table list \<Rightarrow> nat \<Rightarrow> nat \<Rightarrow> nat option result" where
  "remove_search v s n index =
     bind_result (methods_equal v s index n) (\<lambda>eq.
       if eq then Inr (Some index)
       else (case index of 0 \<Rightarrow> Inr None | Suc i \<Rightarrow> remove_search v s n i))"

declare remove_search.simps [simp del]

text \<open>The new table of \<open>Remove\<close>: the entries before and after the match.\<close>

definition delegate_without ::
  "delegates \<Rightarrow> addr \<Rightarrow> delegate \<Rightarrow> nat \<Rightarrow> nat \<Rightarrow> (addr \<times> delegates) result" where
  "delegate_without d pNew ds n index =
     (let cnt = count ds - n;
          dlg = allocate_delegate (delegate_type ds) cnt in
      bind_result (array_copy (methodtbl dlg) 0 (methodtbl ds) 0 index) (\<lambda>t1.
      bind_result (array_copy t1 index (methodtbl ds) (index + n) (cnt - index)) (\<lambda>t2.
      Inr (pNew, d(pNew \<mapsto> dlg\<lparr>methodtbl := t2, count := cnt, initialized := True\<rparr>)))))"

definition System_Delegate_Remove ::
  "delegates \<Rightarrow> addr \<Rightarrow> addr \<Rightarrow> addr \<Rightarrow> (addr \<times> delegates) result" where
  "System_Delegate_Remove d pNew source v =
     (if source = NULL then Inr (NULL, d)
      else bind_result (checked_delegate d source) (\<lambda>ds.
        if v = NULL then Inr (source, d)
        else bind_result (checked_delegate d v) (\<lambda>dv.
          il2c_assert (delegate_type ds = delegate_type dv)
          (if count ds < count dv then Inr (source, d)
           else bind_result
             (remove_search (methodtbl dv) (methodtbl ds) (count dv) (count ds - count dv)) (\<lambda>found.
             case found of
               None \<Rightarrow> Inr (source, d)
             | Some index \<Rightarrow>
                 if count ds \<le> count dv then Inr (NULL, d)
                 else delegate_without d pNew ds (count dv) index)))))"

text \<open>
  \<open>Equals\<close>: same object, or same entries.  \<open>isDelegate\<close> is the outcome of
  \<open>il2c_isinst(obj, System_Delegate)\<close>, which \<open>Runtime_Type\<close> models.
\<close>

definition System_Delegate_Equals :: "delegates \<Rightarrow> (addr \<Rightarrow> bool) \<Rightarrow> addr \<Rightarrow> addr \<Rightarrow> bool result" where
  "System_Delegate_Equals d isDelegate this obj =
     bind_result (checked_delegate d this) (\<lambda>dt.
       if this = obj then Inr True
       else if obj = NULL \<or> \<not> isDelegate obj then Inr False
       else bind_result (checked_delegate d obj) (\<lambda>rhs.
         if count dt \<noteq> count rhs then Inr False
         else methods_equal (methodtbl dt) (methodtbl rhs) 0 (count dt)))"

definition System_Delegate_GetHashCode :: "delegates \<Rightarrow> addr \<Rightarrow> addr result" where
  "System_Delegate_GetHashCode d this =
     bind_result (checked_delegate d this) (\<lambda>dt. Inr (delegate_type dt))"

text \<open>
  Invocation: the body of \<open>System_UnhandledExceptionEventHandler_Invoke\<close> and of the
  thread-start delegates is the same \<open>do ... while\<close> over the table.  The calls it
  makes, in order, are the result; a call with a null target passes no receiver.
\<close>

fun invoke_from :: "method_table list \<Rightarrow> nat \<Rightarrow> nat \<Rightarrow> (addr option \<times> addr) list result" where
  "invoke_from tbl index 0 = Inr []"
| "invoke_from tbl index (Suc n) =
     bind_result (array_read tbl index) (\<lambda>m.
     bind_result (invoke_from tbl (Suc index) n) (\<lambda>cs.
       Inr ((if target m \<noteq> NULL then Some (target m) else None, methodPtr m) # cs)))"

definition System_UnhandledExceptionEventHandler_Invoke ::
  "delegates \<Rightarrow> addr \<Rightarrow> (addr option \<times> addr) list result" where
  "System_UnhandledExceptionEventHandler_Invoke d this =
     il2c_assert (this \<noteq> NULL)
     (bind_result (checked_delegate d this) (\<lambda>dt. invoke_from (methodtbl dt) 0 (count dt)))"

section \<open>Well-formed stores and the invocation list\<close>

definition delegate_ok :: "delegate \<Rightarrow> bool" where
  "delegate_ok x \<longleftrightarrow> 1 \<le> count x \<and> length (methodtbl x) = count x \<and> initialized x"

definition delegates_ok :: "delegates \<Rightarrow> bool" where
  "delegates_ok d \<longleftrightarrow> d NULL = None \<and> (\<forall>p x. d p = Some x \<longrightarrow> delegate_ok x)"

definition is_delegate :: "delegates \<Rightarrow> addr \<Rightarrow> bool" where
  "is_delegate d p \<longleftrightarrow> p = NULL \<or> d p \<noteq> None"

definition invocation_list :: "delegates \<Rightarrow> addr \<Rightarrow> method_table list" where
  "invocation_list d p = (case d p of None \<Rightarrow> [] | Some x \<Rightarrow> methodtbl x)"

definition same_delegate_type :: "delegates \<Rightarrow> addr \<Rightarrow> addr \<Rightarrow> bool" where
  "same_delegate_type d a b \<longleftrightarrow>
     (\<forall>x y. d a = Some x \<longrightarrow> d b = Some y \<longrightarrow> delegate_type x = delegate_type y)"

text \<open>The specification of removal: cut out the last occurrence of the sublist.\<close>

definition occurs_at :: "'a list \<Rightarrow> 'a list \<Rightarrow> nat \<Rightarrow> bool" where
  "occurs_at v s i \<longleftrightarrow> i + length v \<le> length s \<and> take (length v) (drop i s) = v"

definition remove_last :: "'a list \<Rightarrow> 'a list \<Rightarrow> 'a list" where
  "remove_last s v =
     (if \<exists>i. occurs_at v s i
      then (let i = Max {i. occurs_at v s i} in take i s @ drop (i + length v) s)
      else s)"

lemmas delegate_defs [runtime_defs] =
  System_Delegate_Combine_def System_Delegate_Remove_def checked_delegate_def
  get_delegate_def allocate_delegate_def invocation_list_def is_delegate_def
  same_delegate_type_def

lemma delegates_okD:
  assumes "delegates_ok d" and "d p = Some x"
  shows "1 \<le> count x" and "length (methodtbl x) = count x" and "p \<noteq> NULL"
  using assms unfolding delegates_ok_def delegate_ok_def by (metis, metis, metis option.distinct(1))

lemma checked_delegate_ok:
  "delegates_ok d \<Longrightarrow> d p = Some x \<Longrightarrow> checked_delegate d p = Inr x"
  using delegates_okD [of d p x] by (simp add: checked_delegate_def get_delegate_def)

lemma invocation_list_NULL [simp]: "delegates_ok d \<Longrightarrow> invocation_list d NULL = []"
  by (simp add: delegates_ok_def invocation_list_def)

lemma delegates_ok_update:
  "delegates_ok d \<Longrightarrow> pNew \<noteq> NULL \<Longrightarrow> delegate_ok x \<Longrightarrow> delegates_ok (d(pNew \<mapsto> x))"
  by (auto simp: delegates_ok_def)

lemma finite_occurs_at: "finite {i. occurs_at v s i}"
  by (rule finite_subset [of _ "{..length s}"]) (auto simp: occurs_at_def)

lemma remove_last_at:
  assumes "occurs_at v s i" and "\<And>j. occurs_at v s j \<Longrightarrow> j \<le> i"
  shows "remove_last s v = take i s @ drop (i + length v) s"
proof -
  have "Max {i. occurs_at v s i} = i"
    using assms by (intro Max_eqI finite_occurs_at) auto
  with assms(1) show ?thesis by (auto simp: remove_last_def)
qed

lemma remove_last_append: "remove_last (xs @ ys) ys = xs"
  by (subst remove_last_at [of _ _ "length xs"]) (auto simp: occurs_at_def)

lemma remove_last_length:
  "remove_last s v = s \<or> length (remove_last s v) + length v = length s"
proof (cases "\<exists>i. occurs_at v s i")
  case True
  then have "occurs_at v s (Max {i. occurs_at v s i})"
    using Max_in [OF finite_occurs_at, of v s] by auto
  then show ?thesis by (auto simp: remove_last_def Let_def occurs_at_def)
next
  case False
  then show ?thesis by (simp add: remove_last_def)
qed

section \<open>Combine, Remove and Invoke against their specifications\<close>

lemma get_valid:
  assumes "delegates_ok d" and "is_delegate d p" and "p \<noteq> NULL"
  obtains x where "d p = Some x" and "checked_delegate d p = Inr x" and "methodtbl x \<noteq> []"
    and "invocation_list d p = methodtbl x" and "length (methodtbl x) = count x"
proof -
  from assms obtain x where x: "d p = Some x" by (auto simp: is_delegate_def)
  note ok = delegates_okD [OF assms(1) x]
  from x ok show thesis
    by (intro that [of x]) (auto simp: checked_delegate_ok [OF assms(1)] invocation_list_def)
qed

lemma combine_spec:
  assumes ok: "delegates_ok d" and new: "pNew \<noteq> NULL" "d pNew = None"
    and a: "is_delegate d a" and b: "is_delegate d b" and ty: "same_delegate_type d a b"
  obtains r d' where "System_Delegate_Combine d pNew a b = Inr (r, d')"
    and "delegates_ok d'" and "is_delegate d' r"
    and "invocation_list d' r = invocation_list d a @ invocation_list d b"
    and "\<And>q. q \<noteq> pNew \<Longrightarrow> d' q = d q"
    and "b \<noteq> NULL \<Longrightarrow> same_delegate_type d' r b"
proof (cases "a = NULL \<or> b = NULL")
  case True
  with ok a b show thesis
    by (intro that [of "if a = NULL then b else a" d])
       (auto simp: System_Delegate_Combine_def is_delegate_def checked_delegate_ok
          same_delegate_type_def)
next
  case False
  obtain da where da: "d a = Some da" "checked_delegate d a = Inr da" "methodtbl da \<noteq> []"
      "invocation_list d a = methodtbl da" "length (methodtbl da) = count da"
    using False a by (auto elim: get_valid [OF ok])
  obtain db where db: "d b = Some db" "checked_delegate d b = Inr db" "methodtbl db \<noteq> []"
      "invocation_list d b = methodtbl db" "length (methodtbl db) = count db"
    using False b by (auto elim: get_valid [OF ok])
  let ?x = "\<lparr>delegate_type = delegate_type da, count = count da + count db,
              methodtbl = methodtbl da @ methodtbl db, initialized = True\<rparr>"
  have "System_Delegate_Combine d pNew a b = Inr (pNew, d(pNew \<mapsto> ?x))"
    using False da db ty
    by (simp add: System_Delegate_Combine_def same_delegate_type_def array_copy_def
        allocate_delegate_def Let_def)
  moreover have "delegate_ok ?x"
    using da db by (auto simp: delegate_ok_def Suc_le_eq)
  moreover have "pNew \<noteq> b"
    using new db by auto
  ultimately show thesis
    using da db ok new ty False
    by (intro that [of pNew "d(pNew \<mapsto> ?x)"])
       (auto simp: delegates_ok_update is_delegate_def invocation_list_def same_delegate_type_def)
qed

lemma remove_search_spec:
  assumes "index + length v \<le> length s"
  shows "\<exists>r. remove_search v s (length v) index = Inr r \<and>
     (case r of None \<Rightarrow> \<forall>i \<le> index. \<not> occurs_at v s i
      | Some i \<Rightarrow> i \<le> index \<and> occurs_at v s i \<and> (\<forall>j. i < j \<longrightarrow> j \<le> index \<longrightarrow> \<not> occurs_at v s j))"
  using assms
proof (induction index)
  case 0
  then show ?case
    by (subst remove_search.simps) (auto simp: methods_equal_def occurs_at_def)
next
  case (Suc k)
  then obtain r where r: "remove_search v s (length v) k = Inr r"
    "case r of None \<Rightarrow> \<forall>i \<le> k. \<not> occurs_at v s i
      | Some i \<Rightarrow> i \<le> k \<and> occurs_at v s i \<and> (\<forall>j. i < j \<longrightarrow> j \<le> k \<longrightarrow> \<not> occurs_at v s j)"
    by auto
  have step: "remove_search v s (length v) (Suc k) =
      (if occurs_at v s (Suc k) then Inr (Some (Suc k)) else Inr r)"
    using Suc.prems
    by (subst remove_search.simps) (auto simp: methods_equal_def occurs_at_def r)
  show ?case
    using r by (cases "occurs_at v s (Suc k)") (auto simp: step le_Suc_eq split: option.splits)
qed

lemma delegate_without_spec:
  assumes "length (methodtbl ds) = count ds" and "index + n \<le> count ds" and "n < count ds"
  shows "delegate_without d pNew ds n index =
    Inr (pNew, d(pNew \<mapsto> \<lparr>delegate_type = delegate_type ds, count = count ds - n,
      methodtbl = take index (methodtbl ds) @ drop (index + n) (methodtbl ds),
      initialized = True\<rparr>))"
  using assms
  by (auto simp: delegate_without_def Let_def array_copy_def allocate_delegate_def
      min_def)

lemma remove_last_found:
  assumes "remove_search v s (length v) (length s - length v) = Inr (Some i)"
    and "length v \<le> length s"
  shows "remove_last s v = take i s @ drop (i + length v) s" and "i + length v \<le> length s"
proof -
  obtain r where "remove_search v s (length v) (length s - length v) = Inr r"
    and *: "case r of None \<Rightarrow> \<forall>i \<le> length s - length v. \<not> occurs_at v s i
      | Some i \<Rightarrow> i \<le> length s - length v \<and> occurs_at v s i \<and>
         (\<forall>j. i < j \<longrightarrow> j \<le> length s - length v \<longrightarrow> \<not> occurs_at v s j)"
    using remove_search_spec [of "length s - length v" v s] assms(2) by auto
  with assms have i: "i \<le> length s - length v" "occurs_at v s i"
    "\<And>j. i < j \<Longrightarrow> j \<le> length s - length v \<Longrightarrow> \<not> occurs_at v s j" by auto
  then show "i + length v \<le> length s"
    by (auto simp: occurs_at_def)
  show "remove_last s v = take i s @ drop (i + length v) s"
  proof (rule remove_last_at [OF i(2)])
    fix j assume "occurs_at v s j"
    moreover from this have "j \<le> length s - length v" by (auto simp: occurs_at_def)
    ultimately show "j \<le> i" using i(3) [of j] by force
  qed
qed

lemma remove_last_not_found:
  assumes "remove_search v s (length v) (length s - length v) = Inr None"
    and "length v \<le> length s"
  shows "remove_last s v = s"
proof -
  obtain r where "remove_search v s (length v) (length s - length v) = Inr r"
    and "case r of None \<Rightarrow> \<forall>i \<le> length s - length v. \<not> occurs_at v s i | Some i \<Rightarrow> True"
    using remove_search_spec [of "length s - length v" v s] assms(2)
    by (auto split: option.splits)
  with assms have "\<And>i. i \<le> length s - length v \<Longrightarrow> \<not> occurs_at v s i" by auto
  then have "\<not> (\<exists>i. occurs_at v s i)"
    by (metis add_le_imp_le_diff occurs_at_def)
  then show ?thesis by (simp add: remove_last_def)
qed

lemma remove_spec:
  assumes ok: "delegates_ok d" and new: "pNew \<noteq> NULL" "d pNew = None"
    and sv: "is_delegate d source" "is_delegate d v" and ty: "same_delegate_type d source v"
  obtains r d' where "System_Delegate_Remove d pNew source v = Inr (r, d')"
    and "delegates_ok d'" and "is_delegate d' r"
    and "invocation_list d' r =
      (if v = NULL then invocation_list d source
       else remove_last (invocation_list d source) (invocation_list d v))"
    and "\<And>q. q \<noteq> pNew \<Longrightarrow> d' q = d q"
proof (cases "source = NULL \<or> v = NULL")
  case True
  have "remove_last [] xs = []" for xs :: "method_table list"
    by (auto simp: remove_last_def)
  with True show thesis
    using ok sv
    by (intro that [of "if source = NULL then NULL else source" d])
       (auto simp: System_Delegate_Remove_def is_delegate_def checked_delegate_ok)
next
  case False
  obtain ds where ds: "d source = Some ds" "checked_delegate d source = Inr ds"
      "invocation_list d source = methodtbl ds" "length (methodtbl ds) = count ds"
    using False sv by (auto elim: get_valid [OF ok])
  obtain dv where dv: "d v = Some dv" "checked_delegate d v = Inr dv" "methodtbl dv \<noteq> []"
      "invocation_list d v = methodtbl dv" "length (methodtbl dv) = count dv"
    using False sv by (auto elim: get_valid [OF ok])
  note result = that
  have unchanged: thesis
    if "System_Delegate_Remove d pNew source v = Inr (source, d)"
      and "remove_last (methodtbl ds) (methodtbl dv) = methodtbl ds"
    using that False ds dv ok sv by (intro result [of source d]) auto
  have short: "\<not> occurs_at (methodtbl dv) (methodtbl ds) i" if "count ds < count dv" for i
    using that ds dv by (auto simp: occurs_at_def)
  have go: "System_Delegate_Remove d pNew source v =
      (if count ds < count dv then Inr (source, d)
       else bind_result
         (remove_search (methodtbl dv) (methodtbl ds) (count dv) (count ds - count dv)) (\<lambda>found.
         case found of
           None \<Rightarrow> Inr (source, d)
         | Some index \<Rightarrow> if count ds \<le> count dv then Inr (NULL, d)
                        else delegate_without d pNew ds (count dv) index))"
    using False ds dv ty by (simp add: System_Delegate_Remove_def same_delegate_type_def)
  show thesis
  proof (cases "count ds < count dv")
    case True
    with short go show ?thesis by (intro unchanged) (auto simp: remove_last_def)
  next
    case le: False
    obtain found where found:
      "remove_search (methodtbl dv) (methodtbl ds) (count dv) (count ds - count dv) = Inr found"
      using remove_search_spec [of "count ds - count dv" "methodtbl dv" "methodtbl ds"] ds dv le
      by auto
    show ?thesis
    proof (cases found)
      case None
      with found go le ds dv show ?thesis
        by (intro unchanged) (auto intro: remove_last_not_found)
    next
      case (Some i)
      note cut = remove_last_found [of "methodtbl dv" "methodtbl ds" i]
      have i: "remove_last (methodtbl ds) (methodtbl dv) =
          take i (methodtbl ds) @ drop (i + count dv) (methodtbl ds)" "i + count dv \<le> count ds"
        using cut found Some ds dv le by auto
      show ?thesis
      proof (cases "count ds = count dv")
        case True
        with found Some go ds dv False i ok show ?thesis
          by (intro that [of NULL d]) (auto simp: is_delegate_def)
      next
        case less: False
        let ?x = "\<lparr>delegate_type = delegate_type ds, count = count ds - count dv,
          methodtbl = take i (methodtbl ds) @ drop (i + count dv) (methodtbl ds),
          initialized = True\<rparr>"
        have "System_Delegate_Remove d pNew source v = Inr (pNew, d(pNew \<mapsto> ?x))"
          using go found Some le less ds i by (simp add: delegate_without_spec)
        moreover have "delegate_ok ?x"
          using le less ds i by (auto simp: delegate_ok_def)
        ultimately show ?thesis
          using False ds dv ok new i
          by (intro that [of pNew "d(pNew \<mapsto> ?x)"])
             (auto simp: delegates_ok_update is_delegate_def invocation_list_def)
      qed
    qed
  qed
qed

text \<open>The calls an invocation makes.\<close>

definition calls_of :: "method_table list \<Rightarrow> (addr option \<times> addr) list" where
  "calls_of = map (\<lambda>m. (if target m \<noteq> NULL then Some (target m) else None, methodPtr m))"

lemma invoke_from_spec:
  "index + n = length tbl \<Longrightarrow> invoke_from tbl index n = Inr (calls_of (drop index tbl))"
  by (induction tbl index n rule: invoke_from.induct)
     (auto simp: calls_of_def Cons_nth_drop_Suc [symmetric])

lemma invoke_spec:
  "delegates_ok d \<Longrightarrow> d p = Some x \<Longrightarrow>
   System_UnhandledExceptionEventHandler_Invoke d p = Inr (calls_of (invocation_list d p))"
  using delegates_okD [of d p x]
  by (simp add: System_UnhandledExceptionEventHandler_Invoke_def checked_delegate_ok
      invoke_from_spec invocation_list_def)

section \<open>The interface of a multicast handler\<close>

text \<open>
  What a component that keeps a multicast handler relies on: \<open>combine\<close> appends the
  handlers of its second argument, \<open>remove\<close> cuts their last occurrence, and neither
  disturbs a handler that exists already.
\<close>

locale multicast =
  fixes ok :: "'s \<Rightarrow> bool"
    and valid :: "'s \<Rightarrow> addr \<Rightarrow> bool"
    and fresh :: "'s \<Rightarrow> addr \<Rightarrow> bool"
    and compatible :: "'s \<Rightarrow> addr \<Rightarrow> addr \<Rightarrow> bool"
    and combine :: "'s \<Rightarrow> addr \<Rightarrow> addr \<Rightarrow> addr \<Rightarrow> (addr \<times> 's) result"
    and remove :: "'s \<Rightarrow> addr \<Rightarrow> addr \<Rightarrow> addr \<Rightarrow> (addr \<times> 's) result"
    and handlers :: "'s \<Rightarrow> addr \<Rightarrow> 'm list"
  assumes combine_law: "ok s \<Longrightarrow> fresh s p \<Longrightarrow> valid s a \<Longrightarrow> valid s b \<Longrightarrow> compatible s a b \<Longrightarrow>
      \<exists>r s'. combine s p a b = Inr (r, s') \<and> ok s' \<and> valid s' r \<and> compatible s' r b \<and>
        handlers s' r = handlers s a @ handlers s b \<and>
        (\<forall>q. valid s q \<longrightarrow> valid s' q \<and> handlers s' q = handlers s q)"
    and remove_law: "ok s \<Longrightarrow> fresh s p \<Longrightarrow> valid s a \<Longrightarrow> valid s b \<Longrightarrow> compatible s a b \<Longrightarrow>
      \<exists>r s'. remove s p a b = Inr (r, s') \<and> ok s' \<and> valid s' r \<and>
        handlers s' r = remove_last (handlers s a) (handlers s b) \<and>
        (\<forall>q. valid s q \<longrightarrow> valid s' q \<and> handlers s' q = handlers s q)"
begin

text \<open>Subscribing and unsubscribing the same handler restores the handlers.\<close>

lemma remove_after_combine:
  assumes "ok s" and "fresh s p" and "valid s a" and "valid s b" and "compatible s a b"
    and "combine s p a b = Inr (r, s1)" and "fresh s1 p1"
  shows "\<exists>r2 s2. remove s1 p1 r b = Inr (r2, s2) \<and> ok s2 \<and> valid s2 r2 \<and>
           handlers s2 r2 = handlers s a"
proof -
  from combine_law [OF assms(1-5)] assms(4,6)
  have s1: "ok s1" "valid s1 r" "compatible s1 r b" "valid s1 b"
    "handlers s1 r = handlers s a @ handlers s1 b" by auto
  from remove_law [OF s1(1) assms(7) s1(2,4,3)] show ?thesis
    by (auto simp: s1(5) remove_last_append)
qed

end

lemma remove_last_Nil: "remove_last xs [] = xs"
  by (subst remove_last_at [of _ _ "length xs"]) (auto simp: occurs_at_def)

lemma delegates_frame:
  assumes "delegates_ok s" "p \<noteq> NULL" "s p = None" "\<And>q. q \<noteq> p \<Longrightarrow> d' q = s q"
  shows "\<forall>q. is_delegate s q \<longrightarrow>
    is_delegate d' q \<and> invocation_list d' q = invocation_list s q"
proof (intro allI impI)
  fix q assume "is_delegate s q"
  with assms(2,3) have "q \<noteq> p" by (auto simp: is_delegate_def)
  with assms(4) have "d' q = s q" by blast
  with \<open>is_delegate s q\<close>
  show "is_delegate d' q \<and> invocation_list d' q = invocation_list s q"
    by (simp add: is_delegate_def invocation_list_def)
qed

interpretation dlg: multicast delegates_ok is_delegate "\<lambda>d p. p \<noteq> NULL \<and> d p = None"
  same_delegate_type System_Delegate_Combine System_Delegate_Remove invocation_list
proof unfold_locales
  fix s p a b
  assume asm: "delegates_ok s" "p \<noteq> NULL \<and> s p = None" "is_delegate s a" "is_delegate s b"
    "same_delegate_type s a b"
  obtain r d' where c: "System_Delegate_Combine s p a b = Inr (r, d')" "delegates_ok d'"
    "is_delegate d' r" "invocation_list d' r = invocation_list s a @ invocation_list s b"
    "\<And>q. q \<noteq> p \<Longrightarrow> d' q = s q" "b \<noteq> NULL \<Longrightarrow> same_delegate_type d' r b"
    using combine_spec [of s p a b] asm by metis
  have "d' NULL = None" using c(2) by (simp add: delegates_ok_def)
  then have "same_delegate_type d' r b"
    by (cases "b = NULL") (simp add: same_delegate_type_def, rule c(6))
  moreover have "\<forall>q. is_delegate s q \<longrightarrow>
      is_delegate d' q \<and> invocation_list d' q = invocation_list s q"
    by (rule delegates_frame) (use asm c in auto)
  ultimately show "\<exists>r s'. System_Delegate_Combine s p a b = Inr (r, s') \<and> delegates_ok s' \<and>
      is_delegate s' r \<and> same_delegate_type s' r b \<and>
      invocation_list s' r = invocation_list s a @ invocation_list s b \<and>
      (\<forall>q. is_delegate s q \<longrightarrow> is_delegate s' q \<and> invocation_list s' q = invocation_list s q)"
    using c by blast
next
  fix s p a b
  assume asm: "delegates_ok s" "p \<noteq> NULL \<and> s p = None" "is_delegate s a" "is_delegate s b"
    "same_delegate_type s a b"
  obtain r d' where c: "System_Delegate_Remove s p a b = Inr (r, d')" "delegates_ok d'"
    "is_delegate d' r" "invocation_list d' r = (if b = NULL then invocation_list s a
       else remove_last (invocation_list s a) (invocation_list s b))"
    "\<And>q. q \<noteq> p \<Longrightarrow> d' q = s q"
    using remove_spec [of s p a b] asm by metis
  have "\<forall>q. is_delegate s q \<longrightarrow>
      is_delegate d' q \<and> invocation_list d' q = invocation_list s q"
    by (rule delegates_frame) (use asm c in auto)
  then show "\<exists>r s'. System_Delegate_Remove s p a b = Inr (r, s') \<and> delegates_ok s' \<and>
      is_delegate s' r \<and>
      invocation_list s' r = remove_last (invocation_list s a) (invocation_list s b) \<and>
      (\<forall>q. is_delegate s q \<longrightarrow> is_delegate s' q \<and> invocation_list s' q = invocation_list s q)"
    using c asm(1) by (cases "b = NULL") (auto simp: remove_last_Nil)
qed

end
