(* ===== verification/Machine.thy ===== *)
theory Machine
  imports Delegates
begin

text \<open>
  The runtime's memory as the collector and the object operations see it
  (src/il2c_private.h, include/il2c.h, globals of src/Core/*.c): runtime type
  information, object headers, virtual-table pointers, reference-sized memory cells,
  thread contexts with their execution frames, and the global roots.

  Addresses are real: an object at address \<open>a\<close> has its header at
  \<open>a - sizeof(IL2C_REF_HEADER)\<close>, and the headers are linked by their \<open>pNext\<close>
  pointers, as the sweep needs them.  The chains of root blocks, static fields and
  execution frames, which the code only pushes at the head, pops at the head or walks,
  are lists (head first).
\<close>

section \<open>Runtime type information\<close>

record vtable =
  adjustor_offset :: nat   \<comment> \<open>\<open>offset__\<close>, the first word of every vtable\<close>
  Finalize :: addr         \<comment> \<open>the finalizer's code pointer\<close>

text \<open>Code pointer of the empty base finalizer.\<close>

definition System_Object_Finalize :: addr where "System_Object_Finalize = 1"

datatype mark_handler = ArrayMarkHandler | DelegateMarkHandler | ThreadMarkHandler

text \<open>
  \<open>IL2C_RUNTIME_TYPE_DECL\<close> with the arrays behind it.  Types are constant data and are
  compared by address.  A mark target is a value type with the offset of the embedded
  value, or (\<open>None\<close>) the offset of an object reference; a type has either mark targets
  or a custom handler.  An interface entry holds the interface's vtable in this type.
\<close>

datatype runtime_type = RuntimeType
  (type_addr: addr) (type_name: string) (flags: u64) (bodySize: nat)
  (baseType: "runtime_type option") (vptr0: "vtable option")
  (markHandler: "mark_handler option") (markTargets: "(runtime_type option \<times> nat) list")
  (interfaces: "(runtime_type \<times> vtable) list")

definition IL2C_TYPE_VALUE :: u64 where "IL2C_TYPE_VALUE = 0x01"
definition IL2C_TYPE_INTEGER :: u64 where "IL2C_TYPE_INTEGER = 0x02 OR IL2C_TYPE_VALUE"
definition IL2C_TYPE_WITH_MARK_HANDLER :: u64 where "IL2C_TYPE_WITH_MARK_HANDLER = 0x04"
definition IL2C_TYPE_VARIABLE :: u64 where "IL2C_TYPE_VARIABLE = 0x08"
definition IL2C_TYPE_UNSIGNED_INTEGER :: u64 where
  "IL2C_TYPE_UNSIGNED_INTEGER = 0x10 OR IL2C_TYPE_INTEGER"
definition IL2C_TYPE_STATIC :: u64 where "IL2C_TYPE_STATIC = 0x20"
definition IL2C_TYPE_INTERFACE :: u64 where "IL2C_TYPE_INTERFACE = 0x40"

definition sizeof_REF_HEADER :: nat where "sizeof_REF_HEADER = 24"
definition sizeof_ValueType :: nat where "sizeof_ValueType = 8"
definition sizeof_Array :: nat where "sizeof_Array = 24"
definition sizeof_pointer :: nat where "sizeof_pointer = 8"

section \<open>Object headers\<close>

record ref_header =
  pNext :: addr
  htype :: runtime_type
  characteristic :: u64

definition IL2C_CHARACTERISTIC_ACQUIRED_MONITOR_LOCK :: u64 where
  "IL2C_CHARACTERISTIC_ACQUIRED_MONITOR_LOCK = 0x08000000"
definition IL2C_CHARACTERISTIC_FINALIZER_CALLED :: u64 where
  "IL2C_CHARACTERISTIC_FINALIZER_CALLED = 0x10000000"
definition IL2C_CHARACTERISTIC_MARK_INDEX :: u64 where
  "IL2C_CHARACTERISTIC_MARK_INDEX = 0x20000000"
definition IL2C_CHARACTERISTIC_INITIALIZED :: u64 where
  "IL2C_CHARACTERISTIC_INITIALIZED = 0x40000000"
definition IL2C_CHARACTERISTIC_CONST :: u64 where
  "IL2C_CHARACTERISTIC_CONST = 0x80000000"

section \<open>Execution frames, threads, roots, monitor locks\<close>

text \<open>A tracking block: the references it holds and descriptors of values kept elsewhere.\<close>

record tracking_information =
  frame_addr :: addr
  pReferences :: "addr list"                       \<comment> \<open>\<open>objRefCount__\<close> slots\<close>
  valueDescriptors :: "(runtime_type option \<times> addr) list" \<comment> \<open>\<open>type_value\<close>, \<open>ptr_value\<close>\<close>

text \<open>A recursive mutex: initialized or not, the thread that holds it, how often.\<close>

record monitor_lock =
  lock_alive :: bool
  owner :: "int option"
  held :: nat

record thread_body =
  start :: addr
  parameter :: addr
  frames :: "tracking_information list"   \<comment> \<open>\<open>context.pFrame\<close> and its chain\<close>
  rawHandle :: int
  pTemporaryReferenceAnchor :: addr
  lockForCollect :: monitor_lock
  thread_id :: int

text \<open>What the objects with a custom mark handler hold; all others are plain.\<close>

datatype object_body =
    PlainBody
  | ArrayBody runtime_type nat     \<comment> \<open>\<open>elementType__\<close>, \<open>Length\<close>\<close>
  | DelegateBody delegate
  | ThreadBody thread_body

record root_references =
  root_slots :: "addr list"        \<comment> \<open>3 slots\<close>

record monitor_lock_block =
  lock_refs :: "addr list"         \<comment> \<open>\<open>pReferences[4]\<close>\<close>
  locks :: "monitor_lock list"     \<comment> \<open>\<open>locks[4]\<close>\<close>

text \<open>A bucket: the lock of the list and its blocks, \<open>block0\<close> first.\<close>

record monitor_lock_block_information =
  blockLock :: monitor_lock
  blocks :: "monitor_lock_block list"

record machine =
  headers :: "addr \<rightharpoonup> ref_header"
  vptrs :: "addr \<rightharpoonup> vtable"        \<comment> \<open>the vtable a pointer-sized cell points to\<close>
  cells :: "addr \<Rightarrow> addr"             \<comment> \<open>reference-sized memory\<close>
  bodies :: "addr \<Rightarrow> object_body"
  g_pBeginHeader :: addr
  g_pRootReferences :: "root_references list"
  g_pFixedReferences :: "root_references list"
  g_pBeginStaticFields :: "tracking_information list"
  g_CollectionMarkIndex :: u64
  g_ExecutingCollection :: nat
  g_PendingRemains :: u32
  g_GlobalLockForCollect :: monitor_lock
  g_MonitorLockBlockInformations :: "monitor_lock_block_information option list"

section \<open>Access\<close>

definition il2c_get_header :: "addr \<Rightarrow> addr" where
  "il2c_get_header pReference = pReference - sizeof_REF_HEADER"

text \<open>The object behind a header (\<open>pHeader + 1\<close>).\<close>

definition object_of :: "addr \<Rightarrow> addr" where
  "object_of pHeader = pHeader + sizeof_REF_HEADER"

definition get_header :: "machine \<Rightarrow> addr \<Rightarrow> ref_header result" where
  "get_header m a = (case headers m (il2c_get_header a) of None \<Rightarrow> Inl BadAccess | Some h \<Rightarrow> Inr h)"

text \<open>
  \<open>il2c_adjusted_reference\<close>: a reference may point to an interface's vptr slot inside
  the object; the first word of the vtable found there is the distance to the object.
\<close>

definition il2c_adjusted_reference :: "machine \<Rightarrow> addr \<Rightarrow> addr result" where
  "il2c_adjusted_reference m pRawReference =
     (case vptrs m pRawReference of
        None \<Rightarrow> Inl BadAccess
      | Some vt \<Rightarrow> Inr (pRawReference - adjustor_offset vt))"

definition set_characteristic :: "machine \<Rightarrow> addr \<Rightarrow> u64 \<Rightarrow> machine" where
  "set_characteristic m pHeader c =
     m\<lparr>headers := (headers m)(pHeader := map_option (\<lambda>h. h\<lparr>characteristic := c\<rparr>) (headers m pHeader))\<rparr>"

lemma get_header_object_of [simp]: "il2c_get_header (object_of h) = h"
  by (simp add: il2c_get_header_def object_of_def)

lemma object_of_inject [simp]: "object_of h = object_of k \<longleftrightarrow> h = k"
  by (simp add: object_of_def)

section \<open>Bits of the characteristic\<close>

text \<open>Each flag is one bit; the mask tests of the code are tests of bits.\<close>

lemma flag_powers:
  "IL2C_CHARACTERISTIC_ACQUIRED_MONITOR_LOCK = 2 ^ 27"
  "IL2C_CHARACTERISTIC_FINALIZER_CALLED = 2 ^ 28"
  "IL2C_CHARACTERISTIC_MARK_INDEX = 2 ^ 29"
  "IL2C_CHARACTERISTIC_INITIALIZED = 2 ^ 30"
  "IL2C_CHARACTERISTIC_CONST = 2 ^ 31"
  by (simp_all add: IL2C_CHARACTERISTIC_ACQUIRED_MONITOR_LOCK_def
      IL2C_CHARACTERISTIC_FINALIZER_CALLED_def IL2C_CHARACTERISTIC_MARK_INDEX_def
      IL2C_CHARACTERISTIC_INITIALIZED_def IL2C_CHARACTERISTIC_CONST_def)

lemma bit_flags [characteristic_simps]:
  "bit IL2C_CHARACTERISTIC_ACQUIRED_MONITOR_LOCK n \<longleftrightarrow> n = 27"
  "bit IL2C_CHARACTERISTIC_FINALIZER_CALLED n \<longleftrightarrow> n = 28"
  "bit IL2C_CHARACTERISTIC_MARK_INDEX n \<longleftrightarrow> n = 29"
  "bit IL2C_CHARACTERISTIC_INITIALIZED n \<longleftrightarrow> n = 30"
  "bit IL2C_CHARACTERISTIC_CONST n \<longleftrightarrow> n = 31"
  unfolding flag_powers bit_exp_iff by (auto simp: possible_bit_word)

lemma and_flag_zero_iff:
  "(c :: u64) AND IL2C_CHARACTERISTIC_ACQUIRED_MONITOR_LOCK = 0 \<longleftrightarrow> \<not> bit c 27"
  "c AND IL2C_CHARACTERISTIC_FINALIZER_CALLED = 0 \<longleftrightarrow> \<not> bit c 28"
  "c AND IL2C_CHARACTERISTIC_CONST = 0 \<longleftrightarrow> \<not> bit c 31"
  unfolding word_eq_iff_bits
  by (auto simp: bit_and_iff characteristic_simps
      dest: spec [of _ 27] spec [of _ 28] spec [of _ 31])

text \<open>The mark index is 0 or the mark bit.\<close>

definition mark_index_ok :: "u64 \<Rightarrow> bool" where
  "mark_index_ok idx \<longleftrightarrow> idx = 0 \<or> idx = IL2C_CHARACTERISTIC_MARK_INDEX"

lemma marked_iff:
  assumes "mark_index_ok idx"
  shows "(c :: u64) AND IL2C_CHARACTERISTIC_MARK_INDEX = idx \<longleftrightarrow> (bit c 29 \<longleftrightarrow> bit idx 29)"
  using assms unfolding mark_index_ok_def word_eq_iff_bits [of "c AND _"]
  by (auto simp: bit_and_iff characteristic_simps dest: spec [of _ 29])

text \<open>\<open>TRY_GET_HEADER\<close>: not constant and not marked in this collection.\<close>

lemma try_get_header_iff:
  assumes "mark_index_ok idx"
  shows "((c :: u64) AND (IL2C_CHARACTERISTIC_CONST OR IL2C_CHARACTERISTIC_MARK_INDEX))
           XOR IL2C_CHARACTERISTIC_MARK_INDEX = idx \<longleftrightarrow> \<not> bit c 31 \<and> bit c 29 \<noteq> bit idx 29"
  using assms unfolding mark_index_ok_def word_eq_iff_bits [of "(c AND _) XOR _"]
  by (auto simp: bit_and_iff bit_or_iff bit_xor_iff characteristic_simps
      dest: spec [of _ 29] spec [of _ 31])

text \<open>The test of the sweep: initialized and not marked in this collection.\<close>

lemma sweep_test_iff:
  assumes "mark_index_ok idx"
  shows "((c :: u64) AND (IL2C_CHARACTERISTIC_INITIALIZED OR IL2C_CHARACTERISTIC_MARK_INDEX))
           XOR (IL2C_CHARACTERISTIC_INITIALIZED OR IL2C_CHARACTERISTIC_MARK_INDEX) = idx \<longleftrightarrow>
         bit c 30 \<and> bit c 29 \<noteq> bit idx 29"
  using assms unfolding mark_index_ok_def word_eq_iff_bits [of "(c AND _) XOR _"]
  by (auto simp: bit_and_iff bit_or_iff bit_xor_iff characteristic_simps
      dest: spec [of _ 29] spec [of _ 30])

lemma mark_index_flip:
  "mark_index_ok idx \<Longrightarrow> mark_index_ok (idx XOR IL2C_CHARACTERISTIC_MARK_INDEX)"
  "bit (idx XOR IL2C_CHARACTERISTIC_MARK_INDEX) 29 \<longleftrightarrow> \<not> bit idx 29"
  by (auto simp: mark_index_ok_def bit_xor_iff characteristic_simps)

lemma xor_mark_bits [simp]:
  "bit ((c :: u64) XOR IL2C_CHARACTERISTIC_MARK_INDEX) n \<longleftrightarrow> (if n = 29 then \<not> bit c 29 else bit c n)"
  by (auto simp: bit_xor_iff characteristic_simps)

end
