(* ===== verification/Type_Cast.thy ===== *)
theory Type_Cast
  imports Machine
begin

text \<open>
  Run-time casts of src/Core/il2c.c: \<open>il2c_sizeof\<close>, \<open>il2c_isinst\<close>,
  \<open>il2c_castclass\<close> and \<open>il2c_unbox\<close>.  A class test follows the chain of base types;
  an interface test searches the interface tables along that chain and answers a pointer
  to the interface's vptr slot inside the object.
\<close>

section \<open>Operations\<close>

definition il2c_sizeof :: "runtime_type \<Rightarrow> nat" where
  "il2c_sizeof ty = (if flags ty AND IL2C_TYPE_VALUE \<noteq> 0 then bodySize ty else sizeof_pointer)"

text \<open>The search of one interface table; it answers the adjustor offset of the entry.\<close>

fun find_interface :: "(runtime_type \<times> vtable) list \<Rightarrow> addr \<Rightarrow> nat option result" where
  "find_interface [] t = Inr None"
| "find_interface ((i, v) # rest) t =
     il2c_assert (flags i AND IL2C_TYPE_INTERFACE = IL2C_TYPE_INTERFACE)
       (if type_addr i = t then Inr (Some (adjustor_offset v)) else find_interface rest t)"

fun isinst_interface :: "runtime_type \<Rightarrow> addr \<Rightarrow> nat option result" where
  "isinst_interface (RuntimeType a n f s base v h mt ifs) t =
     bind_result (find_interface ifs t) (\<lambda>r. case r of
       Some offset \<Rightarrow> Inr (Some offset)
     | None \<Rightarrow> (case base of None \<Rightarrow> Inr None | Some b \<Rightarrow> isinst_interface b t))"

fun isinst_class :: "runtime_type \<Rightarrow> addr \<Rightarrow> bool" where
  "isinst_class (RuntimeType a n f s base v h mt ifs) t =
     (if a = t then True
      else (case base of None \<Rightarrow> False | Some b \<Rightarrow> isinst_class b t))"

definition il2c_isinst :: "machine \<Rightarrow> addr \<Rightarrow> runtime_type \<Rightarrow> addr result" where
  "il2c_isinst m pReference ty =
     il2c_assert (pReference \<noteq> NULL)
     (bind_result (il2c_adjusted_reference m pReference) (\<lambda>pAdjusted.
      bind_result (get_header m pAdjusted) (\<lambda>h.
        if flags ty AND IL2C_TYPE_INTERFACE \<noteq> 0 then
          bind_result (isinst_interface (htype h) (type_addr ty)) (\<lambda>r. case r of
            Some offset \<Rightarrow> Inr (pAdjusted + offset)
          | None \<Rightarrow> Inr NULL)
        else Inr (if isinst_class (htype h) (type_addr ty) then pReference else NULL))))"

definition il2c_castclass :: "machine \<Rightarrow> addr \<Rightarrow> runtime_type \<Rightarrow> addr result" where
  "il2c_castclass m pReference ty =
     il2c_assert (pReference \<noteq> NULL)
     (bind_result (il2c_isinst m pReference ty) (\<lambda>p.
        if p = NULL then Inl InvalidCastException else Inr p))"

text \<open>The macros of the same names (without the underscores) pass null through.\<close>

definition il2c_isinst_or_null :: "machine \<Rightarrow> addr \<Rightarrow> runtime_type \<Rightarrow> addr result" where
  "il2c_isinst_or_null m p ty = (if p \<noteq> NULL then il2c_isinst m p ty else Inr NULL)"

definition il2c_castclass_or_null :: "machine \<Rightarrow> addr \<Rightarrow> runtime_type \<Rightarrow> addr result" where
  "il2c_castclass_or_null m p ty = (if p \<noteq> NULL then il2c_castclass m p ty else Inr NULL)"

text \<open>The value inside a box lies behind its vptr.\<close>

definition il2c_unbox :: "machine \<Rightarrow> addr \<Rightarrow> runtime_type \<Rightarrow> addr result" where
  "il2c_unbox m pReference valueType =
     (if pReference = NULL then
        (if flags valueType AND IL2C_TYPE_VALUE \<noteq> 0 then Inl NullReferenceException else Inr NULL)
      else bind_result (get_header m pReference) (\<lambda>h.
        if type_addr (htype h) \<noteq> type_addr valueType then Inl InvalidCastException
        else Inr (pReference + sizeof_ValueType)))"

section \<open>The subtype relation\<close>

fun base_chain :: "runtime_type \<Rightarrow> runtime_type list" where
  "base_chain (RuntimeType a n f s base v h mt ifs) =
     RuntimeType a n f s base v h mt ifs # (case base of None \<Rightarrow> [] | Some b \<Rightarrow> base_chain b)"

definition all_interfaces :: "runtime_type \<Rightarrow> (runtime_type \<times> vtable) list" where
  "all_interfaces T = concat (map interfaces (base_chain T))"

definition interfaces_ok :: "runtime_type \<Rightarrow> bool" where
  "interfaces_ok T \<longleftrightarrow>
     (\<forall>(i, v) \<in> set (all_interfaces T). flags i AND IL2C_TYPE_INTERFACE = IL2C_TYPE_INTERFACE)"

definition find_entry :: "(runtime_type \<times> vtable) list \<Rightarrow> addr \<Rightarrow> nat option" where
  "find_entry ifs t =
     map_option (\<lambda>(i, v). adjustor_offset v) (find (\<lambda>(i, v). type_addr i = t) ifs)"

lemma isinst_class_iff: "isinst_class T t \<longleftrightarrow> t \<in> type_addr ` set (base_chain T)"
  by (induction T t rule: isinst_class.induct) (auto split: option.splits)

lemma find_interface_entry:
  "\<forall>(i, v) \<in> set ifs. flags i AND IL2C_TYPE_INTERFACE = IL2C_TYPE_INTERFACE \<Longrightarrow>
   find_interface ifs t = Inr (find_entry ifs t)"
  by (induction ifs t rule: find_interface.induct) (auto simp: find_entry_def)

lemma find_entry_append:
  "find_entry (xs @ ys) t = (case find_entry xs t of Some r \<Rightarrow> Some r | None \<Rightarrow> find_entry ys t)"
  by (induction xs) (auto simp: find_entry_def)

lemma isinst_interface_entry:
  "interfaces_ok T \<Longrightarrow> isinst_interface T t = Inr (find_entry (all_interfaces T) t)"
proof (induction T t rule: isinst_interface.induct)
  case (1 a n f s base v h mt ifs t)
  have "\<forall>(i, v) \<in> set ifs. flags i AND IL2C_TYPE_INTERFACE = IL2C_TYPE_INTERFACE"
    using "1.prems" by (auto simp: interfaces_ok_def all_interfaces_def)
  note ifs = find_interface_entry [OF this, of t]
  show ?case
  proof (cases base)
    case None
    then show ?thesis by (simp add: ifs all_interfaces_def split: option.splits)
  next
    case (Some b)
    have "interfaces_ok b"
      using "1.prems" by (auto simp: interfaces_ok_def all_interfaces_def Some)
    with "1.IH" [OF ifs] Some show ?thesis
      by (auto simp: ifs all_interfaces_def find_entry_append split: option.splits)
  qed
qed

text \<open>
  A well-formed object: its vptr slot and the slots of all interfaces along its type's
  chain hold the vtables the type names for them.
\<close>

definition object_vptrs_ok :: "machine \<Rightarrow> addr \<Rightarrow> runtime_type \<Rightarrow> bool" where
  "object_vptrs_ok m a T \<longleftrightarrow> a \<noteq> NULL \<and>
     (\<exists>vt. vptrs m a = Some vt \<and> adjustor_offset vt = 0) \<and>
     (\<forall>(i, v) \<in> set (all_interfaces T). \<exists>vt. vptrs m (a + adjustor_offset v) = Some vt \<and>
        adjustor_offset vt = adjustor_offset v)"

definition subtype :: "runtime_type \<Rightarrow> runtime_type \<Rightarrow> bool" where
  "subtype T ty \<longleftrightarrow>
     (if flags ty AND IL2C_TYPE_INTERFACE \<noteq> 0
      then \<exists>(i, v) \<in> set (all_interfaces T). type_addr i = type_addr ty
      else \<exists>b \<in> set (base_chain T). type_addr b = type_addr ty)"

lemma find_entry_Some:
  "find_entry ifs t = Some k \<Longrightarrow> \<exists>i v. (i, v) \<in> set ifs \<and> type_addr i = t \<and> k = adjustor_offset v"
  by (auto simp: find_entry_def find_Some_iff) (metis nth_mem)

lemma find_entry_None: "find_entry ifs t = None \<longleftrightarrow> (\<forall>(i, v) \<in> set ifs. type_addr i \<noteq> t)"
  by (auto simp: find_entry_def find_None_iff)

lemma isinst_spec:
  assumes "il2c_adjusted_reference m r = Inr a" and "get_header m a = Inr h" and "r \<noteq> NULL"
    and "interfaces_ok (htype h)" and "object_vptrs_ok m a (htype h)"
  shows "\<exists>p. il2c_isinst m r ty = Inr p \<and> (p = NULL \<longleftrightarrow> \<not> subtype (htype h) ty) \<and>
           (p \<noteq> NULL \<longrightarrow> il2c_adjusted_reference m p = Inr a)"
proof (cases "flags ty AND IL2C_TYPE_INTERFACE \<noteq> 0")
  case False
  with assms show ?thesis
    by (auto simp: il2c_isinst_def isinst_class_iff subtype_def image_iff)
next
  case True
  show ?thesis
  proof (cases "find_entry (all_interfaces (htype h)) (type_addr ty)")
    case None
    with True have "\<not> subtype (htype h) ty"
      by (auto simp: subtype_def find_entry_None)
    with True None assms show ?thesis
      by (simp add: il2c_isinst_def isinst_interface_entry)
  next
    case (Some k)
    from find_entry_Some [OF this] obtain i v where iv:
      "(i, v) \<in> set (all_interfaces (htype h))" "type_addr i = type_addr ty"
      "k = adjustor_offset v" by blast
    have "il2c_adjusted_reference m (a + k) = Inr a"
      using assms(5) iv by (fastforce simp: object_vptrs_ok_def il2c_adjusted_reference_def)
    moreover have "a + k \<noteq> NULL" using assms(5) by (simp add: object_vptrs_ok_def)
    moreover have "subtype (htype h) ty" using True iv by (auto simp: subtype_def)
    ultimately show ?thesis
      using True Some assms by (simp add: il2c_isinst_def isinst_interface_entry)
  qed
qed

section \<open>Properties\<close>

text \<open>A concrete type graph: \<open>Base\<close>, and \<open>Derived\<close> with one interface at offset 16.\<close>

definition sample_interface :: runtime_type where
  "sample_interface = RuntimeType 3 ''IFoo'' IL2C_TYPE_INTERFACE 0 None None None [] []"

definition sample_base :: runtime_type where
  "sample_base = RuntimeType 1 ''Base'' 0 16 None
     (Some \<lparr>adjustor_offset = 0, Finalize = System_Object_Finalize\<rparr>) None [(None, 8)] []"

definition sample_derived :: runtime_type where
  "sample_derived = RuntimeType 2 ''Derived'' 0 24 (Some sample_base)
     (Some \<lparr>adjustor_offset = 0, Finalize = System_Object_Finalize\<rparr>) None [(None, 8)]
     [(sample_interface, \<lparr>adjustor_offset = 16, Finalize = System_Object_Finalize\<rparr>)]"

definition empty_machine :: machine where
  "empty_machine = \<lparr>headers = Map.empty, vptrs = Map.empty, cells = (\<lambda>_. NULL),
     bodies = (\<lambda>_. PlainBody), g_pBeginHeader = NULL, g_pRootReferences = [],
     g_pFixedReferences = [], g_pBeginStaticFields = [], g_CollectionMarkIndex = 0,
     g_ExecutingCollection = 0, g_PendingRemains = 0,
     g_GlobalLockForCollect = \<lparr>lock_alive = True, owner = None, held = 0\<rparr>,
     g_MonitorLockBlockInformations = replicate 7 None\<rparr>"

definition sample_cast_machine :: machine where
  "sample_cast_machine = empty_machine\<lparr>
     headers := [976 \<mapsto> \<lparr>pNext = NULL, htype = sample_derived, characteristic = 0x40000000\<rparr>],
     vptrs := [1000 \<mapsto> \<lparr>adjustor_offset = 0, Finalize = System_Object_Finalize\<rparr>,
               1016 \<mapsto> \<lparr>adjustor_offset = 16, Finalize = System_Object_Finalize\<rparr>]\<rparr>"

lemma sample_cast_facts:
  "il2c_adjusted_reference sample_cast_machine 1016 = Inr 1000"
  "get_header sample_cast_machine 1000 =
     Inr \<lparr>pNext = NULL, htype = sample_derived, characteristic = 0x40000000\<rparr>"
  "interfaces_ok sample_derived"
  "object_vptrs_ok sample_cast_machine 1000 sample_derived"
  by (auto simp: sample_cast_machine_def il2c_adjusted_reference_def get_header_def
      il2c_get_header_def sizeof_REF_HEADER_def interfaces_ok_def all_interfaces_def
      sample_derived_def sample_base_def sample_interface_def object_vptrs_ok_def)



end
