(* ===== verification/Root_References.thy ===== *)
theory Root_References
  imports Type_Cast "HOL-Library.Multiset"
begin

text \<open>
  Root references (src/Core/il2c_allocator.c): two chains of blocks of three slots each,
  \<open>g_pRootReferences\<close> for running threads and \<open>g_pFixedReferences\<close> for pinned
  handles.  Registration scans the whole chain, remembers the first free slot, and appends
  a block at the head when there is none.  The code's compare-and-swap is modelled without
  interference from other threads.

  The interface \<open>reference_set\<close> is what the clients rely on: a set with insertion and
  removal.  It is interpreted on the code's registration and unregistration and used by
  the handle component below (System.Runtime.InteropServices.GCHandle).
\<close>

section \<open>Operations\<close>

text \<open>
  The scan of one block: \<open>None\<close> when the reference is registered already, otherwise the
  first free position (block number, slot number) seen so far.
\<close>

fun scan_slots :: "addr \<Rightarrow> addr list \<Rightarrow> nat \<Rightarrow> nat \<Rightarrow> (nat \<times> nat) option \<Rightarrow> (nat \<times> nat) option option" where
  "scan_slots r [] b i free = Some free"
| "scan_slots r (x # xs) b i free =
     (if x = r then None
      else scan_slots r xs b (Suc i) (if x = NULL \<and> free = None then Some (b, i) else free))"

fun scan_blocks :: "addr \<Rightarrow> root_references list \<Rightarrow> nat \<Rightarrow> (nat \<times> nat) option \<Rightarrow> (nat \<times> nat) option option" where
  "scan_blocks r [] b free = Some free"
| "scan_blocks r (blk # blks) b free =
     (case scan_slots r (root_slots blk) b 0 free of
        None \<Rightarrow> None
      | Some free' \<Rightarrow> scan_blocks r blks (Suc b) free')"

definition append_block :: "addr \<Rightarrow> root_references list \<Rightarrow> root_references list" where
  "append_block r blks = \<lparr>root_slots = [r, NULL, NULL]\<rparr> # blks"

definition register_in :: "addr \<Rightarrow> root_references list \<Rightarrow> root_references list" where
  "register_in r blks =
     (case scan_blocks r blks 0 None of
        None \<Rightarrow> blks
      | Some (Some (b, i)) \<Rightarrow>
          (let slots = root_slots (blks ! b) in
           if slots ! i = NULL then blks[b := \<lparr>root_slots = slots[i := r]\<rparr>]
           else append_block r blks)
      | Some None \<Rightarrow> append_block r blks)"

text \<open>Unregistration clears the first slot that holds the reference.\<close>

fun clear_slot :: "addr \<Rightarrow> addr list \<Rightarrow> addr list option" where
  "clear_slot r [] = None"
| "clear_slot r (x # xs) = (if x = r then Some (NULL # xs) else map_option (Cons x) (clear_slot r xs))"

fun unregister_in :: "addr \<Rightarrow> root_references list \<Rightarrow> root_references list" where
  "unregister_in r [] = []"
| "unregister_in r (blk # blks) =
     (case clear_slot r (root_slots blk) of
        Some slots \<Rightarrow> \<lparr>root_slots = slots\<rparr> # blks
      | None \<Rightarrow> blk # unregister_in r blks)"

definition get_roots :: "machine \<Rightarrow> bool \<Rightarrow> root_references list" where
  "get_roots m isFixed = (if isFixed then g_pFixedReferences m else g_pRootReferences m)"

definition set_roots :: "machine \<Rightarrow> bool \<Rightarrow> root_references list \<Rightarrow> machine" where
  "set_roots m isFixed t =
     (if isFixed then m\<lparr>g_pFixedReferences := t\<rparr> else m\<lparr>g_pRootReferences := t\<rparr>)"

definition il2c_register_root_reference :: "machine \<Rightarrow> addr \<Rightarrow> bool \<Rightarrow> machine result" where
  "il2c_register_root_reference m pReference isFixed =
     il2c_assert (pReference \<noteq> NULL)
     (bind_result (il2c_adjusted_reference m pReference)
        (\<lambda>a. Inr (set_roots m isFixed (register_in a (get_roots m isFixed)))))"

definition il2c_unregister_root_reference :: "machine \<Rightarrow> addr \<Rightarrow> bool \<Rightarrow> machine result" where
  "il2c_unregister_root_reference m pReference isFixed =
     il2c_assert (pReference \<noteq> NULL)
     (bind_result (il2c_adjusted_reference m pReference)
        (\<lambda>a. Inr (set_roots m isFixed (unregister_in a (get_roots m isFixed)))))"

text \<open>The shutdown loop pops and frees every block.\<close>

fun unregister_all_in :: "root_references list \<Rightarrow> root_references list" where
  "unregister_all_in [] = []"
| "unregister_all_in (blk # blks) = unregister_all_in blks"

definition il2c_unregister_all_root_references_for_final_shutdown :: "machine \<Rightarrow> bool \<Rightarrow> machine" where
  "il2c_unregister_all_root_references_for_final_shutdown m isFixed =
     set_roots m isFixed (unregister_all_in (get_roots m isFixed))"

text \<open>
  Static fields: the block's references and value descriptors are cleared (a descriptor
  becomes two null words; the compiled code fills it again) and the block is pushed.
\<close>

definition il2c_register_static_fields :: "machine \<Rightarrow> tracking_information \<Rightarrow> machine" where
  "il2c_register_static_fields m p =
     m\<lparr>g_pBeginStaticFields :=
         p\<lparr>pReferences := replicate (length (pReferences p)) NULL, 
           valueDescriptors := replicate (length (valueDescriptors p)) (None, NULL)\<rparr>
         # g_pBeginStaticFields m\<rparr>"

section \<open>The tables as sets\<close>

definition all_slots :: "root_references list \<Rightarrow> addr list" where
  "all_slots blks = concat (map root_slots blks)"

definition registered :: "root_references list \<Rightarrow> addr set" where
  "registered blks = {r. r \<noteq> NULL \<and> r \<in> set (all_slots blks)}"

text \<open>Every block has three slots and no reference is in two slots.\<close>

definition roots_ok :: "root_references list \<Rightarrow> bool" where
  "roots_ok blks \<longleftrightarrow> (\<forall>blk \<in> set blks. length (root_slots blk) = 3) \<and>
     (\<forall>r. r \<noteq> NULL \<longrightarrow> count (mset (all_slots blks)) r \<le> 1)"

lemma all_slots_simps [simp]:
  "all_slots [] = []"
  "all_slots (blk # blks) = root_slots blk @ all_slots blks"
  by (simp_all add: all_slots_def)

lemma first_free_slot:
  "NULL \<in> set xs \<Longrightarrow> length (takeWhile (\<lambda>x. x \<noteq> NULL) xs) < length xs \<and>
     xs ! length (takeWhile (\<lambda>x. x \<noteq> NULL) xs) = NULL"
  by (induction xs) auto

lemma scan_slots_spec:
  "scan_slots r xs b i free =
     (if r \<in> set xs then None
      else Some (case free of Some p \<Rightarrow> Some p
        | None \<Rightarrow> if NULL \<in> set xs then Some (b, i + length (takeWhile (\<lambda>x. x \<noteq> NULL) xs)) else None))"
  by (induction r xs b i free rule: scan_slots.induct) (auto split: option.splits)

lemma scan_blocks_registered: "scan_blocks r blks b free = None \<longleftrightarrow> r \<in> set (all_slots blks)"
  by (induction r blks b free rule: scan_blocks.induct)
     (auto simp: scan_slots_spec split: option.splits)

lemma scan_blocks_Some_free: "scan_blocks r blks b (Some p) = Some q \<Longrightarrow> q = Some p"
  by (induction r blks b "Some p" rule: scan_blocks.induct)
     (auto simp: scan_slots_spec split: option.splits if_splits)

lemma scan_blocks_position:
  assumes "scan_blocks r blks b None = Some (Some (b', i))"
  shows "b \<le> b' \<and> b' - b < length blks \<and> i < length (root_slots (blks ! (b' - b))) \<and>
         root_slots (blks ! (b' - b)) ! i = NULL"
  using assms
proof (induction blks arbitrary: b)
  case Nil
  then show ?case by simp
next
  case (Cons blk blks)
  let ?p = "length (takeWhile (\<lambda>x. x \<noteq> NULL) (root_slots blk))"
  show ?case
  proof (cases "NULL \<in> set (root_slots blk)")
    case True
    then have "?p < length (root_slots blk)" "root_slots blk ! ?p = NULL"
      using first_free_slot by blast+
    with True Cons.prems show ?thesis
      by (auto simp: scan_slots_spec dest!: scan_blocks_Some_free split: if_splits)
  next
    case False
    with Cons.prems have "scan_blocks r blks (Suc b) None = Some (Some (b', i))"
      by (auto simp: scan_slots_spec split: if_splits)
    from Cons.IH [OF this] show ?thesis
      by (auto simp: nth_Cons' Suc_le_eq)
  qed
qed

text \<open>Replacing one slot of one block, as a multiset of slots.\<close>

lemma all_slots_update:
  assumes "b < length blks" and "i < length (root_slots (blks ! b))"
  shows "mset (all_slots (blks[b := \<lparr>root_slots = (root_slots (blks ! b))[i := r]\<rparr>])) =
         add_mset r (mset (all_slots blks) - {#root_slots (blks ! b) ! i#})"
  using assms
proof (induction blks arbitrary: b)
  case Nil
  then show ?case by simp
next
  case (Cons blk blks)
  show ?case
  proof (cases b)
    case 0
    with Cons.prems have "root_slots blk ! i \<in># mset (root_slots blk)" by simp
    with 0 Cons.prems show ?thesis by (simp add: mset_update diff_union_single_conv)
  next
    case (Suc k)
    with Cons.prems have "blks ! k \<in> set blks"
        "root_slots (blks ! k) ! i \<in> set (root_slots (blks ! k))" by simp_all
    then have "root_slots (blks ! k) ! i \<in># mset (all_slots blks)"
      by (auto simp: all_slots_def)
    moreover from Suc Cons.prems have "k < length blks" "i < length (root_slots (blks ! k))"
      by simp_all
    ultimately show ?thesis
      using Suc Cons.IH [of k]
        diff_union_single_conv [of "root_slots (blks ! k) ! i" "mset (all_slots blks)"
          "mset (root_slots blk)"] by simp
  qed
qed

lemma register_in_slots:
  "r \<in> set (all_slots blks) \<Longrightarrow> register_in r blks = blks"
  "r \<notin> set (all_slots blks) \<Longrightarrow>
     mset (all_slots (register_in r blks)) + {#NULL#} = add_mset r (mset (all_slots blks)) \<or>
     mset (all_slots (register_in r blks)) = mset (all_slots blks) + {#r, NULL, NULL#}"
proof -
  show "r \<in> set (all_slots blks) \<Longrightarrow> register_in r blks = blks"
    using scan_blocks_registered [of r blks 0 None] by (simp add: register_in_def)
  assume "r \<notin> set (all_slots blks)"
  then obtain free where scan: "scan_blocks r blks 0 None = Some free"
    using scan_blocks_registered [of r blks 0 None] by fastforce
  show "mset (all_slots (register_in r blks)) + {#NULL#} = add_mset r (mset (all_slots blks)) \<or>
     mset (all_slots (register_in r blks)) = mset (all_slots blks) + {#r, NULL, NULL#}"
  proof (cases free)
    case None
    with scan show ?thesis by (simp add: register_in_def append_block_def)
  next
    case (Some p)
    obtain b i where p: "p = (b, i)" by force
    from scan_blocks_position [of r blks 0 b i] scan Some p
    have pos: "b < length blks" "i < length (root_slots (blks ! b))"
        "root_slots (blks ! b) ! i = NULL" by simp_all
    then have "NULL \<in># mset (all_slots blks)"
      using nth_mem [of i "root_slots (blks ! b)"] nth_mem [of b blks]
      by (auto simp: all_slots_def)
    with scan Some p pos all_slots_update [OF pos(1,2), of r] show ?thesis
      by (simp add: register_in_def insert_DiffM)
  qed
qed

lemma register_in_lengths:
  "\<forall>blk \<in> set blks. length (root_slots blk) = 3 \<Longrightarrow>
   \<forall>blk \<in> set (register_in r blks). length (root_slots blk) = 3"
  using scan_blocks_position [of r blks 0]
  by (auto simp: register_in_def append_block_def Let_def
      dest!: subsetD [OF set_update_subset_insert] split: option.splits) fastforce?

lemma clear_slot_None: "clear_slot r xs = None \<longleftrightarrow> r \<notin> set xs"
  by (induction xs) auto

lemma clear_slot_mset:
  "clear_slot r xs = Some ys \<Longrightarrow> mset ys = add_mset NULL (mset xs - {#r#}) \<and> length ys = length xs"
proof (induction xs arbitrary: ys)
  case (Cons x xs)
  show ?case
  proof (cases "x = r")
    case False
    with Cons.prems obtain zs where zs: "clear_slot r xs = Some zs" "ys = x # zs" by auto
    then have "r \<in> set xs" using clear_slot_None [of r xs] by auto
    with Cons.IH [OF zs(1)] zs(2) False show ?thesis by simp
  qed (use Cons.prems in auto)
qed simp

lemma unregister_in_lengths:
  "\<forall>blk \<in> set blks. length (root_slots blk) = 3 \<Longrightarrow>
   \<forall>blk \<in> set (unregister_in r blks). length (root_slots blk) = 3"
  by (induction r blks rule: unregister_in.induct) (auto split: option.splits dest: clear_slot_mset)

lemma unregister_in_slots:
  "mset (all_slots (unregister_in r blks)) =
     (if r \<in> set (all_slots blks) then add_mset NULL (mset (all_slots blks) - {#r#})
      else mset (all_slots blks))"
proof (induction r blks rule: unregister_in.induct)
  case (2 r blk blks)
  show ?case
  proof (cases "clear_slot r (root_slots blk)")
    case None
    with 2 show ?thesis
      using diff_union_single_conv [of r "mset (all_slots blks)" "mset (root_slots blk)"]
      by (auto simp: None [unfolded clear_slot_None] None)
  next
    case (Some ys)
    then have "r \<in># mset (root_slots blk)" using clear_slot_None [of r "root_slots blk"] by auto
    with Some show ?thesis by (auto dest: clear_slot_mset)
  qed
qed simp

text \<open>The same in numbers: how often a reference is in a table.\<close>

definition slot_count :: "root_references list \<Rightarrow> addr \<Rightarrow> nat" where
  "slot_count blks x = count (mset (all_slots blks)) x"

lemma count_mset_notin: "x \<notin> set xs \<Longrightarrow> count (mset xs) x = 0"
  by (simp add: count_eq_zero_iff)

lemma slot_count_zero: "slot_count blks x = 0 \<longleftrightarrow> x \<notin> set (all_slots blks)"
  by (simp add: slot_count_def count_eq_zero_iff)

lemma registered_count: "x \<in> registered blks \<longleftrightarrow> x \<noteq> NULL \<and> slot_count blks x \<noteq> 0"
  by (simp add: registered_def slot_count_zero)

lemma slot_count_register:
  assumes "x \<noteq> NULL"
  shows "slot_count (register_in r blks) x =
         (if x = r \<and> slot_count blks r = 0 then 1 else slot_count blks x)"
proof (cases "r \<in> set (all_slots blks)")
  case True
  then show ?thesis by (auto simp: register_in_slots slot_count_zero)
next
  case False
  then have "slot_count blks r = 0" by (simp add: slot_count_zero)
  moreover have "slot_count (register_in r blks) x = slot_count blks x + (if x = r then 1 else 0)"
    using register_in_slots(2) [OF False]
  proof
    assume "mset (all_slots (register_in r blks)) + {#NULL#} = add_mset r (mset (all_slots blks))"
    from arg_cong [OF this, of "\<lambda>M. count M x"] show ?thesis
      using assms by (simp add: slot_count_def split: if_splits)
  qed (use assms in \<open>simp add: slot_count_def\<close>)
  ultimately show ?thesis by simp
qed

lemma slot_count_unregister:
  assumes "x \<noteq> NULL"
  shows "slot_count (unregister_in r blks) x = slot_count blks x - (if x = r then 1 else 0)"
  using assms by (auto simp: unregister_in_slots slot_count_def count_mset_notin)

lemma roots_ok_counts:
  "roots_ok blks \<longleftrightarrow> (\<forall>blk \<in> set blks. length (root_slots blk) = 3) \<and>
     (\<forall>r. r \<noteq> NULL \<longrightarrow> slot_count blks r \<le> 1)"
  by (simp add: roots_ok_def slot_count_def)

lemma roots_ok_register_in: "roots_ok blks \<Longrightarrow> roots_ok (register_in r blks)"
  unfolding roots_ok_counts using register_in_lengths [of blks r] slot_count_register [of _ r blks]
  by (metis dual_order.refl)

lemma roots_ok_unregister_in: "roots_ok blks \<Longrightarrow> roots_ok (unregister_in r blks)"
  unfolding roots_ok_counts using unregister_in_lengths [of blks r] slot_count_unregister [of _ r blks]
  by (metis diff_le_self le_trans)

lemma registered_register_in: "r \<noteq> NULL \<Longrightarrow> registered (register_in r blks) = insert r (registered blks)"
  by (rule set_eqI) (simp only: registered_count insert_iff, auto simp: slot_count_register)

lemma registered_unregister_in:
  assumes "roots_ok blks" and "r \<noteq> NULL"
  shows "registered (unregister_in r blks) = registered blks - {r}"
proof (rule set_eqI)
  fix x
  have "x \<noteq> NULL \<Longrightarrow> slot_count blks x \<le> 1" using assms(1) by (simp add: roots_ok_counts)
  then show "x \<in> registered (unregister_in r blks) \<longleftrightarrow> x \<in> registered blks - {r}"
    by (simp only: registered_count Diff_iff singleton_iff, auto simp: slot_count_unregister)
qed

section \<open>The interface of the tables\<close>

text \<open>
  What a client of a table relies on: within the invariant, registration inserts and
  unregistration removes, whatever the table holds already.
\<close>

locale reference_set =
  fixes register :: "'r \<Rightarrow> 't \<Rightarrow> 't"
    and unregister :: "'r \<Rightarrow> 't \<Rightarrow> 't"
    and members :: "'t \<Rightarrow> 'r set"
    and good :: "'t \<Rightarrow> bool"
    and proper :: "'r \<Rightarrow> bool"
  assumes register_good: "good t \<Longrightarrow> proper r \<Longrightarrow> good (register r t)"
    and unregister_good: "good t \<Longrightarrow> proper r \<Longrightarrow> good (unregister r t)"
    and members_register: "good t \<Longrightarrow> proper r \<Longrightarrow> members (register r t) = insert r (members t)"
    and members_unregister: "good t \<Longrightarrow> proper r \<Longrightarrow> members (unregister r t) = members t - {r}"
begin

definition replace_member :: "'r option \<Rightarrow> 'r option \<Rightarrow> 't \<Rightarrow> 't" where
  "replace_member old new t =
     (let t' = (case old of None \<Rightarrow> t | Some r \<Rightarrow> unregister r t) in
      case new of None \<Rightarrow> t' | Some r \<Rightarrow> register r t')"

lemma replace_member_good:
  "good t \<Longrightarrow> pred_option proper old \<Longrightarrow> pred_option proper new \<Longrightarrow> good (replace_member old new t)"
  by (auto simp: replace_member_def register_good unregister_good split: option.splits)

lemma members_replace_member:
  "good t \<Longrightarrow> pred_option proper old \<Longrightarrow> pred_option proper new \<Longrightarrow>
   members (replace_member old new t) = members t - set_option old \<union> set_option new"
  by (auto simp: replace_member_def register_good unregister_good members_register members_unregister
      split: option.splits)

lemma register_all_good:
  "good t \<Longrightarrow> (\<forall>r \<in> set rs. proper r) \<Longrightarrow> good (fold register rs t)"
  by (induction rs arbitrary: t) (auto simp: register_good)

lemma members_register_all:
  "good t \<Longrightarrow> (\<forall>r \<in> set rs. proper r) \<Longrightarrow> members (fold register rs t) = members t \<union> set rs"
  by (induction rs arbitrary: t) (auto simp: register_good members_register)

end

interpretation roots: reference_set register_in unregister_in registered roots_ok "\<lambda>r. r \<noteq> NULL"
  by unfold_locales
     (simp_all add: roots_ok_register_in roots_ok_unregister_in registered_register_in
       registered_unregister_in)

end
