(* ===== verification/GC_Handle.thy ===== *)
theory GC_Handle
  imports Root_References
begin

text \<open>
  System.Runtime.InteropServices.GCHandle
  (src/System/Runtime/InteropServices/GCHandle.c): a handle is a pointer-sized cell
  holding the raw reference; the operations register and unregister it in the table of
  fixed references.  The theorems rest on the interface of the table
  (\<open>reference_set\<close>).
\<close>

section \<open>Operations\<close>

definition GCHandleType_Normal :: "32 word" where "GCHandleType_Normal = 2"
definition GCHandleType_Pinned :: "32 word" where "GCHandleType_Pinned = 3"

definition GCHandle_get_Target :: "machine \<Rightarrow> addr \<Rightarrow> addr result" where
  "GCHandle_get_Target m this = il2c_assert (this \<noteq> NULL) (Inr (cells m this))"

definition store_cell :: "machine \<Rightarrow> addr \<Rightarrow> addr \<Rightarrow> machine" where
  "store_cell m p v = m\<lparr>cells := (cells m)(p := v)\<rparr>"

definition GCHandle_Free :: "machine \<Rightarrow> addr \<Rightarrow> machine result" where
  "GCHandle_Free m this = il2c_assert (this \<noteq> NULL)
     (bind_result
        (if cells m this \<noteq> NULL then il2c_unregister_root_reference m (cells m this) True else Inr m)
        (\<lambda>m'. Inr (store_cell m' this NULL)))"

definition GCHandle_set_Target :: "machine \<Rightarrow> addr \<Rightarrow> addr \<Rightarrow> machine result" where
  "GCHandle_set_Target m this v =
     bind_result (GCHandle_Free m this) (\<lambda>m1.
     bind_result (if v \<noteq> NULL then il2c_register_root_reference m1 v True else Inr m1) (\<lambda>m2.
     Inr (store_cell m2 this v)))"

definition GCHandle_AddrOfPinnedObject :: "machine \<Rightarrow> addr \<Rightarrow> addr result" where
  "GCHandle_AddrOfPinnedObject m this = il2c_assert (this \<noteq> NULL) (Inr (cells m this))"

text \<open>\<open>Alloc(object)\<close> makes a handle of the reference and registers nothing.\<close>

definition GCHandle_Alloc :: "machine \<Rightarrow> addr \<Rightarrow> machine \<times> addr" where
  "GCHandle_Alloc m v = (m, v)"

definition GCHandle_Alloc_type :: "machine \<Rightarrow> addr \<Rightarrow> 32 word \<Rightarrow> (machine \<times> addr) result" where
  "GCHandle_Alloc_type m v type =
     bind_result
       (if (type = GCHandleType_Normal \<or> type = GCHandleType_Pinned) \<and> v \<noteq> NULL
        then il2c_register_root_reference m v True else Inr m)
       (\<lambda>m'. Inr (m', v))"

text \<open>The hash is the truncated address of the handle cell; no handle equals anything.\<close>

definition GCHandle_GetHashCode :: "addr \<Rightarrow> 32 word" where
  "GCHandle_GetHashCode this = word_of_nat this"

definition GCHandle_Equals :: "addr \<Rightarrow> addr \<Rightarrow> bool" where
  "GCHandle_Equals this obj = False"

section \<open>What a handle does to the fixed table\<close>

text \<open>The adjusted form of a raw reference, none for \<open>NULL\<close>.\<close>

definition target_of :: "machine \<Rightarrow> addr \<Rightarrow> addr option" where
  "target_of m r = (if r = NULL then None else
     map_option (\<lambda>vt. r - adjustor_offset vt) (vptrs m r))"

text \<open>A reference that points at a vptr slot of some object not at address 0, or \<open>NULL\<close>.\<close>

definition reference_ok :: "machine \<Rightarrow> addr \<Rightarrow> bool" where
  "reference_ok m r \<longleftrightarrow> r = NULL \<or> (\<exists>vt. vptrs m r = Some vt \<and> adjustor_offset vt < r)"

lemma set_roots_fields [simp]:
  "vptrs (set_roots m b t) = vptrs m" "cells (set_roots m b t) = cells m"
  "headers (set_roots m b t) = headers m"
  "get_roots (set_roots m b t) b = t"
  by (simp_all add: set_roots_def get_roots_def)

lemma store_cell_fields [simp]:
  "vptrs (store_cell m p v) = vptrs m" "cells (store_cell m p v) = (cells m)(p := v)"
  "get_roots (store_cell m p v) b = get_roots m b"
  by (simp_all add: store_cell_def get_roots_def)

lemma target_of_proper: "reference_ok m r \<Longrightarrow> pred_option (\<lambda>a. a \<noteq> NULL) (target_of m r)"
  by (auto simp: reference_ok_def target_of_def)

lemma register_root_target:
  "reference_ok m r \<Longrightarrow> r \<noteq> NULL \<Longrightarrow>
   \<exists>a. target_of m r = Some a \<and>
     il2c_register_root_reference m r b = Inr (set_roots m b (register_in a (get_roots m b))) \<and>
     il2c_unregister_root_reference m r b = Inr (set_roots m b (unregister_in a (get_roots m b)))"
  by (auto simp: reference_ok_def target_of_def il2c_register_root_reference_def
      il2c_unregister_root_reference_def il2c_adjusted_reference_def)

lemma handle_free_table:
  assumes "this \<noteq> NULL" and "reference_ok m (cells m this)"
  shows "\<exists>m'. GCHandle_Free m this = Inr m' \<and> vptrs m' = vptrs m \<and>
    cells m' = (cells m)(this := NULL) \<and>
    get_roots m' True = roots.replace_member (target_of m (cells m this)) None (get_roots m True)"
proof (cases "cells m this = NULL")
  case True
  with assms show ?thesis
    by (simp add: GCHandle_Free_def target_of_def roots.replace_member_def)
next
  case False
  from register_root_target [OF assms(2) False, of True]
  show ?thesis using assms False by (auto simp: GCHandle_Free_def roots.replace_member_def)
qed

lemma handle_set_table:
  assumes "this \<noteq> NULL" and "reference_ok m (cells m this)" and "reference_ok m v"
  shows "\<exists>m'. GCHandle_set_Target m this v = Inr m' \<and> vptrs m' = vptrs m \<and>
    cells m' = (cells m)(this := v) \<and>
    get_roots m' True =
      roots.replace_member (target_of m (cells m this)) (target_of m v) (get_roots m True)"
proof -
  from handle_free_table [OF assms(1,2)] obtain m1 where m1: "GCHandle_Free m this = Inr m1"
      "vptrs m1 = vptrs m" "cells m1 = (cells m)(this := NULL)"
      "get_roots m1 True = roots.replace_member (target_of m (cells m this)) None (get_roots m True)"
    by blast
  show ?thesis
  proof (cases "v = NULL")
    case True
    with m1 show ?thesis by (simp add: GCHandle_set_Target_def target_of_def)
  next
    case False
    have "reference_ok m1 v" "target_of m1 v = target_of m v"
      using assms(3) m1(2) by (simp_all add: reference_ok_def target_of_def)
    with register_root_target [of m1 v True] False m1 show ?thesis
      by (auto simp: GCHandle_set_Target_def roots.replace_member_def)
  qed
qed

section \<open>Property\<close>

text \<open>
  C24: retargeting a handle stores the new reference, pins the object the new
  reference belongs to and releases the object of the old one, and changes no other
  registration: the set of pinned objects is the old one, less the old target, plus the
  new one.  (So releasing one of two handles on an object unpins it for both.)
\<close>

theorem handle_retarget_pins:
  assumes "this \<noteq> NULL" and "reference_ok m (cells m this)" and "reference_ok m v"
    and "roots_ok (g_pFixedReferences m)"
  shows "\<exists>m'. GCHandle_set_Target m this v = Inr m' \<and>
    GCHandle_get_Target m' this = Inr v \<and>
    roots_ok (g_pFixedReferences m') \<and>
    registered (g_pFixedReferences m') =
      registered (g_pFixedReferences m) - set_option (target_of m (cells m this))
        \<union> set_option (target_of m v)"
proof -
  have roots: "get_roots m True = g_pFixedReferences m" for m by (simp add: get_roots_def)
  note proper = target_of_proper [OF assms(2)] target_of_proper [OF assms(3)]
  from handle_set_table [OF assms(1-3)] show ?thesis
    using roots.replace_member_good [OF assms(4) proper]
      roots.members_replace_member [OF assms(4) proper] assms(1)
    by (auto simp: GCHandle_get_Target_def roots)
qed

definition two_objects :: machine where
  "two_objects = empty_machine\<lparr>
     vptrs := [1000 \<mapsto> \<lparr>adjustor_offset = 0, Finalize = 1\<rparr>, 2008 \<mapsto> \<lparr>adjustor_offset = 8, Finalize = 1\<rparr>],
     cells := (\<lambda>_. NULL)(16 := 1000),
     g_pFixedReferences := [\<lparr>root_slots = [1000, NULL, 5000]\<rparr>]\<rparr>"

lemma two_objects_ok:
  "reference_ok two_objects (cells two_objects 16)" "reference_ok two_objects 2008"
  "roots_ok (g_pFixedReferences two_objects)"
  by (auto simp: two_objects_def reference_ok_def roots_ok_def all_slots_def empty_machine_def)

theorem handle_retarget_pins_witness:
  "\<exists>m'. GCHandle_set_Target two_objects 16 2008 = Inr m' \<and>
     GCHandle_get_Target m' 16 = Inr 2008 \<and> roots_ok (g_pFixedReferences m') \<and>
     registered (g_pFixedReferences m') = {2000, 5000}"
proof -
  have sets: "registered (g_pFixedReferences two_objects) = {1000, 5000}"
    "set_option (target_of two_objects (cells two_objects 16)) = {1000}"
    "set_option (target_of two_objects 2008) = {2000}"
    by (auto simp: two_objects_def registered_def all_slots_def target_of_def empty_machine_def)
  have "{1000, 5000} - {1000} \<union> {2000} = {2000, 5000 :: addr}" by auto
  with handle_retarget_pins [of 16, OF _ two_objects_ok] sets show ?thesis by simp
qed

section \<open>Divergences\<close>

text \<open>
  Two handles of type \<open>Pinned\<close> share one registration: freeing the first leaves the
  object unpinned although the second handle still holds it.  And a handle from
  \<open>Alloc(object)\<close>, which .NET documents as a \<open>Normal\<close> handle, pins nothing.
\<close>

lemma handles_share_one_registration:
  assumes "this \<noteq> NULL" and "reference_ok m (cells m this)" and "cells m this \<noteq> NULL"
    and "roots_ok (g_pFixedReferences m)" and "cells m other = cells m this" and "other \<noteq> this"
  shows "\<exists>m' a. GCHandle_Free m this = Inr m' \<and> cells m' other = cells m this \<and>
    target_of m' (cells m' other) = Some a \<and> a \<notin> registered (g_pFixedReferences m')"
proof -
  from register_root_target [OF assms(2,3)] obtain a where a: "target_of m (cells m this) = Some a"
    by blast
  have roots: "get_roots m True = g_pFixedReferences m" for m by (simp add: get_roots_def)
  from handle_free_table [OF assms(1,2)] obtain m' where m': "GCHandle_Free m this = Inr m'"
      "vptrs m' = vptrs m" "cells m' = (cells m)(this := NULL)"
      "get_roots m' True = roots.replace_member (Some a) None (get_roots m True)"
    using a by auto
  have "a \<notin> registered (g_pFixedReferences m')"
    using roots.members_replace_member [OF assms(4), of "Some a" None]
      target_of_proper [OF assms(2)] a m'(4) by (simp add: roots)
  with m' a assms(3,5,6) show ?thesis by (auto simp: target_of_def)
qed

lemma alloc_registers_nothing: "fst (GCHandle_Alloc m v) = m"
  by (simp add: GCHandle_Alloc_def)

end
