(* ===== verification/Monitor_Lock.thy ===== *)
theory Monitor_Lock
  imports Type_Cast
begin

text \<open>
  Monitor locks (src/System/Threading/Monitor.c) over recursive mutexes
  (src/Platform/pthread.h, pthread.c): a table of seven buckets, by the object's address,
  of blocks with four references and four locks each.  An object gets a lock when it is
  first entered; the collector releases it with the object.

  A mutex that another thread holds makes the call wait (\<open>WouldBlock\<close>); using a mutex
  that is not initialized is \<open>BadAccess\<close>.  The recursion count is not bounded.
\<close>

section \<open>Recursive mutexes\<close>

definition il2c_initialize_monitor_lock :: monitor_lock where
  "il2c_initialize_monitor_lock = \<lparr>lock_alive = True, owner = None, held = 0\<rparr>"

text \<open>Zeroed memory.\<close>

definition zero_lock :: monitor_lock where
  "zero_lock = \<lparr>lock_alive = False, owner = None, held = 0\<rparr>"

definition il2c_enter_monitor_lock :: "int \<Rightarrow> monitor_lock \<Rightarrow> monitor_lock result" where
  "il2c_enter_monitor_lock t l =
     (if \<not> lock_alive l then Inl BadAccess
      else if owner l = None \<or> owner l = Some t then Inr (l\<lparr>owner := Some t, held := held l + 1\<rparr>)
      else Inl WouldBlock)"

definition il2c_try_enter_monitor_lock :: "int \<Rightarrow> monitor_lock \<Rightarrow> (bool \<times> monitor_lock) result" where
  "il2c_try_enter_monitor_lock t l =
     (if \<not> lock_alive l then Inl BadAccess
      else if owner l = None \<or> owner l = Some t
      then Inr (True, l\<lparr>owner := Some t, held := held l + 1\<rparr>)
      else Inr (False, l))"

text \<open>Releasing a mutex of another thread fails with a code nobody reads.\<close>

definition il2c_exit_monitor_lock :: "int \<Rightarrow> monitor_lock \<Rightarrow> monitor_lock result" where
  "il2c_exit_monitor_lock t l =
     (if \<not> lock_alive l then Inl BadAccess
      else if owner l \<noteq> Some t then Inr l
      else Inr (l\<lparr>owner := if held l \<le> 1 then None else Some t, held := held l - 1\<rparr>))"

text \<open>A held mutex is not destroyed (\<open>EBUSY\<close>).\<close>

definition il2c_destroy_monitor_lock :: "monitor_lock \<Rightarrow> monitor_lock" where
  "il2c_destroy_monitor_lock l = (if owner l = None then l\<lparr>lock_alive := False\<rparr> else l)"

definition lock_free :: "monitor_lock \<Rightarrow> bool" where
  "lock_free l \<longleftrightarrow> lock_alive l \<and> owner l = None \<and> held l = 0"

lemma enter_exit_free:
  "lock_free l \<Longrightarrow> \<exists>l'. il2c_enter_monitor_lock t l = Inr l' \<and> il2c_exit_monitor_lock t l' = Inr l"
  by (simp add: lock_free_def il2c_enter_monitor_lock_def il2c_exit_monitor_lock_def)

section \<open>The table\<close>

datatype lock_slot = FoundSlot nat | FreeSlot nat | NoSlot

fun find_slot :: "addr \<Rightarrow> bool \<Rightarrow> addr list \<Rightarrow> nat \<Rightarrow> lock_slot" where
  "find_slot a allocateIfRequired [] i = NoSlot"
| "find_slot a allocateIfRequired (x # xs) i =
     (if x = a then FoundSlot i
      else if x = NULL \<and> allocateIfRequired then FreeSlot i
      else find_slot a allocateIfRequired xs (Suc i))"

text \<open>The block it is in, and the slot.\<close>

fun find_lock :: "addr \<Rightarrow> bool \<Rightarrow> monitor_lock_block list \<Rightarrow> nat \<Rightarrow> nat \<times> lock_slot" where
  "find_lock a allocateIfRequired [] b = (b, NoSlot)"
| "find_lock a allocateIfRequired (blk # blks) b =
     (case find_slot a allocateIfRequired (lock_refs blk) 0 of
        NoSlot \<Rightarrow> find_lock a allocateIfRequired blks (Suc b)
      | slot \<Rightarrow> (b, slot))"

definition zero_block :: monitor_lock_block where
  "zero_block = \<lparr>lock_refs = replicate 4 NULL, locks = replicate 4 zero_lock\<rparr>"

definition new_block_information :: monitor_lock_block_information where
  "new_block_information =
     \<lparr>blockLock = il2c_initialize_monitor_lock, blocks = [zero_block]\<rparr>"

definition put_lock :: "nat \<Rightarrow> nat \<Rightarrow> addr \<Rightarrow> monitor_lock \<Rightarrow> monitor_lock_block_information
    \<Rightarrow> monitor_lock_block_information" where
  "put_lock b i a l info = info\<lparr>blocks := (blocks info)[b :=
     (blocks info ! b)\<lparr>lock_refs := (lock_refs (blocks info ! b))[i := a],
                       locks := (locks (blocks info ! b))[i := l]\<rparr>]\<rparr>"

definition put_bucket :: "nat \<Rightarrow> monitor_lock_block_information \<Rightarrow> machine \<Rightarrow> machine" where
  "put_bucket k info m =
     m\<lparr>g_MonitorLockBlockInformations := (g_MonitorLockBlockInformations m)[k := Some info]\<rparr>"

text \<open>An object that is not constant is flagged, once.\<close>

definition mark_acquired :: "machine \<Rightarrow> addr \<Rightarrow> machine result" where
  "mark_acquired m a =
     bind_result (get_header m a) (\<lambda>h.
     if characteristic h AND IL2C_CHARACTERISTIC_CONST = 0
     then il2c_assert (characteristic h AND IL2C_CHARACTERISTIC_ACQUIRED_MONITOR_LOCK = 0)
       (Inr (set_characteristic m (il2c_get_header a)
              (characteristic h OR IL2C_CHARACTERISTIC_ACQUIRED_MONITOR_LOCK)))
     else Inr m)"

text \<open>
  Step 2 of the acquisition.  In a full bucket the code links a new block and then uses
  slot 4 of the last block, past its arrays; when it may not allocate, it returns
  without releasing the bucket's lock.
\<close>

definition acquire_in_bucket ::
  "machine \<Rightarrow> int \<Rightarrow> addr \<Rightarrow> bool \<Rightarrow> nat \<Rightarrow> monitor_lock_block_information
    \<Rightarrow> (machine \<times> (nat \<times> nat \<times> nat) option) result" where
  "acquire_in_bucket m t a allocateIfRequired k info =
     bind_result (il2c_enter_monitor_lock t (blockLock info)) (\<lambda>entered.
     case find_lock a allocateIfRequired (blocks info) 0 of
       (b, FoundSlot i) \<Rightarrow>
         bind_result (get_header m a) (\<lambda>h.
         il2c_assert (characteristic h AND
             (IL2C_CHARACTERISTIC_CONST OR IL2C_CHARACTERISTIC_ACQUIRED_MONITOR_LOCK) \<noteq> 0)
         (bind_result (il2c_exit_monitor_lock t entered) (\<lambda>exited.
         Inr (put_bucket k (info\<lparr>blockLock := exited\<rparr>) m, Some (k, b, i)))))
     | (b, FreeSlot i) \<Rightarrow>
         bind_result (mark_acquired m a) (\<lambda>m'.
         bind_result (il2c_exit_monitor_lock t entered) (\<lambda>exited.
         Inr (put_bucket k ((put_lock b i a il2c_initialize_monitor_lock info)\<lparr>blockLock := exited\<rparr>) m',
              Some (k, b, i))))
     | (b, NoSlot) \<Rightarrow>
         if allocateIfRequired then Inl BadAccess
         else Inr (put_bucket k (info\<lparr>blockLock := entered\<rparr>) m, None))"

definition il2c_acquire_monitor_lock_from_objref ::
  "machine \<Rightarrow> int \<Rightarrow> addr \<Rightarrow> bool \<Rightarrow> (machine \<times> (nat \<times> nat \<times> nat) option) result" where
  "il2c_acquire_monitor_lock_from_objref m t pReference allocateIfRequired =
     il2c_assert (pReference \<noteq> NULL)
     (bind_result (il2c_adjusted_reference m pReference) (\<lambda>a.
      let k = a mod 7 in
      case g_MonitorLockBlockInformations m ! k of
        Some info \<Rightarrow> acquire_in_bucket m t a allocateIfRequired k info
      | None \<Rightarrow>
          if allocateIfRequired
          then acquire_in_bucket (put_bucket k new_block_information m) t a True k new_block_information
          else Inr (m, None)))"

section \<open>System.Threading.Monitor\<close>

definition lock_at :: "machine \<Rightarrow> nat \<times> nat \<times> nat \<Rightarrow> monitor_lock" where
  "lock_at m p = (case p of (k, b, i) \<Rightarrow>
     locks (blocks (the (g_MonitorLockBlockInformations m ! k)) ! b) ! i)"

definition put_lock_at :: "machine \<Rightarrow> nat \<times> nat \<times> nat \<Rightarrow> monitor_lock \<Rightarrow> machine" where
  "put_lock_at m p l = (case p of (k, b, i) \<Rightarrow>
     let info = the (g_MonitorLockBlockInformations m ! k) in
     put_bucket k (put_lock b i (lock_refs (blocks info ! b) ! i) l info) m)"

text \<open>The lock of the object, which must exist, handed to one of the mutex operations.\<close>

definition with_monitor ::
  "bool \<Rightarrow> machine \<Rightarrow> int \<Rightarrow> addr \<Rightarrow> (monitor_lock \<Rightarrow> ('r \<times> monitor_lock) result) \<Rightarrow> (machine \<times> 'r) result" where
  "with_monitor allocateIfRequired m t obj f =
     il2c_assert (obj \<noteq> NULL)
     (bind_result (il2c_acquire_monitor_lock_from_objref m t obj allocateIfRequired) (\<lambda>(m1, p).
      il2c_assert (p \<noteq> None)
      (bind_result (f (lock_at m1 (the p))) (\<lambda>(r, l). Inr (put_lock_at m1 (the p) l, r)))))"

definition Monitor_Enter :: "machine \<Rightarrow> int \<Rightarrow> addr \<Rightarrow> (machine \<times> unit) result" where
  "Monitor_Enter m t obj =
     with_monitor True m t obj (\<lambda>l. bind_result (il2c_enter_monitor_lock t l) (\<lambda>l'. Inr ((), l')))"

text \<open>The overload with a flag sets it after the lock is taken.\<close>

definition Monitor_Enter_lockTaken :: "machine \<Rightarrow> int \<Rightarrow> addr \<Rightarrow> (machine \<times> bool) result" where
  "Monitor_Enter_lockTaken m t obj =
     bind_result (Monitor_Enter m t obj) (\<lambda>(m', _). Inr (m', True))"

definition Monitor_TryEnter :: "machine \<Rightarrow> int \<Rightarrow> addr \<Rightarrow> (machine \<times> bool) result" where
  "Monitor_TryEnter m t obj = with_monitor True m t obj (il2c_try_enter_monitor_lock t)"

definition Monitor_Exit :: "machine \<Rightarrow> int \<Rightarrow> addr \<Rightarrow> (machine \<times> unit) result" where
  "Monitor_Exit m t obj =
     with_monitor False m t obj (\<lambda>l. bind_result (il2c_exit_monitor_lock t l) (\<lambda>l'. Inr ((), l')))"

section \<open>Release\<close>

text \<open>Called by the sweep for a flagged object, with its header.\<close>

definition il2c_release_monitor_lock_from_objref :: "machine \<Rightarrow> int \<Rightarrow> addr \<Rightarrow> machine result" where
  "il2c_release_monitor_lock_from_objref m t pHeader =
     il2c_assert (pHeader \<noteq> NULL)
     (bind_result (case headers m pHeader of None \<Rightarrow> Inl BadAccess | Some h \<Rightarrow> Inr h) (\<lambda>h.
      il2c_assert (characteristic h AND
          (IL2C_CHARACTERISTIC_CONST OR IL2C_CHARACTERISTIC_ACQUIRED_MONITOR_LOCK) \<noteq> 0)
      (let a = object_of pHeader; k = a mod 7 in
       case g_MonitorLockBlockInformations m ! k of
         None \<Rightarrow> Inr m
       | Some info \<Rightarrow>
           bind_result (il2c_enter_monitor_lock t (blockLock info)) (\<lambda>entered.
           bind_result (il2c_exit_monitor_lock t entered) (\<lambda>exited.
           case find_lock a False (blocks info) 0 of
             (b, FoundSlot i) \<Rightarrow>
               Inr (put_bucket k
                 ((put_lock b i NULL (il2c_destroy_monitor_lock (locks (blocks info ! b) ! i)) info)
                    \<lparr>blockLock := exited\<rparr>) m)
           | _ \<Rightarrow> il2c_assert (characteristic h AND IL2C_CHARACTERISTIC_CONST \<noteq> 0)
                   (Inr (put_bucket k (info\<lparr>blockLock := exited\<rparr>) m)))))))"

text \<open>
  The final shutdown destroys every lock and frees every bucket.  The first block is part
  of the bucket's allocation, so freeing it on the way to a second block is an error.
\<close>

definition release_bucket :: "monitor_lock_block_information option \<Rightarrow> monitor_lock_block_information option result" where
  "release_bucket bucket =
     (case bucket of
        None \<Rightarrow> Inr None
      | Some info \<Rightarrow> if length (blocks info) \<ge> 2 then Inl BadAccess else Inr None)"

fun release_buckets :: "monitor_lock_block_information option list
    \<Rightarrow> monitor_lock_block_information option list result" where
  "release_buckets [] = Inr []"
| "release_buckets (b # bs) =
     bind_result (release_bucket b) (\<lambda>b'. bind_result (release_buckets bs) (\<lambda>bs'. Inr (b' # bs')))"

definition il2c_release_all_monitor_lock_for_final_shutdown :: "machine \<Rightarrow> machine result" where
  "il2c_release_all_monitor_lock_for_final_shutdown m =
     bind_result (release_buckets (g_MonitorLockBlockInformations m))
       (\<lambda>bs. Inr (m\<lparr>g_MonitorLockBlockInformations := bs\<rparr>))"

section \<open>The table as a map from objects to mutexes\<close>

definition entries :: "monitor_lock_block_information \<Rightarrow> addr list" where
  "entries info = takeWhile (\<lambda>x. x \<noteq> NULL) (lock_refs (hd (blocks info)))"

definition monitor_of :: "machine \<Rightarrow> addr \<Rightarrow> monitor_lock option" where
  "monitor_of m a = (case g_MonitorLockBlockInformations m ! (a mod 7) of
     None \<Rightarrow> None
   | Some info \<Rightarrow> map_of (zip (entries info) (locks (hd (blocks info)))) a)"

text \<open>A bucket of one block, filled from its start with \<open>es\<close>, whose mutexes are \<open>ls\<close>.\<close>

definition bucket_shape :: "monitor_lock_block_information \<Rightarrow> addr list \<Rightarrow> monitor_lock list \<Rightarrow> bool" where
  "bucket_shape info es ls \<longleftrightarrow>
     blocks info = [\<lparr>lock_refs = es @ replicate (4 - length es) NULL, locks = ls\<rparr>] \<and>
     length es \<le> 4 \<and> length ls = 4 \<and> distinct es \<and> NULL \<notin> set es"

definition bucket_ok :: "addr set \<Rightarrow> nat \<Rightarrow> monitor_lock_block_information \<Rightarrow> bool" where
  "bucket_ok objs k info \<longleftrightarrow> lock_free (blockLock info) \<and>
     (\<exists>es ls. bucket_shape info es ls \<and> set es \<subseteq> {a \<in> objs. a mod 7 = k} \<and>
        (\<forall>i < length es. lock_alive (ls ! i)))"

definition flags_ok :: "machine \<Rightarrow> addr \<Rightarrow> bool" where
  "flags_ok m a \<longleftrightarrow> (\<exists>h. headers m (il2c_get_header a) = Some h \<and>
     (bit (characteristic h) 31 \<or> (bit (characteristic h) 27 \<longleftrightarrow> monitor_of m a \<noteq> None)))"

text \<open>
  The invariant, for the objects that are locked at all: every object has a header whose
  flag says whether it has a mutex, and no bucket has to hold more than four of them.
\<close>

definition monitors_ok :: "addr set \<Rightarrow> machine \<Rightarrow> bool" where
  "monitors_ok objs m \<longleftrightarrow> length (g_MonitorLockBlockInformations m) = 7 \<and>
     (\<forall>k < 7. \<forall>info. g_MonitorLockBlockInformations m ! k = Some info \<longrightarrow> bucket_ok objs k info) \<and>
     (\<forall>a \<in> objs. sizeof_REF_HEADER \<le> a \<and> flags_ok m a) \<and>
     finite objs \<and> (\<forall>k < 7. card {a \<in> objs. a mod 7 = k} \<le> 4)"

lemma find_slot_filled:
  assumes "NULL \<notin> set es" and "a \<noteq> NULL"
  shows "find_slot a alloc (es @ replicate n NULL) i =
    (if a \<in> set es then FoundSlot (i + length (takeWhile (\<lambda>x. x \<noteq> a) es))
     else if 0 < n \<and> alloc then FreeSlot (i + length es) else NoSlot)"
proof -
  have none: "find_slot a False (replicate n NULL) i = NoSlot" for i
    using assms(2) by (induction n arbitrary: i) auto
  have free: "find_slot a True (replicate n NULL) i = (if 0 < n then FreeSlot i else NoSlot)" for i
    using assms(2) by (cases n) auto
  show ?thesis
    using assms(1) by (induction es arbitrary: i) (cases alloc; auto simp: none free)+
qed

lemma first_index:
  "a \<in> set es \<Longrightarrow> length (takeWhile (\<lambda>x. x \<noteq> a) es) < length es \<and> es ! length (takeWhile (\<lambda>x. x \<noteq> a) es) = a"
  by (induction es) auto

lemma entries_shape: "bucket_shape info es ls \<Longrightarrow> entries info = es \<and> locks (hd (blocks info)) = ls"
proof -
  assume shape: "bucket_shape info es ls"
  have "takeWhile (\<lambda>x. x \<noteq> NULL) (replicate n NULL) = []" for n by (cases n) auto
  moreover have "\<forall>x \<in> set es. x \<noteq> NULL" using shape unfolding bucket_shape_def by metis
  ultimately show ?thesis using shape by (simp add: bucket_shape_def entries_def takeWhile_append2)
qed

lemma bucket_ok_shape:
  "bucket_shape info es ls \<Longrightarrow> bucket_ok objs k info \<longleftrightarrow> lock_free (blockLock info) \<and>
     set es \<subseteq> {a \<in> objs. a mod 7 = k} \<and> (\<forall>i < length es. lock_alive (ls ! i))"
proof -
  assume shape: "bucket_shape info es ls"
  show ?thesis
  proof
    assume "bucket_ok objs k info"
    then obtain es' ls' where *: "lock_free (blockLock info)" "bucket_shape info es' ls'"
        "set es' \<subseteq> {a \<in> objs. a mod 7 = k}" "\<forall>i < length es'. lock_alive (ls' ! i)"
      unfolding bucket_ok_def by blast
    moreover from *(2) have "es' = es" "ls' = ls"
      using entries_shape [OF shape] entries_shape [OF *(2)] by simp_all
    ultimately show "lock_free (blockLock info) \<and> set es \<subseteq> {a \<in> objs. a mod 7 = k} \<and>
        (\<forall>i < length es. lock_alive (ls ! i))" by simp
  next
    assume "lock_free (blockLock info) \<and> set es \<subseteq> {a \<in> objs. a mod 7 = k} \<and>
        (\<forall>i < length es. lock_alive (ls ! i))"
    with shape show "bucket_ok objs k info" unfolding bucket_ok_def by blast
  qed
qed

lemma map_of_zip_update:
  "distinct es \<Longrightarrow> i < length es \<Longrightarrow> length es \<le> length ls \<Longrightarrow>
   map_of (zip es (ls[i := l])) = (map_of (zip es ls))(es ! i \<mapsto> l)"
proof (induction es arbitrary: i ls)
  case (Cons e es)
  then obtain x xs where "ls = x # xs" by (cases ls) auto
  with Cons show ?case by (cases i) (auto simp: fun_eq_iff)
qed simp

lemma map_of_zip_extend:
  "e \<notin> set es \<Longrightarrow> length es < length ls \<Longrightarrow>
   map_of (zip (es @ [e]) (ls[length es := l])) = (map_of (zip es ls))(e \<mapsto> l)"
proof (induction es arbitrary: ls)
  case Nil
  then show ?case by (cases ls) auto
next
  case (Cons x es)
  then obtain y ys where "ls = y # ys" by (cases ls) auto
  with Cons show ?case by (auto simp: fun_upd_twist)
qed

lemma map_of_zip_in: "length es \<le> length ls \<Longrightarrow> map_of (zip es ls) a = None \<longleftrightarrow> a \<notin> set es"
proof -
  assume "length es \<le> length ls"
  then have "map fst (zip es ls) = es" by (simp add: map_fst_zip_take)
  then show ?thesis by (metis image_set map_of_eq_None_iff)
qed

lemma bucketE:
  assumes "monitors_ok objs m" and "a \<in> objs" and "g_MonitorLockBlockInformations m ! (a mod 7) = Some info"
  obtains es ls where "bucket_shape info es ls" "lock_free (blockLock info)"
    "set es \<subseteq> {x \<in> objs. x mod 7 = a mod 7}" "\<forall>i < length es. lock_alive (ls ! i)"
    "monitor_of m a = map_of (zip es ls) a"
proof -
  have "bucket_ok objs (a mod 7) info" using assms by (auto simp: monitors_ok_def)
  then obtain es ls where "bucket_shape info es ls" "lock_free (blockLock info)"
      "set es \<subseteq> {x \<in> objs. x mod 7 = a mod 7}" "\<forall>i < length es. lock_alive (ls ! i)"
    by (auto simp: bucket_ok_def)
  with assms(3) show ?thesis by (intro that) (simp_all add: monitor_of_def entries_shape)
qed

text \<open>Replacing one bucket of a well-formed table.\<close>

lemma put_bucket_fields [simp]:
  "headers (put_bucket k info m) = headers m" "vptrs (put_bucket k info m) = vptrs m"
  "g_MonitorLockBlockInformations (put_bucket k info m) = (g_MonitorLockBlockInformations m)[k := Some info]"
  by (simp_all add: put_bucket_def)

lemma monitor_of_put_bucket:
  assumes "length (g_MonitorLockBlockInformations m) = 7" and "bucket_shape info es ls"
    and "k < 7"
  shows "monitor_of (put_bucket k info m) x = (if x mod 7 = k then map_of (zip es ls) x else monitor_of m x)"
  using assms by (auto simp: monitor_of_def entries_shape)

lemma monitors_ok_put_bucket:
  assumes "monitors_ok objs m" and "k < 7" and "bucket_ok objs k info"
    and "\<forall>a \<in> objs. flags_ok (put_bucket k info m) a"
  shows "monitors_ok objs (put_bucket k info m)"
  using assms unfolding monitors_ok_def by (auto simp: nth_list_update)

lemma flags_ok_cong:
  "headers m' (il2c_get_header a) = headers m (il2c_get_header a) \<Longrightarrow>
   (monitor_of m' a = None \<longleftrightarrow> monitor_of m a = None) \<Longrightarrow> flags_ok m' a = flags_ok m a"
  by (simp add: flags_ok_def)

text \<open>Where an object's mutex is, when it has one.\<close>

definition monitor_at :: "machine \<Rightarrow> addr \<Rightarrow> nat \<times> nat \<times> nat \<Rightarrow> bool" where
  "monitor_at m a p \<longleftrightarrow> (\<exists>info es ls i. g_MonitorLockBlockInformations m ! (a mod 7) = Some info \<and>
     bucket_shape info es ls \<and> i < length es \<and> es ! i = a \<and> p = (a mod 7, 0, i))"

lemma monitor_at_lock:
  assumes "monitor_at m a p"
  shows "monitor_of m a = Some (lock_at m p)"
proof -
  from assms obtain info es ls i where *: "g_MonitorLockBlockInformations m ! (a mod 7) = Some info"
      "bucket_shape info es ls" "i < length es" "es ! i = a" "p = (a mod 7, 0, i)"
    by (auto simp: monitor_at_def)
  then have "length es \<le> length ls" "distinct es" by (auto simp: bucket_shape_def)
  then have "map_of (zip es ls) (es ! i) = Some (ls ! i)"
    using *(3) fun_cong [OF map_of_zip_update [of es i ls "ls ! i"], of "es ! i"] by simp
  with * show ?thesis by (simp add: monitor_of_def entries_shape lock_at_def)
      (simp add: bucket_shape_def)
qed

lemma put_lock_at_monitor:
  assumes ok: "monitors_ok objs m" and "a \<in> objs" and "monitor_at m a p" and "lock_alive l"
  shows "monitors_ok objs (put_lock_at m p l) \<and> monitor_of (put_lock_at m p l) = (monitor_of m)(a \<mapsto> l)"
proof -
  from assms(3) obtain info es ls i where *: "g_MonitorLockBlockInformations m ! (a mod 7) = Some info"
      "bucket_shape info es ls" "i < length es" "es ! i = a" "p = (a mod 7, 0, i)"
    by (auto simp: monitor_at_def)
  let ?info = "put_lock 0 i a l info"
  have shape: "bucket_shape ?info es (ls[i := l])"
    using *(2-4) by (auto simp: bucket_shape_def put_lock_def list_update_append)
  have put: "put_lock_at m p l = put_bucket (a mod 7) ?info m"
    using * by (auto simp: put_lock_at_def bucket_shape_def nth_append)
  have len: "length (g_MonitorLockBlockInformations m) = 7" using ok by (simp add: monitors_ok_def)
  have dist: "distinct es" "length es \<le> length ls" using *(2) by (auto simp: bucket_shape_def)
  have view: "monitor_of (put_lock_at m p l) = (monitor_of m)(a \<mapsto> l)"
  proof
    fix x
    have new: "monitor_of (put_lock_at m p l) x =
        (if x mod 7 = a mod 7 then map_of (zip es (ls[i := l])) x else monitor_of m x)"
      unfolding put using monitor_of_put_bucket [OF len shape] by simp
    show "monitor_of (put_lock_at m p l) x = ((monitor_of m)(a \<mapsto> l)) x"
    proof (cases "x mod 7 = a mod 7")
      case True
      then have "monitor_of m x = map_of (zip es ls) x"
        using *(1,2) by (simp add: monitor_of_def entries_shape)
      with new True map_of_zip_update [OF dist(1) *(3) dist(2), of l] show ?thesis
        by (simp add: *(4))
    next
      case False
      with new show ?thesis by auto
    qed
  qed
  have "bucket_ok objs (a mod 7) info" using ok *(1) by (auto simp: monitors_ok_def)
  then have "bucket_ok objs (a mod 7) ?info"
    unfolding bucket_ok_shape [OF shape] bucket_ok_shape [OF *(2)]
    using dist(2) *(3) assms(4) by (auto simp: put_lock_def nth_list_update)
  moreover have "\<forall>x \<in> objs. flags_ok (put_lock_at m p l) x"
  proof
    fix x assume "x \<in> objs"
    then have "flags_ok m x" using ok by (simp add: monitors_ok_def)
    moreover have "monitor_of m a \<noteq> None" using monitor_at_lock [OF assms(3)] by simp
    ultimately show "flags_ok (put_lock_at m p l) x"
      using flags_ok_cong [of "put_lock_at m p l" x m] view by (auto simp: put split: if_splits)
  qed
  ultimately have "monitors_ok objs (put_lock_at m p l)"
    using monitors_ok_put_bucket [OF ok] by (simp add: put)
  with view show ?thesis by simp
qed

section \<open>Acquisition\<close>

lemma flag_tests:
  "(c :: u64) AND (IL2C_CHARACTERISTIC_CONST OR IL2C_CHARACTERISTIC_ACQUIRED_MONITOR_LOCK) \<noteq> 0
     \<longleftrightarrow> bit c 31 \<or> bit c 27"
  "bit (c OR IL2C_CHARACTERISTIC_ACQUIRED_MONITOR_LOCK) n \<longleftrightarrow> bit c n \<or> n = 27"
  unfolding word_eq_iff_bits [of "c AND _"]
  by (auto simp: bit_and_iff bit_or_iff characteristic_simps intro: exI [of _ 31] exI [of _ 27])

lemma find_lock_shape:
  assumes "bucket_shape info es ls" and "a \<noteq> NULL"
  shows "find_lock a alloc (blocks info) 0 =
    (if a \<in> set es then (0, FoundSlot (length (takeWhile (\<lambda>x. x \<noteq> a) es)))
     else if length es < 4 \<and> alloc then (0, FreeSlot (length es)) else (Suc 0, NoSlot))"
  using assms by (auto simp: bucket_shape_def find_slot_filled)

text \<open>An object without a mutex finds a free slot.\<close>

lemma bucket_has_room:
  assumes "monitors_ok objs m" and "a \<in> objs" and "bucket_shape info es ls" and "a \<notin> set es"
    and "set es \<subseteq> {x \<in> objs. x mod 7 = a mod 7}"
  shows "length es < 4"
proof -
  have "finite {x \<in> objs. x mod 7 = a mod 7}" "card {x \<in> objs. x mod 7 = a mod 7} \<le> 4"
    using assms(1) by (auto simp: monitors_ok_def)
  moreover have "insert a (set es) \<subseteq> {x \<in> objs. x mod 7 = a mod 7}" using assms(2,5) by auto
  ultimately have "card (insert a (set es)) \<le> 4" by (meson card_mono le_trans)
  moreover have "card (set es) = length es"
    using assms(3) by (simp add: bucket_shape_def distinct_card)
  ultimately show ?thesis using assms(4) by simp
qed

lemma acquire_found:
  assumes ok: "monitors_ok objs m" and "a \<in> objs"
    and info: "g_MonitorLockBlockInformations m ! (a mod 7) = Some info"
    and found: "monitor_of m a \<noteq> None"
  shows "\<exists>p. acquire_in_bucket m t a alloc (a mod 7) info = Inr (m, Some p) \<and> monitor_at m a p"
proof -
  obtain es ls where *: "bucket_shape info es ls" "lock_free (blockLock info)"
      "monitor_of m a = map_of (zip es ls) a"
    using bucketE [OF ok assms(2) info] by metis
  have "length es \<le> length ls" using *(1) by (simp add: bucket_shape_def)
  with found *(3) have in_es: "a \<in> set es" by (simp add: map_of_zip_in)
  then have "a \<noteq> NULL" using *(1) by (auto simp: bucket_shape_def intro: ccontr)
  let ?i = "length (takeWhile (\<lambda>x. x \<noteq> a) es)"
  have at: "monitor_at m a (a mod 7, 0, ?i)"
    unfolding monitor_at_def using info *(1) first_index [OF in_es] by blast
  from ok assms(2) have "flags_ok m a" by (simp add: monitors_ok_def)
  then obtain h where h: "headers m (il2c_get_header a) = Some h"
      "bit (characteristic h) 31 \<or> bit (characteristic h) 27"
    using found by (auto simp: flags_ok_def)
  obtain l' where l': "il2c_enter_monitor_lock t (blockLock info) = Inr l'"
      "il2c_exit_monitor_lock t l' = Inr (blockLock info)"
    using enter_exit_free [OF *(2)] by blast
  have same: "put_bucket (a mod 7) info m = m"
    using info ok by (simp add: put_bucket_def monitors_ok_def list_update_same_conv)
  have "acquire_in_bucket m t a alloc (a mod 7) info = Inr (m, Some (a mod 7, 0, ?i))"
    using l' h find_lock_shape [OF *(1) \<open>a \<noteq> NULL\<close>, of alloc] in_es same
    by (simp add: acquire_in_bucket_def get_header_def flag_tests)
  with at show ?thesis by blast
qed

lemma acquire_new:
  assumes ok: "monitors_ok objs m" and "a \<in> objs"
    and info: "g_MonitorLockBlockInformations m ! (a mod 7) = Some info"
    and new: "monitor_of m a = None"
  shows "\<exists>m' p. acquire_in_bucket m t a True (a mod 7) info = Inr (m', Some p) \<and>
    monitors_ok objs m' \<and> monitor_of m' = (monitor_of m)(a \<mapsto> il2c_initialize_monitor_lock) \<and>
    monitor_at m' a p \<and> vptrs m' = vptrs m"
proof -
  obtain es ls where *: "bucket_shape info es ls" "lock_free (blockLock info)"
      "set es \<subseteq> {x \<in> objs. x mod 7 = a mod 7}" "\<forall>i < length es. lock_alive (ls ! i)"
      "monitor_of m a = map_of (zip es ls) a"
    using bucketE [OF ok assms(2) info] by metis
  have len: "length es \<le> length ls" using *(1) by (simp add: bucket_shape_def)
  with new *(5) have notin: "a \<notin> set es" by (simp add: map_of_zip_in)
  have room: "length es < 4" by (rule bucket_has_room [OF ok assms(2) *(1) notin *(3)])
  have large: "sizeof_REF_HEADER \<le> a" using ok assms(2) by (simp add: monitors_ok_def)
  then have "a \<noteq> NULL" by (auto simp: sizeof_REF_HEADER_def)
  obtain l' where l': "il2c_enter_monitor_lock t (blockLock info) = Inr l'"
      "il2c_exit_monitor_lock t l' = Inr (blockLock info)"
    using enter_exit_free [OF *(2)] by blast
  let ?l = il2c_initialize_monitor_lock
  let ?info = "put_lock 0 (length es) a ?l info"
  have shape: "bucket_shape ?info (es @ [a]) (ls[length es := ?l])"
  proof -
    have "(es @ replicate (4 - length es) NULL)[length es := a] = (es @ [a]) @ replicate (4 - length (es @ [a])) NULL"
      using room by (cases "4 - length es") (auto simp: list_update_append)
    then show ?thesis
      using *(1) room notin \<open>a \<noteq> NULL\<close> by (simp add: bucket_shape_def put_lock_def)
  qed
  from ok assms(2) obtain h where h: "headers m (il2c_get_header a) = Some h"
      "bit (characteristic h) 31 \<or> \<not> bit (characteristic h) 27"
    using new by (auto simp: monitors_ok_def flags_ok_def)
  obtain hs where hs: "mark_acquired m a = Inr (m\<lparr>headers := hs\<rparr>)"
      "\<And>x. sizeof_REF_HEADER \<le> x \<Longrightarrow> x \<noteq> a \<Longrightarrow> hs (il2c_get_header x) = headers m (il2c_get_header x)"
      "\<exists>h'. hs (il2c_get_header a) = Some h' \<and> (bit (characteristic h') 31 \<or> bit (characteristic h') 27)"
  proof (cases "bit (characteristic h) 31")
    case True
    with h show ?thesis
      by (intro that [of "headers m"]) (auto simp: mark_acquired_def get_header_def and_flag_zero_iff)
  next
    case False
    let ?c = "characteristic h OR IL2C_CHARACTERISTIC_ACQUIRED_MONITOR_LOCK"
    from False h show ?thesis
      by (intro that [of "(headers m)(il2c_get_header a := Some (h\<lparr>characteristic := ?c\<rparr>))"])
         (use large in \<open>auto simp: mark_acquired_def get_header_def and_flag_zero_iff set_characteristic_def
            il2c_get_header_def flag_tests\<close>)
  qed
  let ?m1 = "m\<lparr>headers := hs\<rparr>"
  define m' where "m' = put_bucket (a mod 7) ?info ?m1"
  have len7: "length (g_MonitorLockBlockInformations ?m1) = 7" using ok by (simp add: monitors_ok_def)
  have view: "monitor_of m' = (monitor_of m)(a \<mapsto> ?l)"
  proof
    fix x
    have now: "monitor_of m' x = (if x mod 7 = a mod 7
        then map_of (zip (es @ [a]) (ls[length es := ?l])) x else monitor_of ?m1 x)"
      unfolding m'_def by (rule monitor_of_put_bucket [OF len7 shape]) simp
    show "monitor_of m' x = ((monitor_of m)(a \<mapsto> ?l)) x"
    proof (cases "x mod 7 = a mod 7")
      case True
      then have "monitor_of m x = map_of (zip es ls) x"
        using info *(1) by (simp add: monitor_of_def entries_shape)
      with now True map_of_zip_extend [OF notin, of ls ?l] room *(1) show ?thesis
        by (simp add: bucket_shape_def)
    next
      case False
      with now show ?thesis by (auto simp: monitor_of_def)
    qed
  qed
  have "flags_ok m' x" if "x \<in> objs" for x
  proof (cases "x = a")
    case True
    with hs(3) view show ?thesis by (auto simp: flags_ok_def m'_def)
  next
    case False
    have "sizeof_REF_HEADER \<le> x" "flags_ok m x" using ok that by (auto simp: monitors_ok_def)
    with False hs(2) [of x] view show ?thesis
      using flags_ok_cong [of m' x m] by (simp add: m'_def)
  qed
  moreover have "bucket_ok objs (a mod 7) ?info"
    unfolding bucket_ok_shape [OF shape] using *(2-4) assms(2) room *(1)
    by (auto simp: put_lock_def nth_list_update bucket_shape_def il2c_initialize_monitor_lock_def
        nth_append less_Suc_eq)
  ultimately have ok': "monitors_ok objs m'"
    using ok unfolding monitors_ok_def by (auto simp: m'_def nth_list_update)
  have at: "monitor_at m' a (a mod 7, 0, length es)"
    unfolding monitor_at_def using shape len7
    by (intro exI [of _ ?info] exI [of _ "es @ [a]"] exI [of _ "ls[length es := ?l]"] exI [of _ "length es"])
       (simp add: m'_def)
  have same: "?info\<lparr>blockLock := blockLock info\<rparr> = ?info" by (simp add: put_lock_def)
  have "acquire_in_bucket m t a True (a mod 7) info = Inr (m', Some (a mod 7, 0, length es))"
    using l' hs(1) find_lock_shape [OF *(1) \<open>a \<noteq> NULL\<close>, of True] notin room same
    by (simp add: acquire_in_bucket_def m'_def)
  with ok' view at show ?thesis by (auto simp: m'_def)
qed

lemma fresh_bucket_ok:
  assumes ok: "monitors_ok objs m" and "k < 7" and none: "g_MonitorLockBlockInformations m ! k = None"
  shows "monitors_ok objs (put_bucket k new_block_information m) \<and>
    monitor_of (put_bucket k new_block_information m) = monitor_of m"
proof -
  have shape: "bucket_shape new_block_information [] (replicate 4 zero_lock)"
    by (simp add: bucket_shape_def new_block_information_def zero_block_def)
  have len: "length (g_MonitorLockBlockInformations m) = 7" using ok by (simp add: monitors_ok_def)
  have view: "monitor_of (put_bucket k new_block_information m) = monitor_of m"
    using monitor_of_put_bucket [OF len shape assms(2)] none by (auto simp: monitor_of_def)
  moreover have "bucket_ok objs k new_block_information"
    unfolding bucket_ok_shape [OF shape]
    by (simp add: new_block_information_def lock_free_def il2c_initialize_monitor_lock_def)
  moreover have "\<forall>a \<in> objs. flags_ok (put_bucket k new_block_information m) a"
    using ok view flags_ok_cong [of "put_bucket k new_block_information m" _ m]
    by (simp add: monitors_ok_def)
  ultimately show ?thesis using monitors_ok_put_bucket [OF ok assms(2)] by blast
qed

lemma il2c_acquire_monitor:
  assumes ok: "monitors_ok objs m" and "a \<in> objs"
    and "il2c_adjusted_reference m r = Inr a" and "r \<noteq> NULL"
    and "alloc \<or> monitor_of m a \<noteq> None"
  shows "\<exists>m' p. il2c_acquire_monitor_lock_from_objref m t r alloc = Inr (m', Some p) \<and>
    monitors_ok objs m' \<and> monitor_at m' a p \<and> vptrs m' = vptrs m \<and>
    monitor_of m' = (monitor_of m)(a \<mapsto> case monitor_of m a of Some l \<Rightarrow> l | None \<Rightarrow> il2c_initialize_monitor_lock)"
proof (cases "monitor_of m a")
  case (Some l)
  then obtain info where info: "g_MonitorLockBlockInformations m ! (a mod 7) = Some info"
    by (cases "g_MonitorLockBlockInformations m ! (a mod 7)") (auto simp: monitor_of_def)
  from acquire_found [OF ok assms(2) info] Some obtain p where
    "acquire_in_bucket m t a alloc (a mod 7) info = Inr (m, Some p)" "monitor_at m a p" by blast
  with info Some assms ok show ?thesis
    by (simp add: il2c_acquire_monitor_lock_from_objref_def fun_upd_idem)
next
  case None
  with assms(5) have alloc: "alloc" by simp
  show ?thesis
  proof (cases "g_MonitorLockBlockInformations m ! (a mod 7)")
    case (Some info)
    from acquire_new [OF ok assms(2) Some None, of t] None Some alloc assms(3,4) show ?thesis
      by (auto simp: il2c_acquire_monitor_lock_from_objref_def)
  next
    case fresh: None
    let ?m1 = "put_bucket (a mod 7) new_block_information m"
    have ok1: "monitors_ok objs ?m1" and view1: "monitor_of ?m1 = monitor_of m"
      using fresh_bucket_ok [OF ok _ fresh] by simp_all
    have info1: "g_MonitorLockBlockInformations ?m1 ! (a mod 7) = Some new_block_information"
      using ok by (simp add: monitors_ok_def)
    from acquire_new [OF ok1 assms(2) info1, of t] view1 None fresh alloc assms(3,4) show ?thesis
      by (auto simp: il2c_acquire_monitor_lock_from_objref_def)
  qed
qed

section \<open>Specification: a map of recursive mutexes\<close>

type_synonym monitors = "addr \<Rightarrow> monitor_lock option"

datatype monitor_operation = Enter int addr | TryEnter int addr | Exit int addr

primrec operation_object :: "monitor_operation \<Rightarrow> addr" where
  "operation_object (Enter t r) = r"
| "operation_object (TryEnter t r) = r"
| "operation_object (Exit t r) = r"

text \<open>The operations of the code; \<open>Some b\<close> is what \<open>TryEnter\<close> returns.\<close>

primrec run_monitor :: "monitor_operation \<Rightarrow> machine \<Rightarrow> (machine \<times> bool option) result" where
  "run_monitor (Enter t r) m = bind_result (Monitor_Enter m t r) (\<lambda>(m', _). Inr (m', None))"
| "run_monitor (TryEnter t r) m = bind_result (Monitor_TryEnter m t r) (\<lambda>(m', b). Inr (m', Some b))"
| "run_monitor (Exit t r) m = bind_result (Monitor_Exit m t r) (\<lambda>(m', _). Inr (m', None))"

text \<open>
  What they mean: each object has its own recursive mutex, initially free.  Exiting an
  object that was never entered is a violated assertion.
\<close>

definition mutex_of :: "monitors \<Rightarrow> addr \<Rightarrow> monitor_lock" where
  "mutex_of \<sigma> a = (case \<sigma> a of Some l \<Rightarrow> l | None \<Rightarrow> il2c_initialize_monitor_lock)"

primrec spec_monitor :: "(addr \<Rightarrow> addr) \<Rightarrow> monitor_operation \<Rightarrow> monitors \<Rightarrow> (monitors \<times> bool option) result" where
  "spec_monitor adj (Enter t r) \<sigma> =
     bind_result (il2c_enter_monitor_lock t (mutex_of \<sigma> (adj r))) (\<lambda>l. Inr (\<sigma>(adj r \<mapsto> l), None))"
| "spec_monitor adj (TryEnter t r) \<sigma> =
     bind_result (il2c_try_enter_monitor_lock t (mutex_of \<sigma> (adj r)))
       (\<lambda>(b, l). Inr (\<sigma>(adj r \<mapsto> l), Some b))"
| "spec_monitor adj (Exit t r) \<sigma> =
     (if \<sigma> (adj r) = None then Inl AssertionFailed else
      bind_result (il2c_exit_monitor_lock t (mutex_of \<sigma> (adj r))) (\<lambda>l. Inr (\<sigma>(adj r \<mapsto> l), None)))"

text \<open>A schedule: the operations of all threads in the order they take effect.\<close>

fun run_all :: "('o \<Rightarrow> 's \<Rightarrow> ('s \<times> 'r) result) \<Rightarrow> 'o list \<Rightarrow> 's \<Rightarrow> ('s \<times> 'r list) result" where
  "run_all f [] s = Inr (s, [])"
| "run_all f (x # xs) s = bind_result (f x s) (\<lambda>(s', r).
     bind_result (run_all f xs s') (\<lambda>(s'', rs). Inr (s'', r # rs)))"

definition abs_result :: "('s \<Rightarrow> 't) \<Rightarrow> ('s \<times> 'r) result \<Rightarrow> ('t \<times> 'r) result" where
  "abs_result g x = bind_result x (\<lambda>(s, r). Inr (g s, r))"

lemma abs_result_simps [simp]:
  "abs_result g (Inl e) = Inl e" "abs_result g (Inr (s, r)) = Inr (g s, r)"
  by (simp_all add: abs_result_def)

lemma with_monitor_refines:
  assumes ok: "monitors_ok objs m" and "a \<in> objs"
    and "il2c_adjusted_reference m r = Inr a" and "r \<noteq> NULL"
    and "alloc \<or> monitor_of m a \<noteq> None"
    and alive: "\<And>x l'. f (mutex_of (monitor_of m) a) = Inr (x, l') \<Longrightarrow> lock_alive l'"
  shows "abs_result monitor_of (with_monitor alloc m t r f) =
      bind_result (f (mutex_of (monitor_of m) a)) (\<lambda>(x, l). Inr ((monitor_of m)(a \<mapsto> l), x)) \<and>
    (\<forall>m' x. with_monitor alloc m t r f = Inr (m', x) \<longrightarrow> monitors_ok objs m' \<and> vptrs m' = vptrs m)"
proof -
  from il2c_acquire_monitor [OF assms(1-5), of t] obtain m1 p where m1:
      "il2c_acquire_monitor_lock_from_objref m t r alloc = Inr (m1, Some p)"
      "monitors_ok objs m1" "monitor_at m1 a p" "vptrs m1 = vptrs m"
      "monitor_of m1 = (monitor_of m)(a \<mapsto> mutex_of (monitor_of m) a)"
    unfolding mutex_of_def by blast
  have lock: "lock_at m1 p = mutex_of (monitor_of m) a"
    using monitor_at_lock [OF m1(3)] m1(5) by simp
  have "vptrs (put_lock_at m1 p l) = vptrs m1" for l
    by (cases p) (simp add: put_lock_at_def Let_def)
  with m1 lock alive put_lock_at_monitor [OF m1(2) assms(2) m1(3)] assms(4) show ?thesis
    by (cases p; cases "f (mutex_of (monitor_of m) a)") (auto simp: with_monitor_def)
qed

lemma mutex_alive:
  assumes "monitors_ok objs m" and "a \<in> objs"
  shows "lock_alive (mutex_of (monitor_of m) a)"
proof (cases "monitor_of m a")
  case None
  then show ?thesis by (simp add: mutex_of_def il2c_initialize_monitor_lock_def)
next
  case (Some l)
  then obtain info where info: "g_MonitorLockBlockInformations m ! (a mod 7) = Some info"
    by (cases "g_MonitorLockBlockInformations m ! (a mod 7)") (auto simp: monitor_of_def)
  from bucketE [OF assms info] obtain es ls where *: "bucket_shape info es ls"
      "\<forall>i < length es. lock_alive (ls ! i)" "monitor_of m a = map_of (zip es ls) a" by metis
  have "(a, l) \<in> set (zip es ls)" using Some *(3) map_of_SomeD by metis
  with *(2) Some show ?thesis by (auto simp: set_zip mutex_of_def)
qed

lemma enter_lock_alive: "il2c_enter_monitor_lock t l = Inr l' \<Longrightarrow> lock_alive l'"
  by (auto simp: il2c_enter_monitor_lock_def split: if_splits)

lemma try_enter_lock_alive: "il2c_try_enter_monitor_lock t l = Inr (b, l') \<Longrightarrow> lock_alive l'"
  by (auto simp: il2c_try_enter_monitor_lock_def split: if_splits)

lemma exit_lock_alive: "il2c_exit_monitor_lock t l = Inr l' \<Longrightarrow> lock_alive l'"
  by (auto simp: il2c_exit_monitor_lock_def split: if_splits)

text \<open>References to lockable objects and the objects they belong to.\<close>

definition refers_to :: "machine \<Rightarrow> (addr \<Rightarrow> addr) \<Rightarrow> addr set \<Rightarrow> addr \<Rightarrow> bool" where
  "refers_to m adj objs r \<longleftrightarrow> r \<noteq> NULL \<and> adj r \<in> objs \<and> il2c_adjusted_reference m r = Inr (adj r)"

lemma refers_to_vptrs: "vptrs m' = vptrs m \<Longrightarrow> refers_to m' adj objs r = refers_to m adj objs r"
  by (simp add: refers_to_def il2c_adjusted_reference_def)

lemma acquire_missing:
  assumes ok: "monitors_ok objs m" and "a \<in> objs"
    and "il2c_adjusted_reference m r = Inr a" and "r \<noteq> NULL" and none: "monitor_of m a = None"
  shows "\<exists>m'. il2c_acquire_monitor_lock_from_objref m t r False = Inr (m', None)"
proof (cases "g_MonitorLockBlockInformations m ! (a mod 7)")
  case None
  with assms(3,4) show ?thesis by (simp add: il2c_acquire_monitor_lock_from_objref_def)
next
  case (Some info)
  obtain es ls where *: "bucket_shape info es ls" "lock_free (blockLock info)"
      "monitor_of m a = map_of (zip es ls) a"
    using bucketE [OF ok assms(2) Some] by metis
  have "a \<notin> set es" using none *(1,3) by (simp add: map_of_zip_in bucket_shape_def)
  moreover have "a \<noteq> NULL" using ok assms(2) by (auto simp: monitors_ok_def sizeof_REF_HEADER_def)
  ultimately have "find_lock a False (blocks info) 0 = (Suc 0, NoSlot)"
    using find_lock_shape [OF *(1)] by simp
  with Some assms(3,4) enter_exit_free [OF *(2), of t] show ?thesis
    by (auto simp: il2c_acquire_monitor_lock_from_objref_def acquire_in_bucket_def)
qed

text \<open>An operation that returns nothing, read through the abstraction.\<close>

lemma unit_operation:
  assumes "abs_result g w = bind_result (bind_result x (\<lambda>l. Inr ((), l))) (\<lambda>(u, l). Inr (\<sigma> l, u)) \<and>
    (\<forall>m' u. w = Inr (m', u) \<longrightarrow> P m')"
  shows "abs_result g (bind_result w (\<lambda>(m', _). Inr (m', None))) = bind_result x (\<lambda>l. Inr (\<sigma> l, None)) \<and>
    (\<forall>m' r. bind_result w (\<lambda>(m', _). Inr (m', None)) = Inr (m', r) \<longrightarrow> P m')"
  using assms by (cases w; cases x) auto

lemma value_operation:
  assumes "abs_result g w = bind_result x (\<lambda>(b, l). Inr (\<sigma> l, b)) \<and>
    (\<forall>m' b. w = Inr (m', b) \<longrightarrow> P m')"
  shows "abs_result g (bind_result w (\<lambda>(m', b). Inr (m', Some b))) = bind_result x (\<lambda>(b, l). Inr (\<sigma> l, Some b)) \<and>
    (\<forall>m' r. bind_result w (\<lambda>(m', b). Inr (m', Some b)) = Inr (m', r) \<longrightarrow> P m')"
  using assms by (cases w; cases x) auto

lemma monitor_operation_refines:
  assumes ok: "monitors_ok objs m" and "refers_to m adj objs (operation_object x)"
  shows "abs_result monitor_of (run_monitor x m) = spec_monitor adj x (monitor_of m) \<and>
    (\<forall>m' r. run_monitor x m = Inr (m', r) \<longrightarrow> monitors_ok objs m' \<and> vptrs m' = vptrs m)"
proof -
  let ?r = "operation_object x" let ?a = "adj ?r"
  have r: "?a \<in> objs" "il2c_adjusted_reference m ?r = Inr ?a" "?r \<noteq> NULL"
    using assms(2) by (auto simp: refers_to_def)
  note refines = with_monitor_refines [OF ok r]
  show ?thesis
  proof (cases x)
    case (Enter t obj)
    let ?f = "\<lambda>l. bind_result (il2c_enter_monitor_lock t l) (\<lambda>l'. Inr ((), l'))"
    have alive: "\<And>y l'. ?f (mutex_of (monitor_of m) ?a) = Inr (y, l') \<Longrightarrow> lock_alive l'"
      by (auto dest: enter_lock_alive exit_lock_alive)
    from unit_operation [OF refines [of True ?f t, OF disjI1 [OF TrueI] alive]] Enter
    show ?thesis by (simp add: Monitor_Enter_def)
  next
    case (TryEnter t obj)
    let ?w = "with_monitor True m t obj (il2c_try_enter_monitor_lock t)"
    let ?x = "il2c_try_enter_monitor_lock t (mutex_of (monitor_of m) ?a)"
    have "abs_result monitor_of ?w = bind_result ?x (\<lambda>(y, l). Inr ((monitor_of m)(?a \<mapsto> l), y)) \<and>
        (\<forall>m' y. ?w = Inr (m', y) \<longrightarrow> monitors_ok objs m' \<and> vptrs m' = vptrs m)"
      using with_monitor_refines [OF ok r, of True "il2c_try_enter_monitor_lock t" t]
        try_enter_lock_alive TryEnter by (metis operation_object.simps(2))
    from value_operation [OF this] TryEnter show ?thesis
      by (simp add: Monitor_TryEnter_def)
  next
    case (Exit t obj)
    show ?thesis
    proof (cases "monitor_of m ?a = None")
      case True
      with Exit acquire_missing [OF ok r True, of t] r(3) show ?thesis
        by (auto simp: Monitor_Exit_def with_monitor_def)
    next
      case False
      let ?f = "\<lambda>l. bind_result (il2c_exit_monitor_lock t l) (\<lambda>l'. Inr ((), l'))"
      have alive: "\<And>y l'. ?f (mutex_of (monitor_of m) ?a) = Inr (y, l') \<Longrightarrow> lock_alive l'"
      by (auto dest: enter_lock_alive exit_lock_alive)
      from unit_operation [OF refines [of False ?f t, OF disjI2 [OF False] alive]] Exit False
      show ?thesis by (auto simp: Monitor_Exit_def)
    qed
  qed
qed

section \<open>Properties\<close>

text \<open>
  C7: for every schedule of Enter, TryEnter and Exit by any threads on objects that
  live in the table's invariant (headers flagged as the table says, at most four lockable
  objects in one bucket), the monitor table behaves as one recursive mutex per object:
  the schedule succeeds, fails or waits exactly as the specification says, every
  \<open>TryEnter\<close> returns what the specification returns, and the final table is the final
  map of mutexes.  References to an interface part of an object use the object's mutex.
\<close>

theorem monitor_schedule_refines:
  assumes "monitors_ok objs m" and "\<forall>x \<in> set ops. refers_to m adj objs (operation_object x)"
  shows "abs_result monitor_of (run_all run_monitor ops m) =
         run_all (spec_monitor adj) ops (monitor_of m)"
  using assms
proof (induction ops arbitrary: m)
  case (Cons x ops)
  then have step: "abs_result monitor_of (run_monitor x m) = spec_monitor adj x (monitor_of m)"
      "\<And>m' r. run_monitor x m = Inr (m', r) \<Longrightarrow> monitors_ok objs m' \<and> vptrs m' = vptrs m"
    using monitor_operation_refines [of objs m adj x] by auto
  show ?case
  proof (cases "run_monitor x m")
    case (Inl e)
    with step(1) show ?thesis by (metis abs_result_simps(1) bind_result_simps(1) run_all.simps(2))
  next
    case (Inr mr)
    obtain m' r where mr: "mr = (m', r)" by force
    with step(2) Inr have m': "monitors_ok objs m'" "vptrs m' = vptrs m" by auto
    have "run_all (spec_monitor adj) ops (monitor_of m') =
        abs_result monitor_of (run_all run_monitor ops m')"
      using Cons.IH [OF m'(1)] Cons.prems(2) refers_to_vptrs [OF m'(2)] by simp
    moreover have "spec_monitor adj x (monitor_of m) = Inr (monitor_of m', r)"
      using step(1) Inr mr by simp
    ultimately show ?thesis
      using Inr mr by (cases "run_all run_monitor ops m'") (auto simp: abs_result_def)
  qed
qed simp

text \<open>
  A schedule on two objects in one bucket: thread 1 enters both (the second twice),
  thread 2 fails to enter the first, thread 1 leaves it, and thread 2 succeeds.
\<close>

definition lock_objects :: machine where
  "lock_objects = empty_machine\<lparr>
     headers := (\<lambda>h. if h \<in> {676, 683} then Some \<lparr>pNext = NULL, htype = sample_derived, characteristic = 0x40000000\<rparr> else None),
     vptrs := (\<lambda>a. if a \<in> {700, 707} then Some \<lparr>adjustor_offset = 0, Finalize = System_Object_Finalize\<rparr>
               else if a = 708 then Some \<lparr>adjustor_offset = 8, Finalize = System_Object_Finalize\<rparr> else None)\<rparr>"

definition lock_schedule :: "monitor_operation list" where
  "lock_schedule = [Enter 1 700, Enter 1 707, Enter 1 707, TryEnter 2 708, Exit 1 700, TryEnter 2 700]"

lemma monitor_of_lock_objects: "monitor_of lock_objects a = None"
  by (simp add: monitor_of_def lock_objects_def empty_machine_def)

lemma lock_objects_ok: "monitors_ok {700, 707} lock_objects"
proof -
  have "card {a \<in> {700, 707 :: nat}. a mod 7 = k} \<le> 4" for k
  proof -
    have "{a \<in> {700, 707 :: nat}. a mod 7 = k} \<subseteq> {700, 707}" by auto
    then have "card {a \<in> {700, 707 :: nat}. a mod 7 = k} \<le> card {700, 707 :: nat}"
      by (intro card_mono) simp_all
    then show ?thesis by simp
  qed
  then show ?thesis
    by (simp add: monitors_ok_def flags_ok_def monitor_of_lock_objects)
       (simp add: lock_objects_def empty_machine_def sizeof_REF_HEADER_def il2c_get_header_def)
qed

theorem monitor_schedule_refines_witness:
  "map_sum id snd (run_all run_monitor lock_schedule lock_objects) =
     Inr [None, None, None, Some False, None, Some True]"
proof -
  let ?adj = "\<lambda>r. if r = 708 then 700 else r :: addr"
  have "monitors_ok {700, 707} lock_objects" by (rule lock_objects_ok)
  moreover have "\<forall>x \<in> set lock_schedule. refers_to lock_objects ?adj {700, 707} (operation_object x)"
    by (simp add: lock_schedule_def lock_objects_def refers_to_def il2c_adjusted_reference_def)
  ultimately have "abs_result monitor_of (run_all run_monitor lock_schedule lock_objects) =
      run_all (spec_monitor ?adj) lock_schedule (monitor_of lock_objects)"
    by (rule monitor_schedule_refines)
  moreover have "map_sum id snd (run_all (spec_monitor ?adj) lock_schedule (monitor_of lock_objects)) =
      Inr [None, None, None, Some False, None, Some True]"
    unfolding monitor_of_lock_objects [abs_def] by code_simp
  moreover have "map_sum id snd (abs_result g x) = map_sum id snd x" for g :: "machine \<Rightarrow> monitors" and x
    by (cases x) (auto simp: abs_result_def)
  ultimately show ?thesis by metis
qed

section \<open>Outside the invariant\<close>

text \<open>The fifth object of a bucket: the code writes past the arrays of the full block.\<close>

lemma full_bucket_overruns:
  assumes "bucket_shape info es ls" and "length es = 4" and "a \<notin> set es" and "a \<noteq> NULL"
    and "lock_free (blockLock info)"
  shows "acquire_in_bucket m t a True k info = Inl BadAccess"
  using enter_exit_free [OF assms(5), of t] find_lock_shape [OF assms(1,4), of True] assms(2,3)
  by (auto simp: acquire_in_bucket_def)

text \<open>
  After the collector has released a lock, the free slot hides the locks behind it: an
  object whose lock is behind it is taken for an object without one, and the flag it
  carries violates the code's own assertion.
\<close>

lemma freed_slot_hides_lock:
  assumes "blocks info = [\<lparr>lock_refs = [NULL, a, NULL, NULL], locks = ls\<rparr>]" and "a \<noteq> NULL"
    and "lock_free (blockLock info)" and "get_header m a = Inr h"
    and "\<not> bit (characteristic h) 31" and "bit (characteristic h) 27"
  shows "acquire_in_bucket m t a True k info = Inl AssertionFailed"
  using enter_exit_free [OF assms(3), of t] assms
  by (auto simp: acquire_in_bucket_def mark_acquired_def and_flag_zero_iff)

end
