(* ===== verification/GC_Mark.thy ===== *)
theory GC_Mark
  imports Root_References
begin

text \<open>
  The mark phase (src/Core/il2c_gc.c, step 2, with the custom mark handlers of
  System.Array, System.Delegate and System.Threading.Thread).

  The C functions call each other recursively through the native stack.  Here the
  traversal routines take the routine that marks one object as their first argument, and
  \<open>il2c_mark_handler_for_objref\<close> ties the knot with the number of nested calls the
  stack has room for: 0 is \<open>StackOverflow\<close>.
\<close>

section \<open>Headers\<close>

text \<open>
  \<open>TRY_GET_HEADER\<close>: the test that lets the traversal enter an object: it is not
  constant and not yet marked in this collection.
\<close>

definition TRY_GET_HEADER :: "machine \<Rightarrow> addr \<Rightarrow> bool result" where
  "TRY_GET_HEADER m a = bind_result (get_header m a) (\<lambda>h.
     Inr ((characteristic h AND (IL2C_CHARACTERISTIC_CONST OR IL2C_CHARACTERISTIC_MARK_INDEX))
            XOR IL2C_CHARACTERISTIC_MARK_INDEX = g_CollectionMarkIndex m))"

definition mark_adjusted :: "(machine \<Rightarrow> addr \<Rightarrow> machine result) \<Rightarrow> machine \<Rightarrow> addr \<Rightarrow> machine result" where
  "mark_adjusted mark m a =
     bind_result (TRY_GET_HEADER m a) (\<lambda>enter. if enter then mark m a else Inr m)"

definition il2c_default_mark_handler_for_objref ::
  "(machine \<Rightarrow> addr \<Rightarrow> machine result) \<Rightarrow> machine \<Rightarrow> addr \<Rightarrow> machine result" where
  "il2c_default_mark_handler_for_objref mark m pReference =
     il2c_assert (pReference \<noteq> NULL)
     (il2c_assert (1 \<le> g_ExecutingCollection m)
     (bind_result (il2c_adjusted_reference m pReference) (mark_adjusted mark m)))"

text \<open>The object reference held by a field or a slot, which may be unassigned.\<close>

definition mark_reference ::
  "(machine \<Rightarrow> addr \<Rightarrow> machine result) \<Rightarrow> machine \<Rightarrow> addr \<Rightarrow> machine result" where
  "mark_reference mark m pReference =
     (if pReference = NULL then Inr m
      else bind_result (il2c_adjusted_reference m pReference) (mark_adjusted mark m))"

section \<open>Traversal of values\<close>

abbreviation is_value_type :: "runtime_type \<Rightarrow> bool" where
  "is_value_type ty \<equiv> flags ty AND IL2C_TYPE_VALUE = IL2C_TYPE_VALUE"

abbreviation targets_size :: "(runtime_type option \<times> nat) list \<Rightarrow> nat" where
  "targets_size \<equiv> size_list (size_prod (size_option size) (\<lambda>_. 0))"

lemma targets_size_le: "targets_size (markTargets ty) \<le> size ty"
  by (cases ty) simp

text \<open>
  \<open>il2c_mark_handler_recursive__\<close> over the mark targets of a type: embedded values are
  traversed in turn, references are marked.
\<close>

function il2c_mark_handler_recursive ::
  "(machine \<Rightarrow> addr \<Rightarrow> machine result) \<Rightarrow> machine \<Rightarrow> addr \<Rightarrow>
   (runtime_type option \<times> nat) list \<Rightarrow> nat \<Rightarrow> machine result" where
  "il2c_mark_handler_recursive mark m pTarget [] offset = Inr m"
| "il2c_mark_handler_recursive mark m pTarget ((Some valueType, fieldOffset) # ts) offset =
     (let pTargetField = pTarget + fieldOffset + offset in
      il2c_assert (is_value_type valueType)
      (il2c_assert (pTargetField \<noteq> NULL)
      (bind_result (il2c_mark_handler_recursive mark m pTargetField (markTargets valueType) 0)
        (\<lambda>m'. il2c_mark_handler_recursive mark m' pTarget ts offset))))"
| "il2c_mark_handler_recursive mark m pTarget ((None, fieldOffset) # ts) offset =
     bind_result (mark_reference mark m (cells m (pTarget + fieldOffset + offset)))
       (\<lambda>m'. il2c_mark_handler_recursive mark m' pTarget ts offset)"
  by pat_completeness auto

termination
  by (relation "measure (\<lambda>(mark, m, pTarget, ts, offset). targets_size ts)")
     (auto simp: less_Suc_eq_le intro!: le_trans [OF targets_size_le])

definition il2c_mark_handler_for_value_type ::
  "(machine \<Rightarrow> addr \<Rightarrow> machine result) \<Rightarrow> machine \<Rightarrow> addr \<Rightarrow> runtime_type \<Rightarrow> machine result" where
  "il2c_mark_handler_for_value_type mark m pValue valueType =
     il2c_assert (pValue \<noteq> NULL)
     (il2c_assert (is_value_type valueType)
     (il2c_mark_handler_recursive mark m pValue (markTargets valueType) 0))"

definition il2c_default_mark_handler_for_value_type ::
  "(machine \<Rightarrow> addr \<Rightarrow> machine result) \<Rightarrow> machine \<Rightarrow> addr \<Rightarrow> runtime_type \<Rightarrow> machine result" where
  "il2c_default_mark_handler_for_value_type mark m pValue valueType =
     il2c_assert (pValue \<noteq> NULL)
     (il2c_assert (is_value_type valueType)
     (il2c_assert (1 \<le> g_ExecutingCollection m)
     (il2c_mark_handler_recursive mark m pValue (markTargets valueType) 0)))"

section \<open>Traversal of tracking blocks\<close>

fun mark_slots :: "(machine \<Rightarrow> addr \<Rightarrow> machine result) \<Rightarrow> machine \<Rightarrow> addr list \<Rightarrow> machine result" where
  "mark_slots mark m [] = Inr m"
| "mark_slots mark m (r # rs) =
     bind_result (mark_reference mark m r) (\<lambda>m'. mark_slots mark m' rs)"

fun mark_descriptors ::
  "(machine \<Rightarrow> addr \<Rightarrow> machine result) \<Rightarrow> machine \<Rightarrow> (runtime_type option \<times> addr) list \<Rightarrow> machine result" where
  "mark_descriptors mark m [] = Inr m"
| "mark_descriptors mark m ((type_value, ptr_value) # ds) =
     il2c_assert (ptr_value \<noteq> NULL)
     (case type_value of
        None \<Rightarrow> Inl AssertionFailed
      | Some ty \<Rightarrow>
          il2c_assert (is_value_type ty)
          (bind_result (il2c_mark_handler_for_value_type mark m ptr_value ty)
            (\<lambda>m'. mark_descriptors mark m' ds)))"

fun mark_frames ::
  "(machine \<Rightarrow> addr \<Rightarrow> machine result) \<Rightarrow> machine \<Rightarrow> tracking_information list \<Rightarrow> machine result" where
  "mark_frames mark m [] = Inr m"
| "mark_frames mark m (f # fs) =
     bind_result (mark_slots mark m (pReferences f)) (\<lambda>m1.
     bind_result (mark_descriptors mark m1 (valueDescriptors f)) (\<lambda>m2.
     mark_frames mark m2 fs))"

definition il2c_step2_mark_gcmark ::
  "(machine \<Rightarrow> addr \<Rightarrow> machine result) \<Rightarrow> machine \<Rightarrow> tracking_information list \<Rightarrow> machine result" where
  "il2c_step2_mark_gcmark mark m pBeginFrame =
     il2c_assert (1 \<le> g_ExecutingCollection m) (mark_frames mark m pBeginFrame)"

text \<open>Root slots hold adjusted references.\<close>

fun mark_root_slots :: "(machine \<Rightarrow> addr \<Rightarrow> machine result) \<Rightarrow> machine \<Rightarrow> addr list \<Rightarrow> machine result" where
  "mark_root_slots mark m [] = Inr m"
| "mark_root_slots mark m (a # as) =
     bind_result (if a = NULL then Inr m else mark_adjusted mark m a)
       (\<lambda>m'. mark_root_slots mark m' as)"

fun mark_root_blocks ::
  "(machine \<Rightarrow> addr \<Rightarrow> machine result) \<Rightarrow> machine \<Rightarrow> root_references list \<Rightarrow> machine result" where
  "mark_root_blocks mark m [] = Inr m"
| "mark_root_blocks mark m (blk # blks) =
     bind_result (mark_root_slots mark m (root_slots blk)) (\<lambda>m'. mark_root_blocks mark m' blks)"

definition il2c_step2_mark_gcmark_for_root_references ::
  "(machine \<Rightarrow> addr \<Rightarrow> machine result) \<Rightarrow> machine \<Rightarrow> root_references list \<Rightarrow> machine result" where
  "il2c_step2_mark_gcmark_for_root_references mark m pRootReferences =
     il2c_assert (1 \<le> g_ExecutingCollection m) (mark_root_blocks mark m pRootReferences)"

section \<open>Custom mark handlers\<close>

text \<open>The vtables the handlers check for.\<close>

definition System_Object_VTABLE :: vtable where
  "System_Object_VTABLE = \<lparr>adjustor_offset = 0, Finalize = System_Object_Finalize\<rparr>"

abbreviation System_Array_VTABLE :: vtable where "System_Array_VTABLE \<equiv> System_Object_VTABLE"
abbreviation System_Delegate_VTABLE :: vtable where "System_Delegate_VTABLE \<equiv> System_Object_VTABLE"

definition System_Threading_Thread_Finalize_code :: addr where
  "System_Threading_Thread_Finalize_code = 2"

definition System_Threading_Thread_VTABLE :: vtable where
  "System_Threading_Thread_VTABLE =
     \<lparr>adjustor_offset = 0, Finalize = System_Threading_Thread_Finalize_code\<rparr>"

definition has_vptr0 :: "machine \<Rightarrow> addr \<Rightarrow> vtable \<Rightarrow> bool" where
  "has_vptr0 m a vt \<longleftrightarrow> vptrs m a = Some vt"

text \<open>\<open>il2c_array_itemptr__\<close>: bounds-checked address of an element.\<close>

definition il2c_array_itemptr :: "machine \<Rightarrow> addr \<Rightarrow> nat \<Rightarrow> nat \<Rightarrow> addr result" where
  "il2c_array_itemptr m arr elementSize index =
     (case bodies m arr of
        ArrayBody elementType len \<Rightarrow>
          il2c_assert (has_vptr0 m arr System_Array_VTABLE)
          (il2c_assert (elementSize = il2c_sizeof elementType)
          (if len \<le> index then Inl IndexOutOfRangeException
           else Inr (arr + sizeof_Array + elementSize * index)))
      | _ \<Rightarrow> Inl BadAccess)"

text \<open>The element loop, \<open>n\<close> elements before the end.\<close>

fun mark_items ::
  "(machine \<Rightarrow> addr \<Rightarrow> machine result) \<Rightarrow> machine \<Rightarrow> addr \<Rightarrow> runtime_type \<Rightarrow> nat list \<Rightarrow> machine result" where
  "mark_items mark m arr elementType [] = Inr m"
| "mark_items mark m arr elementType (index # is) =
     bind_result
       (if flags elementType AND IL2C_TYPE_VALUE \<noteq> 0
        then bind_result (il2c_array_itemptr m arr (bodySize elementType) index)
               (\<lambda>pValue. il2c_default_mark_handler_for_value_type mark m pValue elementType)
        else bind_result (il2c_array_itemptr m arr sizeof_pointer index)
               (\<lambda>p. if cells m p \<noteq> NULL then il2c_default_mark_handler_for_objref mark m (cells m p)
                    else Inr m))
       (\<lambda>m'. mark_items mark m' arr elementType is)"

definition System_Array_MarkHandler ::
  "(machine \<Rightarrow> addr \<Rightarrow> machine result) \<Rightarrow> machine \<Rightarrow> addr \<Rightarrow> machine result" where
  "System_Array_MarkHandler mark m arr =
     (case bodies m arr of
        ArrayBody elementType len \<Rightarrow>
          il2c_assert (has_vptr0 m arr System_Array_VTABLE)
            (mark_items mark m arr elementType [0..<len])
      | _ \<Rightarrow> Inl BadAccess)"

fun mark_method_targets ::
  "(machine \<Rightarrow> addr \<Rightarrow> machine result) \<Rightarrow> machine \<Rightarrow> method_table list \<Rightarrow> machine result" where
  "mark_method_targets mark m [] = Inr m"
| "mark_method_targets mark m (mt # mts) =
     il2c_assert (methodPtr mt \<noteq> NULL)
     (bind_result
       (if target mt = NULL then Inr m else il2c_default_mark_handler_for_objref mark m (target mt))
       (\<lambda>m'. mark_method_targets mark m' mts))"

definition System_Delegate_MarkHandler ::
  "(machine \<Rightarrow> addr \<Rightarrow> machine result) \<Rightarrow> machine \<Rightarrow> addr \<Rightarrow> machine result" where
  "System_Delegate_MarkHandler mark m this =
     (case bodies m this of
        DelegateBody d \<Rightarrow>
          il2c_assert (has_vptr0 m this System_Delegate_VTABLE)
          (il2c_assert (1 \<le> delegate.count d)
          (if delegate.count d \<le> length (methodtbl d)
           then mark_method_targets mark m (take (delegate.count d) (methodtbl d))
           else Inl BadAccess))
      | _ \<Rightarrow> Inl BadAccess)"

definition System_Threading_Thread_MarkHandler ::
  "(machine \<Rightarrow> addr \<Rightarrow> machine result) \<Rightarrow> machine \<Rightarrow> addr \<Rightarrow> machine result" where
  "System_Threading_Thread_MarkHandler mark m thread =
     (case bodies m thread of
        ThreadBody t \<Rightarrow>
          il2c_assert (has_vptr0 m thread System_Threading_Thread_VTABLE)
          (bind_result
            (if start t \<noteq> NULL
             then bind_result (il2c_default_mark_handler_for_objref mark m (start t)) (\<lambda>m1.
                  if parameter t \<noteq> NULL
                  then il2c_default_mark_handler_for_objref mark m1 (parameter t) else Inr m1)
             else Inr m) (\<lambda>m2.
          bind_result
            (if pTemporaryReferenceAnchor t \<noteq> NULL
             then il2c_default_mark_handler_for_objref mark m2 (pTemporaryReferenceAnchor t)
             else Inr m2) (\<lambda>m3.
          if frames t \<noteq> [] then il2c_step2_mark_gcmark mark m3 (frames t) else Inr m3)))
      | _ \<Rightarrow> Inl BadAccess)"

primrec invoke_mark_handler ::
  "mark_handler \<Rightarrow> (machine \<Rightarrow> addr \<Rightarrow> machine result) \<Rightarrow> machine \<Rightarrow> addr \<Rightarrow> machine result" where
  "invoke_mark_handler ArrayMarkHandler = System_Array_MarkHandler"
| "invoke_mark_handler DelegateMarkHandler = System_Delegate_MarkHandler"
| "invoke_mark_handler ThreadMarkHandler = System_Threading_Thread_MarkHandler"

section \<open>Marking an object\<close>

primrec il2c_mark_handler_for_objref :: "nat \<Rightarrow> machine \<Rightarrow> addr \<Rightarrow> machine result" where
  "il2c_mark_handler_for_objref 0 m a = Inl StackOverflow"
| "il2c_mark_handler_for_objref (Suc n) m a =
     il2c_assert (a \<noteq> NULL)
     (bind_result (get_header m a) (\<lambda>h.
      let m' = set_characteristic m (il2c_get_header a)
                 (characteristic h XOR IL2C_CHARACTERISTIC_MARK_INDEX);
          type = htype h
      in if characteristic h AND IL2C_CHARACTERISTIC_MARK_INDEX = g_CollectionMarkIndex m then Inr m'
         else if flags type AND IL2C_TYPE_WITH_MARK_HANDLER = IL2C_TYPE_WITH_MARK_HANDLER
         then (case markHandler type of
                 None \<Rightarrow> Inl AssertionFailed
               | Some handler \<Rightarrow> invoke_mark_handler handler (il2c_mark_handler_for_objref n) m' a)
         else il2c_mark_handler_recursive (il2c_mark_handler_for_objref n) m' a (markTargets type)
                (if flags type AND IL2C_TYPE_VALUE \<noteq> 0 then sizeof_ValueType else 0)))"

text \<open>Step 2 of a collection: static fields, running threads, pinned objects.\<close>

definition mark_phase :: "nat \<Rightarrow> machine \<Rightarrow> machine result" where
  "mark_phase stack m =
     (let mark = il2c_mark_handler_for_objref stack in
      bind_result (il2c_step2_mark_gcmark mark m (g_pBeginStaticFields m)) (\<lambda>m1.
      bind_result (il2c_step2_mark_gcmark_for_root_references mark m1 (g_pRootReferences m1)) (\<lambda>m2.
      il2c_step2_mark_gcmark_for_root_references mark m2 (g_pFixedReferences m2))))"

section \<open>Marking changes headers only\<close>

definition same_heap :: "machine \<Rightarrow> machine \<Rightarrow> bool" where
  "same_heap m m' \<longleftrightarrow> (\<exists>hs. m' = m\<lparr>headers := hs\<rparr>)"

lemma same_heap_refl [simp]: "same_heap m m"
  by (auto simp: same_heap_def intro: exI [of _ "headers m"])

lemma same_heap_trans [trans]: "same_heap m m1 \<Longrightarrow> same_heap m1 m2 \<Longrightarrow> same_heap m m2"
  by (auto simp: same_heap_def)

lemma same_heap_fields:
  "same_heap m m' \<Longrightarrow> cells m' = cells m \<and> bodies m' = bodies m \<and> vptrs m' = vptrs m \<and>
     g_ExecutingCollection m' = g_ExecutingCollection m \<and>
     g_CollectionMarkIndex m' = g_CollectionMarkIndex m \<and>
     g_pRootReferences m' = g_pRootReferences m \<and> g_pFixedReferences m' = g_pFixedReferences m \<and>
     g_pBeginStaticFields m' = g_pBeginStaticFields m"
  by (auto simp: same_heap_def)

section \<open>The references of an object\<close>

text \<open>The addresses of the reference cells in a value, in the order of the traversal.\<close>

function value_slots :: "addr \<Rightarrow> (runtime_type option \<times> nat) list \<Rightarrow> nat \<Rightarrow> addr list" where
  "value_slots p [] offset = []"
| "value_slots p ((Some ty, o') # ts) offset =
     value_slots (p + o' + offset) (markTargets ty) 0 @ value_slots p ts offset"
| "value_slots p ((None, o') # ts) offset = (p + o' + offset) # value_slots p ts offset"
  by pat_completeness auto

termination
  by (relation "measure (\<lambda>(p, ts, offset). targets_size ts)")
     (auto simp: less_Suc_eq_le intro!: le_trans [OF targets_size_le])

text \<open>Embedded values are of value types, at every depth.\<close>

function targets_ok :: "(runtime_type option \<times> nat) list \<Rightarrow> bool" where
  "targets_ok [] = True"
| "targets_ok ((Some ty, o') # ts) =
     (is_value_type ty \<and> targets_ok (markTargets ty) \<and> targets_ok ts)"
| "targets_ok ((None, o') # ts) = targets_ok ts"
  by pat_completeness auto

termination
  by (relation "measure targets_size")
     (auto simp: less_Suc_eq_le intro!: le_trans [OF targets_size_le])

definition descriptor_refs :: "machine \<Rightarrow> runtime_type option \<times> addr \<Rightarrow> addr list" where
  "descriptor_refs m d = map (cells m) (value_slots (snd d) (markTargets (the (fst d))) 0)"

definition descriptor_ok :: "runtime_type option \<times> addr \<Rightarrow> bool" where
  "descriptor_ok d \<longleftrightarrow> snd d \<noteq> NULL \<and>
     (\<exists>ty. fst d = Some ty \<and> is_value_type ty \<and> targets_ok (markTargets ty))"

definition frame_refs :: "machine \<Rightarrow> tracking_information \<Rightarrow> addr list" where
  "frame_refs m f = pReferences f @ concat (map (descriptor_refs m) (valueDescriptors f))"

definition frame_ok :: "tracking_information \<Rightarrow> bool" where
  "frame_ok f \<longleftrightarrow> (\<forall>d \<in> set (valueDescriptors f). descriptor_ok d)"

definition item_refs :: "machine \<Rightarrow> addr \<Rightarrow> runtime_type \<Rightarrow> nat \<Rightarrow> addr list" where
  "item_refs m arr ty i =
     (if flags ty AND IL2C_TYPE_VALUE \<noteq> 0
      then map (cells m) (value_slots (arr + sizeof_Array + bodySize ty * i) (markTargets ty) 0)
      else [cells m (arr + sizeof_Array + sizeof_pointer * i)])"

definition thread_refs :: "machine \<Rightarrow> thread_body \<Rightarrow> addr list" where
  "thread_refs m t =
     (if start t \<noteq> NULL then [start t, parameter t] else []) @
     pTemporaryReferenceAnchor t # concat (map (frame_refs m) (frames t))"

definition has_handler :: "runtime_type \<Rightarrow> bool" where
  "has_handler ty \<longleftrightarrow> flags ty AND IL2C_TYPE_WITH_MARK_HANDLER = IL2C_TYPE_WITH_MARK_HANDLER"

text \<open>Every reference an object holds, unassigned ones included.\<close>

definition object_refs :: "machine \<Rightarrow> addr \<Rightarrow> runtime_type \<Rightarrow> addr list" where
  "object_refs m a ty =
     (if has_handler ty
      then (case bodies m a of
              PlainBody \<Rightarrow> []
            | ArrayBody et n \<Rightarrow> concat (map (item_refs m a et) [0..<n])
            | DelegateBody d \<Rightarrow> map target (take (delegate.count d) (methodtbl d))
            | ThreadBody t \<Rightarrow> thread_refs m t)
      else map (cells m) (value_slots a (markTargets ty)
             (if flags ty AND IL2C_TYPE_VALUE \<noteq> 0 then sizeof_ValueType else 0)))"

text \<open>An object is laid out as its type says: what the handlers assert of it.\<close>

definition object_ok :: "machine \<Rightarrow> addr \<Rightarrow> runtime_type \<Rightarrow> bool" where
  "object_ok m a ty \<longleftrightarrow> a \<noteq> NULL \<and>
     (if has_handler ty
      then (case bodies m a of
              PlainBody \<Rightarrow> False
            | ArrayBody et n \<Rightarrow> markHandler ty = Some ArrayMarkHandler \<and>
                has_vptr0 m a System_Array_VTABLE \<and> targets_ok (markTargets et)
            | DelegateBody d \<Rightarrow> markHandler ty = Some DelegateMarkHandler \<and>
                has_vptr0 m a System_Delegate_VTABLE \<and> 1 \<le> delegate.count d \<and>
                delegate.count d \<le> length (methodtbl d) \<and>
                (\<forall>mt \<in> set (take (delegate.count d) (methodtbl d)). methodPtr mt \<noteq> NULL)
            | ThreadBody t \<Rightarrow> markHandler ty = Some ThreadMarkHandler \<and>
                has_vptr0 m a System_Threading_Thread_VTABLE \<and> (\<forall>f \<in> set (frames t). frame_ok f))
      else targets_ok (markTargets ty))"

lemma value_flag_iff: "flags ty AND IL2C_TYPE_VALUE \<noteq> 0 \<longleftrightarrow> is_value_type ty"
proof -
  have "x AND 1 = 0 \<or> x AND 1 = (1 :: u64)" for x
    using and_one_eq [of x] by (auto simp: odd_iff_mod_2_eq_one mod2_eq_if)
  then show ?thesis unfolding IL2C_TYPE_VALUE_def by (metis zero_neq_one numeral_One)
qed

lemma refs_headers [simp]:
  "descriptor_refs (m\<lparr>headers := hs\<rparr>) = descriptor_refs m"
  "frame_refs (m\<lparr>headers := hs\<rparr>) = frame_refs m"
  "item_refs (m\<lparr>headers := hs\<rparr>) = item_refs m"
  "thread_refs (m\<lparr>headers := hs\<rparr>) = thread_refs m"
  "object_refs (m\<lparr>headers := hs\<rparr>) = object_refs m"
  "object_ok (m\<lparr>headers := hs\<rparr>) = object_ok m"
proof -
  show d: "descriptor_refs (m\<lparr>headers := hs\<rparr>) = descriptor_refs m"
    by (simp add: fun_eq_iff descriptor_refs_def)
  show f: "frame_refs (m\<lparr>headers := hs\<rparr>) = frame_refs m"
    by (intro ext) (simp add: frame_refs_def d)
  show i: "item_refs (m\<lparr>headers := hs\<rparr>) = item_refs m"
    by (simp add: fun_eq_iff item_refs_def)
  show t: "thread_refs (m\<lparr>headers := hs\<rparr>) = thread_refs m"
    by (simp add: fun_eq_iff thread_refs_def f)
  show "object_refs (m\<lparr>headers := hs\<rparr>) = object_refs m"
    by (intro ext) (simp add: object_refs_def i t split: object_body.split)
  show "object_ok (m\<lparr>headers := hs\<rparr>) = object_ok m"
    by (intro ext) (simp add: object_ok_def has_vptr0_def split: object_body.split)
qed

lemma same_heap_refs:
  "same_heap m m' \<Longrightarrow> descriptor_refs m' = descriptor_refs m \<and> frame_refs m' = frame_refs m \<and>
     item_refs m' = item_refs m \<and> thread_refs m' = thread_refs m"
  by (auto simp: same_heap_def)

text \<open>
  The contract of the routine that marks one object: whatever it marks, it changes
  headers only.  What a traversal routine does is proved once for any such routine.
\<close>

locale marker =
  fixes mark :: "machine \<Rightarrow> addr \<Rightarrow> machine result"
  assumes keeps_mark: "mark m a = Inr m' \<Longrightarrow> same_heap m m'"
begin

lemma keeps_adjusted: "mark_adjusted mark m a = Inr m' \<Longrightarrow> same_heap m m'"
  by (auto simp: mark_adjusted_def keeps_mark split: if_splits)

lemma keeps_default:
  "il2c_default_mark_handler_for_objref mark m r = Inr m' \<Longrightarrow> same_heap m m'"
  by (auto simp: il2c_default_mark_handler_for_objref_def keeps_adjusted)

lemma keeps_reference: "mark_reference mark m r = Inr m' \<Longrightarrow> same_heap m m'"
  by (auto simp: mark_reference_def keeps_adjusted split: if_splits)

lemma keeps_recursive:
  "il2c_mark_handler_recursive mark m p ts offset = Inr m' \<Longrightarrow> same_heap m m'"
  by (induction p ts offset arbitrary: m m' rule: value_slots.induct)
     (simp add: Let_def, (blast dest: keeps_reference intro: same_heap_trans)?)+

lemma keeps_value: "il2c_mark_handler_for_value_type mark m p ty = Inr m' \<Longrightarrow> same_heap m m'"
  "il2c_default_mark_handler_for_value_type mark m p ty = Inr m' \<Longrightarrow> same_heap m m'"
  by (auto simp: il2c_mark_handler_for_value_type_def il2c_default_mark_handler_for_value_type_def
      keeps_recursive)

lemma keeps_slots: "mark_slots mark m rs = Inr m' \<Longrightarrow> same_heap m m'"
  by (induction rs arbitrary: m) (auto dest!: keeps_reference intro: same_heap_trans)

lemma keeps_descriptors: "mark_descriptors mark m ds = Inr m' \<Longrightarrow> same_heap m m'"
proof (induction ds arbitrary: m)
  case (Cons d ds)
  obtain ty p where "d = (ty, p)" by force
  with Cons show ?case
    by (auto split: option.splits) (blast dest: keeps_value intro: same_heap_trans)
qed simp

lemma keeps_frames: "mark_frames mark m fs = Inr m' \<Longrightarrow> same_heap m m'"
  by (induction fs arbitrary: m) (auto dest!: keeps_slots keeps_descriptors intro: same_heap_trans)

lemma keeps_items: "mark_items mark m arr ty is = Inr m' \<Longrightarrow> same_heap m m'"
  by (induction "is" arbitrary: m)
     (auto dest!: keeps_value keeps_default intro: same_heap_trans split: if_splits)

lemma keeps_method_targets: "mark_method_targets mark m mts = Inr m' \<Longrightarrow> same_heap m m'"
  by (induction mts arbitrary: m) (auto dest!: keeps_default intro: same_heap_trans split: if_splits)

lemma keeps_handler: "invoke_mark_handler k mark m a = Inr m' \<Longrightarrow> same_heap m m'"
proof (cases k)
  case ArrayMarkHandler
  then show "invoke_mark_handler k mark m a = Inr m' \<Longrightarrow> same_heap m m'"
    by (auto simp: System_Array_MarkHandler_def keeps_items split: object_body.splits)
next
  case DelegateMarkHandler
  then show "invoke_mark_handler k mark m a = Inr m' \<Longrightarrow> same_heap m m'"
    by (auto simp: System_Delegate_MarkHandler_def keeps_method_targets
        split: object_body.splits if_splits)
next
  case ThreadMarkHandler
  then show "invoke_mark_handler k mark m a = Inr m' \<Longrightarrow> same_heap m m'"
    by (auto simp: System_Threading_Thread_MarkHandler_def il2c_step2_mark_gcmark_def
        dest!: keeps_default keeps_frames intro: same_heap_trans split: object_body.splits if_splits)
qed

lemma keeps_roots: "mark_root_slots mark m as = Inr m' \<Longrightarrow> same_heap m m'"
  by (induction as arbitrary: m) (auto dest!: keeps_adjusted intro: same_heap_trans split: if_splits)

end

context marker
begin

lemma mark_slots_append:
  "mark_slots mark m (xs @ ys) = bind_result (mark_slots mark m xs) (\<lambda>m'. mark_slots mark m' ys)"
  by (induction xs arbitrary: m) (auto simp: bind_result_assoc)

lemma recursive_slots:
  "targets_ok ts \<Longrightarrow> p \<noteq> NULL \<Longrightarrow>
   il2c_mark_handler_recursive mark m p ts offset =
     mark_slots mark m (map (cells m) (value_slots p ts offset))"
proof (induction p ts offset arbitrary: m rule: value_slots.induct)
  case (2 p ty o' ts offset)
  have "cells m' = cells m" if "mark_slots mark m rs = Inr m'" for m' rs
    using keeps_slots [OF that] by (simp add: same_heap_fields)
  with 2 show ?case
    by (simp add: mark_slots_append Let_def) (rule bind_result_cong, simp_all)
next
  case (3 p o' ts offset)
  have "cells m' = cells m" if "mark_reference mark m r = Inr m'" for m' r
    using keeps_reference [OF that] by (simp add: same_heap_fields)
  with 3 show ?case by simp (rule bind_result_cong, simp_all)
qed simp

lemma descriptors_slots:
  "\<forall>d \<in> set ds. descriptor_ok d \<Longrightarrow>
   mark_descriptors mark m ds = mark_slots mark m (concat (map (descriptor_refs m) ds))"
proof (induction ds arbitrary: m)
  case (Cons d ds)
  have same: "descriptor_refs m' = descriptor_refs m" if "mark_slots mark m rs = Inr m'" for m' rs
    using same_heap_refs [OF keeps_slots [OF that]] by simp
  obtain ty p where "d = (Some ty, p)" "is_value_type ty" "targets_ok (markTargets ty)" "p \<noteq> NULL"
    using Cons.prems by (cases d) (auto simp: descriptor_ok_def)
  then have "mark_descriptors mark m (d # ds) =
      bind_result (mark_slots mark m (descriptor_refs m d)) (\<lambda>m'. mark_descriptors mark m' ds)"
    by (simp add: il2c_mark_handler_for_value_type_def recursive_slots descriptor_refs_def)
  also have "\<dots> = bind_result (mark_slots mark m (descriptor_refs m d))
      (\<lambda>m'. mark_slots mark m' (concat (map (descriptor_refs m) ds)))"
    using Cons same by (intro bind_result_cong) auto
  finally show ?case by (simp add: mark_slots_append)
qed simp

lemma frames_slots:
  "\<forall>f \<in> set fs. frame_ok f \<Longrightarrow>
   mark_frames mark m fs = mark_slots mark m (concat (map (frame_refs m) fs))"
proof (induction fs arbitrary: m)
  case (Cons f fs)
  have same: "descriptor_refs m' = descriptor_refs m \<and> frame_refs m' = frame_refs m"
    if "mark_slots mark m rs = Inr m'" for m' rs m
    using same_heap_refs [OF keeps_slots [OF that]] by simp
  have "mark_frames mark m (f # fs) =
      bind_result (mark_slots mark m (pReferences f)) (\<lambda>m1.
      bind_result (mark_slots mark m1 (concat (map (descriptor_refs m) (valueDescriptors f))))
        (\<lambda>m2. mark_slots mark m2 (concat (map (frame_refs m) fs))))"
    using Cons same by (auto simp: descriptors_slots frame_ok_def intro!: bind_result_cong)
  then show ?case by (simp add: mark_slots_append frame_refs_def [of m f] bind_result_assoc)
qed simp

lemma default_reference:
  "1 \<le> g_ExecutingCollection m \<Longrightarrow>
   (if r \<noteq> NULL then il2c_default_mark_handler_for_objref mark m r else Inr m) = mark_reference mark m r"
  by (simp add: il2c_default_mark_handler_for_objref_def mark_reference_def)

lemma items_slots:
  assumes "bodies m arr = ArrayBody ty n" and "has_vptr0 m arr System_Array_VTABLE"
    and "targets_ok (markTargets ty)" and "1 \<le> g_ExecutingCollection m" and "\<forall>i \<in> set is. i < n"
  shows "mark_items mark m arr ty is = mark_slots mark m (concat (map (item_refs m arr ty) is))"
  using assms
proof (induction "is" arbitrary: m)
  case (Cons i "is")
  have same: "same_heap m m'" if "mark_slots mark m rs = Inr m'" for m' rs
    using keeps_slots [OF that] .
  have first: "(if flags ty AND IL2C_TYPE_VALUE \<noteq> 0
        then bind_result (il2c_array_itemptr m arr (bodySize ty) i)
               (\<lambda>pValue. il2c_default_mark_handler_for_value_type mark m pValue ty)
        else bind_result (il2c_array_itemptr m arr sizeof_pointer i)
               (\<lambda>p. if cells m p \<noteq> NULL then il2c_default_mark_handler_for_objref mark m (cells m p)
                    else Inr m)) = mark_slots mark m (item_refs m arr ty i)"
  proof (cases "flags ty AND IL2C_TYPE_VALUE = 0")
    case True
    with Cons.prems show ?thesis
      using default_reference [OF Cons.prems(4), of "cells m (arr + sizeof_Array + sizeof_pointer * i)"]
      by (simp add: il2c_array_itemptr_def il2c_sizeof_def item_refs_def)
  next
    case False
    then have "is_value_type ty" by (simp add: value_flag_iff)
    with False Cons.prems show ?thesis
      by (simp add: il2c_array_itemptr_def il2c_sizeof_def item_refs_def
          il2c_default_mark_handler_for_value_type_def recursive_slots sizeof_Array_def)
  qed
  have "mark_items mark m' arr ty is = mark_slots mark m' (concat (map (item_refs m arr ty) is))"
    if "mark_slots mark m rs = Inr m'" for m' rs
  proof -
    have fields: "bodies m' = bodies m" "vptrs m' = vptrs m"
        "g_ExecutingCollection m' = g_ExecutingCollection m" "item_refs m' = item_refs m"
      using same_heap_fields [OF same [OF that]] same_heap_refs [OF same [OF that]] by simp_all
    show ?thesis
      using Cons.IH [of m'] Cons.prems by (simp add: fields has_vptr0_def)
  qed
  then show ?case by (simp add: first mark_slots_append) (rule bind_result_cong, simp_all)
qed simp

lemma method_targets_slots:
  "\<forall>mt \<in> set mts. methodPtr mt \<noteq> NULL \<Longrightarrow> 1 \<le> g_ExecutingCollection m \<Longrightarrow>
   mark_method_targets mark m mts = mark_slots mark m (map target mts)"
proof (induction mts arbitrary: m)
  case (Cons mt mts)
  have "g_ExecutingCollection m' = g_ExecutingCollection m" if "mark_reference mark m r = Inr m'" for m' r
    using same_heap_fields [OF keeps_reference [OF that]] by simp
  moreover have "(if target mt = NULL then Inr m else il2c_default_mark_handler_for_objref mark m (target mt)) =
      mark_reference mark m (target mt)"
    using default_reference [OF Cons.prems(2), of "target mt"] by (simp split: if_splits)
  ultimately show ?case using Cons by simp (rule bind_result_cong, simp_all)
qed simp

lemma thread_slots:
  assumes "bodies m a = ThreadBody t" and "has_vptr0 m a System_Threading_Thread_VTABLE"
    and "\<forall>f \<in> set (frames t). frame_ok f" and "1 \<le> g_ExecutingCollection m"
  shows "System_Threading_Thread_MarkHandler mark m a = mark_slots mark m (thread_refs m t)"
proof -
  have exec: "1 \<le> g_ExecutingCollection m'" if "same_heap m m'" for m'
    using same_heap_fields [OF that] assms(4) by simp
  have one: "(if r \<noteq> NULL then il2c_default_mark_handler_for_objref mark m' r else Inr m') =
      mark_slots mark m' [r]" if "same_heap m m'" for m' r
    using default_reference [OF exec [OF that]] by simp
  have head: "(if start t \<noteq> NULL
      then bind_result (il2c_default_mark_handler_for_objref mark m (start t)) (\<lambda>m1.
        if parameter t \<noteq> NULL then il2c_default_mark_handler_for_objref mark m1 (parameter t) else Inr m1)
      else Inr m) = mark_slots mark m (if start t \<noteq> NULL then [start t, parameter t] else [])"
  proof (cases "start t = NULL")
    case False
    have "bind_result (il2c_default_mark_handler_for_objref mark m (start t)) (\<lambda>m1.
        if parameter t \<noteq> NULL then il2c_default_mark_handler_for_objref mark m1 (parameter t) else Inr m1) =
      bind_result (mark_slots mark m [start t]) (\<lambda>m1. mark_slots mark m1 [parameter t])"
    proof (rule bind_result_cong)
      show "il2c_default_mark_handler_for_objref mark m (start t) = mark_slots mark m [start t]"
        using one [OF same_heap_refl, of "start t"] False by simp
    next
      fix m1
      assume "mark_slots mark m [start t] = Inr m1"
      from one [OF keeps_slots [OF this], of "parameter t"]
      show "(if parameter t \<noteq> NULL then il2c_default_mark_handler_for_objref mark m1 (parameter t)
          else Inr m1) = mark_slots mark m1 [parameter t]" .
    qed
    with False mark_slots_append [of m "[start t]" "[parameter t]"] show ?thesis by simp
  qed simp
  have frames: "(if frames t \<noteq> [] then il2c_step2_mark_gcmark mark m' (frames t) else Inr m') =
      mark_slots mark m' (concat (map (frame_refs m) (frames t)))" if "same_heap m m'" for m'
    using exec [OF that] assms(3) same_heap_refs [OF that]
    by (simp add: il2c_step2_mark_gcmark_def frames_slots)
  let ?head = "if start t \<noteq> NULL then [start t, parameter t] else []"
  have "System_Threading_Thread_MarkHandler mark m a =
      bind_result (mark_slots mark m ?head) (\<lambda>m2.
      bind_result (if pTemporaryReferenceAnchor t \<noteq> NULL
             then il2c_default_mark_handler_for_objref mark m2 (pTemporaryReferenceAnchor t)
             else Inr m2) (\<lambda>m3.
      if frames t \<noteq> [] then il2c_step2_mark_gcmark mark m3 (frames t) else Inr m3))"
    unfolding System_Threading_Thread_MarkHandler_def assms(1) object_body.case head
    using assms(2) by (simp only: il2c_assert_simps)
  also have "\<dots> = bind_result (mark_slots mark m ?head) (\<lambda>m2.
      bind_result (mark_slots mark m2 [pTemporaryReferenceAnchor t]) (\<lambda>m3.
      mark_slots mark m3 (concat (map (frame_refs m) (frames t)))))"
  proof (intro bind_result_cong refl)
    fix m2 assume "mark_slots mark m ?head = Inr m2"
    then show "(if pTemporaryReferenceAnchor t \<noteq> NULL
        then il2c_default_mark_handler_for_objref mark m2 (pTemporaryReferenceAnchor t)
        else Inr m2) = mark_slots mark m2 [pTemporaryReferenceAnchor t]"
      by (intro one keeps_slots)
  next
    fix m2 m3
    assume "mark_slots mark m ?head = Inr m2" "mark_slots mark m2 [pTemporaryReferenceAnchor t] = Inr m3"
    then have "same_heap m m3" using keeps_slots same_heap_trans by blast
    then show "(if frames t \<noteq> [] then il2c_step2_mark_gcmark mark m3 (frames t) else Inr m3) =
        mark_slots mark m3 (concat (map (frame_refs m) (frames t)))" by (rule frames)
  qed
  finally show ?thesis
    unfolding thread_refs_def by (simp add: mark_slots_append)
qed

text \<open>The handlers mark the references of the object, one after the other.\<close>

lemma handler_slots:
  assumes "object_ok m a ty" and "has_handler ty" and "1 \<le> g_ExecutingCollection m"
  shows "\<exists>k. markHandler ty = Some k \<and> invoke_mark_handler k mark m a = mark_slots mark m (object_refs m a ty)"
proof (cases "bodies m a")
  case PlainBody
  with assms show ?thesis by (simp add: object_ok_def)
next
  case (ArrayBody et n)
  with assms show ?thesis
    using items_slots [OF ArrayBody, of "[0..<n]"]
    by (auto simp: object_ok_def object_refs_def System_Array_MarkHandler_def)
next
  case (DelegateBody d)
  with assms show ?thesis
    by (auto simp: object_ok_def object_refs_def System_Delegate_MarkHandler_def method_targets_slots)
next
  case (ThreadBody t)
  with assms show ?thesis
    by (auto simp: object_ok_def object_refs_def thread_slots)
qed

end

lemma same_heap_set_characteristic [simp]: "same_heap m (set_characteristic m p c)"
  by (auto simp: same_heap_def set_characteristic_def)

lemma marker_objref: "marker (il2c_mark_handler_for_objref n)"
proof (induction n)
  case 0
  show ?case by unfold_locales simp
next
  case (Suc n)
  show ?case
  proof
    fix m a m' assume run: "il2c_mark_handler_for_objref (Suc n) m a = Inr m'"
    then obtain h where h: "get_header m a = Inr h" by auto
    let ?m = "set_characteristic m (il2c_get_header a)
        (characteristic h XOR IL2C_CHARACTERISTIC_MARK_INDEX)"
    note keeps = marker.keeps_handler [OF Suc, of _ ?m a m']
      marker.keeps_recursive [OF Suc, of ?m a _ _ m'] same_heap_refl [of ?m]
    from run h have "same_heap ?m m'"
      by (simp add: Let_def split: if_splits option.splits) (auto intro: keeps)
    then show "same_heap m m'" using same_heap_trans same_heap_set_characteristic by blast
  qed
qed

interpretation objref: marker "il2c_mark_handler_for_objref n" for n
  by (rule marker_objref)

end
