(* ===== verification/GC_Reachability.thy ===== *)
theory GC_Reachability
  imports GC_Mark
begin

text \<open>
  The mark phase computes reachability: in a well-formed heap, with a native stack of
  more calls than there are objects to mark, step 2 of a collection ends without an
  error and marks exactly the objects that can be reached from the static fields, the
  running threads and the pinned objects through objects that are not constant.
\<close>

section \<open>The object graph\<close>

definition objects :: "machine \<Rightarrow> addr set" where
  "objects m = object_of ` dom (headers m)"

definition header_of :: "machine \<Rightarrow> addr \<Rightarrow> ref_header" where
  "header_of m a = the (headers m (il2c_get_header a))"

definition const_object :: "machine \<Rightarrow> addr \<Rightarrow> bool" where
  "const_object m a \<longleftrightarrow> bit (characteristic (header_of m a)) 31"

definition marked :: "machine \<Rightarrow> addr \<Rightarrow> bool" where
  "marked m a \<longleftrightarrow> (bit (characteristic (header_of m a)) 29 \<longleftrightarrow> bit (g_CollectionMarkIndex m) 29)"

text \<open>The objects that marking can still reach.\<close>

definition white :: "machine \<Rightarrow> addr set" where
  "white m = {a \<in> objects m. \<not> const_object m a \<and> \<not> marked m a}"

text \<open>The objects designated by raw references, unassigned ones dropped.\<close>

definition adjusted :: "machine \<Rightarrow> addr list \<Rightarrow> addr list" where
  "adjusted m rs = map (\<lambda>r. r - adjustor_offset (the (vptrs m r))) (filter (\<lambda>r. r \<noteq> NULL) rs)"

definition refs_valid :: "machine \<Rightarrow> addr list \<Rightarrow> bool" where
  "refs_valid m rs \<longleftrightarrow> (\<forall>r \<in> set rs. r \<noteq> NULL \<longrightarrow>
     (\<exists>vt. vptrs m r = Some vt \<and> r - adjustor_offset vt \<in> objects m))"

definition children :: "machine \<Rightarrow> addr \<Rightarrow> addr list" where
  "children m a = adjusted m (object_refs m a (htype (header_of m a)))"

definition heap_ok :: "machine \<Rightarrow> bool" where
  "heap_ok m \<longleftrightarrow> 1 \<le> g_ExecutingCollection m \<and> mark_index_ok (g_CollectionMarkIndex m) \<and>
     finite (dom (headers m)) \<and>
     (\<forall>a \<in> objects m. \<not> const_object m a \<longrightarrow> object_ok m a (htype (header_of m a)) \<and>
        refs_valid m (object_refs m a (htype (header_of m a))))"

text \<open>The machine with the mark bit of a set of objects inverted.\<close>

definition flip_mark :: "ref_header \<Rightarrow> ref_header" where
  "flip_mark h = h\<lparr>characteristic := characteristic h XOR IL2C_CHARACTERISTIC_MARK_INDEX\<rparr>"

definition mark_set :: "machine \<Rightarrow> addr set \<Rightarrow> machine" where
  "mark_set m W = m\<lparr>headers := (\<lambda>p. if object_of p \<in> W then map_option flip_mark (headers m p) else headers m p)\<rparr>"

lemma objectE:
  assumes "a \<in> objects m"
  obtains h where "headers m (il2c_get_header a) = Some h" "header_of m a = h"
    "object_of (il2c_get_header a) = a" "a \<noteq> NULL"
  using assms by (auto simp: objects_def header_of_def object_of_def sizeof_REF_HEADER_def il2c_get_header_def)

lemma mark_set_fields [simp]:
  "cells (mark_set m W) = cells m" "bodies (mark_set m W) = bodies m" "vptrs (mark_set m W) = vptrs m"
  "g_ExecutingCollection (mark_set m W) = g_ExecutingCollection m"
  "g_CollectionMarkIndex (mark_set m W) = g_CollectionMarkIndex m"
  "g_pBeginHeader (mark_set m W) = g_pBeginHeader m"
  "g_pRootReferences (mark_set m W) = g_pRootReferences m"
  "g_pFixedReferences (mark_set m W) = g_pFixedReferences m"
  "g_pBeginStaticFields (mark_set m W) = g_pBeginStaticFields m"
  "objects (mark_set m W) = objects m" "dom (headers (mark_set m W)) = dom (headers m)"
  "object_refs (mark_set m W) = object_refs m" "object_ok (mark_set m W) = object_ok m"
  "descriptor_refs (mark_set m W) = descriptor_refs m" "frame_refs (mark_set m W) = frame_refs m"
  by (auto simp: mark_set_def objects_def dom_def)

lemma flip_mark_fields [simp]:
  "htype (flip_mark h) = htype h" "pNext (flip_mark h) = pNext h"
  "bit (characteristic (flip_mark h)) n \<longleftrightarrow> (if n = 29 then \<not> bit (characteristic h) 29 else bit (characteristic h) n)"
  by (simp_all add: flip_mark_def)

lemma header_of_mark_set:
  assumes "a \<in> objects m"
  shows "header_of (mark_set m W) a = (if a \<in> W then flip_mark (header_of m a) else header_of m a)"
  using assms by (elim objectE) (auto simp: header_of_def mark_set_def)

lemma mark_set_object:
  assumes "a \<in> objects m"
  shows "const_object (mark_set m W) a = const_object m a"
    and "marked (mark_set m W) a \<longleftrightarrow> marked m a \<noteq> (a \<in> W)"
    and "htype (header_of (mark_set m W) a) = htype (header_of m a)"
    and "children (mark_set m W) a = children m a"
  using assms
  by (auto simp: const_object_def marked_def children_def adjusted_def header_of_mark_set)

lemma white_mark_set: "W \<subseteq> white m \<Longrightarrow> white (mark_set m W) = white m - W"
  using mark_set_object [of _ m W] by (auto simp: white_def)

lemma mark_set_empty [simp]: "mark_set m {} = m"
  by (simp add: mark_set_def)

lemma mark_set_Un:
  "A \<inter> B = {} \<Longrightarrow> mark_set (mark_set m A) B = mark_set m (A \<union> B)"
  by (intro machine.equality) (auto simp: mark_set_def fun_eq_iff)

lemma heap_ok_mark_set: "heap_ok m \<Longrightarrow> heap_ok (mark_set m W)"
  using mark_set_object [of _ m W] by (simp add: heap_ok_def refs_valid_def)

section \<open>Reachability\<close>

inductive reaches :: "machine \<Rightarrow> addr set \<Rightarrow> addr \<Rightarrow> bool" for m R where
  reaches_root: "a \<in> R \<Longrightarrow> a \<in> objects m \<Longrightarrow> \<not> const_object m a \<Longrightarrow> reaches m R a"
| reaches_child: "reaches m R x \<Longrightarrow> y \<in> set (children m x) \<Longrightarrow> y \<in> objects m \<Longrightarrow>
    \<not> const_object m y \<Longrightarrow> reaches m R y"

lemma reaches_object: "reaches m R x \<Longrightarrow> x \<in> objects m \<and> \<not> const_object m x"
  by (induction rule: reaches.induct) auto

lemma reaches_mono: "reaches m R x \<Longrightarrow> R \<subseteq> S \<Longrightarrow> reaches m S x"
  by (induction rule: reaches.induct) (auto intro: reaches.intros)

lemma reaches_through:
  assumes "reaches m (set (children m a)) x" and "reaches m R a"
  shows "reaches m R x"
  using assms by (induction rule: reaches.induct) (auto intro: reaches.intros)

lemma reaches_mark_set_le: "reaches (mark_set m W) R x \<Longrightarrow> reaches m R x"
proof (induction rule: reaches.induct)
  case (reaches_child x y)
  with reaches_object [OF reaches_child(1)] show ?case
    using mark_set_object [of _ m W] by (auto intro: reaches.intros(2))
qed (auto intro: reaches_root simp: mark_set_object)

lemma TRY_GET_HEADER_white:
  assumes "heap_ok m" and "a \<in> objects m"
  shows "TRY_GET_HEADER m a = Inr (a \<in> white m)"
proof -
  obtain h where "headers m (il2c_get_header a) = Some h" "header_of m a = h"
    using assms(2) by (rule objectE)
  with assms show ?thesis
    by (auto simp: TRY_GET_HEADER_def get_header_def heap_ok_def try_get_header_iff white_def
       const_object_def marked_def)
qed

lemma adjusted_objects: "refs_valid m rs \<Longrightarrow> set (adjusted m rs) \<subseteq> objects m"
  by (force simp: refs_valid_def adjusted_def)

lemma finite_white: "heap_ok m \<Longrightarrow> finite (white m)"
  by (simp add: heap_ok_def white_def objects_def)

lemma children_objects:
  "heap_ok m \<Longrightarrow> a \<in> objects m \<Longrightarrow> \<not> const_object m a \<Longrightarrow> y \<in> set (children m a) \<Longrightarrow> y \<in> objects m"
  using adjusted_objects unfolding heap_ok_def children_def by blast

section \<open>The traversal\<close>

text \<open>What marking the objects \<open>as\<close> does: it marks \<open>W\<close>.\<close>

definition covered :: "machine \<Rightarrow> addr set \<Rightarrow> addr \<Rightarrow> bool" where
  "covered m W a \<longleftrightarrow> const_object m a \<or> marked m a \<or> a \<in> W"

definition traced :: "machine \<Rightarrow> addr set \<Rightarrow> addr set \<Rightarrow> bool" where
  "traced m R W \<longleftrightarrow> W \<subseteq> white m \<and> (\<forall>a \<in> R. covered m W a) \<and>
     (\<forall>x \<in> W. \<forall>y \<in> set (children m x). covered m W y) \<and> (\<forall>x \<in> W. reaches m R x)"

lemma covered_mark_set:
  "a \<in> objects m \<Longrightarrow> A \<subseteq> white m \<Longrightarrow> covered (mark_set m A) B a \<longleftrightarrow> covered m (A \<union> B) a"
  by (auto simp: covered_def mark_set_object white_def)

text \<open>Two traversals after each other.\<close>

lemma traced_sequence:
  assumes ok: "heap_ok m" and first: "traced m R A" and second: "traced (mark_set m A) S B"
    and "R \<subseteq> objects m" and "S \<subseteq> objects m"
  shows "mark_set (mark_set m A) B = mark_set m (A \<union> B) \<and> traced m (R \<union> S) (A \<union> B)"
proof -
  have A: "A \<subseteq> white m" and B: "B \<subseteq> white m - A"
    using first second white_mark_set [of A m] by (auto simp: traced_def)
  have obj: "y \<in> objects m" if "x \<in> A \<union> B" "y \<in> set (children m x)" for x y
    using that A B children_objects [OF ok, of x y] by (auto simp: white_def)
  have "covered m (A \<union> B) y" if "x \<in> A \<union> B" "y \<in> set (children m x)" for x y
  proof (cases "x \<in> A")
    case True
    with first that show ?thesis by (auto simp: traced_def covered_def)
  next
    case False
    with that have "x \<in> B" by simp
    moreover have "x \<in> objects m" using B \<open>x \<in> B\<close> by (auto simp: white_def)
    ultimately have "covered (mark_set m A) B y"
      using second that(2) by (auto simp: traced_def mark_set_object)
    with covered_mark_set [OF obj [OF that] A] show ?thesis by simp
  qed
  moreover have "covered m (A \<union> B) a" if "a \<in> R \<union> S" for a
  proof (cases "a \<in> R")
    case True
    with first show ?thesis by (auto simp: traced_def covered_def)
  next
    case False
    with that assms(5) second covered_mark_set [of a m A B] A show ?thesis
      by (auto simp: traced_def)
  qed
  moreover have "reaches m (R \<union> S) x" if "x \<in> A \<union> B" for x
    using that first second reaches_mark_set_le [of m A S x] reaches_mono [of m R x "R \<union> S"]
      reaches_mono [of m S x "R \<union> S"] by (auto simp: traced_def)
  ultimately have "traced m (R \<union> S) (A \<union> B)" using A B by (auto simp: traced_def)
  with A B mark_set_Un [of A B m] show ?thesis by blast
qed

lemma traced_empty: "(\<forall>a \<in> R. covered m {} a) \<Longrightarrow> traced m R {}"
  by (simp add: traced_def)

text \<open>
  The contract of marking one object, for heaps with at most \<open>n\<close> objects to mark, and
  what the traversals make of it.
\<close>

definition marks_up_to :: "nat \<Rightarrow> (machine \<Rightarrow> addr \<Rightarrow> machine result) \<Rightarrow> bool" where
  "marks_up_to n mark \<longleftrightarrow> (\<forall>m a. heap_ok m \<longrightarrow> a \<in> white m \<longrightarrow> card (white m) \<le> n \<longrightarrow>
     (\<exists>W. mark m a = Inr (mark_set m W) \<and> traced m {a} W))"

lemma traced_roots:
  assumes mark: "marks_up_to n mark"
  shows "heap_ok m \<Longrightarrow> set as - {NULL} \<subseteq> objects m \<Longrightarrow> card (white m) \<le> n \<Longrightarrow>
    \<exists>W. mark_root_slots mark m as = Inr (mark_set m W) \<and> traced m (set as - {NULL}) W"
proof (induction as arbitrary: m)
  case Nil
  have "traced m {} {}" by (simp add: traced_empty)
  then show ?case using mark_set_empty by force
next
  case (Cons a as)
  show ?case
  proof (cases "a = NULL")
    case True
    with Cons show ?thesis by simp
  next
    case False
    with Cons.prems(2) have a: "a \<in> objects m" by auto
    have "\<exists>A. mark_adjusted mark m a = Inr (mark_set m A) \<and> traced m {a} A"
    proof (cases "a \<in> white m")
      case True
      with mark Cons.prems a TRY_GET_HEADER_white show ?thesis
        by (simp add: mark_adjusted_def marks_up_to_def)
    next
      case white: False
      then have "traced m {a} {}" using a by (auto simp: traced_def covered_def white_def)
      moreover have "mark_adjusted mark m a = Inr (mark_set m {})"
        using white TRY_GET_HEADER_white [OF Cons.prems(1) a] by (simp add: mark_adjusted_def)
      ultimately show ?thesis by blast
    qed
    then obtain A where A: "mark_adjusted mark m a = Inr (mark_set m A)" "traced m {a} A" by blast
    then have "A \<subseteq> white m" by (simp add: traced_def)
    then have "card (white (mark_set m A)) \<le> n"
      using Cons.prems(1,3) finite_white white_mark_set [of A m]
      by (metis Diff_subset card_mono le_trans)
    moreover have "set as - {NULL} \<subseteq> objects (mark_set m A)" using Cons.prems(2) by auto
    ultimately obtain B where
      B: "mark_root_slots mark (mark_set m A) as = Inr (mark_set (mark_set m A) B)"
        "traced (mark_set m A) (set as - {NULL}) B"
      using Cons.IH [OF heap_ok_mark_set [OF Cons.prems(1)]] by blast
    have "set (a # as) - {NULL} = {a} \<union> (set as - {NULL})" using False by auto
    with traced_sequence [OF Cons.prems(1) A(2) B(2)] A(1) B(1) False a Cons.prems(2)
    show ?thesis by auto
  qed
qed

text \<open>The raw references of a slot list are marked through the objects they designate.\<close>

definition refs_adjustable :: "machine \<Rightarrow> addr list \<Rightarrow> bool" where
  "refs_adjustable m rs \<longleftrightarrow> (\<forall>r \<in> set rs. r \<noteq> NULL \<longrightarrow>
     (\<exists>vt. vptrs m r = Some vt \<and> r - adjustor_offset vt \<noteq> NULL))"

context marker
begin

lemma mark_slots_roots:
  "refs_adjustable m rs \<Longrightarrow> mark_slots mark m rs = mark_root_slots mark m (adjusted m rs)"
proof (induction rs arbitrary: m)
  case (Cons r rs)
  show ?case
  proof (cases "r = NULL")
    case True
    with Cons show ?thesis by (simp add: refs_adjustable_def mark_reference_def adjusted_def)
  next
    case False
    with Cons.prems obtain vt where vt: "vptrs m r = Some vt" "r - adjustor_offset vt \<noteq> NULL"
      by (auto simp: refs_adjustable_def)
    let ?a = "r - adjustor_offset vt"
    have rest: "mark_slots mark m' rs = mark_root_slots mark m' (adjusted m rs)"
      if "mark_adjusted mark m ?a = Inr m'" for m'
    proof -
      have "vptrs m' = vptrs m" using same_heap_fields [OF keeps_adjusted [OF that]] by simp
      then show ?thesis
        using Cons.IH [of m'] Cons.prems by (simp add: refs_adjustable_def adjusted_def)
    qed
    have "mark_slots mark m (r # rs) =
        bind_result (mark_adjusted mark m ?a) (\<lambda>m'. mark_slots mark m' rs)"
      using False vt by (simp add: mark_reference_def il2c_adjusted_reference_def)
    also have "\<dots> = bind_result (mark_adjusted mark m ?a) (\<lambda>m'. mark_root_slots mark m' (adjusted m rs))"
      using rest by (intro bind_result_cong refl)
    also have "\<dots> = mark_root_slots mark m (adjusted m (r # rs))"
      using False vt by (simp add: adjusted_def)
    finally show ?thesis .
  qed
qed (simp add: adjusted_def)

end

lemma refs_valid_adjustable: "refs_valid m rs \<Longrightarrow> refs_adjustable m rs"
  unfolding refs_valid_def refs_adjustable_def by (metis objectE)

text \<open>Following the raw references \<open>rs\<close> of a slot list.\<close>

lemma traced_slots:
  assumes "marker mark" and "marks_up_to n mark" and "heap_ok m" and "refs_valid m rs"
    and "card (white m) \<le> n"
  shows "\<exists>W. mark_slots mark m rs = Inr (mark_set m W) \<and> traced m (set (adjusted m rs)) W"
proof -
  have sub: "set (adjusted m rs) \<subseteq> objects m" using assms(4) by (rule adjusted_objects)
  then have "set (adjusted m rs) - {NULL} = set (adjusted m rs)" by (auto elim: objectE)
  with traced_roots [OF assms(2,3) _ assms(5), of "adjusted m rs"] sub
  show ?thesis
    using marker.mark_slots_roots [OF assms(1) refs_valid_adjustable [OF assms(4)]] by simp
qed

section \<open>Marking an object\<close>

lemma mark_single:
  assumes "a \<in> objects m"
  shows "set_characteristic m (il2c_get_header a)
      (characteristic (header_of m a) XOR IL2C_CHARACTERISTIC_MARK_INDEX) = mark_set m {a}"
proof -
  have *: "object_of (il2c_get_header a) = a" "headers m (il2c_get_header a) = Some (header_of m a)"
    using assms by (elim objectE; simp)+
  have "object_of p = a \<longleftrightarrow> p = il2c_get_header a" for p using *(1) by auto
  with * show ?thesis
    by (intro machine.equality) (auto simp: set_characteristic_def mark_set_def flip_mark_def fun_eq_iff)
qed

lemma objref_marks: "marks_up_to n (il2c_mark_handler_for_objref n)"
proof (induction n)
  case 0
  show ?case
    unfolding marks_up_to_def using finite_white by fastforce
next
  case (Suc n)
  show ?case
    unfolding marks_up_to_def
  proof (intro allI impI)
    fix m a assume ok: "heap_ok m" and a: "a \<in> white m" and le: "card (white m) \<le> Suc n"
    let ?h = "header_of m a" let ?ty = "htype ?h" let ?m = "mark_set m {a}"
    let ?refs = "object_refs m a ?ty"
    have obj: "a \<in> objects m" "\<not> const_object m a" "\<not> marked m a" using a by (auto simp: white_def)
    then have h: "get_header m a = Inr ?h" "a \<noteq> NULL"
      by (elim objectE; simp add: get_header_def)+
    have obj_ok: "object_ok m a ?ty" "refs_valid m ?refs" using ok obj by (auto simp: heap_ok_def)
    have idx: "mark_index_ok (g_CollectionMarkIndex m)" using ok by (simp add: heap_ok_def)
    have unmarked: "characteristic ?h AND IL2C_CHARACTERISTIC_MARK_INDEX \<noteq> g_CollectionMarkIndex m"
      using obj(3) marked_iff [OF idx] by (simp add: marked_def)
    have white: "white ?m = white m - {a}" using a by (simp add: white_mark_set)
    then have le': "card (white ?m) \<le> n" using le a finite_white [OF ok] by simp
    have ok': "heap_ok ?m" using ok by (rule heap_ok_mark_set)
    have handler: "il2c_mark_handler_for_objref (Suc n) m a =
        mark_slots (il2c_mark_handler_for_objref n) ?m ?refs"
    proof (cases "has_handler ?ty")
      case True
      with objref.handler_slots [of ?m a ?ty n] obj_ok(1) ok' obtain k where
        "markHandler ?ty = Some k" "invoke_mark_handler k (il2c_mark_handler_for_objref n) ?m a =
          mark_slots (il2c_mark_handler_for_objref n) ?m ?refs" by (auto simp: heap_ok_def)
      with True h unmarked mark_single [OF obj(1)] show ?thesis
        by (simp add: Let_def has_handler_def)
    next
      case False
      then have "targets_ok (markTargets ?ty)" using obj_ok(1) by (simp add: object_ok_def)
      with False h unmarked mark_single [OF obj(1)] show ?thesis
        by (simp add: Let_def has_handler_def objref.recursive_slots object_refs_def)
    qed
    have "refs_valid ?m ?refs" using obj_ok(2) by (simp add: refs_valid_def)
    from traced_slots [OF marker_objref Suc ok' this le'] obtain B where
      B: "mark_slots (il2c_mark_handler_for_objref n) ?m ?refs = Inr (mark_set ?m B)"
        "traced ?m (set (adjusted ?m ?refs)) B" by blast
    have children: "set (adjusted ?m ?refs) = set (children m a)"
      by (simp add: adjusted_def children_def)
    have B_white: "B \<subseteq> white m - {a}" using B(2) white by (simp add: traced_def)
    have cov: "covered ?m B y \<longleftrightarrow> covered m (insert a B) y" if "y \<in> objects m" for y
      using covered_mark_set [OF that, of "{a}" B] a by simp
    have "covered m (insert a B) y" if "x \<in> insert a B" "y \<in> set (children m x)" for x y
    proof -
      have "x \<in> white m" using that(1) B_white a by auto
      then have x: "x \<in> objects m" "\<not> const_object m x" by (auto simp: white_def)
      with that(2) ok children_objects have "y \<in> objects m" by blast
      moreover have "covered ?m B y"
        using that B(2) children x mark_set_object(4) [of x m "{a}"] by (auto simp: traced_def)
      ultimately show ?thesis using cov by simp
    qed
    moreover have "reaches m {a} a" using obj by (intro reaches_root) auto
    moreover have "reaches m {a} x" if "x \<in> B" for x
      using that B(2) children reaches_mark_set_le reaches_through \<open>reaches m {a} a\<close>
      by (metis traced_def)
    ultimately have "traced m {a} (insert a B)"
      using B_white a by (auto simp: traced_def covered_def)
    moreover have "mark_set ?m B = mark_set m (insert a B)"
      using mark_set_Un [of "{a}" B m] B_white by auto
    ultimately show "\<exists>W. il2c_mark_handler_for_objref (Suc n) m a = Inr (mark_set m W) \<and> traced m {a} W"
      using handler B(1) by metis
  qed
qed

section \<open>The mark phase\<close>

text \<open>The objects the collector starts from.\<close>

definition static_refs :: "machine \<Rightarrow> addr list" where
  "static_refs m = concat (map (frame_refs m) (g_pBeginStaticFields m))"

definition root_set :: "machine \<Rightarrow> addr set" where
  "root_set m = set (adjusted m (static_refs m)) \<union> registered (g_pRootReferences m) \<union>
     registered (g_pFixedReferences m)"

definition roots_valid :: "machine \<Rightarrow> bool" where
  "roots_valid m \<longleftrightarrow> (\<forall>f \<in> set (g_pBeginStaticFields m). frame_ok f) \<and>
     refs_valid m (static_refs m) \<and>
     registered (g_pRootReferences m) \<union> registered (g_pFixedReferences m) \<subseteq> objects m"

lemma mark_root_slots_append:
  "mark_root_slots mark m (as @ bs) =
     bind_result (mark_root_slots mark m as) (\<lambda>m'. mark_root_slots mark m' bs)"
  by (induction as arbitrary: m) (auto simp: bind_result_assoc)

lemma mark_root_blocks_slots: "mark_root_blocks mark m blks = mark_root_slots mark m (all_slots blks)"
  by (induction blks arbitrary: m) (auto simp: mark_root_slots_append)

lemma traced_complete:
  assumes ok: "heap_ok m" and fresh: "\<forall>a \<in> objects m. \<not> const_object m a \<longrightarrow> \<not> marked m a"
    and "R \<subseteq> objects m" and traced: "traced m R W"
  shows "W = {a. reaches m R a}"
proof
  show "W \<subseteq> {a. reaches m R a}" using traced by (auto simp: traced_def)
  have "a \<in> W" if "reaches m R a" for a
    using that
  proof (induction rule: reaches.induct)
    case (reaches_root a)
    with traced fresh show ?case by (auto simp: traced_def covered_def)
  next
    case (reaches_child x y)
    then have "covered m W y" using traced unfolding traced_def by blast
    with reaches_child fresh show ?case by (simp add: covered_def)
  qed
  then show "{a. reaches m R a} \<subseteq> W" by auto
qed

lemma mark_phase_result:
  assumes "heap_ok m" and "roots_valid m"
    and "\<forall>a \<in> objects m. \<not> const_object m a \<longrightarrow> \<not> marked m a"
    and "card (white m) \<le> stack"
  shows "mark_phase stack m = Inr (mark_set m {a. reaches m (root_set m) a})"
proof -
  let ?mark = "il2c_mark_handler_for_objref stack"
  have valid: "\<forall>f \<in> set (g_pBeginStaticFields m). frame_ok f" "refs_valid m (static_refs m)"
    "registered (g_pRootReferences m) \<subseteq> objects m" "registered (g_pFixedReferences m) \<subseteq> objects m"
    using assms(2) by (auto simp: roots_valid_def)
  have card: "card (white (mark_set m A)) \<le> stack" if "A \<subseteq> white m" for A
    using assms(1,4) that finite_white white_mark_set [of A m] by (metis Diff_subset card_mono le_trans)
  obtain A where A: "mark_slots ?mark m (static_refs m) = Inr (mark_set m A)"
      "traced m (set (adjusted m (static_refs m))) A"
    using traced_slots [OF marker_objref objref_marks assms(1) valid(2) assms(4)] by blast
  then have "A \<subseteq> white m" by (simp add: traced_def)
  have slots: "set (all_slots blks) - {NULL} = registered blks" for blks
    by (auto simp: registered_def)
  obtain B where B: "mark_root_slots ?mark (mark_set m A) (all_slots (g_pRootReferences m)) =
        Inr (mark_set (mark_set m A) B)" "traced (mark_set m A) (registered (g_pRootReferences m)) B"
    using traced_roots [OF objref_marks heap_ok_mark_set [OF assms(1)] _ card [OF \<open>A \<subseteq> white m\<close>],
        of "all_slots (g_pRootReferences m)"] valid(3) by (auto simp: slots)
  have AB: "mark_set (mark_set m A) B = mark_set m (A \<union> B)"
      "traced m (set (adjusted m (static_refs m)) \<union> registered (g_pRootReferences m)) (A \<union> B)"
    using traced_sequence [OF assms(1) A(2) B(2) adjusted_objects [OF valid(2)] valid(3)] by auto
  then have "A \<union> B \<subseteq> white m" by (simp add: traced_def)
  obtain C where C: "mark_root_slots ?mark (mark_set m (A \<union> B)) (all_slots (g_pFixedReferences m)) =
        Inr (mark_set (mark_set m (A \<union> B)) C)"
      "traced (mark_set m (A \<union> B)) (registered (g_pFixedReferences m)) C"
    using traced_roots [OF objref_marks heap_ok_mark_set [OF assms(1)] _ card [OF \<open>A \<union> B \<subseteq> white m\<close>],
        of "all_slots (g_pFixedReferences m)"] valid(4) by (auto simp: slots)
  have roots: "root_set m \<subseteq> objects m" "set (adjusted m (static_refs m)) \<union> registered (g_pRootReferences m) \<subseteq> objects m"
    using adjusted_objects [OF valid(2)] valid(3,4) by (auto simp: root_set_def)
  have ABC: "mark_set (mark_set m (A \<union> B)) C = mark_set m (A \<union> B \<union> C)"
      "traced m (root_set m) (A \<union> B \<union> C)"
    using traced_sequence [OF assms(1) AB(2) C(2) roots(2) valid(4)] by (auto simp: root_set_def)
  have "1 \<le> g_ExecutingCollection m" using assms(1) by (simp add: heap_ok_def)
  then have "mark_phase stack m = Inr (mark_set m (A \<union> B \<union> C))"
    using A(1) B(1) C(1) AB(1) ABC(1) valid(1)
    by (simp add: mark_phase_def il2c_step2_mark_gcmark_def il2c_step2_mark_gcmark_for_root_references_def
        mark_root_blocks_slots objref.frames_slots static_refs_def Let_def)
  with traced_complete [OF assms(1,3) roots(1) ABC(2)] show ?thesis by simp
qed

text \<open>
  C3: Marking is exact and total.  Take a well-formed heap in which no object is marked
  yet (what flipping the mark index at the start of a collection makes of the heap the
  previous one left), valid roots, and a native stack with room for as many nested calls
  as there are objects to mark.  Then the mark phase returns without error, and the only
  thing it changes is the mark bit of exactly those objects that are reachable from the
  static fields, the running threads' objects and the pinned objects, through object
  fields, array elements, delegate targets and thread frames, through objects that are
  not constant.
\<close>

theorem mark_phase_exact:
  assumes "heap_ok m" and "roots_valid m"
    and "\<forall>a \<in> objects m. \<not> const_object m a \<longrightarrow> \<not> marked m a"
    and "card (white m) \<le> stack"
  shows "mark_phase stack m = Inr (mark_set m {a. reaches m (root_set m) a})"
  using assms by (rule mark_phase_result)

text \<open>
  A static field holds an object whose field holds a one-element array holding the first
  object again; a third object is garbage.
\<close>

definition sample_array_type :: runtime_type where
  "sample_array_type = RuntimeType 4 ''System.Array'' 0x0C 0 None (Some System_Array_VTABLE)
     (Some ArrayMarkHandler) [] []"

definition sample_heap :: machine where
  "sample_heap = empty_machine\<lparr>
     headers := [976 \<mapsto> \<lparr>pNext = 1976, htype = sample_base, characteristic = 0x40000000\<rparr>,
                 1976 \<mapsto> \<lparr>pNext = 2976, htype = sample_array_type, characteristic = 0x40000000\<rparr>,
                 2976 \<mapsto> \<lparr>pNext = NULL, htype = sample_base, characteristic = 0x40000000\<rparr>],
     vptrs := [1000 \<mapsto> System_Object_VTABLE, 2000 \<mapsto> System_Array_VTABLE, 3000 \<mapsto> System_Object_VTABLE],
     cells := (\<lambda>_. NULL)(1008 := 2000, 2024 := 1000),
     bodies := (\<lambda>_. PlainBody)(2000 := ArrayBody sample_base 1),
     g_pBeginHeader := 976,
     g_pBeginStaticFields := [\<lparr>frame_addr = 16, pReferences = [1000], valueDescriptors = []\<rparr>],
     g_CollectionMarkIndex := IL2C_CHARACTERISTIC_MARK_INDEX,
     g_ExecutingCollection := 1\<rparr>"

lemma sample_objects: "objects sample_heap = {1000, 2000, 3000}"
  by (auto simp: objects_def sample_heap_def dom_def object_of_def sizeof_REF_HEADER_def image_iff
      split: if_splits)

lemma sample_header_of [simp]:
  "header_of sample_heap 1000 = \<lparr>pNext = 1976, htype = sample_base, characteristic = 0x40000000\<rparr>"
  "header_of sample_heap 2000 = \<lparr>pNext = 2976, htype = sample_array_type, characteristic = 0x40000000\<rparr>"
  "header_of sample_heap 3000 = \<lparr>pNext = NULL, htype = sample_base, characteristic = 0x40000000\<rparr>"
  by (simp_all add: header_of_def il2c_get_header_def sample_heap_def sizeof_REF_HEADER_def)

lemma sample_refs [simp]:
  "object_refs sample_heap 1000 sample_base = [2000]"
  "object_refs sample_heap 2000 sample_array_type = [1000]"
  "object_refs sample_heap 3000 sample_base = [NULL]"
  by (simp_all add: object_refs_def has_handler_def sample_heap_def sample_base_def sample_array_type_def
      IL2C_TYPE_WITH_MARK_HANDLER_def IL2C_TYPE_VALUE_def item_refs_def sizeof_Array_def)

lemma sample_marks:
  "a \<in> objects sample_heap \<Longrightarrow> \<not> const_object sample_heap a \<and> \<not> marked sample_heap a"
  by (auto simp: sample_objects const_object_def marked_def) (simp_all add: sample_heap_def bit_flags)

lemma sample_object_ok:
  "object_ok sample_heap 1000 sample_base" "object_ok sample_heap 2000 sample_array_type"
  "object_ok sample_heap 3000 sample_base"
  by (simp_all add: object_ok_def has_handler_def sample_heap_def sample_base_def sample_array_type_def
        IL2C_TYPE_WITH_MARK_HANDLER_def has_vptr0_def)

lemma sample_vptrs [simp]:
  "vptrs sample_heap 1000 = Some System_Object_VTABLE" "vptrs sample_heap 2000 = Some System_Object_VTABLE"
  "adjustor_offset System_Object_VTABLE = 0"
  by (simp_all add: sample_heap_def System_Object_VTABLE_def)

lemma sample_heap_ok: "heap_ok sample_heap"
proof -
  have "1 \<le> g_ExecutingCollection sample_heap" "mark_index_ok (g_CollectionMarkIndex sample_heap)"
      "finite (dom (headers sample_heap))"
    by (simp_all add: sample_heap_def mark_index_ok_def)
  then show ?thesis
    by (simp add: heap_ok_def sample_objects sample_object_ok refs_valid_def)
qed

lemma sample_roots_valid: "roots_valid sample_heap"
proof -
  have "static_refs sample_heap = [1000]"
    by (simp add: static_refs_def sample_heap_def frame_refs_def)
  then show ?thesis
    by (simp add: roots_valid_def refs_valid_def sample_objects)
       (simp add: sample_heap_def frame_ok_def registered_def all_slots_def empty_machine_def
         System_Object_VTABLE_def)
qed

lemma sample_reaches: "{a. reaches sample_heap (root_set sample_heap) a} = {1000, 2000}"
proof -
  have children: "children sample_heap 1000 = [2000]" "children sample_heap 2000 = [1000]"
    by (simp_all add: children_def adjusted_def)
  have roots: "root_set sample_heap = {1000}"
    by (simp add: root_set_def static_refs_def frame_refs_def adjusted_def registered_def
        sample_heap_def empty_machine_def System_Object_VTABLE_def)
  have "a \<in> {1000, 2000}" if "reaches sample_heap {1000} a" for a
    using that by (induction rule: reaches.induct) (auto simp: children)
  moreover have "reaches sample_heap {1000} 1000"
    using sample_marks by (intro reaches_root) (auto simp: sample_objects)
  moreover from this have "reaches sample_heap {1000} 2000"
    by (rule reaches_child) (use sample_marks in \<open>auto simp: sample_objects children\<close>)
  ultimately show "{a. reaches sample_heap (root_set sample_heap) a} = {1000, 2000}"
    using roots by auto
qed

theorem mark_phase_exact_witness:
  "mark_phase 3 sample_heap =
     Inr (mark_set sample_heap {a. reaches sample_heap (root_set sample_heap) a}) \<and>
   mark_phase 3 sample_heap = Inr (mark_set sample_heap {1000, 2000})"
proof -
  have "card (white sample_heap) \<le> 3"
  proof -
    have "card (white sample_heap) \<le> card {1000, 2000, 3000 :: addr}"
      using sample_objects by (intro card_mono) (auto simp: white_def)
    then show ?thesis by simp
  qed
  from mark_phase_exact [OF sample_heap_ok sample_roots_valid _ this] sample_marks
  have run: "mark_phase 3 sample_heap =
     Inr (mark_set sample_heap {a. reaches sample_heap (root_set sample_heap) a})" by blast
  with sample_reaches show ?thesis by metis
qed

end
