(* ===== verification/GC_Sweep.thy ===== *)
theory GC_Sweep
  imports GC_Reachability Monitor_Lock
begin

text \<open>
  The sweep (src/Core/il2c_gc.c, step 3) on the linked list of object headers: it unlinks
  unmarked objects through a pointer to the last kept \<open>pNext\<close> field, threads them on a
  list of their own, runs finalizers, and then frees the list.

  Finalizers are managed code: an argument \<open>finalize\<close> that maps the finalizer's code
  pointer, the machine and the object to the machine afterwards.
\<close>

section \<open>Operations\<close>

definition set_pNext :: "machine \<Rightarrow> addr \<Rightarrow> addr \<Rightarrow> machine" where
  "set_pNext m p n = m\<lparr>headers := (headers m)(p := map_option (\<lambda>h. h\<lparr>pNext := n\<rparr>) (headers m p))\<rparr>"

text \<open>\<open>ppUnlinkTarget\<close>: \<open>None\<close> is \<open>&g_pBeginHeader__\<close>, \<open>Some p\<close> is \<open>&p->pNext\<close>.\<close>

definition store_unlink :: "machine \<Rightarrow> addr option \<Rightarrow> addr \<Rightarrow> machine" where
  "store_unlink m ppUnlinkTarget n =
     (case ppUnlinkTarget of None \<Rightarrow> m\<lparr>g_pBeginHeader := n\<rparr> | Some p \<Rightarrow> set_pNext m p n)"

text \<open>Initialized and not marked in this collection.\<close>

definition sweep_test :: "u64 \<Rightarrow> u64 \<Rightarrow> bool" where
  "sweep_test idx c \<longleftrightarrow>
     (c AND (IL2C_CHARACTERISTIC_INITIALIZED OR IL2C_CHARACTERISTIC_MARK_INDEX))
        XOR (IL2C_CHARACTERISTIC_INITIALIZED OR IL2C_CHARACTERISTIC_MARK_INDEX) = idx"

text \<open>
  Step 1.  It answers the machine, the head of the scheduled list and the number of
  remaining objects.
\<close>

partial_function (option) sweep_step1 ::
  "(addr \<Rightarrow> machine \<Rightarrow> addr \<Rightarrow> machine result) \<Rightarrow> machine \<Rightarrow> addr option \<Rightarrow> addr \<Rightarrow> addr \<Rightarrow> u64
     \<Rightarrow> (machine \<times> addr \<times> u64) result option" where
  "sweep_step1 finalize m ppUnlinkTarget pCurrentHeader pScheduledHeader remains =
     (if pCurrentHeader = NULL then Some (Inr (m, pScheduledHeader, remains))
      else case headers m pCurrentHeader of
        None \<Rightarrow> Some (Inl BadAccess)
      | Some h \<Rightarrow>
        if sweep_test (g_CollectionMarkIndex m) (characteristic h)
        then (case vptr0 (htype h) of
            None \<Rightarrow> Some (Inl BadAccess)
          | Some vt \<Rightarrow>
            (let c = characteristic h;
                 overrides = Finalize vt \<noteq> System_Object_Finalize;
                 m1 = (if overrides
                       then set_characteristic m pCurrentHeader (c OR IL2C_CHARACTERISTIC_FINALIZER_CALLED)
                       else m)
             in if overrides \<and> c AND IL2C_CHARACTERISTIC_FINALIZER_CALLED = 0
                then (let m2 = set_characteristic m1 pCurrentHeader
                            ((c OR IL2C_CHARACTERISTIC_FINALIZER_CALLED) XOR IL2C_CHARACTERISTIC_MARK_INDEX)
                      in if vptrs m2 (object_of pCurrentHeader) \<noteq> Some vt then Some (Inl AssertionFailed)
                         else (case finalize (Finalize vt) m2 (object_of pCurrentHeader) of
                             Inl e \<Rightarrow> Some (Inl e)
                           | Inr m3 \<Rightarrow>
                               sweep_step1 finalize (m3\<lparr>g_PendingRemains := g_PendingRemains m3 + 1\<rparr>)
                                 (Some pCurrentHeader) (pNext h) pScheduledHeader (remains + 1)))
                else sweep_step1 finalize
                       (set_pNext (store_unlink m1 ppUnlinkTarget (pNext h)) pCurrentHeader pScheduledHeader)
                       ppUnlinkTarget (pNext h) pCurrentHeader remains))
        else sweep_step1 finalize m (Some pCurrentHeader) (pNext h) pScheduledHeader (remains + 1))"

text \<open>Step 2: the scheduled objects give their monitor back and are freed.\<close>

definition il2c_free :: "machine \<Rightarrow> addr \<Rightarrow> machine" where
  "il2c_free m p = m\<lparr>headers := (headers m)(p := None)\<rparr>"

partial_function (option) sweep_step2 :: "int \<Rightarrow> machine \<Rightarrow> addr \<Rightarrow> machine result option" where
  "sweep_step2 t m pScheduledHeader =
     (if pScheduledHeader = NULL then Some (Inr m)
      else case headers m pScheduledHeader of
        None \<Rightarrow> Some (Inl BadAccess)
      | Some h \<Rightarrow>
        (case (if characteristic h AND IL2C_CHARACTERISTIC_ACQUIRED_MONITOR_LOCK \<noteq> 0
               then il2c_release_monitor_lock_from_objref m t pScheduledHeader else Inr m) of
           Inl e \<Rightarrow> Some (Inl e)
         | Inr m1 \<Rightarrow> sweep_step2 t (il2c_free m1 pScheduledHeader) (pNext h)))"

definition il2c_step3_sweep_garbage ::
  "int \<Rightarrow> (addr \<Rightarrow> machine \<Rightarrow> addr \<Rightarrow> machine result) \<Rightarrow> machine \<Rightarrow> (machine \<times> u64) result option" where
  "il2c_step3_sweep_garbage t finalize m =
     (if g_ExecutingCollection m < 1 then Some (Inl AssertionFailed)
      else let m0 = m\<lparr>g_PendingRemains := 0\<rparr> in
      case sweep_step1 finalize m0 None (g_pBeginHeader m0) NULL 0 of
        None \<Rightarrow> None
      | Some (Inl e) \<Rightarrow> Some (Inl e)
      | Some (Inr (m1, pScheduledHeader, remains)) \<Rightarrow>
          map_option (\<lambda>r. bind_result r (\<lambda>m2. Inr (m2, remains))) (sweep_step2 t m1 pScheduledHeader))"

section \<open>Lists of headers\<close>

text \<open>\<open>segment m p xs q\<close>: following \<open>pNext\<close> from \<open>p\<close> passes \<open>xs\<close> and arrives at \<open>q\<close>.\<close>

fun segment :: "machine \<Rightarrow> addr \<Rightarrow> addr list \<Rightarrow> addr \<Rightarrow> bool" where
  "segment m p [] q \<longleftrightarrow> p = q"
| "segment m p (x # xs) q \<longleftrightarrow> p = x \<and> x \<noteq> NULL \<and> (\<exists>h. headers m x = Some h \<and> segment m (pNext h) xs q)"

abbreviation header_list :: "machine \<Rightarrow> addr \<Rightarrow> addr list \<Rightarrow> bool" where
  "header_list m p xs \<equiv> segment m p xs NULL"

lemma segment_append: "segment m p (xs @ ys) q \<longleftrightarrow> (\<exists>r. segment m p xs r \<and> segment m r ys q)"
  by (induction xs arbitrary: p) auto

lemma segment_cong:
  "(\<And>x. x \<in> set xs \<Longrightarrow> map_option pNext (headers m' x) = map_option pNext (headers m x)) \<Longrightarrow>
   segment m' p xs q = segment m p xs q"
proof (induction xs arbitrary: p)
  case (Cons x xs)
  from Cons.prems have "segment m' p xs q = segment m p xs q" for p by (intro Cons.IH) simp
  with Cons.prems [of x] show ?case by (cases "headers m x"; cases "headers m' x") auto
qed simp

lemma set_pNext_fields [simp]:
  "g_CollectionMarkIndex (set_pNext m p n) = g_CollectionMarkIndex m"
  "g_ExecutingCollection (set_pNext m p n) = g_ExecutingCollection m"
  "vptrs (set_pNext m p n) = vptrs m" "g_pBeginHeader (set_pNext m p n) = g_pBeginHeader m"
  "g_MonitorLockBlockInformations (set_pNext m p n) = g_MonitorLockBlockInformations m"
  "g_PendingRemains (set_pNext m p n) = g_PendingRemains m"
  "g_pRootReferences (set_pNext m p n) = g_pRootReferences m" "bodies (set_pNext m p n) = bodies m"
  "g_GlobalLockForCollect (set_pNext m p n) = g_GlobalLockForCollect m"
  by (simp_all add: set_pNext_def)

lemma store_unlink_fields [simp]:
  "g_CollectionMarkIndex (store_unlink m u n) = g_CollectionMarkIndex m"
  "g_ExecutingCollection (store_unlink m u n) = g_ExecutingCollection m"
  "vptrs (store_unlink m u n) = vptrs m"
  "g_MonitorLockBlockInformations (store_unlink m u n) = g_MonitorLockBlockInformations m"
  "g_PendingRemains (store_unlink m u n) = g_PendingRemains m"
  "g_pRootReferences (store_unlink m u n) = g_pRootReferences m" "bodies (store_unlink m u n) = bodies m"
  "g_GlobalLockForCollect (store_unlink m u n) = g_GlobalLockForCollect m"
  by (simp_all add: store_unlink_def split: option.splits)

lemma segment_set_pNext [simp]: "x \<notin> set xs \<Longrightarrow> segment (set_pNext m x n) p xs q = segment m p xs q"
  by (rule segment_cong) (auto simp: set_pNext_def)

text \<open>Storing through the unlink pointer changes where the kept objects lead to.\<close>

definition unlink_target :: "addr list \<Rightarrow> addr option" where
  "unlink_target ks = (if ks = [] then None else Some (last ks))"

lemma segment_store_unlink:
  assumes "segment m (g_pBeginHeader m) ks q" and "distinct ks"
  shows "segment (store_unlink m (unlink_target ks) n) (g_pBeginHeader (store_unlink m (unlink_target ks) n)) ks n"
proof (cases ks rule: rev_cases)
  case Nil
  then show ?thesis by (simp add: unlink_target_def store_unlink_def)
next
  case (snoc xs x)
  with assms have "x \<notin> set xs" by simp
  with snoc assms(1) show ?thesis
    by (auto simp: unlink_target_def store_unlink_def segment_append)
       (auto simp: set_pNext_def)
qed

lemma segment_store_unlink_other:
  "set ks \<inter> set xs = {} \<Longrightarrow> segment (store_unlink m (unlink_target ks) n) p xs q = segment m p xs q"
proof -
  assume disjoint: "set ks \<inter> set xs = {}"
  then have "last ks \<notin> set xs" if "ks \<noteq> []" using that last_in_set by blast
  then show ?thesis
    by (intro segment_cong) (auto simp: store_unlink_def unlink_target_def set_pNext_def)
qed

section \<open>What the sweep decides\<close>

text \<open>What a header says besides its place in the list.\<close>

definition payload :: "machine \<Rightarrow> addr \<Rightarrow> (runtime_type \<times> u64) option" where
  "payload m p = map_option (\<lambda>h. (htype h, characteristic h)) (headers m p)"

definition garbage :: "machine \<Rightarrow> addr \<Rightarrow> bool" where
  "garbage m p = (case payload m p of None \<Rightarrow> False
     | Some (ty, c) \<Rightarrow> sweep_test (g_CollectionMarkIndex m) c)"

text \<open>Garbage whose finalizer has to run first.\<close>

definition to_finalize :: "machine \<Rightarrow> addr \<Rightarrow> bool" where
  "to_finalize m p = (garbage m p \<and> (case payload m p of None \<Rightarrow> False
     | Some (ty, c) \<Rightarrow> Finalize (the (vptr0 ty)) \<noteq> System_Object_Finalize \<and> \<not> bit c 28))"

definition dead :: "machine \<Rightarrow> addr \<Rightarrow> bool" where
  "dead m p \<longleftrightarrow> garbage m p \<and> \<not> to_finalize m p"

lemma decisions_cong:
  assumes "payload m' p = payload m p" and "g_CollectionMarkIndex m' = g_CollectionMarkIndex m"
  shows "garbage m' p = garbage m p" "to_finalize m' p = to_finalize m p" "dead m' p = dead m p"
  unfolding dead_def to_finalize_def garbage_def assms by (rule refl)+

text \<open>
  The header of an object whose finalizer ran: marked for this collection, its other bits
  unchanged except the finalizer flag, which stays set
  when no finalizer registers its object again (\<open>once\<close>).
\<close>

definition finalized_header :: "bool \<Rightarrow> ref_header \<Rightarrow> ref_header \<Rightarrow> bool" where
  "finalized_header once h h' \<longleftrightarrow> htype h' = htype h \<and> (once \<longrightarrow> bit (characteristic h') 28) \<and>
     (\<forall>n. n \<noteq> 28 \<longrightarrow> bit (characteristic h') n =
        (if n = 29 then \<not> bit (characteristic h) 29 else bit (characteristic h) n))"

text \<open>What the sweep relies on for a header it has not reached yet.\<close>

definition sweepable :: "(addr \<Rightarrow> machine \<Rightarrow> addr \<Rightarrow> bool) \<Rightarrow> machine \<Rightarrow> addr \<Rightarrow> bool" where
  "sweepable ready m p \<longleftrightarrow> (garbage m p \<longrightarrow> (\<exists>ty c vt. payload m p = Some (ty, c) \<and> vptr0 ty = Some vt \<and>
     vptrs m (object_of p) = Some vt \<and> (to_finalize m p \<longrightarrow> ready (Finalize vt) m (object_of p))))"

text \<open>A header before and after step 1 over the list \<open>R\<close>.\<close>

definition swept :: "bool \<Rightarrow> machine \<Rightarrow> machine \<Rightarrow> addr set \<Rightarrow> addr \<Rightarrow> bool" where
  "swept once m m' R x =
     (if x \<in> R \<and> to_finalize m x
      then \<exists>h h'. headers m x = Some h \<and> headers m' x = Some h' \<and> finalized_header once h h'
      else payload m' x = payload m x)"

text \<open>What a finalizer of the object \<open>a\<close> leaves alone besides the headers.\<close>

definition finalizer_frame :: "machine \<Rightarrow> machine \<Rightarrow> addr \<Rightarrow> bool" where
  "finalizer_frame m m' a \<longleftrightarrow> g_pBeginHeader m' = g_pBeginHeader m \<and>
     g_CollectionMarkIndex m' = g_CollectionMarkIndex m \<and>
     g_ExecutingCollection m' = g_ExecutingCollection m \<and> vptrs m' = vptrs m \<and>
     g_MonitorLockBlockInformations m' = g_MonitorLockBlockInformations m \<and>
     g_PendingRemains m' = g_PendingRemains m \<and>
     g_pRootReferences m' = g_pRootReferences m \<and>
     g_GlobalLockForCollect m' = g_GlobalLockForCollect m \<and>
     (\<forall>b. b \<noteq> a \<longrightarrow> bodies m' b = bodies m b)"

text \<open>
  The contract of finalizers: within its precondition \<open>ready\<close> on the object, a finalizer
  returns, leaves the list of headers, the other objects' headers and bodies, the list of
  running threads and the collector's own variables alone, and of its own header changes
  at most the finalizer flag (\<open>GC.ReRegisterForFinalize\<close>, unless
  \<open>once\<close>); reference cells, its own body and pinned handles may change.
\<close>

locale finalizer =
  fixes finalize :: "addr \<Rightarrow> machine \<Rightarrow> addr \<Rightarrow> machine result"
    and ready :: "addr \<Rightarrow> machine \<Rightarrow> addr \<Rightarrow> bool"
    and once :: bool
  assumes returns: "ready c m a \<Longrightarrow> headers m (il2c_get_header a) = Some h \<Longrightarrow>
      \<exists>m' h'. finalize c m a = Inr m' \<and> headers m' = (headers m)(il2c_get_header a \<mapsto> h') \<and>
        pNext h' = pNext h \<and> htype h' = htype h \<and>
        (\<forall>n. n \<noteq> 28 \<longrightarrow> bit (characteristic h') n = bit (characteristic h) n) \<and>
        (once \<longrightarrow> bit (characteristic h) 28 \<longrightarrow> bit (characteristic h') 28) \<and>
        finalizer_frame m m' a \<and>
        (\<forall>d b. b \<noteq> a \<longrightarrow> ready d m b \<longrightarrow> ready d m' b)"
    and ready_headers: "ready c (m\<lparr>headers := hs\<rparr>) a = ready c m a"
    and ready_begin: "ready c (m\<lparr>g_pBeginHeader := p\<rparr>) a = ready c m a"
    and ready_pending: "ready c (m\<lparr>g_PendingRemains := n\<rparr>) a = ready c m a"
begin

text \<open>One round of step 1 leaves this of the headers it has not reached.\<close>

definition advanced :: "machine \<Rightarrow> addr \<Rightarrow> machine \<Rightarrow> bool" where
  "advanced m p m' \<longleftrightarrow> g_CollectionMarkIndex m' = g_CollectionMarkIndex m \<and>
     g_ExecutingCollection m' = g_ExecutingCollection m \<and>
     g_MonitorLockBlockInformations m' = g_MonitorLockBlockInformations m \<and>
     vptrs m' = vptrs m \<and> g_pRootReferences m' = g_pRootReferences m \<and>
     g_GlobalLockForCollect m' = g_GlobalLockForCollect m \<and>
     (\<forall>b. (to_finalize m p \<longrightarrow> b \<noteq> object_of p) \<longrightarrow> bodies m' b = bodies m b) \<and>
     (\<forall>x. x \<noteq> p \<longrightarrow> payload m' x = payload m x \<and> (sweepable ready m x \<longrightarrow> sweepable ready m' x))"

lemma sweepable_cong:
  assumes "payload m' x = payload m x" and "g_CollectionMarkIndex m' = g_CollectionMarkIndex m"
    and "vptrs m' = vptrs m" and "\<And>c. ready c m (object_of x) \<Longrightarrow> ready c m' (object_of x)"
  shows "sweepable ready m x \<Longrightarrow> sweepable ready m' x"
  unfolding sweepable_def decisions_cong [OF assms(1,2)] assms(1,3) using assms(4) by blast

lemma round_kept:
  assumes "headers m p = Some h" and "p \<noteq> NULL" and "\<not> garbage m p"
  shows "sweep_step1 finalize m u p sched n = sweep_step1 finalize m (Some p) (pNext h) sched (n + 1)"
  using assms by (subst sweep_step1.simps) (simp add: garbage_def payload_def)

lemma round_dead:
  assumes "headers m p = Some h" and "p \<noteq> NULL" and "dead m p" and "sweepable ready m p"
  shows "sweep_step1 finalize m u p sched n =
    sweep_step1 finalize (set_pNext (store_unlink m u (pNext h)) p sched) u (pNext h) p n"
proof -
  have test: "sweep_test (g_CollectionMarkIndex m) (characteristic h)"
    using assms by (simp add: dead_def garbage_def payload_def)
  obtain vt where vt: "vptr0 (htype h) = Some vt" "vptrs m (object_of p) = Some vt"
    using assms by (auto simp: sweepable_def dead_def payload_def)
  show ?thesis
  proof (cases "Finalize vt = System_Object_Finalize")
    case True
    with assms(1,2) test vt show ?thesis by (subst sweep_step1.simps) simp
  next
    case False
    with assms vt have flag: "bit (characteristic h) 28"
      by (auto simp: dead_def to_finalize_def garbage_def payload_def)
    then have "characteristic h OR IL2C_CHARACTERISTIC_FINALIZER_CALLED = characteristic h"
      unfolding word_eq_iff_bits by (auto simp: bit_or_iff characteristic_simps)
    then have "set_characteristic m p (characteristic h OR IL2C_CHARACTERISTIC_FINALIZER_CALLED) = m"
      using assms(1) by (intro machine.equality) (auto simp: set_characteristic_def)
    with False assms(1,2) test vt flag show ?thesis
      by (subst sweep_step1.simps) (simp add: and_flag_zero_iff Let_def)
  qed
qed

lemma advanced_unlink:
  assumes "headers m p = Some h"
  shows "advanced m p (set_pNext (store_unlink m u n) p sched)"
proof -
  let ?m = "set_pNext (store_unlink m u n) p sched"
  have pay: "payload ?m x = payload m x" for x
    by (auto simp: payload_def set_pNext_def store_unlink_def option.map_comp o_def split: option.splits)
  have "ready c ?m a = ready c m a" for c a
    by (simp add: set_pNext_def store_unlink_def ready_headers ready_begin split: option.splits)
  with pay show ?thesis
    unfolding advanced_def by (auto intro: sweepable_cong)
qed

lemma round_finalize:
  assumes h: "headers m p = Some h" and "p \<noteq> NULL" and fin: "to_finalize m p" and "sweepable ready m p"
  shows "\<exists>m' h'. sweep_step1 finalize m u p sched n = sweep_step1 finalize m' (Some p) (pNext h) sched (n + 1) \<and>
    advanced m p m' \<and> headers m' = (headers m)(p \<mapsto> h') \<and> pNext h' = pNext h \<and> finalized_header once h h' \<and>
    g_pBeginHeader m' = g_pBeginHeader m \<and> g_PendingRemains m' = g_PendingRemains m + 1"
proof -
  let ?a = "object_of p"
  have test: "sweep_test (g_CollectionMarkIndex m) (characteristic h)"
    using fin h by (simp add: to_finalize_def garbage_def payload_def)
  obtain vt where vt: "vptr0 (htype h) = Some vt" "vptrs m ?a = Some vt" "ready (Finalize vt) m ?a"
    using assms by (auto simp: sweepable_def to_finalize_def payload_def)
  have over: "Finalize vt \<noteq> System_Object_Finalize" "\<not> bit (characteristic h) 28"
    using fin h vt(1) by (auto simp: to_finalize_def payload_def)
  let ?c = "(characteristic h OR IL2C_CHARACTERISTIC_FINALIZER_CALLED) XOR IL2C_CHARACTERISTIC_MARK_INDEX"
  define m2 where "m2 = m\<lparr>headers := (headers m)(p \<mapsto> h\<lparr>characteristic := ?c\<rparr>)\<rparr>"
  have m2: "set_characteristic (set_characteristic m p
      (characteristic h OR IL2C_CHARACTERISTIC_FINALIZER_CALLED)) p ?c = m2"
    using h by (simp add: set_characteristic_def m2_def)
  have "ready (Finalize vt) m2 ?a" using vt(3) by (simp add: m2_def ready_headers)
  from returns [OF this, of "h\<lparr>characteristic := ?c\<rparr>"] obtain m3 h3 where
    m3: "finalize (Finalize vt) m2 ?a = Inr m3" "headers m3 = (headers m2)(p \<mapsto> h3)"
      "pNext h3 = pNext h" "htype h3 = htype h"
      "\<forall>n. n \<noteq> 28 \<longrightarrow> bit (characteristic h3) n = bit ?c n"
      "once \<longrightarrow> bit (characteristic h3) 28" "finalizer_frame m2 m3 ?a"
      "\<forall>d b. b \<noteq> ?a \<longrightarrow> ready d m2 b \<longrightarrow> ready d m3 b"
    by (auto simp: m2_def bit_or_iff characteristic_simps)
  let ?m4 = "m3\<lparr>g_PendingRemains := g_PendingRemains m3 + 1\<rparr>"
  have run: "sweep_step1 finalize m u p sched n = sweep_step1 finalize ?m4 (Some p) (pNext h) sched (n + 1)"
  proof -
    have "vptrs m2 ?a = Some vt" using vt(2) by (simp add: m2_def)
    with test vt(1) over m3(1) m2 h assms(2) show ?thesis
      by (subst sweep_step1.simps) (simp add: and_flag_zero_iff Let_def)
  qed
  have heads: "headers ?m4 = (headers m)(p \<mapsto> h3)" using m3(2) by (simp add: m2_def)
  have "finalized_header once h h3"
    using m3(4-6) by (auto simp: finalized_header_def bit_or_iff characteristic_simps)
  moreover have "advanced m p ?m4"
  proof -
    have pay: "payload ?m4 x = payload m x" if "x \<noteq> p" for x
      using that heads by (simp add: payload_def)
    have "ready c m (object_of x) \<Longrightarrow> ready c ?m4 (object_of x)" if "x \<noteq> p" for c x
      using that m3(8) by (simp add: ready_pending m2_def ready_headers)
    with pay m3(7) fin show ?thesis
      unfolding advanced_def finalizer_frame_def by (auto simp: m2_def intro: sweepable_cong)
  qed
  ultimately show ?thesis
    using run heads m3(3,7)
    by (intro exI [of _ ?m4] exI [of _ h3]) (simp add: m2_def finalizer_frame_def)
qed

definition step1_post :: "machine \<Rightarrow> addr list \<Rightarrow> addr list \<Rightarrow> addr list \<Rightarrow> machine \<Rightarrow> addr \<Rightarrow> bool" where
  "step1_post m ks rs ds m' sched' \<longleftrightarrow>
     header_list m' (g_pBeginHeader m') (ks @ filter (\<lambda>x. \<not> dead m x) rs) \<and>
     header_list m' sched' (rev (filter (dead m) rs) @ ds) \<and>
     (\<forall>x. swept once m m' (set rs) x) \<and>
     vptrs m' = vptrs m \<and> g_pRootReferences m' = g_pRootReferences m \<and>
     g_GlobalLockForCollect m' = g_GlobalLockForCollect m \<and>
     (\<forall>b. (\<forall>x \<in> set rs. to_finalize m x \<longrightarrow> b \<noteq> object_of x) \<longrightarrow> bodies m' b = bodies m b) \<and>
     g_CollectionMarkIndex m' = g_CollectionMarkIndex m \<and>
     g_ExecutingCollection m' = g_ExecutingCollection m \<and>
     g_MonitorLockBlockInformations m' = g_MonitorLockBlockInformations m \<and>
     g_PendingRemains m' = g_PendingRemains m + of_nat (length (filter (to_finalize m) rs))"

lemma advanced_filters:
  assumes "advanced m x m1" and "x \<notin> set xs"
  shows "filter (dead m1) xs = filter (dead m) xs"
    and "filter (\<lambda>y. \<not> dead m1 y) xs = filter (\<lambda>y. \<not> dead m y) xs"
    and "filter (to_finalize m1) xs = filter (to_finalize m) xs"
    and "(\<forall>y \<in> set xs. sweepable ready m y) \<Longrightarrow> \<forall>y \<in> set xs. sweepable ready m1 y"
proof -
  have same: "dead m1 y = dead m y \<and> to_finalize m1 y = to_finalize m y" if "y \<in> set xs" for y
  proof -
    have "payload m1 y = payload m y" "g_CollectionMarkIndex m1 = g_CollectionMarkIndex m"
      using assms that by (auto simp: advanced_def)
    then show ?thesis using decisions_cong by blast
  qed
  show "filter (dead m1) xs = filter (dead m) xs"
    "filter (\<lambda>y. \<not> dead m1 y) xs = filter (\<lambda>y. \<not> dead m y) xs"
    "filter (to_finalize m1) xs = filter (to_finalize m) xs"
    using same by (simp_all cong: filter_cong)
  show "(\<forall>y \<in> set xs. sweepable ready m y) \<Longrightarrow> \<forall>y \<in> set xs. sweepable ready m1 y"
    using assms by (auto simp: advanced_def)
qed

lemma advanced_swept:
  assumes "advanced m x m1" and "x \<notin> set xs" and "swept once m1 m' (set xs) y" and "y \<noteq> x"
  shows "swept once m m' (set (x # xs)) y"
proof -
  have pay: "payload m1 y = payload m y" using assms by (auto simp: advanced_def)
  then have fin: "to_finalize m1 y = to_finalize m y"
    using assms decisions_cong [of m1 y m] by (auto simp: advanced_def)
  show ?thesis
  proof (cases "y \<in> set xs \<and> to_finalize m y")
    case True
    then obtain h1 h' where *: "headers m1 y = Some h1" "headers m' y = Some h'" "finalized_header once h1 h'"
      using assms(3) fin by (auto simp: swept_def)
    with pay obtain h where "headers m y = Some h" "htype h = htype h1" "characteristic h = characteristic h1"
      by (cases "headers m y") (auto simp: payload_def)
    with * True show ?thesis by (auto simp: swept_def finalized_header_def)
  next
    case False
    with assms(3,4) fin pay show ?thesis by (auto simp: swept_def)
  qed
qed

text \<open>How the result over the rest of the list extends to the header before it.\<close>

lemma step1_post_Cons:
  assumes adv: "advanced m x m1" and "x \<notin> set xs" and post: "step1_post m1 ks' xs ds' m' sched'"
    and ks: "ks' = (if dead m x then ks else ks @ [x])" and ds: "ds' = (if dead m x then x # ds else ds)"
    and pend: "g_PendingRemains m1 = g_PendingRemains m + (if to_finalize m x then 1 else 0)"
    and here: "payload m' x = payload m1 x \<Longrightarrow> swept once m m' (set (x # xs)) x"
  shows "step1_post m ks (x # xs) ds m' sched'"
proof -
  have "swept once m1 m' (set xs) x" using post by (simp add: step1_post_def)
  then have "payload m' x = payload m1 x" using assms(2) by (simp add: swept_def)
  from here [OF this] have "swept once m m' (set (x # xs)) y" for y
    using advanced_swept [OF adv assms(2), of m' y] post by (cases "y = x") (auto simp: step1_post_def)
  moreover have "bodies m' b = bodies m b" if "\<forall>y \<in> set (x # xs). to_finalize m y \<longrightarrow> b \<noteq> object_of y" for b
  proof -
    have "set (filter (to_finalize m1) xs) = set (filter (to_finalize m) xs)"
      using advanced_filters(3) [OF adv assms(2)] by simp
    then have "\<forall>y \<in> set xs. to_finalize m1 y \<longrightarrow> b \<noteq> object_of y" using that by auto
    then have "bodies m' b = bodies m1 b" using post by (simp add: step1_post_def)
    moreover have "bodies m1 b = bodies m b" using adv that by (simp add: advanced_def)
    ultimately show ?thesis by simp
  qed
  moreover have "\<not> (dead m x \<and> to_finalize m x)" by (simp add: dead_def)
  ultimately show ?thesis
    using post ks ds pend adv advanced_filters(1-3) [OF adv assms(2)]
    by (cases "dead m x"; cases "to_finalize m x") (simp_all add: step1_post_def advanced_def)
qed

lemma step1_result:
  assumes "segment m (g_pBeginHeader m) ks cur" and "header_list m cur rs" and "header_list m sched ds"
    and "distinct (ks @ rs @ ds)" and "\<forall>x \<in> set rs. sweepable ready m x"
  shows "\<exists>m' sched'. sweep_step1 finalize m (unlink_target ks) cur sched n =
      Some (Inr (m', sched', n + of_nat (length (filter (\<lambda>x. \<not> dead m x) rs)))) \<and>
    step1_post m ks rs ds m' sched'"
  using assms
proof (induction rs arbitrary: m ks cur sched ds n)
  case Nil
  then have "sweep_step1 finalize m (unlink_target ks) cur sched n = Some (Inr (m, sched, n))"
    by (subst sweep_step1.simps) simp
  with Nil show ?case by (auto simp: step1_post_def swept_def)
next
  case (Cons x xs)
  from Cons.prems(2) obtain h where x: "cur = x" "x \<noteq> NULL" "headers m x = Some h"
      "header_list m (pNext h) xs" by auto
  have dist: "distinct ks" "x \<notin> set ks" "x \<notin> set xs" "x \<notin> set ds" "distinct (ks @ xs @ ds)"
      "set ks \<inter> set xs = {}" "set ks \<inter> set ds = {}"
    using Cons.prems(4) by auto
  note seg = Cons.prems(1) [unfolded x(1)]
  note rest = advanced_filters
  consider "\<not> garbage m x" | "dead m x" | "to_finalize m x" by (auto simp: dead_def)
  then show ?case
  proof cases
    case 1
    have adv: "advanced m x m" by (simp add: advanced_def)
    have "segment m (g_pBeginHeader m) (ks @ [x]) (pNext h)"
      using seg x by (auto simp: segment_append)
    from Cons.IH [OF this x(4) Cons.prems(3), of "n + 1"] dist Cons.prems(5) obtain m' sched' where
      IH: "sweep_step1 finalize m (unlink_target (ks @ [x])) (pNext h) sched (n + 1) =
        Some (Inr (m', sched', n + 1 + of_nat (length (filter (\<lambda>x. \<not> dead m x) xs))))"
        "step1_post m (ks @ [x]) xs ds m' sched'" by auto
    have "step1_post m ks (x # xs) ds m' sched'"
      by (rule step1_post_Cons [OF adv dist(3) IH(2)])
         (use 1 in \<open>auto simp: dead_def to_finalize_def swept_def\<close>)
    with IH(1) round_kept [OF x(3,2) 1] 1 show ?thesis
      by (auto simp: x(1) unlink_target_def dead_def algebra_simps)
  next
    case 2
    let ?m = "set_pNext (store_unlink m (unlink_target ks) (pNext h)) x sched"
    have adv: "advanced m x ?m" by (rule advanced_unlink [OF x(3)])
    have "segment ?m (g_pBeginHeader ?m) ks (pNext h)"
      using segment_store_unlink [OF seg dist(1), of "pNext h"] dist(2) by simp
    moreover have "header_list ?m (pNext h) xs"
      using x(4) dist(3,6) by (simp add: segment_store_unlink_other)
    moreover have "header_list ?m x (x # ds)"
    proof -
      have "headers (store_unlink m (unlink_target ks) (pNext h)) x = Some h"
        using x(3) dist(2) last_in_set [of ks]
        by (auto simp: store_unlink_def unlink_target_def set_pNext_def)
      then have "\<exists>h'. headers ?m x = Some h' \<and> pNext h' = sched" by (simp add: set_pNext_def)
      moreover have "header_list ?m sched ds"
        using Cons.prems(3) dist(4,7) by (simp add: segment_store_unlink_other)
      ultimately show ?thesis using x(2) by auto
    qed
    moreover have "distinct (ks @ xs @ x # ds)" using dist by auto
    moreover have "\<forall>y \<in> set xs. sweepable ready ?m y"
      using advanced_filters(4) [OF adv dist(3)] Cons.prems(5) by simp
    ultimately obtain m' sched' where
      IH: "sweep_step1 finalize ?m (unlink_target ks) (pNext h) x n =
        Some (Inr (m', sched', n + of_nat (length (filter (\<lambda>x. \<not> dead ?m x) xs))))"
        "step1_post ?m ks xs (x # ds) m' sched'"
      using Cons.IH [of ?m ks "pNext h" x "x # ds" n] by blast
    have notfin: "\<not> to_finalize m x" using 2 by (simp add: dead_def)
    have "payload ?m x = payload m x"
      by (auto simp: payload_def set_pNext_def store_unlink_def option.map_comp o_def split: option.splits)
    then have "step1_post m ks (x # xs) ds m' sched'"
      using 2 notfin
      by (intro step1_post_Cons [OF adv dist(3) IH(2)]) (auto simp: swept_def)
    moreover have "sweepable ready m x" using Cons.prems(5) by simp
    ultimately show ?thesis
      using IH(1) round_dead [OF x(3,2) 2] 2 advanced_filters(2) [OF adv dist(3)]
      by (auto simp: x(1))
  next
    case 3
    have "sweepable ready m x" using Cons.prems(5) by simp
    from round_finalize [OF x(3,2) 3 this, of "unlink_target ks" sched n] obtain m1 h1 where
      m1: "sweep_step1 finalize m (unlink_target ks) x sched n =
          sweep_step1 finalize m1 (Some x) (pNext h) sched (n + 1)" "advanced m x m1"
        "headers m1 = (headers m)(x \<mapsto> h1)" "pNext h1 = pNext h" "finalized_header once h h1"
        "g_pBeginHeader m1 = g_pBeginHeader m" "g_PendingRemains m1 = g_PendingRemains m + 1" by blast
    have same: "segment m1 p ys q = segment m p ys q" for p ys q
      using m1(3,4) x(3) by (intro segment_cong) auto
    have "segment m1 (g_pBeginHeader m1) (ks @ [x]) (pNext h)"
      using seg x m1(3,4) by (auto simp: same m1(6) segment_append)
    moreover have "header_list m1 (pNext h) xs" "header_list m1 sched ds"
      using x(4) Cons.prems(3) by (simp_all add: same)
    moreover have "distinct ((ks @ [x]) @ xs @ ds)" using dist by auto
    moreover have "\<forall>y \<in> set xs. sweepable ready m1 y"
      using advanced_filters(4) [OF m1(2) dist(3)] Cons.prems(5) by simp
    ultimately obtain m' sched' where
      IH: "sweep_step1 finalize m1 (unlink_target (ks @ [x])) (pNext h) sched (n + 1) =
        Some (Inr (m', sched', n + 1 + of_nat (length (filter (\<lambda>x. \<not> dead m1 x) xs))))"
        "step1_post m1 (ks @ [x]) xs ds m' sched'"
      using Cons.IH [of m1 "ks @ [x]" "pNext h" sched ds "n + 1"] by blast
    have "step1_post m ks (x # xs) ds m' sched'"
    proof (rule step1_post_Cons [OF m1(2) dist(3) IH(2)])
      assume "payload m' x = payload m1 x"
      then obtain h' where "headers m' x = Some h'" "htype h' = htype h1" "characteristic h' = characteristic h1"
        using m1(3) by (cases "headers m' x") (auto simp: payload_def)
      with 3 x(3) m1(5) show "swept once m m' (set (x # xs)) x"
        by (auto simp: swept_def finalized_header_def)
    qed (use 3 m1(7) in \<open>auto simp: dead_def\<close>)
    with IH(1) m1(1) 3 advanced_filters(2) [OF m1(2) dist(3)] show ?thesis
      by (auto simp: x(1) unlink_target_def dead_def algebra_simps)
  qed
qed

end

section \<open>Freeing the scheduled objects\<close>

definition table_refs :: "monitor_lock_block_information \<Rightarrow> addr set" where
  "table_refs info = (\<Union>blk \<in> set (blocks info). set (lock_refs blk))"

text \<open>A flagged object is in its bucket, and nobody holds the bucket.\<close>

definition releasable :: "machine \<Rightarrow> addr \<Rightarrow> u64 \<Rightarrow> bool" where
  "releasable m p c \<longleftrightarrow> (bit c 27 \<longrightarrow>
     (case g_MonitorLockBlockInformations m ! (object_of p mod 7) of
        None \<Rightarrow> True
      | Some info \<Rightarrow> lock_free (blockLock info) \<and> (object_of p \<in> table_refs info \<or> bit c 31)))"

text \<open>How many blocks each bucket has.\<close>

definition block_counts :: "machine \<Rightarrow> nat option list" where
  "block_counts m = map (map_option (\<lambda>info. length (blocks info))) (g_MonitorLockBlockInformations m)"

lemma releasable_cong:
  assumes "g_MonitorLockBlockInformations m' = g_MonitorLockBlockInformations m"
    and "bit c' 27 = bit c 27" and "bit c' 31 = bit c 31"
  shows "releasable m' p c' = releasable m p c"
  unfolding releasable_def assms by (rule refl)

lemma find_slot_held:
  "(a \<in> set xs \<longrightarrow> (\<exists>j < length xs. find_slot a False xs i = FoundSlot (i + j) \<and> xs ! j = a)) \<and>
   (a \<notin> set xs \<longrightarrow> find_slot a False xs i = NoSlot)"
proof (induction xs arbitrary: i)
  case (Cons x xs)
  show ?case
  proof (cases "x = a \<or> a \<notin> set xs")
    case True
    with Cons [of "Suc i"] show ?thesis by (auto intro: exI [of _ 0])
  next
    case False
    with Cons [of "Suc i"] obtain j where "j < length xs"
        "find_slot a False xs (Suc i) = FoundSlot (Suc i + j)" "xs ! j = a" by auto
    with False show ?thesis by (auto intro!: exI [of _ "Suc j"])
  qed
qed simp

lemma find_lock_held:
  assumes "a \<in> (\<Union>blk \<in> set blks. set (lock_refs blk))"
  shows "\<exists>k j. find_lock a False blks b = (b + k, FoundSlot j) \<and> k < length blks \<and>
    j < length (lock_refs (blks ! k)) \<and> lock_refs (blks ! k) ! j = a"
  using assms
proof (induction blks arbitrary: b)
  case (Cons blk blks)
  show ?case
  proof (cases "a \<in> set (lock_refs blk)")
    case True
    then show ?thesis using find_slot_held [of a "lock_refs blk" 0] by auto
  next
    case False
    with Cons.prems Cons.IH [of "Suc b"] obtain k j where
      "find_lock a False blks (Suc b) = (Suc b + k, FoundSlot j)" "k < length blks"
      "j < length (lock_refs (blks ! k))" "lock_refs (blks ! k) ! j = a" by auto
    with False find_slot_held [of a "lock_refs blk" 0] show ?thesis
      by (intro exI [of _ "Suc k"] exI [of _ j]) auto
  qed
qed simp

lemma find_lock_missing:
  "a \<notin> (\<Union>blk \<in> set blks. set (lock_refs blk)) \<Longrightarrow> snd (find_lock a False blks b) = NoSlot"
  using find_slot_held [of a _ 0] by (induction blks arbitrary: b) auto

lemma table_refs_put_lock:
  assumes "x \<in> table_refs info" and "x \<noteq> lock_refs (blocks info ! b) ! i"
  shows "x \<in> table_refs (put_lock b i NULL l info)"
proof -
  obtain j where j: "j < length (blocks info)" "x \<in> set (lock_refs (blocks info ! j))"
    using assms(1) unfolding table_refs_def by (metis UN_E in_set_conv_nth)
  let ?blks = "blocks (put_lock b i NULL l info)"
  have "x \<in> set (lock_refs (?blks ! j))"
  proof (cases "j = b")
    case True
    obtain n where "n < length (lock_refs (blocks info ! j))" "lock_refs (blocks info ! j) ! n = x"
      using j(2) by (auto simp: in_set_conv_nth)
    moreover from this True assms(2) have "n \<noteq> i" by auto
    ultimately show ?thesis
      using True j(1) by (auto simp: put_lock_def in_set_conv_nth intro!: exI [of _ n])
  next
    case False
    with j show ?thesis by (simp add: put_lock_def)
  qed
  moreover have "j < length ?blks" using j(1) by (simp add: put_lock_def)
  ultimately show ?thesis by (auto simp: table_refs_def)
qed

lemma release_result:
  assumes h: "headers m p = Some h" and "p \<noteq> NULL" and flag: "bit (characteristic h) 27"
    and "releasable m p (characteristic h)"
  shows "\<exists>bs. il2c_release_monitor_lock_from_objref m t p = Inr (m\<lparr>g_MonitorLockBlockInformations := bs\<rparr>) \<and>
    (\<forall>q c. q \<noteq> p \<longrightarrow> releasable m q c \<longrightarrow> releasable (m\<lparr>g_MonitorLockBlockInformations := bs\<rparr>) q c) \<and>
    block_counts (m\<lparr>g_MonitorLockBlockInformations := bs\<rparr>) = block_counts m"
proof (cases "g_MonitorLockBlockInformations m ! (object_of p mod 7)")
  case None
  then show ?thesis
    using assms by (intro exI [of _ "g_MonitorLockBlockInformations m"])
      (simp add: il2c_release_monitor_lock_from_objref_def flag_tests Let_def)
next
  case (Some info)
  let ?a = "object_of p" let ?k = "?a mod 7" let ?tbl = "g_MonitorLockBlockInformations m"
  have free: "lock_free (blockLock info)" and held: "?a \<in> table_refs info \<or> bit (characteristic h) 31"
    using assms(4) flag Some by (auto simp: releasable_def)
  obtain l' where l': "il2c_enter_monitor_lock t (blockLock info) = Inr l'"
      "il2c_exit_monitor_lock t l' = Inr (blockLock info)"
    using enter_exit_free [OF free] by blast
  show ?thesis
  proof (cases "?a \<in> table_refs info")
    case True
    then obtain b i where found: "find_lock ?a False (blocks info) 0 = (b, FoundSlot i)"
        "lock_refs (blocks info ! b) ! i = ?a"
      using find_lock_held [of ?a "blocks info" 0] by (auto simp: table_refs_def)
    let ?info = "put_lock b i NULL (il2c_destroy_monitor_lock (locks (blocks info ! b) ! i)) info"
    have same: "?info\<lparr>blockLock := blockLock info\<rparr> = ?info" by (simp add: put_lock_def)
    have "releasable (m\<lparr>g_MonitorLockBlockInformations := ?tbl[?k := Some ?info]\<rparr>) q c"
      if "q \<noteq> p" "releasable m q c" for q c
    proof (cases "object_of q mod 7 = ?k \<and> ?k < length ?tbl")
      case True
      with that Some free show ?thesis
        using table_refs_put_lock [of "object_of q" info b i] found(2)
        by (auto simp: releasable_def) (auto simp: put_lock_def)
    next
      case False
      with that(2) show ?thesis by (auto simp: releasable_def nth_list_update list_update_beyond)
    qed
    moreover have "block_counts (m\<lparr>g_MonitorLockBlockInformations := ?tbl[?k := Some ?info]\<rparr>) = block_counts m"
    proof (cases "?k < length ?tbl")
      case True
      then have "(map (map_option (\<lambda>i. length (blocks i))) ?tbl)[?k := Some (length (blocks info))] =
          map (map_option (\<lambda>i. length (blocks i))) ?tbl"
        using Some by (metis list_update_id nth_map option.map(2))
      then show ?thesis by (simp add: block_counts_def map_update put_lock_def)
    qed (simp add: list_update_beyond)
    moreover have "il2c_release_monitor_lock_from_objref m t p =
        Inr (m\<lparr>g_MonitorLockBlockInformations := ?tbl[?k := Some ?info]\<rparr>)"
      using assms(1,2) flag Some l' found same
      by (simp add: il2c_release_monitor_lock_from_objref_def flag_tests Let_def put_bucket_def)
    ultimately show ?thesis by blast
  next
    case False
    then have none: "\<exists>b. find_lock ?a False (blocks info) 0 = (b, NoSlot)"
      using find_lock_missing [of ?a "blocks info" 0] by (metis prod.collapse table_refs_def)
    have "il2c_release_monitor_lock_from_objref m t p =
        Inr (m\<lparr>g_MonitorLockBlockInformations := ?tbl[?k := Some info]\<rparr>)"
      using assms(1,2) flag Some l' none held False
      by (auto simp: il2c_release_monitor_lock_from_objref_def flag_tests Let_def put_bucket_def
          and_flag_zero_iff)
    moreover have "?tbl[?k := Some info] = ?tbl" using Some by (metis list_update_id)
    ultimately show ?thesis by (intro exI [of _ ?tbl]) simp
  qed
qed

text \<open>Step 2 frees exactly the scheduled headers and touches no other.\<close>

lemma step2_result:
  assumes "header_list m sched ds" and "distinct ds"
    and "\<forall>p \<in> set ds. releasable m p (characteristic (the (headers m p)))"
  shows "\<exists>bs. sweep_step2 t m sched = Some (Inr (m\<lparr>headers := headers m |` (- set ds),
      g_MonitorLockBlockInformations := bs\<rparr>)) \<and>
    (\<forall>q c. q \<notin> set ds \<longrightarrow> releasable m q c \<longrightarrow> releasable (m\<lparr>g_MonitorLockBlockInformations := bs\<rparr>) q c) \<and>
    block_counts (m\<lparr>g_MonitorLockBlockInformations := bs\<rparr>) = block_counts m"
  using assms
proof (induction ds arbitrary: m sched)
  case Nil
  have "headers m |` (- set []) = headers m" by (simp add: restrict_map_def fun_eq_iff)
  then have "m = m\<lparr>headers := headers m |` (- set []),
      g_MonitorLockBlockInformations := g_MonitorLockBlockInformations m\<rparr>" by simp
  moreover have "sweep_step2 t m sched = Some (Inr m)"
    using Nil.prems(1) by (simp add: sweep_step2.simps [of t m NULL])
  ultimately show ?case by (intro exI [of _ "g_MonitorLockBlockInformations m"]) simp
next
  case (Cons p ds)
  from Cons.prems(1) obtain h where h: "sched = p" "p \<noteq> NULL" "headers m p = Some h"
      "header_list m (pNext h) ds" by auto
  obtain bs where bs:
    "(if characteristic h AND IL2C_CHARACTERISTIC_ACQUIRED_MONITOR_LOCK \<noteq> 0
      then il2c_release_monitor_lock_from_objref m t p else Inr m) =
       Inr (m\<lparr>g_MonitorLockBlockInformations := bs\<rparr>)"
    "\<forall>q c. q \<noteq> p \<longrightarrow> releasable m q c \<longrightarrow> releasable (m\<lparr>g_MonitorLockBlockInformations := bs\<rparr>) q c"
    "block_counts (m\<lparr>g_MonitorLockBlockInformations := bs\<rparr>) = block_counts m"
  proof (cases "bit (characteristic h) 27")
    case True
    with release_result [OF h(3,2) True, of t] Cons.prems(3) h(3) that show ?thesis
      by (auto simp: and_flag_zero_iff)
  next
    case False
    with that [of "g_MonitorLockBlockInformations m"] show ?thesis by (simp add: and_flag_zero_iff)
  qed
  let ?m = "il2c_free (m\<lparr>g_MonitorLockBlockInformations := bs\<rparr>) p"
  have p: "p \<notin> set ds" using Cons.prems(2) by simp
  have "segment ?m (pNext h) ds NULL = segment m (pNext h) ds NULL"
    using p by (intro segment_cong) (auto simp: il2c_free_def)
  then have "header_list ?m (pNext h) ds" using h(4) by simp
  moreover have "\<forall>q \<in> set ds. releasable ?m q (characteristic (the (headers ?m q)))"
  proof
    fix q assume q: "q \<in> set ds"
    then have "q \<noteq> p" using p by auto
    with q bs(2) Cons.prems(3) show "releasable ?m q (characteristic (the (headers ?m q)))"
      by (simp add: il2c_free_def releasable_def)
  qed
  ultimately obtain bs' where IH: "sweep_step2 t ?m (pNext h) =
      Some (Inr (?m\<lparr>headers := headers ?m |` (- set ds), g_MonitorLockBlockInformations := bs'\<rparr>))"
      "\<forall>q c. q \<notin> set ds \<longrightarrow> releasable ?m q c \<longrightarrow> releasable (?m\<lparr>g_MonitorLockBlockInformations := bs'\<rparr>) q c"
      "block_counts (?m\<lparr>g_MonitorLockBlockInformations := bs'\<rparr>) = block_counts ?m"
    using Cons.IH [of ?m "pNext h"] Cons.prems(2) by auto
  have "(headers m)(p := None) |` (- set ds) = headers m |` (- set (p # ds))"
    by (auto simp: restrict_map_def fun_eq_iff)
  then have "?m\<lparr>headers := headers ?m |` (- set ds), g_MonitorLockBlockInformations := bs'\<rparr> =
      m\<lparr>headers := headers m |` (- set (p # ds)), g_MonitorLockBlockInformations := bs'\<rparr>"
    by (simp add: il2c_free_def)
  with IH(1) bs(1) h(1-3) have "sweep_step2 t m sched =
      Some (Inr (m\<lparr>headers := headers m |` (- set (p # ds)), g_MonitorLockBlockInformations := bs'\<rparr>))"
    by (subst sweep_step2.simps) auto
  moreover have "releasable (m\<lparr>g_MonitorLockBlockInformations := bs'\<rparr>) q c" if "q \<notin> set (p # ds)" "releasable m q c" for q c
    using that bs(2) [rule_format, of q c] IH(2) [rule_format, of q c] by (simp add: releasable_def il2c_free_def)
  moreover have "block_counts (m\<lparr>g_MonitorLockBlockInformations := bs'\<rparr>) = block_counts m"
    using IH(3) bs(3) by (simp add: block_counts_def il2c_free_def)
  ultimately show ?case by blast
qed

section \<open>The sweep\<close>

lemma sweep_result:
  assumes "finalizer finalize ready once" and "1 \<le> g_ExecutingCollection m"
    and "header_list m (g_pBeginHeader m) hs" and "distinct hs"
    and "\<forall>p \<in> set hs. sweepable ready m p"
    and "\<forall>p \<in> set hs. dead m p \<longrightarrow> releasable m p (characteristic (the (headers m p)))"
  shows "\<exists>m'. il2c_step3_sweep_garbage t finalize m =
      Some (Inr (m', of_nat (length (filter (\<lambda>p. \<not> dead m p) hs)))) \<and>
    header_list m' (g_pBeginHeader m') (filter (\<lambda>p. \<not> dead m p) hs) \<and>
    (\<forall>p \<in> set hs. dead m p \<longrightarrow> headers m' p = None) \<and>
    (\<forall>p. \<not> (p \<in> set hs \<and> dead m p) \<longrightarrow> swept once m m' (set hs) p) \<and>
    g_PendingRemains m' = of_nat (length (filter (to_finalize m) hs)) \<and>
    g_CollectionMarkIndex m' = g_CollectionMarkIndex m \<and>
    g_ExecutingCollection m' = g_ExecutingCollection m \<and> vptrs m' = vptrs m \<and>
    g_pRootReferences m' = g_pRootReferences m \<and>
    g_GlobalLockForCollect m' = g_GlobalLockForCollect m \<and>
    (\<forall>b. (\<forall>p \<in> set hs. to_finalize m p \<longrightarrow> b \<noteq> object_of p) \<longrightarrow> bodies m' b = bodies m b) \<and>
    (\<forall>p c. \<not> (p \<in> set hs \<and> dead m p) \<longrightarrow> releasable m p c \<longrightarrow> releasable m' p c) \<and> block_counts m' = block_counts m"
proof -
  let ?m0 = "m\<lparr>g_PendingRemains := 0\<rparr>"
  have pay: "payload ?m0 p = payload m p" for p by (simp add: payload_def)
  have decide: "dead ?m0 = dead m" "to_finalize ?m0 = to_finalize m"
    using decisions_cong [OF pay] by (simp_all add: fun_eq_iff)
  have seg0: "segment ?m0 p xs q = segment m p xs q" for p xs q by (intro segment_cong) simp
  have "\<forall>p \<in> set hs. sweepable ready ?m0 p"
    using assms(5) finalizer.sweepable_cong [OF assms(1) pay] finalizer.ready_pending [OF assms(1)] by simp
  with finalizer.step1_result [OF assms(1), of ?m0 "[]" "g_pBeginHeader m" hs NULL "[]" 0] assms(3,4)
  obtain m1 sched where step1: "sweep_step1 finalize ?m0 None (g_pBeginHeader m) NULL 0 =
      Some (Inr (m1, sched, of_nat (length (filter (\<lambda>p. \<not> dead m p) hs))))"
    "finalizer.step1_post once ?m0 [] hs [] m1 sched"
    by (auto simp: seg0 decide unlink_target_def)
  have post: "header_list m1 (g_pBeginHeader m1) (filter (\<lambda>p. \<not> dead m p) hs)"
    "header_list m1 sched (rev (filter (dead m) hs))" "\<And>x. swept once ?m0 m1 (set hs) x"
    "g_CollectionMarkIndex m1 = g_CollectionMarkIndex m"
    "g_MonitorLockBlockInformations m1 = g_MonitorLockBlockInformations m"
    "g_PendingRemains m1 = of_nat (length (filter (to_finalize m) hs))"
    "g_ExecutingCollection m1 = g_ExecutingCollection m" "vptrs m1 = vptrs m"
    "g_pRootReferences m1 = g_pRootReferences m" "g_GlobalLockForCollect m1 = g_GlobalLockForCollect m"
    "\<And>b. (\<forall>p \<in> set hs. to_finalize m p \<longrightarrow> b \<noteq> object_of p) \<Longrightarrow> bodies m1 b = bodies m b"
    using step1(2) unfolding finalizer.step1_post_def [OF assms(1)] by (auto simp: decide)
  have same: "payload m1 p = payload m p" if "dead m p" for p
    using post(3) [of p] that by (simp add: swept_def decide pay dead_def)
  have "releasable m1 p (characteristic (the (headers m1 p)))" if "p \<in> set hs" "dead m p" for p
  proof -
    have "characteristic (the (headers m1 p)) = characteristic (the (headers m p))"
      using same [OF that(2)] that(2)
      by (cases "headers m p"; cases "headers m1 p") (auto simp: payload_def dead_def garbage_def)
    moreover have "releasable m1 p c = releasable m p c" for c by (simp add: releasable_def post(5))
    ultimately show ?thesis using assms(6) that by simp
  qed
  with step2_result [OF post(2), of t] assms(4) obtain bs where step2: "sweep_step2 t m1 sched =
      Some (Inr (m1\<lparr>headers := headers m1 |` (- {p \<in> set hs. dead m p}), g_MonitorLockBlockInformations := bs\<rparr>))"
      "\<forall>q c. \<not> (q \<in> set hs \<and> dead m q) \<longrightarrow> releasable m1 q c \<longrightarrow> releasable (m1\<lparr>g_MonitorLockBlockInformations := bs\<rparr>) q c"
      "block_counts (m1\<lparr>g_MonitorLockBlockInformations := bs\<rparr>) = block_counts m1"
    by auto
  let ?m2 = "m1\<lparr>headers := headers m1 |` (- {p \<in> set hs. dead m p}), g_MonitorLockBlockInformations := bs\<rparr>"
  have "segment ?m2 p (filter (\<lambda>p. \<not> dead m p) hs) q = segment m1 p (filter (\<lambda>p. \<not> dead m p) hs) q" for p q
    by (intro segment_cong) (simp add: restrict_map_def)
  moreover have "swept once m ?m2 (set hs) p" if "\<not> (p \<in> set hs \<and> dead m p)" for p
    using post(3) [of p] that by (auto simp: swept_def decide pay payload_def restrict_map_def)
  moreover have "il2c_step3_sweep_garbage t finalize m =
      Some (Inr (?m2, of_nat (length (filter (\<lambda>p. \<not> dead m p) hs))))"
    using assms(2) step1(1) step2(1) by (simp add: il2c_step3_sweep_garbage_def Let_def)
  moreover have "releasable ?m2 p c" if "\<not> (p \<in> set hs \<and> dead m p)" "releasable m p c" for p c
    using step2(2) [rule_format, OF that(1), of c] that(2) by (simp add: releasable_def post(5))
  moreover have "block_counts ?m2 = block_counts m" using step2(3) by (simp add: block_counts_def post(5))
  ultimately show ?thesis
    using post by (intro exI [of _ ?m2]) (simp add: restrict_map_def)
qed

section \<open>Properties\<close>


end
