(* ===== verification/GC_Collect.thy ===== *)
theory GC_Collect
  imports GC_Sweep
begin

text \<open>
  A whole collection (src/Core/il2c_gc.c: \<open>il2c_collect__\<close> and the final shutdown) and
  System.GC (src/System/GC.c), as the collecting thread \<open>t\<close> runs them: the locks of the
  running threads are taken, the mark index is flipped, and the mark and sweep phases of
  the previous theories follow.  The room on the native stack and the finalizers are
  arguments.
\<close>

section \<open>Operations\<close>

definition update_thread :: "machine \<Rightarrow> addr \<Rightarrow> (thread_body \<Rightarrow> thread_body result) \<Rightarrow> machine result" where
  "update_thread m a f =
     (case bodies m a of
        ThreadBody th \<Rightarrow> bind_result (f th) (\<lambda>th'. Inr (m\<lparr>bodies := (bodies m)(a := ThreadBody th')\<rparr>))
      | _ \<Rightarrow> Inl BadAccess)"

definition thread_lock :: "(monitor_lock \<Rightarrow> monitor_lock result) \<Rightarrow> machine \<Rightarrow> addr \<Rightarrow> machine result" where
  "thread_lock operation m a =
     il2c_assert (has_vptr0 m a System_Threading_Thread_VTABLE)
     (update_thread m a (\<lambda>th. bind_result (operation (lockForCollect th)) (\<lambda>l. Inr (th\<lparr>lockForCollect := l\<rparr>))))"

text \<open>Every assigned root slot is a running thread: its lock is taken, or released.\<close>

fun thread_locks :: "(monitor_lock \<Rightarrow> monitor_lock result) \<Rightarrow> machine \<Rightarrow> addr list \<Rightarrow> machine result" where
  "thread_locks operation m [] = Inr m"
| "thread_locks operation m (a # as) =
     bind_result (if a \<noteq> NULL then thread_lock operation m a else Inr m)
       (\<lambda>m'. thread_locks operation m' as)"

definition il2c_enter_for_collect :: "int \<Rightarrow> machine \<Rightarrow> machine result" where
  "il2c_enter_for_collect t m =
     il2c_assert (1 \<le> g_ExecutingCollection m)
       (thread_locks (il2c_enter_monitor_lock t) m (all_slots (g_pRootReferences m)))"

definition il2c_exit_for_collect :: "int \<Rightarrow> machine \<Rightarrow> machine result" where
  "il2c_exit_for_collect t m =
     il2c_assert (1 \<le> g_ExecutingCollection m)
       (thread_locks (il2c_exit_monitor_lock t) m (all_slots (g_pRootReferences m)))"

text \<open>The prologue and the epilogue both collections share.\<close>

definition collect_begin :: "int \<Rightarrow> machine \<Rightarrow> machine result" where
  "collect_begin t m =
     bind_result (il2c_enter_monitor_lock t (g_GlobalLockForCollect m)) (\<lambda>l.
     il2c_enter_for_collect t (m\<lparr>g_GlobalLockForCollect := l\<rparr>))"

definition collect_end :: "int \<Rightarrow> machine \<Rightarrow> machine result" where
  "collect_end t m =
     bind_result (il2c_exit_for_collect t m) (\<lambda>m1.
     bind_result (il2c_exit_monitor_lock t (g_GlobalLockForCollect m1)) (\<lambda>l.
     Inr (m1\<lparr>g_GlobalLockForCollect := l, g_ExecutingCollection := g_ExecutingCollection m1 - 1\<rparr>)))"

definition flip_mark_index :: "machine \<Rightarrow> machine" where
  "flip_mark_index m =
     m\<lparr>g_CollectionMarkIndex := g_CollectionMarkIndex m XOR IL2C_CHARACTERISTIC_MARK_INDEX\<rparr>"

text \<open>Errors of a phase end the run; \<open>None\<close> is a phase that does not end.\<close>

definition and_then :: "'a result option \<Rightarrow> ('a \<Rightarrow> 'b result option) \<Rightarrow> 'b result option" where
  "and_then x k = (case x of None \<Rightarrow> None | Some (Inl e) \<Rightarrow> Some (Inl e) | Some (Inr y) \<Rightarrow> k y)"

lemma and_then_simps [simp]:
  "and_then None k = None" "and_then (Some (Inl e)) k = Some (Inl e)" "and_then (Some (Inr y)) k = k y"
  by (simp_all add: and_then_def)

definition il2c_collect ::
  "int \<Rightarrow> nat \<Rightarrow> (addr \<Rightarrow> machine \<Rightarrow> addr \<Rightarrow> machine result) \<Rightarrow> machine \<Rightarrow> machine result option" where
  "il2c_collect t stack finalize m =
     (let m0 = m\<lparr>g_ExecutingCollection := g_ExecutingCollection m + 1\<rparr> in
      if 2 \<le> g_ExecutingCollection m0
      then Some (Inr (m0\<lparr>g_ExecutingCollection := g_ExecutingCollection m0 - 1\<rparr>))
      else and_then (Some (collect_begin t m0)) (\<lambda>m1.
           and_then (Some (mark_phase stack (flip_mark_index m1))) (\<lambda>m2.
           and_then (il2c_step3_sweep_garbage t finalize m2) (\<lambda>(m3, remains).
           Some (collect_end t m3)))))"

text \<open>
  The final shutdown drops all roots and sweeps until nothing remains; each round makes
  the objects finalized by the round before collectable.
\<close>

definition shutdown_round ::
  "int \<Rightarrow> (addr \<Rightarrow> machine \<Rightarrow> addr \<Rightarrow> machine result) \<Rightarrow> machine \<Rightarrow> (machine \<times> u64) result option" where
  "shutdown_round t finalize m =
     (let m1 = flip_mark_index m;
          m2 = il2c_unregister_all_root_references_for_final_shutdown m1 False;
          m3 = il2c_unregister_all_root_references_for_final_shutdown m2 True
      in il2c_step3_sweep_garbage t finalize m3)"

partial_function (option) exhaust_instances ::
  "int \<Rightarrow> (addr \<Rightarrow> machine \<Rightarrow> addr \<Rightarrow> machine result) \<Rightarrow> machine \<Rightarrow> machine result option" where
  "exhaust_instances t finalize m =
     (case shutdown_round t finalize m of
        None \<Rightarrow> None
      | Some (Inl e) \<Rightarrow> Some (Inl e)
      | Some (Inr (m', remains)) \<Rightarrow>
          if remains = 0 then Some (Inr m') else exhaust_instances t finalize m')"

definition il2c_collect_for_final_shutdown ::
  "int \<Rightarrow> (addr \<Rightarrow> machine \<Rightarrow> addr \<Rightarrow> machine result) \<Rightarrow> machine \<Rightarrow> machine result option" where
  "il2c_collect_for_final_shutdown t finalize m =
     (let m0 = m\<lparr>g_ExecutingCollection := g_ExecutingCollection m + 1\<rparr> in
      if g_ExecutingCollection m0 \<noteq> 1 then Some (Inl AssertionFailed)
      else and_then (Some (collect_begin t m0)) (\<lambda>m1.
           and_then (exhaust_instances t finalize m1) (\<lambda>m2.
           and_then (Some (il2c_release_all_monitor_lock_for_final_shutdown m2)) (\<lambda>m3.
           Some (collect_end t m3)))))"

section \<open>System.GC\<close>

definition update_header :: "machine \<Rightarrow> addr \<Rightarrow> (u64 \<Rightarrow> u64) \<Rightarrow> machine result" where
  "update_header m obj f =
     il2c_assert (obj \<noteq> NULL)
     (bind_result (get_header m obj)
       (\<lambda>h. Inr (set_characteristic m (il2c_get_header obj) (f (characteristic h)))))"

definition GC_SuppressFinalize :: "machine \<Rightarrow> addr \<Rightarrow> machine result" where
  "GC_SuppressFinalize m obj =
     update_header m obj (\<lambda>c. c OR IL2C_CHARACTERISTIC_FINALIZER_CALLED)"

definition GC_ReRegisterForFinalize :: "machine \<Rightarrow> addr \<Rightarrow> machine result" where
  "GC_ReRegisterForFinalize m obj =
     update_header m obj (\<lambda>c. c AND NOT IL2C_CHARACTERISTIC_FINALIZER_CALLED)"

definition GC_Collect ::
  "int \<Rightarrow> nat \<Rightarrow> (addr \<Rightarrow> machine \<Rightarrow> addr \<Rightarrow> machine result) \<Rightarrow> machine \<Rightarrow> machine result option" where
  "GC_Collect t stack finalize m = il2c_collect t stack finalize m"

partial_function (option) GC_WaitForPendingFinalizers ::
  "int \<Rightarrow> nat \<Rightarrow> (addr \<Rightarrow> machine \<Rightarrow> addr \<Rightarrow> machine result) \<Rightarrow> machine \<Rightarrow> machine result option" where
  "GC_WaitForPendingFinalizers t stack finalize m =
     (if g_PendingRemains m < 1 then Some (Inr m)
      else (case il2c_collect t stack finalize m of
          None \<Rightarrow> None
        | Some (Inl e) \<Rightarrow> Some (Inl e)
        | Some (Inr m') \<Rightarrow> GC_WaitForPendingFinalizers t stack finalize m'))"

section \<open>Thread locks\<close>

definition takeable :: "int \<Rightarrow> monitor_lock \<Rightarrow> bool" where
  "takeable t l \<longleftrightarrow> lock_alive l \<and> (owner l = None \<or> owner l = Some t)"

lemma takeable_operations:
  assumes "takeable t l"
  shows "\<exists>l'. il2c_enter_monitor_lock t l = Inr l' \<and> takeable t l'"
    and "\<exists>l'. il2c_exit_monitor_lock t l = Inr l' \<and> takeable t l'"
proof -
  have l: "lock_alive l" "owner l = None \<or> owner l = Some t" using assms by (simp_all add: takeable_def)
  then have "il2c_enter_monitor_lock t l = Inr (l\<lparr>owner := Some t, held := held l + 1\<rparr>)"
    by (simp add: il2c_enter_monitor_lock_def)
  moreover have "takeable t (l\<lparr>owner := Some t, held := held l + 1\<rparr>)" using l by (simp add: takeable_def)
  ultimately show "\<exists>l'. il2c_enter_monitor_lock t l = Inr l' \<and> takeable t l'" by blast
  show "\<exists>l'. il2c_exit_monitor_lock t l = Inr l' \<and> takeable t l'"
  proof (cases "owner l = Some t")
    case True
    let ?l = "l\<lparr>owner := if held l \<le> 1 then None else Some t, held := held l - 1\<rparr>"
    have "il2c_exit_monitor_lock t l = Inr ?l" "takeable t ?l"
      using True l(1) by (simp_all add: il2c_exit_monitor_lock_def takeable_def)
    then show ?thesis by blast
  next
    case False
    then have "il2c_exit_monitor_lock t l = Inr l" using l(1) by (simp add: il2c_exit_monitor_lock_def)
    with assms show ?thesis by blast
  qed
qed

text \<open>Bodies that agree except for who holds the lock of a thread.\<close>

definition forget_lock :: "object_body \<Rightarrow> object_body" where
  "forget_lock b = (case b of ThreadBody th \<Rightarrow> ThreadBody (th\<lparr>lockForCollect :=
       (lockForCollect th)\<lparr>owner := None, held := 0\<rparr>\<rparr>) | _ \<Rightarrow> b)"

definition body_sim :: "object_body \<Rightarrow> object_body \<Rightarrow> bool" where
  "body_sim b b' \<longleftrightarrow> forget_lock b = forget_lock b'"

lemma body_simE:
  assumes "body_sim b b'"
  obtains "b' = b" "\<nexists>th. b = ThreadBody th"
  | th th' where "b = ThreadBody th" "b' = ThreadBody th'" "start th' = start th"
      "parameter th' = parameter th" "frames th' = frames th"
      "pTemporaryReferenceAnchor th' = pTemporaryReferenceAnchor th" "rawHandle th' = rawHandle th"
      "lock_alive (lockForCollect th') = lock_alive (lockForCollect th)"
proof (cases b; cases b')
  fix th th' assume b: "b = ThreadBody th" "b' = ThreadBody th'"
  then have eq: "th\<lparr>lockForCollect := (lockForCollect th)\<lparr>owner := None, held := 0\<rparr>\<rparr> =
      th'\<lparr>lockForCollect := (lockForCollect th')\<lparr>owner := None, held := 0\<rparr>\<rparr>"
    using assms by (simp add: body_sim_def forget_lock_def)
  show thesis
    by (rule that(2) [OF b])
       (use arg_cong [OF eq, of start] arg_cong [OF eq, of parameter] arg_cong [OF eq, of frames]
         arg_cong [OF eq, of pTemporaryReferenceAnchor] arg_cong [OF eq, of rawHandle]
         arg_cong [OF arg_cong [OF eq, of lockForCollect], of lock_alive] in simp_all)
qed (use assms that in \<open>auto simp: body_sim_def forget_lock_def\<close>)

text \<open>Machines with the same heap, up to marks, counters and locks.\<close>

definition up_to_locks :: "machine \<Rightarrow> machine \<Rightarrow> bool" where
  "up_to_locks m m' \<longleftrightarrow> cells m' = cells m \<and> vptrs m' = vptrs m \<and>
     g_MonitorLockBlockInformations m' = g_MonitorLockBlockInformations m \<and>
     g_pRootReferences m' = g_pRootReferences m \<and> g_pFixedReferences m' = g_pFixedReferences m \<and>
     g_pBeginStaticFields m' = g_pBeginStaticFields m \<and> g_pBeginHeader m' = g_pBeginHeader m \<and>
     (\<forall>a. body_sim (bodies m a) (bodies m' a))"

lemma up_to_locks_refs:
  assumes "up_to_locks m m'"
  shows "object_refs m' a ty = object_refs m a ty" and "object_ok m' a ty = object_ok m a ty"
    and "frame_refs m' = frame_refs m" and "adjusted m' = adjusted m"
proof -
  have cells: "cells m' = cells m" "vptrs m' = vptrs m" and sim: "body_sim (bodies m a) (bodies m' a)"
    using assms by (auto simp: up_to_locks_def)
  have d: "descriptor_refs m' = descriptor_refs m" by (simp add: fun_eq_iff descriptor_refs_def cells)
  show f: "frame_refs m' = frame_refs m" by (intro ext) (simp add: frame_refs_def d)
  show "adjusted m' = adjusted m" by (intro ext) (simp add: adjusted_def cells)
  have i: "item_refs m' = item_refs m" by (intro ext) (simp add: item_refs_def cells)
  have vp: "has_vptr0 m' = has_vptr0 m" by (intro ext) (simp add: has_vptr0_def cells)
  show "object_refs m' a ty = object_refs m a ty"
    using sim by (cases rule: body_simE) (auto simp: object_refs_def i cells thread_refs_def f split: object_body.split)
  show "object_ok m' a ty = object_ok m a ty"
    using sim by (cases rule: body_simE) (auto simp: object_ok_def vp split: object_body.split)
qed

definition thread_ready :: "int \<Rightarrow> machine \<Rightarrow> addr \<Rightarrow> bool" where
  "thread_ready t m a \<longleftrightarrow> has_vptr0 m a System_Threading_Thread_VTABLE \<and>
     (\<exists>th. bodies m a = ThreadBody th \<and> takeable t (lockForCollect th))"

lemma thread_locks_result:
  assumes op: "\<And>l. takeable t l \<Longrightarrow> \<exists>l'. operation l = Inr l' \<and> takeable t l'"
  shows "\<forall>a \<in> set as - {NULL}. thread_ready t m a \<Longrightarrow>
    \<exists>bs. thread_locks operation m as = Inr (m\<lparr>bodies := bs\<rparr>) \<and> (\<forall>a. body_sim (bodies m a) (bs a)) \<and>
      (\<forall>a. thread_ready t m a \<longrightarrow> thread_ready t (m\<lparr>bodies := bs\<rparr>) a)"
proof (induction as arbitrary: m)
  case Nil
  then show ?case by (intro exI [of _ "bodies m"]) (simp add: body_sim_def)
next
  case (Cons a as)
  show ?case
  proof (cases "a = NULL")
    case True
    with Cons show ?thesis by simp
  next
    case False
    with Cons.prems obtain th l' where th: "has_vptr0 m a System_Threading_Thread_VTABLE"
        "bodies m a = ThreadBody th" "operation (lockForCollect th) = Inr l'" "takeable t l'"
        "takeable t (lockForCollect th)"
      using op by (force simp: thread_ready_def)
    have forget: "l'\<lparr>owner := None, held := 0\<rparr> = (lockForCollect th)\<lparr>owner := None, held := 0\<rparr>"
      using th(4,5) by (simp add: takeable_def)
    let ?bs = "(bodies m)(a := ThreadBody (th\<lparr>lockForCollect := l'\<rparr>))"
    let ?m = "m\<lparr>bodies := ?bs\<rparr>"
    have step: "thread_lock operation m a = Inr ?m"
      using th by (simp add: thread_lock_def update_thread_def)
    have ready: "thread_ready t m x \<Longrightarrow> thread_ready t ?m x" for x
      using th(1,4) by (auto simp: thread_ready_def has_vptr0_def)
    have "\<forall>x \<in> set as - {NULL}. thread_ready t ?m x" using Cons.prems ready by auto
    from Cons.IH [OF this] obtain bs where bs: "thread_locks operation ?m as = Inr (?m\<lparr>bodies := bs\<rparr>)"
        "\<forall>x. body_sim (?bs x) (bs x)" "\<forall>x. thread_ready t ?m x \<longrightarrow> thread_ready t (?m\<lparr>bodies := bs\<rparr>) x"
      by auto
    have "body_sim (bodies m x) (bs x)" for x
      using bs(2) [rule_format, of x] th(2) forget
      by (auto simp: body_sim_def forget_lock_def split: if_splits)
    with bs(1,3) step False ready show ?thesis by (intro exI [of _ bs]) auto
  qed
qed

section \<open>The heap between collections\<close>

text \<open>
  Between collections every object in the list is initialized and carries the current mark
  index; the objects that are not in the list are the constants of the compiled program.
\<close>

definition between_collections :: "machine \<Rightarrow> addr list \<Rightarrow> bool" where
  "between_collections m hs \<longleftrightarrow> g_ExecutingCollection m = 0 \<and> mark_index_ok (g_CollectionMarkIndex m) \<and>
     finite (dom (headers m)) \<and> header_list m (g_pBeginHeader m) hs \<and> distinct hs \<and>
     (\<forall>a \<in> objects m. const_object m a \<longleftrightarrow> il2c_get_header a \<notin> set hs) \<and>
     (\<forall>p \<in> set hs. bit (characteristic (the (headers m p))) 30 \<and>
        (bit (characteristic (the (headers m p))) 29 \<longleftrightarrow> bit (g_CollectionMarkIndex m) 29))"

definition heap_layout :: "machine \<Rightarrow> bool" where
  "heap_layout m \<longleftrightarrow> roots_valid m \<and>
     (\<forall>a \<in> objects m. \<not> const_object m a \<longrightarrow> object_ok m a (htype (header_of m a)) \<and>
        refs_valid m (object_refs m a (htype (header_of m a))))"

definition locks_ready :: "int \<Rightarrow> machine \<Rightarrow> bool" where
  "locks_ready t m \<longleftrightarrow> takeable t (g_GlobalLockForCollect m) \<and>
     (\<forall>a \<in> registered (g_pRootReferences m). thread_ready t m a)"

definition vtables_ok :: "machine \<Rightarrow> addr list \<Rightarrow> bool" where
  "vtables_ok m hs \<longleftrightarrow> (\<forall>p \<in> set hs. vptr0 (htype (the (headers m p))) \<noteq> None \<and>
     vptrs m (object_of p) = vptr0 (htype (the (headers m p))))"

text \<open>An object with a finalizer that has not run.\<close>

definition needs_finalizer :: "machine \<Rightarrow> addr \<Rightarrow> bool" where
  "needs_finalizer m p \<longleftrightarrow>
     Finalize (the (vptr0 (htype (the (headers m p))))) \<noteq> System_Object_Finalize \<and>
     \<not> bit (characteristic (the (headers m p))) 28"

text \<open>The objects a collection keeps.\<close>

definition survives :: "machine \<Rightarrow> addr \<Rightarrow> bool" where
  "survives m p \<longleftrightarrow> reaches m (root_set m) (object_of p) \<or> needs_finalizer m p"

definition finalizers_ready :: "(addr \<Rightarrow> machine \<Rightarrow> addr \<Rightarrow> bool) \<Rightarrow> machine \<Rightarrow> addr list \<Rightarrow> bool" where
  "finalizers_ready ready m hs \<longleftrightarrow> (\<forall>p \<in> set hs. \<forall>m'. needs_finalizer m p \<longrightarrow> up_to_locks m m' \<longrightarrow>
     ready (Finalize (the (vptr0 (htype (the (headers m p)))))) m' (object_of p))"

lemma header_list_dom: "segment m p xs q \<Longrightarrow> x \<in> set xs \<Longrightarrow> \<exists>h. headers m x = Some h \<and> x \<noteq> NULL"
  by (induction xs arbitrary: p) auto

lemma header_of_object_of [simp]: "header_of m (object_of p) = the (headers m p)"
  by (simp add: header_of_def)

lemma object_of_objects [simp]: "object_of p \<in> objects m \<longleftrightarrow> p \<in> dom (headers m)"
  by (auto simp: objects_def)

text \<open>Locking the world and flipping the mark index does not change the object graph.\<close>

lemma graph_cong:
  assumes "up_to_locks m m'" and "headers m' = headers m"
  shows "objects m' = objects m" "header_of m' = header_of m" "const_object m' = const_object m"
    and "children m' = children m" "root_set m' = root_set m" "reaches m' R a = reaches m R a"
    and "roots_valid m' = roots_valid m" "refs_valid m' = refs_valid m"
proof -
  note refs = up_to_locks_refs [OF assms(1)]
  show obj: "objects m' = objects m" by (simp add: objects_def assms(2))
  show hd: "header_of m' = header_of m" by (simp add: fun_eq_iff header_of_def assms(2))
  show const: "const_object m' = const_object m" by (simp add: fun_eq_iff const_object_def hd)
  show child: "children m' = children m" by (intro ext) (simp add: children_def hd refs)
  have static: "static_refs m' = static_refs m"
    using assms(1) by (simp add: static_refs_def refs up_to_locks_def)
  then show "root_set m' = root_set m" using assms(1) by (simp add: root_set_def refs up_to_locks_def)
  show valid: "refs_valid m' = refs_valid m"
    using assms(1) by (intro ext) (simp add: refs_valid_def obj up_to_locks_def)
  show "roots_valid m' = roots_valid m"
    using assms(1) by (simp add: roots_valid_def static valid obj up_to_locks_def)
  have "reaches m' R x \<longleftrightarrow> reaches m R x" for x
  proof
    show "reaches m' R x \<Longrightarrow> reaches m R x"
      by (induction rule: reaches.induct) (auto simp: obj const child intro: reaches.intros)
    show "reaches m R x \<Longrightarrow> reaches m' R x"
      by (induction rule: reaches.induct) (auto simp: obj [symmetric] const [symmetric] child [symmetric] intro: reaches.intros)
  qed
  then show "reaches m' R a = reaches m R a" .
qed

lemma collect_begin_result:
  assumes "locks_ready t m" and "1 \<le> g_ExecutingCollection m"
  shows "\<exists>l bs. collect_begin t m = Inr (m\<lparr>g_GlobalLockForCollect := l, bodies := bs\<rparr>) \<and> takeable t l \<and>
    up_to_locks m (m\<lparr>g_GlobalLockForCollect := l, bodies := bs\<rparr>) \<and>
    (\<forall>a \<in> registered (g_pRootReferences m). thread_ready t (m\<lparr>g_GlobalLockForCollect := l, bodies := bs\<rparr>) a)"
proof -
  obtain l where l: "il2c_enter_monitor_lock t (g_GlobalLockForCollect m) = Inr l" "takeable t l"
    using assms(1) takeable_operations(1) unfolding locks_ready_def by blast
  let ?m = "m\<lparr>g_GlobalLockForCollect := l\<rparr>"
  have ready: "thread_ready t ?m a = thread_ready t m a" for a
    by (simp add: thread_ready_def has_vptr0_def)
  have slots: "set (all_slots (g_pRootReferences m)) - {NULL} = registered (g_pRootReferences m)"
    by (auto simp: registered_def)
  have "\<forall>a \<in> set (all_slots (g_pRootReferences m)) - {NULL}. thread_ready t ?m a"
    using assms(1) by (simp add: slots ready locks_ready_def)
  from thread_locks_result [where operation = "il2c_enter_monitor_lock t" and t = t,
      OF takeable_operations(1) this] obtain bs where bs:
    "thread_locks (il2c_enter_monitor_lock t) ?m (all_slots (g_pRootReferences m)) = Inr (?m\<lparr>bodies := bs\<rparr>)"
    "\<forall>a. body_sim (bodies m a) (bs a)" "\<forall>a. thread_ready t ?m a \<longrightarrow> thread_ready t (?m\<lparr>bodies := bs\<rparr>) a"
    by auto
  have "collect_begin t m = Inr (?m\<lparr>bodies := bs\<rparr>)"
    using l bs(1) assms(2) by (simp add: collect_begin_def il2c_enter_for_collect_def)
  moreover have "up_to_locks m (?m\<lparr>bodies := bs\<rparr>)" using bs(2) by (simp add: up_to_locks_def)
  ultimately show ?thesis
    using l(2) bs(3) assms(1) ready by (intro exI [of _ l] exI [of _ bs]) (auto simp: locks_ready_def)
qed

lemma collect_end_result:
  assumes "takeable t (g_GlobalLockForCollect m)" and "1 \<le> g_ExecutingCollection m"
    and "\<forall>a \<in> registered (g_pRootReferences m). thread_ready t m a"
  shows "\<exists>l bs. collect_end t m = Inr (m\<lparr>bodies := bs, g_GlobalLockForCollect := l,
    g_ExecutingCollection := g_ExecutingCollection m - 1\<rparr>) \<and> takeable t l \<and>
    (\<forall>a. body_sim (bodies m a) (bs a)) \<and> (\<forall>a. thread_ready t m a \<longrightarrow> thread_ready t (m\<lparr>bodies := bs\<rparr>) a)"
proof -
  have slots: "set (all_slots (g_pRootReferences m)) - {NULL} = registered (g_pRootReferences m)"
    by (auto simp: registered_def)
  obtain bs where bs: "thread_locks (il2c_exit_monitor_lock t) m (all_slots (g_pRootReferences m)) =
      Inr (m\<lparr>bodies := bs\<rparr>)" "\<forall>a. body_sim (bodies m a) (bs a)"
      "\<forall>a. thread_ready t m a \<longrightarrow> thread_ready t (m\<lparr>bodies := bs\<rparr>) a"
    using thread_locks_result [where operation = "il2c_exit_monitor_lock t" and t = t and m = m and
        as = "all_slots (g_pRootReferences m)", OF takeable_operations(2)] assms(3) slots by auto
  obtain l where "il2c_exit_monitor_lock t (g_GlobalLockForCollect m) = Inr l" "takeable t l"
    using assms(1) takeable_operations(2) by blast
  with bs assms(2) show ?thesis
    by (intro exI [of _ l] exI [of _ bs]) (simp add: collect_end_def il2c_exit_for_collect_def)
qed

text \<open>What the sweep finds in the list after the mark phase has marked the set \<open>R\<close>.\<close>

lemma sweep_decisions:
  assumes "between_collections m hs" and "headers m1 = headers m"
    and idx: "g_CollectionMarkIndex m1 = g_CollectionMarkIndex m XOR IL2C_CHARACTERISTIC_MARK_INDEX"
    and "p \<in> set hs"
  shows "garbage (mark_set m1 R) p \<longleftrightarrow> object_of p \<notin> R"
    and "to_finalize (mark_set m1 R) p \<longleftrightarrow> object_of p \<notin> R \<and> needs_finalizer m p"
    and "dead (mark_set m1 R) p \<longleftrightarrow> object_of p \<notin> R \<and> \<not> needs_finalizer m p"
proof -
  obtain h where h: "headers m p = Some h"
    using assms(1,4) header_list_dom unfolding between_collections_def by blast
  have bits: "bit (characteristic h) 30" "bit (characteristic h) 29 \<longleftrightarrow> bit (g_CollectionMarkIndex m) 29"
      "mark_index_ok (g_CollectionMarkIndex m)"
    using assms(1,4) h by (auto simp: between_collections_def)
  have ok: "mark_index_ok (g_CollectionMarkIndex m1)" "bit (g_CollectionMarkIndex m1) 29 \<longleftrightarrow> \<not> bit (g_CollectionMarkIndex m) 29"
    using mark_index_flip(1) [OF bits(3)] mark_index_flip(2) by (simp_all add: idx)
  have pay: "payload (mark_set m1 R) p =
      Some (htype h, if object_of p \<in> R then characteristic (flip_mark h) else characteristic h)"
    using h by (simp add: payload_def mark_set_def assms(2))
  have test: "sweep_test (g_CollectionMarkIndex m1) c \<longleftrightarrow> bit c 30 \<and> bit c 29 \<noteq> bit (g_CollectionMarkIndex m1) 29" for c
    unfolding sweep_test_def by (rule sweep_test_iff [OF ok(1)])
  show g: "garbage (mark_set m1 R) p \<longleftrightarrow> object_of p \<notin> R"
    using bits ok by (simp add: garbage_def pay test)
  show f: "to_finalize (mark_set m1 R) p \<longleftrightarrow> object_of p \<notin> R \<and> needs_finalizer m p"
    using g h by (auto simp: to_finalize_def pay needs_finalizer_def)
  show "dead (mark_set m1 R) p \<longleftrightarrow> object_of p \<notin> R \<and> \<not> needs_finalizer m p"
    using g f by (auto simp: dead_def)
qed

lemma collect_ready:
  assumes m: "between_collections m hs" and vt: "vtables_ok m hs" and ready: "finalizers_ready ready m hs"
    and same: "up_to_locks m m1" "headers m1 = headers m"
      "g_CollectionMarkIndex m1 = g_CollectionMarkIndex m XOR IL2C_CHARACTERISTIC_MARK_INDEX"
    and fin: "finalizer finalize ready once" and "p \<in> set hs"
  shows "sweepable ready (mark_set m1 R) p"
proof -
  obtain h where h: "headers m p = Some h"
    using m assms(8) header_list_dom unfolding between_collections_def by blast
  have vts: "vptr0 (htype h) \<noteq> None" "vptrs m1 (object_of p) = vptr0 (htype h)"
    using vt assms(8) h same(1) by (auto simp: vtables_ok_def up_to_locks_def)
  have pay: "\<exists>c. payload (mark_set m1 R) p = Some (htype h, c)"
    using h by (simp add: payload_def mark_set_def same(2))
  have "ready (Finalize (the (vptr0 (htype h)))) (mark_set m1 R) (object_of p)" if "needs_finalizer m p"
  proof -
    have "ready (Finalize (the (vptr0 (htype h)))) m1 (object_of p)"
      using ready that assms(8) h same(1) unfolding finalizers_ready_def by (metis option.sel)
    then show ?thesis unfolding mark_set_def finalizer.ready_headers [OF fin] .
  qed
  with pay vts sweep_decisions(2) [OF m same(2,3) assms(8), of R] show ?thesis
    by (auto simp: sweepable_def)
qed

text \<open>A surviving header after the collection.\<close>

definition kept_header :: "machine \<Rightarrow> machine \<Rightarrow> addr \<Rightarrow> bool" where
  "kept_header m m' p \<longleftrightarrow> (\<exists>h h'. headers m p = Some h \<and> headers m' p = Some h' \<and> htype h' = htype h \<and>
     bit (characteristic h') 30 \<and> (bit (characteristic h') 29 \<longleftrightarrow> bit (g_CollectionMarkIndex m') 29))"

lemma kept_header_swept:
  assumes m: "between_collections m hs" and same: "headers m1 = headers m"
      "g_CollectionMarkIndex m1 = g_CollectionMarkIndex m XOR IL2C_CHARACTERISTIC_MARK_INDEX"
    and "p \<in> set hs" and swept: "swept once (mark_set m1 R) m' (set hs) p"
    and live: "object_of p \<in> R \<or> needs_finalizer m p"
    and idx: "g_CollectionMarkIndex m' = g_CollectionMarkIndex m1"
  shows "kept_header m m' p"
proof -
  obtain h where h: "headers m p = Some h"
    using m assms(4) header_list_dom unfolding between_collections_def by blast
  have bits: "bit (characteristic h) 30" "bit (characteristic h) 29 \<longleftrightarrow> bit (g_CollectionMarkIndex m) 29"
    using m assms(4) h by (auto simp: between_collections_def)
  have flipped: "bit (g_CollectionMarkIndex m') 29 \<longleftrightarrow> \<not> bit (g_CollectionMarkIndex m) 29"
    unfolding idx same(2) by (rule mark_index_flip(2))
  have head: "headers (mark_set m1 R) p = Some (if object_of p \<in> R then flip_mark h else h)"
    using h same(1) by (simp add: mark_set_def)
  show ?thesis
  proof (cases "object_of p \<in> R")
    case True
    then have "payload m' p = payload (mark_set m1 R) p"
      using swept sweep_decisions(2) [OF m same assms(4), of R] by (simp add: swept_def)
    then obtain h' where "headers m' p = Some h'" "htype h' = htype h"
        "characteristic h' = characteristic (flip_mark h)"
      using head True by (cases "headers m' p") (auto simp: payload_def)
    with h bits flipped show ?thesis by (auto simp: kept_header_def)
  next
    case False
    then have "to_finalize (mark_set m1 R) p"
      using live sweep_decisions(2) [OF m same assms(4), of R] by simp
    with swept assms(4) head False obtain h' where "headers m' p = Some h'" "finalized_header once h h'"
      by (auto simp: swept_def)
    with h bits flipped show ?thesis by (auto simp: kept_header_def finalized_header_def)
  qed
qed

text \<open>The machines of a collection: \<open>m2\<close> starts the mark phase, \<open>m3\<close> ends the sweep.\<close>

definition collect_states :: "int \<Rightarrow> machine \<Rightarrow> addr list \<Rightarrow> bool \<Rightarrow> addr set \<Rightarrow> machine \<Rightarrow> machine \<Rightarrow> machine \<Rightarrow> bool" where
  "collect_states t m hs once R m2 m3 m4 \<longleftrightarrow> up_to_locks m m2 \<and> headers m2 = headers m \<and>
     g_CollectionMarkIndex m2 = g_CollectionMarkIndex m XOR IL2C_CHARACTERISTIC_MARK_INDEX \<and>
     (\<forall>p. \<not> (p \<in> set hs \<and> dead (mark_set m2 R) p) \<longrightarrow> swept once (mark_set m2 R) m3 (set hs) p) \<and>
     g_CollectionMarkIndex m3 = g_CollectionMarkIndex m2 \<and> vptrs m3 = vptrs m \<and>
     g_pRootReferences m3 = g_pRootReferences m \<and>
     (\<forall>b. (\<forall>p \<in> set hs. to_finalize (mark_set m2 R) p \<longrightarrow> b \<noteq> object_of p) \<longrightarrow> bodies m3 b = bodies m2 b) \<and>
     m4 = m3\<lparr>bodies := bodies m4, g_GlobalLockForCollect := g_GlobalLockForCollect m4, g_ExecutingCollection := 0\<rparr> \<and>
     (\<forall>a. body_sim (bodies m3 a) (bodies m4 a)) \<and> takeable t (g_GlobalLockForCollect m4) \<and>
     (\<forall>a \<in> registered (g_pRootReferences m). thread_ready t m4 a)"

lemma collect_phases:
  assumes m: "between_collections m hs" and layout: "heap_layout m" and locks: "locks_ready t m"
    and vt: "vtables_ok m hs" and fin: "finalizer finalize ready once" and ready: "finalizers_ready ready m hs"
    and mon: "\<forall>p \<in> set hs. releasable m p (characteristic (the (headers m p)))"
    and room: "card (objects m) \<le> stack"
  defines "R \<equiv> {a. reaches m (root_set m) a}"
  shows "\<exists>m1 m3 m4. collect_begin t (m\<lparr>g_ExecutingCollection := 1\<rparr>) = Inr m1 \<and>
    mark_phase stack (flip_mark_index m1) = Inr (mark_set (flip_mark_index m1) R) \<and>
    (\<exists>n. il2c_step3_sweep_garbage t finalize (mark_set (flip_mark_index m1) R) = Some (Inr (m3, n))) \<and>
    collect_end t m3 = Inr m4 \<and> headers m4 = headers m3 \<and> g_pBeginHeader m4 = g_pBeginHeader m3 \<and>
    g_ExecutingCollection m4 = 0 \<and> g_CollectionMarkIndex m4 = g_CollectionMarkIndex m3 \<and>
    header_list m3 (g_pBeginHeader m3) (filter (survives m) hs) \<and>
    (\<forall>p \<in> set hs. survives m p \<longrightarrow> kept_header m m3 p) \<and>
    (\<forall>p \<in> set hs. \<not> survives m p \<longrightarrow> headers m3 p = None) \<and>
    collect_states t m hs once R (flip_mark_index m1) m3 m4"
proof -
  let ?m0 = "m\<lparr>g_ExecutingCollection := 1\<rparr>"
  have "locks_ready t ?m0" using locks by (simp add: locks_ready_def thread_ready_def has_vptr0_def)
  from collect_begin_result [OF this] obtain l bs where
    enter: "collect_begin t ?m0 = Inr (?m0\<lparr>g_GlobalLockForCollect := l, bodies := bs\<rparr>)" "takeable t l"
      "up_to_locks ?m0 (?m0\<lparr>g_GlobalLockForCollect := l, bodies := bs\<rparr>)"
      "\<forall>a \<in> registered (g_pRootReferences m). thread_ready t (?m0\<lparr>g_GlobalLockForCollect := l, bodies := bs\<rparr>) a"
    by auto
  let ?m1 = "?m0\<lparr>g_GlobalLockForCollect := l, bodies := bs\<rparr>"
  define m2 where "m2 = flip_mark_index ?m1"
  have m2: "g_ExecutingCollection m2 = 1" "g_pBeginHeader m2 = g_pBeginHeader m"
      "g_pRootReferences m2 = g_pRootReferences m" "g_GlobalLockForCollect m2 = l"
      "vptrs m2 = vptrs m" "bodies m2 = bs"
    by (simp_all add: m2_def flip_mark_index_def)
  have same: "up_to_locks m m2" "headers m2 = headers m"
      "g_CollectionMarkIndex m2 = g_CollectionMarkIndex m XOR IL2C_CHARACTERISTIC_MARK_INDEX"
    using enter(3) by (simp_all add: m2_def flip_mark_index_def up_to_locks_def)
  note graph = graph_cong [OF same(1,2)]
  have idx: "mark_index_ok (g_CollectionMarkIndex m)" and dom: "finite (dom (headers m))"
      and hs: "header_list m (g_pBeginHeader m) hs" "distinct hs"
    using m by (auto simp: between_collections_def)
  have ok2: "heap_ok m2"
    using layout dom mark_index_flip(1) [OF idx] up_to_locks_refs [OF same(1)]
    by (simp add: heap_ok_def heap_layout_def graph same(2,3) m2)
  have fresh: "\<not> marked m2 a" if "a \<in> objects m" "\<not> const_object m a" for a
  proof -
    have "il2c_get_header a \<in> set hs" using m that by (auto simp: between_collections_def)
    then have "bit (characteristic (header_of m a)) 29 \<longleftrightarrow> bit (g_CollectionMarkIndex m) 29"
      using m by (auto simp: between_collections_def header_of_def)
    then show ?thesis by (simp add: marked_def graph same(3) mark_index_flip(2))
  qed
  have fin_obj: "finite (objects m)" using dom by (simp add: objects_def)
  have "white m2 \<subseteq> objects m" by (auto simp: white_def graph)
  then have card: "card (white m2) \<le> stack" using card_mono [OF fin_obj] room by (meson le_trans)
  have "mark_phase stack m2 = Inr (mark_set m2 {a. reaches m2 (root_set m2) a})"
    using layout fresh by (intro mark_phase_result ok2 card) (auto simp: graph heap_layout_def)
  then have marked: "mark_phase stack m2 = Inr (mark_set m2 R)" by (simp add: graph R_def)
  let ?m = "mark_set m2 R"
  note decide = sweep_decisions [OF m same(2,3)]
  have seg: "header_list ?m (g_pBeginHeader ?m) hs"
  proof -
    have "segment ?m p hs q = segment m p hs q" for p q
      by (intro segment_cong) (auto simp: mark_set_def same(2) option.map_comp o_def)
    moreover have "g_pBeginHeader ?m = g_pBeginHeader m" by (simp add: m2)
    ultimately show ?thesis using hs(1) by simp
  qed
  have sweepable: "\<forall>p \<in> set hs. sweepable ready ?m p"
    using collect_ready [OF m vt ready same fin] by blast
  have rel: "releasable ?m p (characteristic (the (headers ?m p)))" if pin: "p \<in> set hs" for p
  proof -
    obtain h where h: "headers m p = Some h"
      using header_list_dom [OF hs(1) pin] by blast
    have "releasable m p (characteristic h)" using mon pin h by force
    moreover have "the (headers ?m p) = (if object_of p \<in> R then flip_mark h else h)"
      using h by (simp add: mark_set_def same(2))
    ultimately show ?thesis
      using same(1) releasable_cong [of ?m m "characteristic (the (headers ?m p))" "characteristic h" p]
      by (simp add: mark_set_def up_to_locks_def)
  qed
  have "1 \<le> g_ExecutingCollection ?m" by (simp add: m2)
  from sweep_result [OF fin this seg hs(2) sweepable, of t] rel obtain m3 where sweep:
    "il2c_step3_sweep_garbage t finalize ?m = Some (Inr (m3, of_nat (length (filter (\<lambda>p. \<not> dead ?m p) hs))))"
    "header_list m3 (g_pBeginHeader m3) (filter (\<lambda>p. \<not> dead ?m p) hs)"
    "\<forall>p \<in> set hs. dead ?m p \<longrightarrow> headers m3 p = None"
    "\<forall>p. \<not> (p \<in> set hs \<and> dead ?m p) \<longrightarrow> swept once ?m m3 (set hs) p"
    "g_CollectionMarkIndex m3 = g_CollectionMarkIndex ?m"
    "g_ExecutingCollection m3 = g_ExecutingCollection ?m" "vptrs m3 = vptrs ?m"
    "g_pRootReferences m3 = g_pRootReferences ?m" "g_GlobalLockForCollect m3 = g_GlobalLockForCollect ?m"
    "\<forall>b. (\<forall>p \<in> set hs. to_finalize ?m p \<longrightarrow> b \<noteq> object_of p) \<longrightarrow> bodies m3 b = bodies ?m b"
    by blast
  have live: "\<not> dead ?m p \<longleftrightarrow> survives m p" if "p \<in> set hs" for p
    using decide(3) [OF that, of R] by (auto simp: survives_def R_def)
  have kept: "filter (\<lambda>p. \<not> dead ?m p) hs = filter (survives m) hs"
    using live by (intro filter_cong) auto
  have threads: "thread_ready t m3 a" if "a \<in> registered (g_pRootReferences m3)" for a
  proof -
    have a: "a \<in> registered (g_pRootReferences m)" using that sweep(8) by (simp add: m2)
    have "bodies m3 a = bodies ?m a"
    proof (rule sweep(10) [rule_format], rule notI)
      fix p assume p: "p \<in> set hs" "to_finalize ?m p" "a = object_of p"
      then have "object_of p \<notin> R" using decide(2) by blast
      moreover have "reaches m (root_set m) a"
      proof (rule reaches_root)
        show "a \<in> root_set m" using a by (simp add: root_set_def)
        show "a \<in> objects m" using a layout by (auto simp: heap_layout_def roots_valid_def)
        then show "\<not> const_object m a" using m p by (auto simp: between_collections_def)
      qed
      ultimately show False using p(3) by (simp add: R_def)
    qed
    then show ?thesis
      using enter(4) a sweep(7) by (simp add: thread_ready_def has_vptr0_def m2)
  qed
  have "takeable t (g_GlobalLockForCollect m3)" "1 \<le> g_ExecutingCollection m3"
    using sweep(6,9) enter(2) by (simp_all add: m2 mark_set_def)
  from collect_end_result [OF this] threads obtain l' bs' where
    end': "collect_end t m3 = Inr (m3\<lparr>bodies := bs', g_GlobalLockForCollect := l',
      g_ExecutingCollection := g_ExecutingCollection m3 - 1\<rparr>)" "takeable t l'"
      "\<forall>a. body_sim (bodies m3 a) (bs' a)"
      "\<forall>a. thread_ready t m3 a \<longrightarrow> thread_ready t (m3\<lparr>bodies := bs'\<rparr>) a" by blast
  have "kept_header m m3 p" if "p \<in> set hs" "survives m p" for p
    using that live [OF that(1)] sweep(4,5)
    by (intro kept_header_swept [OF m same(2,3) that(1)]) (auto simp: survives_def R_def)
  moreover have exec: "g_ExecutingCollection m3 = 1" using sweep(6) by (simp add: m2)
  moreover have "collect_states t m hs once R m2 m3
      (m3\<lparr>bodies := bs', g_GlobalLockForCollect := l', g_ExecutingCollection := 0\<rparr>)"
    using same sweep(4,5,7,8,10) end'(2-4) threads
    by (simp add: collect_states_def m2 thread_ready_def has_vptr0_def)
  ultimately show ?thesis
    using enter(1) marked sweep(1,2,3) end'(1) live kept
    by (intro exI [of _ ?m1] exI [of _ m3] exI) (auto simp: kept m2_def)
qed

section \<open>Properties\<close>


end
