(* ===== verification/Thread_Finalizer.thy ===== *)
theory Thread_Finalizer
  imports GC_Collect
begin

text \<open>
  The runtime's own finalizer, System.Threading.Thread's (src/System/Threading/Thread.c),
  the dispatch through the vtable's code pointer, and the proof that it keeps the contract
  the collector relies on.  With it the collector's theorems are applied to concrete heaps.
\<close>

section \<open>Operations\<close>

text \<open>
  \<open>Finalize\<close> runs on the collecting thread \<open>t\<close>.  The handle it closes is the field it
  has just overwritten; with POSIX threads closing is a no-op.  It then releases the
  thread's collection lock, which the code expects the collection to have taken, and
  destroys it.
\<close>

definition System_Threading_Thread_Finalize :: "int \<Rightarrow> machine \<Rightarrow> addr \<Rightarrow> machine result" where
  "System_Threading_Thread_Finalize t m this =
     il2c_assert (this \<noteq> NULL)
     (update_thread m this (\<lambda>th.
        if rawHandle th = -1 then Inr th
        else bind_result (il2c_exit_monitor_lock t (lockForCollect th)) (\<lambda>l.
             Inr (th\<lparr>rawHandle := -1, lockForCollect := il2c_destroy_monitor_lock l\<rparr>))))"

text \<open>The call through the vtable; a code pointer that is no finalizer is undefined.\<close>

definition runtime_finalize :: "int \<Rightarrow> addr \<Rightarrow> machine \<Rightarrow> addr \<Rightarrow> machine result" where
  "runtime_finalize t code m a =
     (if code = System_Object_Finalize then Inr m
      else if code = System_Threading_Thread_Finalize_code then System_Threading_Thread_Finalize t m a
      else Inl BadAccess)"

section \<open>The contract\<close>

definition runtime_ready :: "addr \<Rightarrow> machine \<Rightarrow> addr \<Rightarrow> bool" where
  "runtime_ready code m a \<longleftrightarrow> code = System_Object_Finalize \<or>
     code = System_Threading_Thread_Finalize_code \<and> a \<noteq> NULL \<and>
     (\<exists>th. bodies m a = ThreadBody th \<and> (rawHandle th \<noteq> -1 \<longrightarrow> lock_alive (lockForCollect th)))"

lemma exit_alive: "lock_alive l \<Longrightarrow> \<exists>l'. il2c_exit_monitor_lock t l = Inr l'"
  by (simp add: il2c_exit_monitor_lock_def)

lemma runtime_finalize_result:
  assumes "runtime_ready code m a"
  shows "\<exists>bs. runtime_finalize t code m a = Inr (m\<lparr>bodies := bs\<rparr>) \<and> (\<forall>b. b \<noteq> a \<longrightarrow> bs b = bodies m b)"
proof (cases "code = System_Object_Finalize")
  case True
  then show ?thesis by (intro exI [of _ "bodies m"]) (simp add: runtime_finalize_def)
next
  case False
  with assms obtain th where th: "code = System_Threading_Thread_Finalize_code" "a \<noteq> NULL"
      "bodies m a = ThreadBody th" "rawHandle th \<noteq> -1 \<longrightarrow> lock_alive (lockForCollect th)"
    by (auto simp: runtime_ready_def)
  have run: "runtime_finalize t code m a = System_Threading_Thread_Finalize t m a"
    using False th(1) by (simp add: runtime_finalize_def)
  show ?thesis
  proof (cases "rawHandle th = -1")
    case True
    with th show ?thesis
      unfolding run
      by (intro exI [of _ "(bodies m)(a := ThreadBody th)"])
         (simp add: System_Threading_Thread_Finalize_def update_thread_def)
  next
    case False
    then obtain l where "il2c_exit_monitor_lock t (lockForCollect th) = Inr l"
      using th(4) exit_alive by blast
    with False th show ?thesis
      unfolding run
      by (intro exI [of _ "(bodies m)(a := ThreadBody (th\<lparr>rawHandle := -1,
            lockForCollect := il2c_destroy_monitor_lock l\<rparr>))"])
         (simp add: System_Threading_Thread_Finalize_def update_thread_def)
  qed
qed

interpretation runtime: finalizer "runtime_finalize t" runtime_ready True for t
proof
  fix c m a h
  assume "runtime_ready c m a" and h: "headers m (il2c_get_header a) = Some h"
  then obtain bs where bs: "runtime_finalize t c m a = Inr (m\<lparr>bodies := bs\<rparr>)"
      "\<forall>b. b \<noteq> a \<longrightarrow> bs b = bodies m b"
    using runtime_finalize_result by blast
  have "finalizer_frame m (m\<lparr>bodies := bs\<rparr>) a" using bs(2) by (simp add: finalizer_frame_def)
  moreover have "\<forall>d b. b \<noteq> a \<longrightarrow> runtime_ready d m b \<longrightarrow> runtime_ready d (m\<lparr>bodies := bs\<rparr>) b"
    using bs(2) by (simp add: runtime_ready_def)
  moreover have "headers (m\<lparr>bodies := bs\<rparr>) = (headers m)(il2c_get_header a \<mapsto> h)"
    using h by (simp add: fun_upd_idem)
  ultimately show "\<exists>m' h'. runtime_finalize t c m a = Inr m' \<and>
      headers m' = (headers m)(il2c_get_header a \<mapsto> h') \<and> pNext h' = pNext h \<and> htype h' = htype h \<and>
      (\<forall>n. n \<noteq> 28 \<longrightarrow> bit (characteristic h') n = bit (characteristic h) n) \<and>
      (True \<longrightarrow> bit (characteristic h) 28 \<longrightarrow> bit (characteristic h') 28) \<and>
      finalizer_frame m m' a \<and> (\<forall>d b. b \<noteq> a \<longrightarrow> runtime_ready d m b \<longrightarrow> runtime_ready d m' b)"
    using bs(1) by (intro exI [of _ "m\<lparr>bodies := bs\<rparr>"] exI [of _ h]) simp
qed (simp_all add: runtime_ready_def)

text \<open>Taking thread locks does not touch what the finalizers rely on.\<close>

lemma runtime_finalizers_ready:
  assumes "\<forall>p \<in> set hs. needs_finalizer m p \<longrightarrow>
    runtime_ready (Finalize (the (vptr0 (htype (the (headers m p)))))) m (object_of p)"
  shows "finalizers_ready runtime_ready m hs"
proof -
  have "runtime_ready c m' a" if "up_to_locks m m'" "runtime_ready c m a" for c m' a
  proof -
    have "body_sim (bodies m a) (bodies m' a)" using that(1) by (simp add: up_to_locks_def)
    then show ?thesis using that(2) by (cases rule: body_simE) (auto simp: runtime_ready_def)
  qed
  with assms show ?thesis by (auto simp: finalizers_ready_def)
qed

section \<open>The collector on concrete heaps\<close>

text \<open>The sample heap of the mark phase, between collections.\<close>

definition sample_idle :: machine where
  "sample_idle = sample_heap\<lparr>g_CollectionMarkIndex := 0, g_ExecutingCollection := 0\<rparr>"

lemma sample_idle_graph:
  "objects sample_idle = {1000, 2000, 3000}" "header_of sample_idle = header_of sample_heap"
  "const_object sample_idle = const_object sample_heap" "root_set sample_idle = root_set sample_heap"
  "reaches sample_idle R a = reaches sample_heap R a" "refs_valid sample_idle = refs_valid sample_heap"
  "roots_valid sample_idle = roots_valid sample_heap" "object_refs sample_idle a ty = object_refs sample_heap a ty"
  "object_ok sample_idle a ty = object_ok sample_heap a ty"
proof -
  have same: "up_to_locks sample_heap sample_idle" "headers sample_idle = headers sample_heap"
    by (simp_all add: up_to_locks_def sample_idle_def body_sim_def)
  note graph = graph_cong [OF same] up_to_locks_refs(1,2) [OF same(1)]
  show "objects sample_idle = {1000, 2000, 3000}" "header_of sample_idle = header_of sample_heap"
    "const_object sample_idle = const_object sample_heap" "root_set sample_idle = root_set sample_heap"
    "reaches sample_idle R a = reaches sample_heap R a" "refs_valid sample_idle = refs_valid sample_heap"
    "roots_valid sample_idle = roots_valid sample_heap" "object_refs sample_idle a ty = object_refs sample_heap a ty"
    "object_ok sample_idle a ty = object_ok sample_heap a ty"
    by (simp_all add: graph sample_objects)
qed

lemma sample_idle_headers:
  "headers sample_idle 976 = Some \<lparr>pNext = 1976, htype = sample_base, characteristic = 0x40000000\<rparr>"
  "headers sample_idle 1976 = Some \<lparr>pNext = 2976, htype = sample_array_type, characteristic = 0x40000000\<rparr>"
  "headers sample_idle 2976 = Some \<lparr>pNext = NULL, htype = sample_base, characteristic = 0x40000000\<rparr>"
  "finite (dom (headers sample_idle))" "g_pBeginHeader sample_idle = 976"
  "g_CollectionMarkIndex sample_idle = 0" "g_ExecutingCollection sample_idle = 0"
  by (simp_all add: sample_idle_def sample_heap_def)

lemma sample_bits: "bit (0x40000000 :: u64) 30" "\<not> bit (0x40000000 :: u64) 29"
    "\<not> bit (0x40000000 :: u64) 31" "\<not> bit (0x40000000 :: u64) 27" "\<not> bit (0x40000000 :: u64) 28"
  by simp_all

lemma sample_idle_ok:
  "between_collections sample_idle [976, 1976, 2976]" "heap_layout sample_idle"
  "locks_ready 1 sample_idle" "vtables_ok sample_idle [976, 1976, 2976]"
  "finalizers_ready runtime_ready sample_idle [976, 1976, 2976]"
  "\<forall>p \<in> set [976, 1976, 2976]. releasable sample_idle p (characteristic (the (headers sample_idle p)))"
  "card (objects sample_idle) \<le> 3"
proof -
  show "between_collections sample_idle [976, 1976, 2976]"
    by (simp add: between_collections_def sample_idle_headers sample_idle_graph mark_index_ok_def
        const_object_def il2c_get_header_def sizeof_REF_HEADER_def)
  show "heap_layout sample_idle"
    using sample_heap_ok sample_roots_valid
    by (simp add: heap_layout_def sample_idle_graph heap_ok_def sample_objects)
  show "locks_ready 1 sample_idle"
    by (simp add: locks_ready_def sample_idle_def sample_heap_def empty_machine_def takeable_def
        registered_def)
  show "vtables_ok sample_idle [976, 1976, 2976]"
    by (simp add: vtables_ok_def sample_idle_headers)
       (simp add: sample_idle_def sample_heap_def object_of_def sizeof_REF_HEADER_def sample_base_def
         sample_array_type_def System_Object_VTABLE_def)
  show "finalizers_ready runtime_ready sample_idle [976, 1976, 2976]"
    by (rule runtime_finalizers_ready)
       (simp add: sample_idle_headers runtime_ready_def sample_base_def sample_array_type_def System_Object_VTABLE_def)
  show "\<forall>p \<in> set [976, 1976, 2976]. releasable sample_idle p (characteristic (the (headers sample_idle p)))"
    by (simp add: sample_idle_headers releasable_def)
  show "card (objects sample_idle) \<le> 3" by (simp add: sample_idle_graph)
qed

lemma sample_survives: "filter (survives sample_idle) [976, 1976, 2976] = [976, 1976]"
proof -
  have reach: "reaches sample_heap (root_set sample_heap) a \<longleftrightarrow> a \<in> {1000, 2000}" for a
    using sample_reaches by blast
  have "\<not> needs_finalizer sample_idle 976" "\<not> needs_finalizer sample_idle 1976"
      "\<not> needs_finalizer sample_idle 2976"
    by (simp_all add: needs_finalizer_def sample_idle_headers sample_base_def sample_array_type_def
        System_Object_VTABLE_def)
  then show ?thesis
    by (simp add: survives_def sample_idle_graph reach object_of_def sizeof_REF_HEADER_def)
qed


text \<open>The same heap after its mark phase.\<close>

definition sample_marked :: machine where
  "sample_marked = mark_set sample_heap {1000, 2000}"

lemma sample_marked_headers:
  "headers sample_marked 976 = Some \<lparr>pNext = 1976, htype = sample_base, characteristic = 0x60000000\<rparr>"
  "headers sample_marked 1976 = Some \<lparr>pNext = 2976, htype = sample_array_type, characteristic = 0x60000000\<rparr>"
  "headers sample_marked 2976 = Some \<lparr>pNext = NULL, htype = sample_base, characteristic = 0x40000000\<rparr>"
  "g_CollectionMarkIndex sample_marked = 0x20000000" "g_pBeginHeader sample_marked = 976"
  "g_ExecutingCollection sample_marked = 1"
  "vptrs sample_marked 1000 = Some System_Object_VTABLE" "vptrs sample_marked 2000 = Some System_Object_VTABLE"
  "vptrs sample_marked 3000 = Some System_Object_VTABLE"
  by (simp_all add: sample_marked_def mark_set_def sample_heap_def object_of_def sizeof_REF_HEADER_def
      flip_mark_def IL2C_CHARACTERISTIC_MARK_INDEX_def)

lemma sample_marked_decisions:
  "\<not> garbage sample_marked 976" "\<not> garbage sample_marked 1976" "dead sample_marked 2976"
  by (simp_all add: dead_def to_finalize_def garbage_def payload_def sample_marked_headers sweep_test_def
      IL2C_CHARACTERISTIC_MARK_INDEX_def IL2C_CHARACTERISTIC_INITIALIZED_def sample_base_def)


end
