(* ===== verification/GC_Invariant.thy ===== *)
theory GC_Invariant
  imports Thread_Finalizer
begin

text \<open>
  The invariant of the heap between collections, \<open>gc_ready\<close>: what a collection needs of
  the list of objects, their layout, their vtables, the roots and the locks.  A collection
  in which no finalizer comes due establishes it again for the objects it keeps, and leaves
  every reference of the kept objects as it was.  (An object whose finalizer comes due is
  kept without what it refers to, so after such a collection the invariant can fail.)
\<close>

section \<open>The sweep stores no references\<close>

definition same_references :: "machine \<Rightarrow> machine \<Rightarrow> bool" where
  "same_references m m' \<longleftrightarrow> cells m' = cells m \<and> g_pFixedReferences m' = g_pFixedReferences m \<and>
     g_pBeginStaticFields m' = g_pBeginStaticFields m"

definition stores_nothing :: "(addr \<Rightarrow> machine \<Rightarrow> addr \<Rightarrow> machine result) \<Rightarrow> bool" where
  "stores_nothing finalize \<longleftrightarrow> (\<forall>c m a m'. finalize c m a = Inr m' \<longrightarrow> same_references m m')"

lemma same_references_trans: "same_references m m1 \<Longrightarrow> same_references m1 m2 \<Longrightarrow> same_references m m2"
  by (simp add: same_references_def)

lemma same_references_steps [simp]:
  "same_references m m"
  "same_references (set_characteristic m p c) m' = same_references m m'"
  "same_references (set_pNext m p n) m' = same_references m m'"
  "same_references (store_unlink m u n) m' = same_references m m'"
  "same_references (il2c_free m p) m' = same_references m m'"
  "same_references (m\<lparr>g_PendingRemains := k\<rparr>) m' = same_references m m'"
  "same_references m (put_bucket i b m)"
  by (simp_all add: same_references_def set_characteristic_def set_pNext_def store_unlink_def il2c_free_def
      put_bucket_def split: option.splits)

lemma sweep_step1_references:
  assumes "sweep_step1 finalize m u p sched n = Some (Inr (m', r))" "stores_nothing finalize"
  shows "same_references m m'"
proof -
  define P where "P f m y \<longleftrightarrow> (stores_nothing f \<longrightarrow> (\<forall>m' r. y = Inr (m', r) \<longrightarrow> same_references m m'))"
    for f m and y :: "(machine \<times> addr \<times> u64) result"
  have "P finalize m (Inr (m', r))"
  proof (rule sweep_step1.raw_induct [where P = "\<lambda>f m u p s n y. P f m y", OF _ assms(1)])
    fix step :: "(addr \<Rightarrow> machine \<Rightarrow> addr \<Rightarrow> machine result) \<Rightarrow> machine \<Rightarrow> addr option \<Rightarrow> addr \<Rightarrow> addr \<Rightarrow> u64
        \<Rightarrow> (machine \<times> addr \<times> u64) result option"
      and f m u p sched n y
    assume IH: "\<And>f m u p sched n y. step f m u p sched n = Some y \<Longrightarrow> P f m y"
    have "P f m y" if "step f (set_pNext (store_unlink (set_characteristic m q d) v k) q l) u p sched n = Some y"
        for f m q d v k l u p sched n y
      using IH [OF that] by (simp add: P_def)
    moreover have "P f m y" if "step f (set_pNext (store_unlink m v k) q l) u p sched n = Some y"
        for f m q v k l u p sched n y
      using IH [OF that] by (simp add: P_def)
    moreover have "P f m y" if "f c (set_characteristic (set_characteristic m q d) q e) a = Inr m3"
        "step f (m3\<lparr>g_PendingRemains := k\<rparr>) u p sched n = Some y" for f c m q d e a m3 k u p sched n y
    proof -
      have "same_references m m3" if "stores_nothing f"
        using that \<open>f c _ a = Inr m3\<close> unfolding stores_nothing_def by fastforce
      then show ?thesis using IH [OF that(2)] by (auto simp: P_def intro: same_references_trans)
    qed
    moreover have "P f m (Inr (m, r))" "P f m (Inl e)" for f m r e by (simp_all add: P_def)
    moreover assume "(if p = 0 then Some (Inr (m, sched, n)) else case headers m p of None \<Rightarrow> Some (Inl BadAccess)
        | Some h \<Rightarrow> if sweep_test (g_CollectionMarkIndex m) (characteristic h)
          then (case vptr0 (htype h) of None \<Rightarrow> Some (Inl BadAccess)
            | Some vt \<Rightarrow> let c = characteristic h; overrides = Finalize vt \<noteq> System_Object_Finalize;
                m1 = if overrides then set_characteristic m p (c OR IL2C_CHARACTERISTIC_FINALIZER_CALLED) else m
              in if overrides \<and> c AND IL2C_CHARACTERISTIC_FINALIZER_CALLED = 0
                then let m2 = set_characteristic m1 p ((c OR IL2C_CHARACTERISTIC_FINALIZER_CALLED) XOR IL2C_CHARACTERISTIC_MARK_INDEX)
                  in if vptrs m2 (object_of p) \<noteq> Some vt then Some (Inl AssertionFailed)
                    else (case f (Finalize vt) m2 (object_of p) of Inl e \<Rightarrow> Some (Inl e)
                      | Inr m3 \<Rightarrow> step f (m3\<lparr>g_PendingRemains := g_PendingRemains m3 + 1\<rparr>) (Some p) (pNext h) sched (n + 1))
                else step f (set_pNext (store_unlink m1 u (pNext h)) p sched) u (pNext h) p n)
          else step f m (Some p) (pNext h) sched (n + 1)) = Some y"
    ultimately show "P f m y"
      using IH by (auto simp: Let_def split: if_splits option.splits sum.splits)
  qed
  then show ?thesis using assms(2) by (simp add: P_def)
qed

lemma release_references:
  assumes "il2c_release_monitor_lock_from_objref m t p = Inr m1"
  shows "same_references m m1"
proof (cases "g_MonitorLockBlockInformations m ! (object_of p mod 7)")
  case None
  then show ?thesis using assms by (auto simp: il2c_release_monitor_lock_from_objref_def Let_def)
next
  case (Some info)
  obtain b slot where "find_lock (object_of p) False (blocks info) 0 = (b, slot)" by fastforce
  then show ?thesis using assms Some
    by (cases slot) (auto simp: il2c_release_monitor_lock_from_objref_def Let_def)
qed

lemma sweep_step2_references:
  assumes "sweep_step2 t m p = Some (Inr m')"
  shows "same_references m m'"
proof -
  define P where "P m y \<longleftrightarrow> (\<forall>m'. y = Inr m' \<longrightarrow> same_references m m')" for m and y :: "machine result"
  note release = release_references
  have "P m (Inr m')"
  proof (rule sweep_step2.raw_induct [where P = "\<lambda>t m p y. P m y", OF _ assms])
    fix step :: "int \<Rightarrow> machine \<Rightarrow> addr \<Rightarrow> machine result option" and t m p y
    assume IH: "\<And>t m p y. step t m p = Some y \<Longrightarrow> P m y"
    assume step: "(if p = 0 then Some (Inr m) else case headers m p of None \<Rightarrow> Some (Inl BadAccess)
        | Some h \<Rightarrow> (case (if characteristic h AND IL2C_CHARACTERISTIC_ACQUIRED_MONITOR_LOCK \<noteq> 0
              then il2c_release_monitor_lock_from_objref m t p else Inr m) of
            Inl e \<Rightarrow> Some (Inl e) | Inr m1 \<Rightarrow> step t (il2c_free m1 p) (pNext h))) = Some y"
    have "P m1 y" if "step t (il2c_free m1 p) q = Some y" for m1 t p q y
      using IH [OF that] by (simp add: P_def)
    then show "P m y"
      using step release
      by (auto simp: P_def split: if_splits option.splits sum.splits) (blast intro: same_references_trans)
  qed
  then show ?thesis by (simp add: P_def)
qed

lemma sweep_references:
  assumes "il2c_step3_sweep_garbage t finalize m = Some (Inr (m', n))" "stores_nothing finalize"
  shows "same_references m m'"
proof -
  from assms(1) obtain m1 sched where
    s: "sweep_step1 finalize (m\<lparr>g_PendingRemains := 0\<rparr>) None (g_pBeginHeader m) NULL 0 = Some (Inr (m1, sched, n))"
      "sweep_step2 t m1 sched = Some (Inr m')"
    by (auto simp: il2c_step3_sweep_garbage_def Let_def split: if_splits option.splits sum.splits)
  have "same_references m m1" using sweep_step1_references [OF s(1) assms(2)] by simp
  then show ?thesis using sweep_step2_references [OF s(2)] by (rule same_references_trans)
qed

lemma runtime_stores_nothing: "stores_nothing (runtime_finalize t)"
  by (auto simp: stores_nothing_def same_references_def runtime_finalize_def System_Threading_Thread_Finalize_def
      update_thread_def split: if_splits object_body.splits)

section \<open>The invariant\<close>

definition gc_ready :: "int \<Rightarrow> machine \<Rightarrow> addr list \<Rightarrow> bool" where
  "gc_ready t m hs \<longleftrightarrow> between_collections m hs \<and> heap_layout m \<and> locks_ready t m \<and> vtables_ok m hs"

lemma object_refs_cong:
  assumes "cells m' = cells m" "bodies m' a = bodies m a"
  shows "object_refs m' a ty = object_refs m a ty"
proof -
  have d: "descriptor_refs m' = descriptor_refs m" by (simp add: fun_eq_iff descriptor_refs_def assms)
  have f: "frame_refs m' = frame_refs m" by (intro ext) (simp add: frame_refs_def d)
  have i: "item_refs m' = item_refs m" by (intro ext) (simp add: item_refs_def assms)
  have t: "thread_refs m' = thread_refs m" by (intro ext) (simp add: thread_refs_def f)
  show ?thesis using assms by (simp add: object_refs_def i t split: object_body.split)
qed

lemma static_refs_cong: "cells m' = cells m \<Longrightarrow> g_pBeginStaticFields m' = g_pBeginStaticFields m \<Longrightarrow>
    static_refs m' = static_refs m"
proof -
  assume c: "cells m' = cells m" "g_pBeginStaticFields m' = g_pBeginStaticFields m"
  have d: "descriptor_refs m' = descriptor_refs m" by (simp add: fun_eq_iff descriptor_refs_def c)
  have f: "frame_refs m' = frame_refs m" by (intro ext) (simp add: frame_refs_def d)
  show ?thesis by (simp add: static_refs_def f c)
qed

lemma object_ok_cong: "vptrs m' = vptrs m \<Longrightarrow> bodies m' a = bodies m a \<Longrightarrow> object_ok m' a ty = object_ok m a ty"
  by (simp add: object_ok_def has_vptr0_def split: object_body.split)

text \<open>Machines with the same memory, up to the locks of threads.\<close>

definition same_memory :: "machine \<Rightarrow> machine \<Rightarrow> bool" where
  "same_memory m m' \<longleftrightarrow> cells m' = cells m \<and> vptrs m' = vptrs m \<and>
     g_pRootReferences m' = g_pRootReferences m \<and> g_pFixedReferences m' = g_pFixedReferences m \<and>
     g_pBeginStaticFields m' = g_pBeginStaticFields m \<and> (\<forall>a. body_sim (bodies m a) (bodies m' a))"

lemma same_memory_refs:
  assumes "same_memory m m'"
  shows "object_refs m' a ty = object_refs m a ty" "object_ok m' a ty = object_ok m a ty"
    "static_refs m' = static_refs m" "adjusted m' = adjusted m" "root_set m' = root_set m"
proof -
  let ?m = "m'\<lparr>g_pBeginHeader := g_pBeginHeader m, g_MonitorLockBlockInformations := g_MonitorLockBlockInformations m\<rparr>"
  have "up_to_locks m ?m" using assms by (simp add: up_to_locks_def same_memory_def)
  note refs = up_to_locks_refs [OF this]
  show "object_refs m' a ty = object_refs m a ty" using refs(1) object_refs_cong [of ?m m' a ty] by simp
  show "object_ok m' a ty = object_ok m a ty" using refs(2) object_ok_cong [of ?m m' a ty] by simp
  have "static_refs ?m = static_refs m" using refs(3) assms by (simp add: static_refs_def same_memory_def)
  then show st: "static_refs m' = static_refs m" using static_refs_cong [of ?m m'] by simp
  show ad: "adjusted m' = adjusted m" using assms by (intro ext) (simp add: adjusted_def same_memory_def)
  show "root_set m' = root_set m" using assms by (simp add: root_set_def st ad same_memory_def)
qed

text \<open>No finalizer comes due: the objects that still need theirs are reachable.\<close>

definition none_due :: "machine \<Rightarrow> addr list \<Rightarrow> bool" where
  "none_due m hs \<longleftrightarrow> (\<forall>p \<in> set hs. needs_finalizer m p \<longrightarrow> reaches m (root_set m) (object_of p))"

lemma body_sim_trans: "body_sim a b \<Longrightarrow> body_sim b c \<Longrightarrow> body_sim a c"
  by (simp add: body_sim_def)

text \<open>What a collection leaves of the heap: \<open>R\<close> and the constants, their headers flipped.\<close>

definition collected :: "machine \<Rightarrow> machine \<Rightarrow> addr set \<Rightarrow> bool" where
  "collected m m' R \<longleftrightarrow> same_memory m m' \<and>
     g_CollectionMarkIndex m' = g_CollectionMarkIndex m XOR IL2C_CHARACTERISTIC_MARK_INDEX \<and>
     g_ExecutingCollection m' = 0 \<and>
     (\<forall>p. map_option htype (headers m' p) = (if object_of p \<in> R \<or> const_object m (object_of p)
        then map_option htype (headers m p) else None)) \<and>
     (\<forall>p h h'. headers m p = Some h \<longrightarrow> headers m' p = Some h' \<longrightarrow>
        characteristic h' = (if object_of p \<in> R then characteristic (flip_mark h) else characteristic h))"

lemma collect_run:
  assumes ready: "gc_ready t m hs" and due: "none_due m hs"
    and fin: "finalizer finalize ready once" "finalizers_ready ready m hs" "stores_nothing finalize"
    and mon: "\<forall>p \<in> set hs. releasable m p (characteristic (the (headers m p)))"
    and room: "card (objects m) \<le> stack"
  shows "\<exists>m'. il2c_collect t stack finalize m = Some (Inr m') \<and>
    collected m m' {a. reaches m (root_set m) a} \<and>
    header_list m' (g_pBeginHeader m') (filter (survives m) hs) \<and> locks_ready t m' \<and>
    (\<exists>m1 m3. collect_begin t (m\<lparr>g_ExecutingCollection := 1\<rparr>) = Inr m1 \<and> collect_end t m3 = Inr m' \<and>
       bodies m3 = bodies m1 \<and> g_pRootReferences m3 = g_pRootReferences m)"
proof -
  have inv: "between_collections m hs" "heap_layout m" "locks_ready t m" "vtables_ok m hs"
    using ready by (simp_all add: gc_ready_def)
  define R where "R = {a. reaches m (root_set m) a}"
  from collect_phases [OF inv fin(1,2) mon room] obtain m1 m3 m4 n where
    phases: "collect_begin t (m\<lparr>g_ExecutingCollection := 1\<rparr>) = Inr m1"
    "mark_phase stack (flip_mark_index m1) = Inr (mark_set (flip_mark_index m1) R)"
    "il2c_step3_sweep_garbage t finalize (mark_set (flip_mark_index m1) R) = Some (Inr (m3, n))"
    "collect_end t m3 = Inr m4" "headers m4 = headers m3" "g_pBeginHeader m4 = g_pBeginHeader m3"
    "header_list m3 (g_pBeginHeader m3) (filter (survives m) hs)"
    "\<forall>p \<in> set hs. \<not> survives m p \<longrightarrow> headers m3 p = None"
    "collect_states t m hs once R (flip_mark_index m1) m3 m4" unfolding R_def by blast
  have run: "il2c_collect t stack finalize m = Some (Inr m4)"
    using phases(1-4) inv(1) by (simp add: il2c_collect_def Let_def between_collections_def)
  define m2 where "m2 = flip_mark_index m1"
  note states = phases(9) [unfolded collect_states_def, folded m2_def]
  have same: "headers m2 = headers m" "g_CollectionMarkIndex m2 = g_CollectionMarkIndex m XOR IL2C_CHARACTERISTIC_MARK_INDEX"
    using states by simp_all
  note decide = sweep_decisions [OF inv(1) same]
  have in_R: "survives m p \<longleftrightarrow> object_of p \<in> R" if "p \<in> set hs" for p
    using that due by (auto simp: survives_def none_due_def R_def)
  have quiet: "\<not> to_finalize (mark_set m2 R) p" if "p \<in> set hs" for p
    using decide(2) [OF that, of R] due that by (auto simp: none_due_def R_def)
  have dead: "dead (mark_set m2 R) p \<longleftrightarrow> object_of p \<notin> R" if "p \<in> set hs" for p
    using decide(3) [OF that, of R] due that by (auto simp: none_due_def R_def)
  have pay: "payload m3 p = payload (mark_set m2 R) p" if "p \<notin> set hs \<or> object_of p \<in> R" for p
    using states that quiet dead by (auto simp: swept_def)
  have const_R: "\<not> const_object m a" if "a \<in> R" for a
    using reaches_object that by (auto simp: R_def)
  have listed: "p \<in> set hs \<longleftrightarrow> \<not> const_object m (object_of p)" if "headers m p \<noteq> None" for p
  proof -
    have "object_of p \<in> objects m" using that by auto
    then have "const_object m (object_of p) \<longleftrightarrow> il2c_get_header (object_of p) \<notin> set hs"
      using inv(1) unfolding between_collections_def by blast
    then show ?thesis by simp
  qed
  have head: "map_option (\<lambda>h. (htype h, characteristic h)) (headers m4 p) =
      (if object_of p \<in> R then map_option (\<lambda>h. (htype h, characteristic (flip_mark h))) (headers m p)
       else if const_object m (object_of p) then map_option (\<lambda>h. (htype h, characteristic h)) (headers m p) else None)" for p
  proof (cases "p \<in> set hs \<and> object_of p \<notin> R")
    case True
    then have "headers m p \<noteq> None" using inv(1) header_list_dom by (fastforce simp: between_collections_def)
    then show ?thesis using True in_R phases(5,8) listed by auto
  next
    case False
    have "map_option (\<lambda>h. (htype h, characteristic h)) (headers m4 p) = payload (mark_set m2 R) p"
      using pay [of p] False by (auto simp: payload_def phases(5))
    also have "\<dots> = map_option (\<lambda>h. (htype h, characteristic (if object_of p \<in> R then flip_mark h else h))) (headers m p)"
      by (cases "headers m p") (auto simp: payload_def mark_set_def same)
    finally show ?thesis using False listed [of p] const_R by (cases "headers m p") auto
  qed
  have m4: "m4 = m3\<lparr>bodies := bodies m4, g_GlobalLockForCollect := g_GlobalLockForCollect m4, g_ExecutingCollection := 0\<rparr>"
    using states by blast
  have fields: "cells m4 = cells m3" "g_pFixedReferences m4 = g_pFixedReferences m3"
      "g_pBeginStaticFields m4 = g_pBeginStaticFields m3" "vptrs m4 = vptrs m3" "g_pRootReferences m4 = g_pRootReferences m3"
      "g_CollectionMarkIndex m4 = g_CollectionMarkIndex m3" "g_ExecutingCollection m4 = 0"
    by (subst m4, simp)+
  have m2': "cells m2 = cells m" "g_pFixedReferences m2 = g_pFixedReferences m"
      "g_pBeginStaticFields m2 = g_pBeginStaticFields m" "\<And>a. body_sim (bodies m a) (bodies m2 a)"
    using states by (simp_all add: up_to_locks_def)
  have m3: "cells m3 = cells m2" "g_pFixedReferences m3 = g_pFixedReferences m2" "g_pBeginStaticFields m3 = g_pBeginStaticFields m2"
    using sweep_references [OF phases(3) fin(3)] by (simp_all add: m2_def same_references_def)
  have same_bodies: "bodies m3 a = bodies m2 a" for a using states quiet by blast
  then have "body_sim (bodies m a) (bodies m4 a)" for a using m2'(4) [of a] states body_sim_trans by metis
  then have mem: "same_memory m m4"
    using states by (simp add: same_memory_def fields m3 m2')
  moreover have "map_option htype (headers m4 p) = (if object_of p \<in> R \<or> const_object m (object_of p)
      then map_option htype (headers m p) else None)" for p
    using arg_cong [OF head [of p], of "map_option fst"] by (simp add: option.map_comp o_def split: if_splits)
  moreover have "characteristic h' = (if object_of p \<in> R then characteristic (flip_mark h) else characteristic h)"
    if "headers m p = Some h" "headers m4 p = Some h'" for p h h'
    using head [of p] that by (simp split: if_splits)
  ultimately have "collected m m4 R"
    using states by (simp add: collected_def fields)
  moreover have "header_list m4 (g_pBeginHeader m4) (filter (survives m) hs)"
    using phases(5-7) segment_cong [of "filter (survives m) hs" m4 m3] by simp
  moreover have "locks_ready t m4"
    using states mem by (simp add: locks_ready_def same_memory_def)
  moreover have "bodies m3 = bodies m1" using same_bodies by (simp add: fun_eq_iff m2_def flip_mark_index_def)
  moreover have "g_pRootReferences m3 = g_pRootReferences m" using states by simp
  ultimately show ?thesis using run phases(1,4) unfolding R_def by blast
qed

lemma collect_collected:
  assumes ready: "gc_ready t m hs" and due: "none_due m hs"
    and fin: "finalizer finalize ready once" "finalizers_ready ready m hs" "stores_nothing finalize"
    and mon: "\<forall>p \<in> set hs. releasable m p (characteristic (the (headers m p)))"
    and room: "card (objects m) \<le> stack"
  shows "\<exists>m'. il2c_collect t stack finalize m = Some (Inr m') \<and>
    collected m m' {a. reaches m (root_set m) a} \<and>
    header_list m' (g_pBeginHeader m') (filter (survives m) hs) \<and> locks_ready t m'"
  using collect_run [OF assms] by blast

text \<open>The objects that are kept and what they refer to.\<close>

lemma collected_graph:
  assumes c: "collected m m' R" and R: "R = {a. reaches m (root_set m) a}"
  shows "a \<in> objects m' \<longleftrightarrow> a \<in> objects m \<and> (a \<in> R \<or> const_object m a)"
    and "a \<in> objects m' \<Longrightarrow> htype (header_of m' a) = htype (header_of m a) \<and> const_object m' a = const_object m a"
    and "a \<in> objects m' \<Longrightarrow> children m' a = children m a"
proof -
  have type: "map_option htype (headers m' p) = (if object_of p \<in> R \<or> const_object m (object_of p)
      then map_option htype (headers m p) else None)" for p using c by (simp add: collected_def)
  show obj: "a \<in> objects m' \<longleftrightarrow> a \<in> objects m \<and> (a \<in> R \<or> const_object m a)" for a
  proof -
    have "p \<in> dom (headers m') \<longleftrightarrow> p \<in> dom (headers m) \<and> (object_of p \<in> R \<or> const_object m (object_of p))" for p
      using type [of p] by (cases "headers m p"; cases "headers m' p") (auto split: if_splits)
    then have "object_of p \<in> objects m' \<longleftrightarrow> object_of p \<in> objects m \<and> (object_of p \<in> R \<or> const_object m (object_of p))" for p
      by simp
    then show ?thesis by (metis imageE objects_def)
  qed
  show kept: "htype (header_of m' a) = htype (header_of m a) \<and> const_object m' a = const_object m a"
    if a: "a \<in> objects m'" for a
  proof -
    obtain h' where h': "headers m' (il2c_get_header a) = Some h'" "header_of m' a = h'" "object_of (il2c_get_header a) = a"
      using a by (rule objectE)
    have "a \<in> objects m" using a obj by simp
    then obtain h where h: "headers m (il2c_get_header a) = Some h" "header_of m a = h" by (rule objectE)
    have "characteristic h' = (if a \<in> R then characteristic (flip_mark h) else characteristic h)"
      using c h h' by (simp add: collected_def)
    then show ?thesis using type [of "il2c_get_header a"] h h' by (auto simp: const_object_def split: if_splits)
  qed
  show "children m' a = children m a" if "a \<in> objects m'" for a
    using kept [OF that] same_memory_refs [of m m'] c by (simp add: children_def collected_def)
qed

lemma collected_reaches:
  assumes c: "collected m m' {a. reaches m (root_set m) a}"
  shows "reaches m' (root_set m') a \<longleftrightarrow> reaches m (root_set m) a"
proof
  note g = collected_graph [OF c refl]
  have roots: "root_set m' = root_set m" using c same_memory_refs(5) by (simp add: collected_def)
  have down: "a \<in> objects m" "const_object m a = const_object m' a" "children m' a = children m a" if "a \<in> objects m'" for a
    using g(1) [of a] g(2,3) [OF that] that by simp_all
  show "reaches m' (root_set m') a \<Longrightarrow> reaches m (root_set m) a"
  proof (induction rule: reaches.induct)
    case (reaches_root a)
    show ?case by (rule reaches.reaches_root) (use reaches_root down(1,2) [of a] roots in simp_all)
  next
    case (reaches_child x y)
    have x: "x \<in> objects m'" using reaches_child(1) reaches_object by blast
    show ?case by (rule reaches.reaches_child [OF reaches_child(5)]) (use reaches_child(2-4) down(1,2) [of y] down(3) [OF x] in simp_all)
  qed
  have up: "a \<in> objects m'" "const_object m' a = const_object m a" "children m' a = children m a" if "reaches m (root_set m) a" for a
  proof -
    show "a \<in> objects m'" using g(1) [of a] that reaches_object [OF that] by simp
    then show "const_object m' a = const_object m a" "children m' a = children m a" using g(2,3) [of a] by simp_all
  qed
  show "reaches m (root_set m) a \<Longrightarrow> reaches m' (root_set m') a"
  proof (induction rule: reaches.induct)
    case (reaches_root a)
    then have "reaches m (root_set m) a" by (rule reaches.intros)
    from up [OF this] show ?case by (intro reaches.reaches_root) (use reaches_root roots in simp_all)
  next
    case (reaches_child x y)
    from reaches_child(1-4) have "reaches m (root_set m) y" by (rule reaches.reaches_child)
    from up [OF this] show ?case
      by (intro reaches.reaches_child [OF reaches_child(5)]) (use reaches_child(2,4) up(3) [OF reaches_child(1)] in simp_all)
  qed
qed

lemma collected_ready:
  assumes ready: "gc_ready t m hs" and due: "none_due m hs"
    and c: "collected m m' {a. reaches m (root_set m) a}"
    and seg: "header_list m' (g_pBeginHeader m') (filter (survives m) hs)" and locks: "locks_ready t m'"
  shows "gc_ready t m' (filter (survives m) hs)"
proof -
  define R where "R = {a. reaches m (root_set m) a}"
  note g = collected_graph [OF c [folded R_def] R_def]
  have inv: "between_collections m hs" "heap_layout m" "vtables_ok m hs"
    using ready by (simp_all add: gc_ready_def)
  have mem: "same_memory m m'" and idx: "g_CollectionMarkIndex m' = g_CollectionMarkIndex m XOR IL2C_CHARACTERISTIC_MARK_INDEX"
    and exec: "g_ExecutingCollection m' = 0"
    using c by (simp_all add: collected_def)
  note refs = same_memory_refs [OF mem]
  have in_R: "survives m p \<longleftrightarrow> object_of p \<in> R" if "p \<in> set hs" for p
    using that due by (auto simp: survives_def none_due_def R_def)
  have const_R: "\<not> const_object m a" if "a \<in> R" for a using reaches_object that by (auto simp: R_def)
  have listed: "const_object m a \<longleftrightarrow> il2c_get_header a \<notin> set hs" if "a \<in> objects m" for a
    using inv(1) that by (simp add: between_collections_def)
  have live: "a \<in> R" if "a \<in> objects m'" "\<not> const_object m' a" for a using g(1) [of a] g(2) [OF that(1)] that by simp
  have kept: "\<exists>h h'. headers m p = Some h \<and> headers m' p = Some h' \<and> htype h' = htype h \<and> characteristic h' = characteristic (flip_mark h)"
    if listed: "p \<in> set hs" "survives m p" for p
  proof -
    obtain h where h: "headers m p = Some h"
      using listed(1) inv(1) header_list_dom unfolding between_collections_def by blast
    have p: "object_of p \<in> R" using in_R listed by simp
    have "map_option htype (headers m' p) = (if object_of p \<in> R \<or> const_object m (object_of p)
        then map_option htype (headers m p) else None)"
      using c unfolding collected_def R_def by blast
    moreover have "characteristic h' = (if object_of p \<in> R then characteristic (flip_mark h) else characteristic h)"
      if "headers m' p = Some h'" for h'
      using c h that unfolding collected_def R_def by blast
    ultimately show ?thesis using h p by (cases "headers m' p") simp_all
  qed
  have between: "between_collections m' (filter (survives m) hs)"
    unfolding between_collections_def
  proof (intro conjI ballI)
    have "dom (headers m') \<subseteq> dom (headers m)"
    proof
      fix p assume "p \<in> dom (headers m')"
      then have "object_of p \<in> objects m'" by simp
      then show "p \<in> dom (headers m)" using g(1) by simp
    qed
    then show "finite (dom (headers m'))" using inv(1) finite_subset by (auto simp: between_collections_def)
  next
    fix a assume a: "a \<in> objects m'"
    then have am: "a \<in> objects m" "a \<in> R \<or> const_object m a" using g(1) by simp_all
    have obj: "object_of (il2c_get_header a) = a" using a by (rule objectE)
    have c': "const_object m' a = const_object m a" using g(2) [OF a] by simp
    show "const_object m' a \<longleftrightarrow> il2c_get_header a \<notin> set (filter (survives m) hs)"
      using c' am listed [OF am(1)] in_R [of "il2c_get_header a"] obj by auto
  next
    fix p assume "p \<in> set (filter (survives m) hs)"
    then have p: "p \<in> set hs" "survives m p" by simp_all
    from kept [OF this] obtain h h' where h: "headers m p = Some h" "headers m' p = Some h'"
        "characteristic h' = characteristic (flip_mark h)" by blast
    have "bit (characteristic h) 30" "bit (characteristic h) 29 \<longleftrightarrow> bit (g_CollectionMarkIndex m) 29"
      using inv(1) p(1) h(1) by (auto simp: between_collections_def)
    then show "bit (characteristic (the (headers m' p))) 30"
      "bit (characteristic (the (headers m' p))) 29 \<longleftrightarrow> bit (g_CollectionMarkIndex m') 29"
      using h by (simp_all add: idx mark_index_flip(2))
  qed (use inv(1) seg exec mark_index_flip(1) idx in \<open>simp_all add: between_collections_def\<close>)
  have valid: "refs_valid m' rs" if rs: "refs_valid m rs" "\<And>b. b \<in> set (adjusted m rs) \<Longrightarrow> b \<in> objects m \<Longrightarrow> b \<in> R \<or> const_object m b" for rs
    unfolding refs_valid_def
  proof (intro ballI impI)
    fix r assume r: "r \<in> set rs" "r \<noteq> NULL"
    then obtain vt where vt: "vptrs m r = Some vt" "r - adjustor_offset vt \<in> objects m"
      using rs(1) by (auto simp: refs_valid_def)
    then have "r - adjustor_offset vt \<in> set (adjusted m rs)" using r by (force simp: adjusted_def image_iff)
    then have "r - adjustor_offset vt \<in> objects m'" using rs(2) vt(2) g(1) by simp
    then show "\<exists>vt. vptrs m' r = Some vt \<and> r - adjustor_offset vt \<in> objects m'"
      using vt(1) mem by (auto simp: same_memory_def)
  qed
  have root: "b \<in> R \<or> const_object m b" if "b \<in> root_set m" "b \<in> objects m" for b
    using that reaches_root by (auto simp: R_def)
  have layout: "heap_layout m'"
    unfolding heap_layout_def
  proof (intro conjI ballI impI)
    have reg: "registered (g_pRootReferences m) \<union> registered (g_pFixedReferences m) \<subseteq> objects m'"
    proof
      fix b assume b: "b \<in> registered (g_pRootReferences m) \<union> registered (g_pFixedReferences m)"
      then have "b \<in> objects m" "b \<in> root_set m" using inv(2) by (auto simp: heap_layout_def roots_valid_def root_set_def)
      then show "b \<in> objects m'" using root g(1) by simp
    qed
    have rv: "roots_valid m" using inv(2) by (simp add: heap_layout_def)
    have "refs_valid m' (static_refs m)"
    proof (rule valid)
      show "refs_valid m (static_refs m)" using rv by (simp add: roots_valid_def)
      show "b \<in> R \<or> const_object m b" if "b \<in> set (adjusted m (static_refs m))" "b \<in> objects m" for b
        using that root [of b] by (simp add: root_set_def)
    qed
    moreover have "g_pBeginStaticFields m' = g_pBeginStaticFields m" "g_pRootReferences m' = g_pRootReferences m"
        "g_pFixedReferences m' = g_pFixedReferences m" using mem by (simp_all add: same_memory_def)
    ultimately show "roots_valid m'"
      using rv reg refs(3) by (simp add: roots_valid_def)
  next
    fix a assume a: "a \<in> objects m'" "\<not> const_object m' a"
    have am: "a \<in> objects m" "a \<in> R" "\<not> const_object m a" using live [OF a] const_R g(1) [of a] a(1) by simp_all
    have ty: "htype (header_of m' a) = htype (header_of m a)" using g(2) [OF a(1)] by simp
    show "object_ok m' a (htype (header_of m' a))"
      using inv(2) am refs(2) ty by (simp add: heap_layout_def)
    have "refs_valid m' (object_refs m a (htype (header_of m a)))"
    proof (rule valid)
      show "refs_valid m (object_refs m a (htype (header_of m a)))" using inv(2) am by (simp add: heap_layout_def)
      fix b assume "b \<in> set (adjusted m (object_refs m a (htype (header_of m a))))" "b \<in> objects m"
      then have "b \<in> set (children m a)" by (simp add: children_def)
      then show "b \<in> R \<or> const_object m b"
        using am(2) \<open>b \<in> objects m\<close> reaches_child [of m "root_set m" a b] by (auto simp: R_def)
    qed
    then show "refs_valid m' (object_refs m' a (htype (header_of m' a)))" using refs(1) ty by simp
  qed
  have vts: "vtables_ok m' (filter (survives m) hs)"
    unfolding vtables_ok_def
  proof
    fix p assume "p \<in> set (filter (survives m) hs)"
    then have p: "p \<in> set hs" "survives m p" by simp_all
    then show "vptr0 (htype (the (headers m' p))) \<noteq> None \<and> vptrs m' (object_of p) = vptr0 (htype (the (headers m' p)))"
      using kept [OF p] inv(3) mem by (auto simp: vtables_ok_def same_memory_def)
  qed
  show ?thesis using between layout locks vts by (simp add: gc_ready_def)
qed

section \<open>Properties\<close>



end
