(* ===== verification/Allocation.thy ===== *)
theory Allocation
  imports GC_Invariant
begin

text \<open>
  The allocator (src/Core/il2c_allocator.c), the thread context it anchors new objects in
  (src/Core/il2c_thread.c), execution frames, and the creation of arrays
  (src/System/Array.c).  Every allocation first runs a whole collection of the theory
  above.  The C allocator, the native thread handle, the finalizers and the room on the
  native stack are the environment; the value of the thread-local slot is passed along.

  The lemmas show that a new object extends a heap that is ready for the next collection
  to such a heap, and that the anchor in the thread context keeps it alive.
\<close>

section \<open>The environment\<close>

record environment =
  env_thread :: int                                    \<comment> \<open>the current thread\<close>
  env_handle :: int                                    \<comment> \<open>its native handle\<close>
  env_stack :: nat
  env_finalize :: "addr \<Rightarrow> machine \<Rightarrow> addr \<Rightarrow> machine result"
  env_malloc :: "machine \<Rightarrow> nat \<Rightarrow> addr"

definition env_collect :: "environment \<Rightarrow> machine \<Rightarrow> machine result option" where
  "env_collect env m = il2c_collect (env_thread env) (env_stack env) (env_finalize env) m"

section \<open>Constructing an object\<close>

text \<open>\<open>memset\<close> over a new block; its typed body is empty until the caller fills it.\<close>

definition clear_memory :: "machine \<Rightarrow> addr \<Rightarrow> nat \<Rightarrow> machine" where
  "clear_memory m p n =
     m\<lparr>vptrs := (\<lambda>a. if p \<le> a \<and> a < p + n then None else vptrs m a),
       cells := (\<lambda>a. if p \<le> a \<and> a < p + n then NULL else cells m a),
       bodies := (bodies m)(object_of p := PlainBody)\<rparr>"

fun set_interface_vptrs :: "machine \<Rightarrow> addr \<Rightarrow> (runtime_type \<times> vtable) list \<Rightarrow> machine result" where
  "set_interface_vptrs m pReference [] = Inr m"
| "set_interface_vptrs m pReference ((i, v) # rest) =
     il2c_assert (flags i AND IL2C_TYPE_INTERFACE = IL2C_TYPE_INTERFACE)
     (set_interface_vptrs (m\<lparr>vptrs := (vptrs m)(pReference + adjustor_offset v \<mapsto> v)\<rparr>) pReference rest)"

text \<open>The compare-and-swap loop puts the header at the head of the list.\<close>

definition link_header :: "machine \<Rightarrow> addr \<Rightarrow> ref_header \<Rightarrow> machine" where
  "link_header m pHeader h =
     m\<lparr>headers := (headers m)(pHeader \<mapsto> h\<lparr>pNext := g_pBeginHeader m\<rparr>), g_pBeginHeader := pHeader\<rparr>"

definition construct_object :: "machine \<Rightarrow> addr \<Rightarrow> runtime_type \<Rightarrow> nat \<Rightarrow> machine result" where
  "construct_object m pHeader ty totalSize =
     (let m = clear_memory m pHeader totalSize;
          pReference = object_of pHeader;
          m = m\<lparr>vptrs := (vptrs m)(pReference := vptr0 ty)\<rparr> in
      bind_result (set_interface_vptrs m pReference (interfaces ty)) (\<lambda>m.
      let m = link_header m pHeader \<lparr>pNext = NULL, htype = ty, characteristic = 0\<rparr> in
      Inr (set_characteristic m pHeader (g_CollectionMarkIndex m))))"

text \<open>
  When the C allocator has no memory, one more collection is tried; a second failure is
  \<open>il2c_assert(0)\<close>.
\<close>

definition il2c_get_uninitialized_object_internal ::
  "environment \<Rightarrow> machine \<Rightarrow> runtime_type \<Rightarrow> nat \<Rightarrow> (machine \<times> addr) result option" where
  "il2c_get_uninitialized_object_internal env m ty n =
     and_then (env_collect env m) (\<lambda>m.
     let totalSize = (sizeof_REF_HEADER + n) mod 2 ^ 64; pHeader = env_malloc env m totalSize in
     and_then
       (if pHeader \<noteq> NULL then Some (Inr (m, pHeader))
        else and_then (env_collect env m) (\<lambda>m.
             let pHeader = env_malloc env m totalSize in
             Some (if pHeader \<noteq> NULL then Inr (m, pHeader) else Inl AssertionFailed)))
       (\<lambda>(m, pHeader). Some (bind_result (construct_object m pHeader ty totalSize) (\<lambda>m. Inr (m, pHeader)))))"

definition set_initialized :: "machine \<Rightarrow> addr \<Rightarrow> machine" where
  "set_initialized m pHeader =
     m\<lparr>headers := (headers m)(pHeader := map_option
        (\<lambda>h. h\<lparr>characteristic := characteristic h OR IL2C_CHARACTERISTIC_INITIALIZED\<rparr>) (headers m pHeader))\<rparr>"

section \<open>The thread context\<close>

text \<open>
  A context is part of its thread object and named by it.  A native thread that has none is
  attached: its thread object becomes a root.  The fields the code does not set are zero.
\<close>

definition zero_thread :: thread_body where
  "zero_thread = \<lparr>start = NULL, parameter = NULL, frames = [], rawHandle = 0, pTemporaryReferenceAnchor = NULL,
     lockForCollect = zero_lock, thread_id = 0\<rparr>"

definition sizeof_RUNTIME_THREAD :: nat where "sizeof_RUNTIME_THREAD = 96"
definition sizeof_RUNTIME_CREATED_THREAD :: nat where "sizeof_RUNTIME_CREATED_THREAD = 128"

definition il2c_acquire_thread_context ::
  "environment \<Rightarrow> machine \<Rightarrow> addr \<Rightarrow> runtime_type \<Rightarrow> (machine \<times> addr) result option" where
  "il2c_acquire_thread_context env m tls threadType =
     (if tls \<noteq> NULL then Some (Inr (m, tls))
      else and_then (il2c_get_uninitialized_object_internal env m threadType sizeof_RUNTIME_THREAD)
       (\<lambda>(m, pHeader).
        let pRuntimeThread = object_of pHeader;
            context = zero_thread\<lparr>rawHandle := env_handle env, thread_id := env_thread env,
                                 lockForCollect := il2c_initialize_monitor_lock\<rparr>;
            m = m\<lparr>bodies := (bodies m)(pRuntimeThread := ThreadBody context)\<rparr> in
        Some (bind_result (il2c_register_root_reference m pRuntimeThread False) (\<lambda>m.
          Inr (set_initialized m pHeader, pRuntimeThread)))))"

definition set_anchor :: "machine \<Rightarrow> addr \<Rightarrow> addr \<Rightarrow> machine result" where
  "set_anchor m pThreadContext pReference =
     update_thread m pThreadContext (\<lambda>th. Inr (th\<lparr>pTemporaryReferenceAnchor := pReference\<rparr>))"

text \<open>The common frame of the creating functions: allocate, anchor, fill, mark initialized.\<close>

definition create_object ::
  "environment \<Rightarrow> runtime_type \<Rightarrow> machine \<Rightarrow> addr \<Rightarrow> runtime_type \<Rightarrow> nat \<Rightarrow> (machine \<Rightarrow> addr \<Rightarrow> machine result)
    \<Rightarrow> (machine \<times> addr \<times> addr) result option" where
  "create_object env threadType m tls ty n fill =
     and_then (il2c_get_uninitialized_object_internal env m ty n) (\<lambda>(m, pHeader).
     and_then (il2c_acquire_thread_context env m tls threadType) (\<lambda>(m, pThreadContext).
     let pReference = object_of pHeader in
     Some (bind_result (set_anchor m pThreadContext pReference) (\<lambda>m.
       bind_result (fill m pReference) (\<lambda>m. Inr (set_initialized m pHeader, pThreadContext, pReference))))))"

definition il2c_get_uninitialized_object ::
  "environment \<Rightarrow> runtime_type \<Rightarrow> machine \<Rightarrow> addr \<Rightarrow> runtime_type \<Rightarrow> (machine \<times> addr \<times> addr) result option" where
  "il2c_get_uninitialized_object env threadType m tls ty =
     (if vptr0 ty = None \<or> flags ty AND IL2C_TYPE_VARIABLE = IL2C_TYPE_VARIABLE \<or> bodySize ty < sizeof_pointer
      then Some (Inl AssertionFailed)
      else create_object env threadType m tls ty (bodySize ty) (\<lambda>m pReference. Inr m))"

definition il2c_new_thread ::
  "environment \<Rightarrow> runtime_type \<Rightarrow> machine \<Rightarrow> addr \<Rightarrow> addr \<Rightarrow> (machine \<times> addr \<times> addr) result option" where
  "il2c_new_thread env threadType m tls startDelegate =
     (if startDelegate = NULL then Some (Inl AssertionFailed)
      else create_object env threadType m tls threadType sizeof_RUNTIME_CREATED_THREAD (\<lambda>m pReference.
        Inr (m\<lparr>bodies := (bodies m)(pReference := ThreadBody (zero_thread\<lparr>start := startDelegate, rawHandle := -1,
          thread_id := env_thread env, lockForCollect := il2c_initialize_monitor_lock\<rparr>))\<rparr>)))"

section \<open>Execution frames\<close>

definition push_frame :: "machine \<Rightarrow> addr \<Rightarrow> tracking_information \<Rightarrow> machine result" where
  "push_frame m pThreadContext f =
     update_thread m pThreadContext (\<lambda>th. Inr (th\<lparr>frames := f # frames th\<rparr>))"

definition context_lock :: "(monitor_lock \<Rightarrow> monitor_lock result) \<Rightarrow> machine \<Rightarrow> addr \<Rightarrow> machine result" where
  "context_lock operation m pThreadContext =
     update_thread m pThreadContext (\<lambda>th. bind_result (operation (lockForCollect th)) (\<lambda>l. Inr (th\<lparr>lockForCollect := l\<rparr>)))"

definition il2c_link_execution_frame ::
  "environment \<Rightarrow> runtime_type \<Rightarrow> machine \<Rightarrow> addr \<Rightarrow> tracking_information \<Rightarrow> (machine \<times> addr) result option" where
  "il2c_link_execution_frame env threadType m tls pNewFrame =
     (if frame_addr pNewFrame = NULL then Some (Inl AssertionFailed)
      else and_then (il2c_acquire_thread_context env m tls threadType) (\<lambda>(m, ctx).
        Some (bind_result (context_lock (il2c_enter_monitor_lock (env_thread env)) m ctx) (\<lambda>m.
        bind_result (push_frame m ctx pNewFrame) (\<lambda>m.
        bind_result (context_lock (il2c_exit_monitor_lock (env_thread env)) m ctx) (\<lambda>m. Inr (m, ctx)))))))"

definition pop_frame :: "machine \<Rightarrow> addr \<Rightarrow> addr \<Rightarrow> machine result" where
  "pop_frame m pThreadContext pFrame =
     update_thread m pThreadContext (\<lambda>th. case frames th of
        [] \<Rightarrow> Inl AssertionFailed
      | f # fs \<Rightarrow> il2c_assert (frame_addr f = pFrame) (Inr (th\<lparr>frames := fs\<rparr>)))"

definition il2c_unlink_execution_frame ::
  "environment \<Rightarrow> machine \<Rightarrow> addr \<Rightarrow> addr \<Rightarrow> addr \<Rightarrow> (machine \<times> addr) result option" where
  "il2c_unlink_execution_frame env m tls pFrame pReference =
     (if pFrame = NULL then Some (Inl AssertionFailed)
      else and_then (env_collect env m) (\<lambda>m.
        Some (il2c_assert (tls \<noteq> NULL)
         (bind_result (set_anchor m tls pReference) (\<lambda>m.
          bind_result (context_lock (il2c_enter_monitor_lock (env_thread env)) m tls) (\<lambda>m.
          bind_result (pop_frame m tls pFrame) (\<lambda>m.
          bind_result (context_lock (il2c_exit_monitor_lock (env_thread env)) m tls) (\<lambda>m. Inr (m, pReference)))))))))"

definition il2c_cleanup_at_return :: "machine \<Rightarrow> addr \<Rightarrow> addr \<Rightarrow> (machine \<times> addr) result" where
  "il2c_cleanup_at_return m tls pReference =
     il2c_assert (tls \<noteq> NULL) (bind_result (set_anchor m tls pReference) (\<lambda>m. Inr (m, pReference)))"

section \<open>Arrays\<close>

text \<open>The size of the block is computed in 64 bits, with the wrap-around written out.\<close>

definition il2c_new_array ::
  "environment \<Rightarrow> runtime_type \<Rightarrow> runtime_type \<Rightarrow> machine \<Rightarrow> addr \<Rightarrow> runtime_type \<Rightarrow> int
    \<Rightarrow> (machine \<times> addr \<times> addr) result option" where
  "il2c_new_array env threadType arrayType m tls elementType len =
     (if len < 0 then Some (Inl AssertionFailed)
      else let elementSize = il2c_sizeof elementType mod 2 ^ 32 in
        if elementSize < 1 then Some (Inl AssertionFailed)
        else create_object env threadType m tls arrayType ((sizeof_Array + nat len * elementSize) mod 2 ^ 64)
          (\<lambda>m arr. il2c_assert (vptrs m arr = Some System_Array_VTABLE)
             (Inr (m\<lparr>bodies := (bodies m)(arr := ArrayBody elementType (nat len))\<rparr>))))"

definition with_array :: "machine \<Rightarrow> addr \<Rightarrow> (runtime_type \<Rightarrow> nat \<Rightarrow> 'a result) \<Rightarrow> 'a result" where
  "with_array m this f =
     il2c_assert (this \<noteq> NULL)
     (il2c_assert (vptrs m this = Some System_Array_VTABLE)
     (case bodies m this of ArrayBody ty n \<Rightarrow> f ty n | _ \<Rightarrow> Inl BadAccess))"

definition System_Array_getLength :: "machine \<Rightarrow> addr \<Rightarrow> 32 word result" where
  "System_Array_getLength m this = with_array m this (\<lambda>ty n. Inr (of_nat n))"

definition System_Array_GetLowerBound :: "machine \<Rightarrow> addr \<Rightarrow> 32 word \<Rightarrow> 32 word result" where
  "System_Array_GetLowerBound m this dimension =
     with_array m this (\<lambda>ty n. if dimension \<noteq> 0 then Inl IndexOutOfRangeException else Inr 0)"

definition System_Array_GetUpperBound :: "machine \<Rightarrow> addr \<Rightarrow> 32 word \<Rightarrow> 32 word result" where
  "System_Array_GetUpperBound m this dimension =
     with_array m this (\<lambda>ty n. if dimension \<noteq> 0 then Inl IndexOutOfRangeException else Inr (of_int (int n - 1)))"

section \<open>A new object in the heap\<close>

definition in_block :: "addr \<Rightarrow> nat \<Rightarrow> addr \<Rightarrow> bool" where
  "in_block p n a \<longleftrightarrow> p \<le> a \<and> a < p + n"

text \<open>
  What the code relies on of the C allocator: the block is not in use.  No header, no object
  and no vtable pointer lies in it, and no reference of the heap is kept there.
\<close>

definition fresh_block :: "machine \<Rightarrow> addr \<Rightarrow> nat \<Rightarrow> bool" where
  "fresh_block m p n \<longleftrightarrow> p \<noteq> NULL \<and> headers m p = None \<and> (\<forall>a. in_block p n a \<longrightarrow> vptrs m a = None) \<and>
     (\<forall>c. (\<forall>a. \<not> in_block p n a \<longrightarrow> c a = cells m a) \<longrightarrow>
        static_refs (m\<lparr>cells := c\<rparr>) = static_refs m \<and>
        (\<forall>a \<in> objects m. object_refs (m\<lparr>cells := c\<rparr>) a (htype (header_of m a)) =
           object_refs m a (htype (header_of m a))))"

text \<open>The vtables of a type: the object's own at offset 0, those of its interfaces behind it.\<close>

definition layout_ok :: "runtime_type \<Rightarrow> nat \<Rightarrow> bool" where
  "layout_ok ty n \<longleftrightarrow> (\<exists>vt. vptr0 ty = Some vt \<and> adjustor_offset vt = 0) \<and>
     (\<forall>(i, v) \<in> set (interfaces ty). flags i AND IL2C_TYPE_INTERFACE = IL2C_TYPE_INTERFACE \<and>
        0 < adjustor_offset v \<and> adjustor_offset v < n)"

text \<open>
  The state after the object at \<open>p\<close> of a type has been created by the thread \<open>self\<close>; the
  cells of the block are what \<open>copy\<close> makes of the cleared ones.
\<close>

definition cleared :: "machine \<Rightarrow> addr \<Rightarrow> nat \<Rightarrow> addr \<Rightarrow> addr" where
  "cleared m p n = (\<lambda>a. if in_block p n a then NULL else cells m a)"

definition copies_inside :: "(addr \<Rightarrow> (addr \<Rightarrow> addr) \<Rightarrow> addr \<Rightarrow> addr) \<Rightarrow> nat \<Rightarrow> bool" where
  "copies_inside copy n \<longleftrightarrow> (\<forall>p f a. \<not> in_block p n a \<longrightarrow> copy p f a = f a)"

abbreviation copies_nothing :: "addr \<Rightarrow> (addr \<Rightarrow> addr) \<Rightarrow> addr \<Rightarrow> addr" where
  "copies_nothing \<equiv> (\<lambda>p f. f)"

definition created :: "machine \<Rightarrow> machine \<Rightarrow> addr \<Rightarrow> runtime_type \<Rightarrow> nat \<Rightarrow> addr \<Rightarrow> object_body \<Rightarrow> bool" where
  "created m m' p ty n self body \<longleftrightarrow>
     headers m' = (headers m)(p \<mapsto> \<lparr>pNext = g_pBeginHeader m, htype = ty,
       characteristic = g_CollectionMarkIndex m OR IL2C_CHARACTERISTIC_INITIALIZED\<rparr>) \<and>
     g_pBeginHeader m' = p \<and>
     (\<forall>a. \<not> in_block p n a \<longrightarrow> vptrs m' a = vptrs m a) \<and> vptrs m' (object_of p) = vptr0 ty \<and>
     (\<forall>a. \<not> in_block p n a \<longrightarrow> cells m' a = cells m a) \<and>
     (\<exists>th. bodies m self = ThreadBody th \<and>
        bodies m' = (bodies m)(self := ThreadBody (th\<lparr>pTemporaryReferenceAnchor := object_of p\<rparr>), object_of p := body)) \<and>
     g_pRootReferences m' = g_pRootReferences m \<and> g_pFixedReferences m' = g_pFixedReferences m \<and>
     g_pBeginStaticFields m' = g_pBeginStaticFields m \<and> g_CollectionMarkIndex m' = g_CollectionMarkIndex m \<and>
     g_ExecutingCollection m' = g_ExecutingCollection m \<and> g_PendingRemains m' = g_PendingRemains m \<and>
     g_GlobalLockForCollect m' = g_GlobalLockForCollect m \<and>
     g_MonitorLockBlockInformations m' = g_MonitorLockBlockInformations m"

lemma set_interface_vptrs_result:
  assumes "\<forall>(i, v) \<in> set ifs. flags i AND IL2C_TYPE_INTERFACE = IL2C_TYPE_INTERFACE \<and>
    0 < adjustor_offset v \<and> adjustor_offset v < k"
  shows "\<exists>vs. set_interface_vptrs m r ifs = Inr (m\<lparr>vptrs := vs\<rparr>) \<and> vs r = vptrs m r \<and>
    (\<forall>a. a < r \<or> r + k \<le> a \<longrightarrow> vs a = vptrs m a)"
  using assms
proof (induction ifs arbitrary: m)
  case Nil
  then show ?case by (intro exI [of _ "vptrs m"]) simp
next
  case (Cons x ifs)
  obtain i v where x: "x = (i, v)" by (cases x)
  let ?m = "m\<lparr>vptrs := (vptrs m)(r + adjustor_offset v \<mapsto> v)\<rparr>"
  from Cons.IH [of ?m] Cons.prems obtain vs where "set_interface_vptrs ?m r ifs = Inr (?m\<lparr>vptrs := vs\<rparr>)"
      "vs r = vptrs ?m r" "\<forall>a. a < r \<or> r + k \<le> a \<longrightarrow> vs a = vptrs ?m a" by auto
  then show ?case using Cons.prems x by (intro exI [of _ vs]) auto
qed

text \<open>The creation in a heap where the collection that comes first has run and memory is found.\<close>

lemma construct_object_result:
  assumes "layout_ok ty (totalSize - sizeof_REF_HEADER)" "sizeof_REF_HEADER < totalSize"
  shows "\<exists>vs. construct_object m p ty totalSize = Inr (m\<lparr>vptrs := vs,
      cells := (\<lambda>a. if in_block p totalSize a then NULL else cells m a), bodies := (bodies m)(object_of p := PlainBody),
      headers := (headers m)(p \<mapsto> \<lparr>pNext = g_pBeginHeader m, htype = ty, characteristic = g_CollectionMarkIndex m\<rparr>),
      g_pBeginHeader := p\<rparr>) \<and>
    (\<forall>a. \<not> in_block p totalSize a \<longrightarrow> vs a = vptrs m a) \<and> vs (object_of p) = vptr0 ty"
proof -
  define m1 where "m1 = (clear_memory m p totalSize)\<lparr>vptrs := (vptrs (clear_memory m p totalSize))(object_of p := vptr0 ty)\<rparr>"
  from set_interface_vptrs_result [of "interfaces ty" "totalSize - sizeof_REF_HEADER" m1 "object_of p"] assms(1)
  obtain vs where vs: "set_interface_vptrs m1 (object_of p) (interfaces ty) = Inr (m1\<lparr>vptrs := vs\<rparr>)"
      "vs (object_of p) = vptrs m1 (object_of p)"
      "\<forall>a. a < object_of p \<or> object_of p + (totalSize - sizeof_REF_HEADER) \<le> a \<longrightarrow> vs a = vptrs m1 a"
    unfolding layout_ok_def by blast
  have out: "vs a = vptrs m a" if "\<not> in_block p totalSize a" for a
    using that vs(3) [rule_format, of a] assms(2)
    by (auto simp: in_block_def m1_def clear_memory_def object_of_def sizeof_REF_HEADER_def)
  show ?thesis
    using vs out
    by (intro exI [of _ vs])
       (auto simp: construct_object_def Let_def m1_def [symmetric] link_header_def set_characteristic_def,
        auto simp: m1_def clear_memory_def in_block_def intro!: machine.equality)
qed

lemma create_object_result:
  assumes "env_collect env m0 = Some (Inr m)" and p: "env_malloc env m (sizeof_REF_HEADER + n) = p" "p \<noteq> NULL"
    and n: "0 < n" "sizeof_REF_HEADER + n < 2 ^ 64" and "layout_ok ty n"
    and self: "self \<noteq> NULL" "bodies m self = ThreadBody th" "self \<noteq> object_of p"
    and fill: "\<And>m'. bodies m' (object_of p) = PlainBody \<Longrightarrow> vptrs m' (object_of p) = vptr0 ty \<Longrightarrow>
      fill m' (object_of p) = Inr (m'\<lparr>bodies := (bodies m')(object_of p := body), cells := copy p (cells m')\<rparr>)"
    and copy: "copies_inside copy (sizeof_REF_HEADER + n)"
  shows "\<exists>m'. create_object env threadType m0 self ty n fill = Some (Inr (m', self, object_of p)) \<and>
    created m m' p ty (sizeof_REF_HEADER + n) self body \<and> cells m' = copy p (cleared m p (sizeof_REF_HEADER + n))"
proof -
  let ?N = "sizeof_REF_HEADER + n"
  obtain vs where vs: "construct_object m p ty ?N = Inr (m\<lparr>vptrs := vs,
      cells := (\<lambda>a. if in_block p ?N a then NULL else cells m a), bodies := (bodies m)(object_of p := PlainBody),
      headers := (headers m)(p \<mapsto> \<lparr>pNext = g_pBeginHeader m, htype = ty, characteristic = g_CollectionMarkIndex m\<rparr>),
      g_pBeginHeader := p\<rparr>)" "\<forall>a. \<not> in_block p ?N a \<longrightarrow> vs a = vptrs m a" "vs (object_of p) = vptr0 ty"
    using construct_object_result [of ty ?N m p] assms by auto
  define m1 where "m1 = m\<lparr>vptrs := vs,
      cells := (\<lambda>a. if in_block p ?N a then NULL else cells m a), bodies := (bodies m)(object_of p := PlainBody),
      headers := (headers m)(p \<mapsto> \<lparr>pNext = g_pBeginHeader m, htype = ty, characteristic = g_CollectionMarkIndex m\<rparr>),
      g_pBeginHeader := p\<rparr>"
  define m2 where "m2 = m1\<lparr>bodies := (bodies m1)(self := ThreadBody (th\<lparr>pTemporaryReferenceAnchor := object_of p\<rparr>))\<rparr>"
  have mod: "?N mod 2 ^ 64 = ?N" using n by simp
  have alloc: "il2c_get_uninitialized_object_internal env m0 ty n = Some (Inr (m1, p))"
    unfolding il2c_get_uninitialized_object_internal_def Let_def mod using assms vs(1)
    by (simp add: m1_def)
  have anchor: "set_anchor m1 self (object_of p) = Inr m2"
    using self by (simp add: set_anchor_def update_thread_def m1_def m2_def)
  define m3 where "m3 = m2\<lparr>bodies := (bodies m2)(object_of p := body), cells := copy p (cells m2)\<rparr>"
  have filled: "fill m2 (object_of p) = Inr m3"
    unfolding m3_def using self vs(3) by (intro fill) (simp_all add: m1_def m2_def)
  have "create_object env threadType m0 self ty n fill = Some (Inr (set_initialized m3 p, self, object_of p))"
    using self(1) by (simp add: create_object_def alloc il2c_acquire_thread_context_def anchor filled Let_def)
  moreover have c: "cells (set_initialized m3 p) = copy p (cleared m p ?N)"
    by (simp add: set_initialized_def m3_def m2_def m1_def cleared_def [abs_def])
  moreover have "created m (set_initialized m3 p) p ty ?N self body"
    unfolding created_def c using vs(2,3) self(2,3) copy
    by (simp add: set_initialized_def m3_def m2_def m1_def fun_upd_twist copies_inside_def cleared_def)
  ultimately show ?thesis by blast
qed

section \<open>The heap stays ready for the next collection\<close>

text \<open>The thread object of a running thread: registered, in the heap, marked as a thread.\<close>

definition running_thread :: "machine \<Rightarrow> addr list \<Rightarrow> addr \<Rightarrow> bool" where
  "running_thread m hs self \<longleftrightarrow> self \<in> registered (g_pRootReferences m) \<and> il2c_get_header self \<in> set hs \<and>
     has_handler (htype (header_of m self)) \<and> (\<exists>th. bodies m self = ThreadBody th)"

text \<open>The anchor is one more reference of the thread object.\<close>

lemma thread_refs_anchor:
  assumes "has_handler ty" "bodies m a = ThreadBody th" "bodies m' a = ThreadBody (th\<lparr>pTemporaryReferenceAnchor := r\<rparr>)"
    "cells m' = cells m"
  shows "set (object_refs m' a ty) \<subseteq> insert r (set (object_refs m a ty))" "r \<in> set (object_refs m' a ty)"
proof -
  have d: "descriptor_refs m' = descriptor_refs m" by (simp add: fun_eq_iff descriptor_refs_def assms)
  have f: "frame_refs m' = frame_refs m" by (intro ext) (simp add: frame_refs_def d)
  show "set (object_refs m' a ty) \<subseteq> insert r (set (object_refs m a ty))" "r \<in> set (object_refs m' a ty)"
    using assms by (auto simp: object_refs_def thread_refs_def f)
qed

lemma created_vptrs:
  assumes "created m m' p ty N self body" "fresh_block m p N" "vptrs m a = Some v"
  shows "vptrs m' a = Some v"
proof -
  have "\<not> in_block p N a" using assms(2,3) unfolding fresh_block_def by force
  then show ?thesis using assms(1,3) by (simp add: created_def)
qed

lemma created_old_object:
  assumes created: "created m m' p ty N self body" and fresh: "fresh_block m p N"
    and self: "running_thread m hs self" "self \<noteq> object_of p" and a: "a \<in> objects m"
    and ok: "object_ok m a (htype (header_of m a))"
  shows "a \<noteq> object_of p" "header_of m' a = header_of m a" "object_ok m' a (htype (header_of m a))"
    and "set (object_refs m' a (htype (header_of m a))) \<subseteq> insert (object_of p) (set (object_refs m a (htype (header_of m a))))"
    and "a = self \<Longrightarrow> object_of p \<in> set (object_refs m' a (htype (header_of m a)))"
proof -
  let ?ty = "htype (header_of m a)" and ?m = "m\<lparr>cells := cells m'\<rparr>"
  from created obtain th where b: "bodies m self = ThreadBody th"
      "bodies m' = (bodies m)(self := ThreadBody (th\<lparr>pTemporaryReferenceAnchor := object_of p\<rparr>), object_of p := body)"
    by (auto simp: created_def)
  obtain q where q: "a = object_of q" "q \<in> dom (headers m)" using a by (auto simp: objects_def)
  then have "q \<noteq> p" using fresh by (auto simp: fresh_block_def)
  then show new: "a \<noteq> object_of p" using q by simp
  show "header_of m' a = header_of m a" using created q \<open>q \<noteq> p\<close> by (simp add: created_def)
  have refs: "object_refs ?m a ?ty = object_refs m a ?ty"
    using fresh created a by (auto simp: fresh_block_def created_def)
  have vp: "has_vptr0 m' a v" if "has_vptr0 m a v" for v
    using that created_vptrs [OF created fresh] by (auto simp: has_vptr0_def split: option.splits)
  have body_ok: "(case bodies m' a of ThreadBody t \<Rightarrow> \<exists>t'. bodies m a = ThreadBody t' \<and> frames t = frames t' | _ \<Rightarrow> bodies m' a = bodies m a)"
    using b new by (auto split: object_body.split)
  show "object_ok m' a ?ty"
    using ok body_ok vp by (auto simp: object_ok_def split: object_body.splits if_splits)
  show "set (object_refs m' a ?ty) \<subseteq> insert (object_of p) (set (object_refs m a ?ty))"
  proof (cases "a = self")
    case True
    then have "has_handler ?ty" using self(1) by (simp add: running_thread_def)
    then show ?thesis using thread_refs_anchor(1) [of ?ty ?m a th m' "object_of p"] refs b True new by simp
  next
    case False
    then have "object_refs m' a ?ty = object_refs ?m a ?ty" using b new by (intro object_refs_cong) simp_all
    then show ?thesis using refs by auto
  qed
  show "a = self \<Longrightarrow> object_of p \<in> set (object_refs m' a ?ty)"
    using thread_refs_anchor(2) [of ?ty m a th "m'\<lparr>cells := cells m\<rparr>" "object_of p"]
      thread_refs_anchor(2) [of ?ty ?m a th m' "object_of p"] self b new by (simp add: running_thread_def)
qed

lemma created_refs_valid:
  assumes "created m m' p ty N self body" "fresh_block m p N" "refs_valid m rs"
    and "set rs' \<subseteq> insert (object_of p) (set rs)" and "vptr0 ty = Some vt" "adjustor_offset vt = 0"
  shows "refs_valid m' rs'"
  unfolding refs_valid_def
proof (intro ballI impI)
  fix r assume r: "r \<in> set rs'" "r \<noteq> NULL"
  show "\<exists>vt. vptrs m' r = Some vt \<and> r - adjustor_offset vt \<in> objects m'"
  proof (cases "r = object_of p")
    case True
    then show ?thesis using assms by (auto simp: created_def objects_def)
  next
    case False
    then obtain v where v: "vptrs m r = Some v" "r - adjustor_offset v \<in> objects m"
      using r assms(3,4) by (auto simp: refs_valid_def)
    then have "vptrs m' r = Some v" using created_vptrs [OF assms(1,2)] by blast
    then show ?thesis using v(2) assms(1) by (auto simp: created_def objects_def)
  qed
qed

text \<open>
  A created object extends a heap that is ready for a collection, and the anchor of its
  thread keeps it alive.
\<close>

lemma created_heap:
  assumes created: "created m m' p ty N self body" and fresh: "fresh_block m p N"
    and ready: "gc_ready t m hs" and self: "running_thread m hs self"
    and vt: "vptr0 ty = Some vt" "adjustor_offset vt = 0"
    and new: "object_ok m' (object_of p) ty" "refs_valid m' (object_refs m' (object_of p) ty)"
  shows "gc_ready t m' (p # hs)" and "reaches m' (root_set m') (object_of p)" "running_thread m' (p # hs) self"
proof -
  note c = created [unfolded created_def]
  have between: "between_collections m hs" and layout: "heap_layout m" and locks: "locks_ready t m" and vts: "vtables_ok m hs"
    using ready by (simp_all add: gc_ready_def)
  have p: "headers m p = None" "p \<noteq> NULL" using fresh by (simp_all add: fresh_block_def)
  have hs: "p \<notin> set hs" using between p header_list_dom by (fastforce simp: between_collections_def)
  have self_obj: "self \<in> objects m" using self layout by (auto simp: running_thread_def heap_layout_def roots_valid_def)
  have self_new: "self \<noteq> object_of p" using self_obj p by (auto simp: objects_def)
  have idx: "mark_index_ok (g_CollectionMarkIndex m)" using between by (simp add: between_collections_def)
  have obj: "objects m' = insert (object_of p) (objects m)" using c by (simp add: objects_def)
  have head: "header_of m' (object_of p) = \<lparr>pNext = g_pBeginHeader m, htype = ty,
      characteristic = g_CollectionMarkIndex m OR IL2C_CHARACTERISTIC_INITIALIZED\<rparr>" using c by simp
  have bits: "bit (g_CollectionMarkIndex m OR IL2C_CHARACTERISTIC_INITIALIZED) n \<longleftrightarrow>
      (n = 30 \<or> n = 29 \<and> bit (g_CollectionMarkIndex m) 29)" for n
    using idx by (auto simp: bit_or_iff bit_flags mark_index_ok_def)
  have old: "a \<noteq> object_of p" "header_of m' a = header_of m a" if "a \<in> objects m" for a
  proof -
    obtain q where "a = object_of q" "q \<in> dom (headers m)" using \<open>a \<in> objects m\<close> by (auto simp: objects_def)
    then show "a \<noteq> object_of p" "header_of m' a = header_of m a" using p c by (auto simp: domIff)
  qed
  have const: "const_object m' a \<longleftrightarrow> a \<noteq> object_of p \<and> const_object m a" if "a \<in> objects m'" for a
    using that old head bits by (auto simp: obj const_object_def)
  have seg: "header_list m' (g_pBeginHeader m') (p # hs)"
  proof -
    have "header_list m' (g_pBeginHeader m) hs = header_list m (g_pBeginHeader m) hs"
      using hs c by (intro segment_cong) auto
    then show ?thesis using c p between by (simp add: between_collections_def)
  qed
  have headers: "headers m' q = headers m q" if "q \<noteq> p" for q using that c by simp
  have between': "between_collections m' (p # hs)"
    unfolding between_collections_def
  proof (intro conjI ballI)
    fix a assume a: "a \<in> objects m'"
    show "const_object m' a \<longleftrightarrow> il2c_get_header a \<notin> set (p # hs)"
    proof (cases "a = object_of p")
      case True
      then show ?thesis using const [OF a] by simp
    next
      case False
      then have "a \<in> objects m" using a obj by simp
      then show ?thesis using const [OF a] between False
        by (auto simp: between_collections_def objects_def)
    qed
  next
    fix q assume "q \<in> set (p # hs)"
    then show "bit (characteristic (the (headers m' q))) 30"
      "bit (characteristic (the (headers m' q))) 29 \<longleftrightarrow> bit (g_CollectionMarkIndex m') 29"
      using between headers [of q] bits c hs by (auto simp: between_collections_def)
  qed (use between seg hs c in \<open>simp_all add: between_collections_def\<close>)
  have layout': "heap_layout m'"
    unfolding heap_layout_def
  proof (intro conjI ballI impI)
    have "static_refs m' = static_refs (m\<lparr>cells := cells m'\<rparr>)" using c by (intro static_refs_cong) simp_all
    also have "\<dots> = static_refs m" using fresh c by (simp add: fresh_block_def)
    finally show "roots_valid m'"
      using layout c created_refs_valid [OF created fresh _ _ vt, of "static_refs m" "static_refs m"] obj
      by (auto simp: heap_layout_def roots_valid_def)
  next
    fix a assume a: "a \<in> objects m'" "\<not> const_object m' a"
    show "object_ok m' a (htype (header_of m' a)) " "refs_valid m' (object_refs m' a (htype (header_of m' a)))"
    proof (atomize (full), cases "a = object_of p")
      case True
      then show "object_ok m' a (htype (header_of m' a)) \<and> refs_valid m' (object_refs m' a (htype (header_of m' a)))"
        using new head by simp
    next
      case False
      then have am: "a \<in> objects m" "\<not> const_object m a" using a obj const [OF a(1)] by auto
      then have ok: "object_ok m a (htype (header_of m a))" "refs_valid m (object_refs m a (htype (header_of m a)))"
        using layout by (simp_all add: heap_layout_def)
      note o = created_old_object [OF created fresh self self_new am(1) ok(1)]
      show "object_ok m' a (htype (header_of m' a)) \<and> refs_valid m' (object_refs m' a (htype (header_of m' a)))"
        using o(2,3) created_refs_valid [OF created fresh ok(2) o(4) vt] by simp
    qed
  qed
  have roots: "g_pRootReferences m' = g_pRootReferences m" using c by simp
  have locks': "locks_ready t m'"
    unfolding locks_ready_def roots
  proof (intro conjI ballI)
    show "takeable t (g_GlobalLockForCollect m')" using locks c by (simp add: locks_ready_def)
  next
    fix a assume a: "a \<in> registered (g_pRootReferences m)"
    then have "a \<in> objects m" using layout by (auto simp: heap_layout_def roots_valid_def)
    then have "a \<noteq> object_of p" using old by simp
    moreover have "thread_ready t m a" using a locks by (simp add: locks_ready_def)
    moreover from this have "has_vptr0 m' a System_Threading_Thread_VTABLE"
      using created_vptrs [OF created fresh] by (auto simp: thread_ready_def has_vptr0_def split: option.splits)
    moreover obtain th where "bodies m self = ThreadBody th"
        "bodies m' = (bodies m)(self := ThreadBody (th\<lparr>pTemporaryReferenceAnchor := object_of p\<rparr>), object_of p := body)"
      using c by auto
    ultimately show "thread_ready t m' a" by (auto simp: thread_ready_def)
  qed
  have vts': "vtables_ok m' (p # hs)"
    unfolding vtables_ok_def
  proof (intro ballI)
    fix q assume q: "q \<in> set (p # hs)"
    show "vptr0 (htype (the (headers m' q))) \<noteq> None \<and> vptrs m' (object_of q) = vptr0 (htype (the (headers m' q)))"
    proof (cases "q = p")
      case True
      then show ?thesis using c vt by simp
    next
      case False
      then have q': "vptr0 (htype (the (headers m q))) \<noteq> None" "vptrs m (object_of q) = vptr0 (htype (the (headers m q)))"
        using q vts by (auto simp: vtables_ok_def)
      then obtain v where "vptr0 (htype (the (headers m q))) = Some v" by auto
      then show ?thesis using q' headers [OF False] created_vptrs [OF created fresh, of "object_of q" v] by simp
    qed
  qed
  show "gc_ready t m' (p # hs)" using between' layout' locks' vts' by (simp add: gc_ready_def)
  have self_live: "\<not> const_object m self" using self between self_obj by (auto simp: running_thread_def between_collections_def)
  show self': "running_thread m' (p # hs) self"
    using self roots old(2) [OF self_obj] self_new c by (auto simp: running_thread_def)
  have "reaches m' (root_set m') self"
  proof (rule reaches_root)
    show "self \<in> root_set m'" using self by (simp add: root_set_def running_thread_def roots)
    show "self \<in> objects m'" using self_obj obj by simp
    then show "\<not> const_object m' self" using const [of self] self_live by simp
  qed
  moreover have "object_of p \<in> set (children m' self)"
  proof -
    have ok: "object_ok m self (htype (header_of m self))" using layout self_obj self_live by (simp add: heap_layout_def)
    have "object_of p \<in> set (object_refs m' self (htype (header_of m' self)))"
      using created_old_object(2,5) [OF created fresh self self_new self_obj ok] by simp
    moreover have "vptrs m' (object_of p) = Some vt" using c vt by simp
    moreover have "object_of p \<noteq> NULL" by (simp add: object_of_def sizeof_REF_HEADER_def)
    ultimately show ?thesis using vt(2) by (force simp: children_def adjusted_def image_iff)
  qed
  moreover have "object_of p \<in> objects m'" using obj by simp
  moreover from this have "\<not> const_object m' (object_of p)" using const by simp
  ultimately show "reaches m' (root_set m') (object_of p)" by (rule reaches_child)
qed

text \<open>
  What a creation needs of the heap it starts in: the collection can run and no finalizer
  comes due, the calling thread is a running one, and the C allocator finds an unused block
  of \<open>N\<close> bytes in what the collection leaves.
\<close>

definition can_create :: "environment \<Rightarrow> machine \<Rightarrow> addr list \<Rightarrow> addr \<Rightarrow> nat \<Rightarrow> bool" where
  "can_create env m hs self N \<longleftrightarrow> gc_ready (env_thread env) m hs \<and> none_due m hs \<and> running_thread m hs self \<and>
     (\<exists>ready once. finalizer (env_finalize env) ready once \<and> finalizers_ready ready m hs) \<and> stores_nothing (env_finalize env) \<and>
     (\<forall>p \<in> set hs. releasable m p (characteristic (the (headers m p)))) \<and> card (objects m) \<le> env_stack env \<and>
     (\<forall>m'. collected m m' {a. reaches m (root_set m) a} \<longrightarrow> fresh_block m' (env_malloc env m' N) N)"

lemma self_header: "running_thread m hs self \<Longrightarrow> gc_ready t m hs \<Longrightarrow>
    self \<in> objects m \<and> object_of (il2c_get_header self) = self \<and> reaches m (root_set m) self"
proof -
  assume self: "running_thread m hs self" and ready: "gc_ready t m hs"
  then have obj: "self \<in> objects m"
    by (auto simp: running_thread_def gc_ready_def heap_layout_def roots_valid_def)
  moreover have "object_of (il2c_get_header self) = self" using obj by (rule objectE)
  moreover have "\<not> const_object m self"
    using obj self ready by (auto simp: running_thread_def gc_ready_def between_collections_def)
  moreover have "self \<in> root_set m" using self by (simp add: running_thread_def root_set_def)
  ultimately show ?thesis by (blast intro: reaches_root)
qed

lemma creation_in_heap:
  assumes can: "can_create env m0 hs self (sizeof_REF_HEADER + n)"
    and n: "0 < n" "sizeof_REF_HEADER + n < 2 ^ 64" and layout: "layout_ok ty n"
    and fill: "\<forall>m p. bodies m (object_of p) = PlainBody \<longrightarrow> vptrs m (object_of p) = vptr0 ty \<longrightarrow>
      fill m (object_of p) = Inr (m\<lparr>bodies := (bodies m)(object_of p := body), cells := copy p (cells m)\<rparr>)"
    and copy: "copies_inside copy (sizeof_REF_HEADER + n)"
    and new: "\<forall>m m' p. created m m' p ty (sizeof_REF_HEADER + n) self body \<longrightarrow> fresh_block m p (sizeof_REF_HEADER + n) \<longrightarrow>
      cells m' = copy p (cleared m p (sizeof_REF_HEADER + n)) \<longrightarrow> p = env_malloc env m (sizeof_REF_HEADER + n) \<longrightarrow> collected m0 m {a. reaches m0 (root_set m0) a} \<longrightarrow>
      object_ok m' (object_of p) ty \<and> refs_valid m' (object_refs m' (object_of p) ty)"
  shows "\<exists>m m' p. create_object env threadType m0 self ty n fill = Some (Inr (m', self, object_of p)) \<and>
    collected m0 m {a. reaches m0 (root_set m0) a} \<and> created m m' p ty (sizeof_REF_HEADER + n) self body \<and>
    cells m' = copy p (cleared m p (sizeof_REF_HEADER + n)) \<and> p = env_malloc env m (sizeof_REF_HEADER + n) \<and> fresh_block m p (sizeof_REF_HEADER + n) \<and>
    gc_ready (env_thread env) m' (p # filter (survives m0) hs) \<and> reaches m' (root_set m') (object_of p) \<and>
    running_thread m' (p # filter (survives m0) hs) self"
proof -
  from can obtain ready once where c: "gc_ready (env_thread env) m0 hs" "none_due m0 hs"
      "finalizer (env_finalize env) ready once" "finalizers_ready ready m0 hs" "stores_nothing (env_finalize env)"
      "\<forall>p \<in> set hs. releasable m0 p (characteristic (the (headers m0 p)))" "card (objects m0) \<le> env_stack env"
    and self0: "running_thread m0 hs self"
    and malloc: "\<And>m. collected m0 m {a. reaches m0 (root_set m0) a} \<Longrightarrow>
      fresh_block m (env_malloc env m (sizeof_REF_HEADER + n)) (sizeof_REF_HEADER + n)"
    by (auto simp: can_create_def)
  from collect_collected [OF c] obtain m where m: "il2c_collect (env_thread env) (env_stack env) (env_finalize env) m0 = Some (Inr m)"
      "collected m0 m {a. reaches m0 (root_set m0) a}"
      "header_list m (g_pBeginHeader m) (filter (survives m0) hs)" "locks_ready (env_thread env) m" by blast
  note ready = collected_ready [OF c(1,2) m(2-4)]
  define p where "p = env_malloc env m (sizeof_REF_HEADER + n)"
  have fresh: "fresh_block m p (sizeof_REF_HEADER + n)" using malloc [OF m(2)] by (simp add: p_def)
  have s0: "self \<in> objects m0" "object_of (il2c_get_header self) = self" "reaches m0 (root_set m0) self"
    using self_header [OF self0 c(1)] by simp_all
  then have "self \<in> objects m" using collected_graph(1) [OF m(2) refl] by simp
  have same: "same_memory m0 m" using m(2) by (simp add: collected_def)
  obtain th0 where "bodies m0 self = ThreadBody th0" using self0 by (auto simp: running_thread_def)
  then obtain th where th: "bodies m self = ThreadBody th"
    using same by (auto simp: same_memory_def elim: body_simE [of "bodies m0 self" "bodies m self"])
  have self: "running_thread m (filter (survives m0) hs) self"
    using self0 s0 th same collected_graph(2) [OF m(2) refl \<open>self \<in> objects m\<close>]
    by (auto simp: running_thread_def same_memory_def survives_def)
  have "self \<noteq> NULL" using \<open>self \<in> objects m\<close> by (auto simp: objects_def object_of_def sizeof_REF_HEADER_def)
  have "self \<noteq> object_of p" using \<open>self \<in> objects m\<close> fresh by (auto simp: objects_def fresh_block_def)
  have "p \<noteq> NULL" using fresh by (simp add: fresh_block_def)
  have "env_collect env m0 = Some (Inr m)" using m(1) by (simp add: env_collect_def)
  from create_object_result [OF this p_def [symmetric] \<open>p \<noteq> NULL\<close> n layout \<open>self \<noteq> NULL\<close> th \<open>self \<noteq> object_of p\<close>, where fill = fill and body = body and copy = copy and threadType = threadType] fill copy
  obtain m' where m': "create_object env threadType m0 self ty n fill = Some (Inr (m', self, object_of p))"
      "created m m' p ty (sizeof_REF_HEADER + n) self body" "cells m' = copy p (cleared m p (sizeof_REF_HEADER + n))" by blast
  obtain vt where vt: "vptr0 ty = Some vt" "adjustor_offset vt = 0" using layout by (auto simp: layout_ok_def)
  have "object_ok m' (object_of p) ty" "refs_valid m' (object_refs m' (object_of p) ty)"
    using new m'(2,3) fresh m(2) p_def by blast+
  from created_heap [OF m'(2) fresh ready self vt this] m' m(2) fresh p_def show ?thesis by blast
qed

section \<open>Plain objects, arrays and threads\<close>

lemma plain_body_unchanged: "bodies m a = PlainBody \<Longrightarrow> m\<lparr>bodies := (bodies m)(a := PlainBody)\<rparr> = m"
  by (metis fun_upd_triv machine.surjective machine.update_convs(4))

lemma copies_nothing_inside [simp]: "copies_inside copies_nothing n"
  by (simp add: copies_inside_def)

text \<open>A type without a mark handler whose reference fields lie in its body.\<close>

definition plain_type :: "runtime_type \<Rightarrow> nat \<Rightarrow> bool" where
  "plain_type ty n \<longleftrightarrow> \<not> has_handler ty \<and> flags ty AND IL2C_TYPE_VALUE = 0 \<and> targets_ok (markTargets ty) \<and> layout_ok ty n \<and>
     (\<forall>b. \<forall>a \<in> set (value_slots b (markTargets ty) 0). b \<le> a \<and> a < b + n)"

lemma null_refs_valid: "\<forall>r \<in> set rs. r = NULL \<Longrightarrow> refs_valid m rs"
  by (auto simp: refs_valid_def)

lemma created_plain:
  assumes "created m m' p ty (sizeof_REF_HEADER + n) self body" "plain_type ty n"
    and cells: "cells m' = cleared m p (sizeof_REF_HEADER + n)"
  shows "object_ok m' (object_of p) ty" "\<forall>r \<in> set (object_refs m' (object_of p) ty). r = NULL"
proof -
  show "object_ok m' (object_of p) ty"
    using assms(2) by (simp add: object_ok_def plain_type_def object_of_def sizeof_REF_HEADER_def)
  have "cells m' a = NULL" if "a \<in> set (value_slots (object_of p) (markTargets ty) 0)" for a
  proof -
    have "object_of p \<le> a \<and> a < object_of p + n" using that assms(2) unfolding plain_type_def by blast
    then show ?thesis by (simp add: cells cleared_def in_block_def object_of_def)
  qed
  then show "\<forall>r \<in> set (object_refs m' (object_of p) ty). r = NULL"
    using assms(2) by (auto simp: object_refs_def plain_type_def)
qed

text \<open>An array of a type whose values lie in the \<open>elementSize\<close> bytes of an item.\<close>

definition element_ok :: "runtime_type \<Rightarrow> bool" where
  "element_ok ty \<longleftrightarrow> 1 \<le> il2c_sizeof ty \<and> il2c_sizeof ty < 2 ^ 32 \<and> targets_ok (markTargets ty) \<and>
     (flags ty AND IL2C_TYPE_VALUE \<noteq> 0 \<longrightarrow>
        (\<forall>b. \<forall>a \<in> set (value_slots b (markTargets ty) 0). b \<le> a \<and> a < b + bodySize ty))"

definition array_type_ok :: "runtime_type \<Rightarrow> bool" where
  "array_type_ok ty \<longleftrightarrow> has_handler ty \<and> markHandler ty = Some ArrayMarkHandler \<and> vptr0 ty = Some System_Array_VTABLE \<and>
     interfaces ty = []"

lemma item_in_block:
  assumes "element_ok et" "i < k" "a \<in> (if flags et AND IL2C_TYPE_VALUE \<noteq> 0
      then set (value_slots (arr + sizeof_Array + bodySize et * i) (markTargets et) 0)
      else {arr + sizeof_Array + sizeof_pointer * i})"
  shows "arr + sizeof_Array \<le> a \<and> a < arr + sizeof_Array + k * il2c_sizeof et"
proof -
  let ?s = "il2c_sizeof et"
  have "arr + sizeof_Array + ?s * i \<le> a \<and> a < arr + sizeof_Array + ?s * i + ?s"
    using assms by (auto simp: element_ok_def il2c_sizeof_def sizeof_pointer_def split: if_splits)
  moreover have "?s * Suc i \<le> ?s * k" using assms(2) by (intro mult_le_mono2) simp
  ultimately show ?thesis by (simp add: mult.commute)
qed

lemma created_array:
  assumes c: "created m m' p ty (sizeof_REF_HEADER + (sizeof_Array + k * il2c_sizeof et)) self (ArrayBody et k)"
    and ty: "array_type_ok ty" and et: "element_ok et"
    and cells: "cells m' = cleared m p (sizeof_REF_HEADER + (sizeof_Array + k * il2c_sizeof et))"
  shows "object_ok m' (object_of p) ty" "\<forall>r \<in> set (object_refs m' (object_of p) ty). r = NULL"
proof -
  have body: "bodies m' (object_of p) = ArrayBody et k" and vp: "vptrs m' (object_of p) = Some System_Array_VTABLE"
    using c ty by (auto simp: created_def array_type_ok_def)
  show "object_ok m' (object_of p) ty"
    using ty et body vp by (simp add: object_ok_def array_type_ok_def has_vptr0_def element_ok_def)
       (simp add: object_of_def sizeof_REF_HEADER_def)
  have null: "cells m' a = NULL" if "object_of p + sizeof_Array \<le> a \<and> a < object_of p + sizeof_Array + k * il2c_sizeof et" for a
    using that by (simp add: cells cleared_def in_block_def object_of_def)
  have "r = NULL" if r: "r \<in> set (item_refs m' (object_of p) et i)" "i < k" for r i
    using r item_in_block [OF et r(2), of _ "object_of p"] null
    by (auto simp: item_refs_def split: if_splits)
  then show "\<forall>r \<in> set (object_refs m' (object_of p) ty). r = NULL"
    using ty body by (auto simp: object_refs_def array_type_ok_def)
qed

section \<open>Properties\<close>


text \<open>One running thread, whose object at 1000 is a root; memory is found at 8000.\<close>

definition sample_thread_type :: runtime_type where
  "sample_thread_type = RuntimeType 5 ''System.Threading.Thread'' 0x0C 0 None (Some System_Threading_Thread_VTABLE)
     (Some ThreadMarkHandler) [] []"

definition sample_running :: machine where
  "sample_running = empty_machine\<lparr>
     headers := [976 \<mapsto> \<lparr>pNext = NULL, htype = sample_thread_type, characteristic = 0x40000000\<rparr>],
     vptrs := [1000 \<mapsto> System_Threading_Thread_VTABLE],
     bodies := (\<lambda>_. PlainBody)(1000 := ThreadBody (zero_thread\<lparr>rawHandle := 7, lockForCollect := il2c_initialize_monitor_lock\<rparr>)),
     g_pBeginHeader := 976,
     g_pRootReferences := [\<lparr>root_slots = [1000, NULL, NULL]\<rparr>]\<rparr>"

definition sample_environment :: environment where
  "sample_environment = \<lparr>env_thread = 1, env_handle = 7, env_stack = 1, env_finalize = runtime_finalize 1,
     env_malloc = (\<lambda>m n. 8000)\<rparr>"

lemma sample_running_facts:
  "objects sample_running = {1000}" "headers sample_running 976 = Some \<lparr>pNext = NULL, htype = sample_thread_type, characteristic = 0x40000000\<rparr>"
  "registered (g_pRootReferences sample_running) = {1000}" "registered (g_pFixedReferences sample_running) = {}"
  "static_refs sample_running = []" "has_handler sample_thread_type"
  "object_refs sample_running 1000 sample_thread_type = [NULL]" "header_of sample_running 1000 = \<lparr>pNext = NULL, htype = sample_thread_type, characteristic = 0x40000000\<rparr>"
  by (auto simp: sample_running_def objects_def object_of_def sizeof_REF_HEADER_def registered_def all_slots_def empty_machine_def
      static_refs_def has_handler_def sample_thread_type_def IL2C_TYPE_WITH_MARK_HANDLER_def object_refs_def thread_refs_def
      zero_thread_def header_of_def il2c_get_header_def)

lemma sample_can_create: "can_create sample_environment sample_running [976] 1000 N"
proof -
  let ?m = sample_running
  have fields: "g_pRootReferences ?m = [\<lparr>root_slots = [1000, NULL, NULL]\<rparr>]" "g_ExecutingCollection ?m = 0"
      "g_pBeginHeader ?m = 976" "g_CollectionMarkIndex ?m = 0" "dom (headers ?m) = {976}"
      "g_GlobalLockForCollect ?m = \<lparr>lock_alive = True, owner = None, held = 0\<rparr>" "vptrs ?m = [1000 \<mapsto> System_Threading_Thread_VTABLE]"
      "bodies ?m 1000 = ThreadBody (zero_thread\<lparr>rawHandle := 7, lockForCollect := il2c_initialize_monitor_lock\<rparr>)"
    by (auto simp: sample_running_def empty_machine_def split: if_splits)
  have live: "\<not> const_object ?m 1000" by (simp add: const_object_def sample_running_facts)
  have between: "between_collections ?m [976]"
    by (simp add: between_collections_def fields sample_running_facts mark_index_ok_def live il2c_get_header_def sizeof_REF_HEADER_def)
  have ok: "object_ok ?m 1000 sample_thread_type"
    by (simp add: object_ok_def sample_running_facts fields has_vptr0_def zero_thread_def)
       (simp add: sample_thread_type_def)
  have layout: "heap_layout ?m"
    using ok by (simp add: heap_layout_def roots_valid_def sample_running_facts refs_valid_def)
       (simp add: sample_running_def empty_machine_def)
  have locks: "locks_ready 1 ?m"
    unfolding locks_ready_def sample_running_facts(3)
    by (simp add: sample_running_facts fields takeable_def thread_ready_def has_vptr0_def il2c_initialize_monitor_lock_def)
  have vts: "vtables_ok ?m [976]"
    by (simp add: vtables_ok_def sample_running_facts(2) fields object_of_def sizeof_REF_HEADER_def sample_thread_type_def)
  have reach: "reaches ?m (root_set ?m) 1000"
    using live by (intro reaches_root) (simp_all add: root_set_def sample_running_facts)
  have due: "none_due ?m [976]" using reach by (simp add: none_due_def object_of_def sizeof_REF_HEADER_def)
  have self: "running_thread ?m [976] 1000"
    unfolding running_thread_def sample_running_facts(3)
    by (simp add: sample_running_facts fields il2c_get_header_def sizeof_REF_HEADER_def)
  have fin: "finalizers_ready runtime_ready ?m [976]"
    by (rule runtime_finalizers_ready)
       (simp add: sample_running_facts(2) runtime_ready_def sample_thread_type_def System_Threading_Thread_VTABLE_def object_of_def
         sizeof_REF_HEADER_def fields il2c_initialize_monitor_lock_def System_Object_Finalize_def System_Threading_Thread_Finalize_code_def)
  have fresh: "fresh_block m 8000 N" if c: "collected ?m m {a. reaches ?m (root_set ?m) a}" for m
  proof -
    have mem: "same_memory ?m m" using c by (simp add: collected_def)
    have obj: "objects m \<subseteq> {1000}" using collected_graph(1) [OF c refl] sample_running_facts(1) by auto
    have "8000 \<notin> dom (headers m)" using obj object_of_objects [of 8000 m] by (auto simp: object_of_def sizeof_REF_HEADER_def)
    moreover have "static_refs (m\<lparr>cells := c\<rparr>) = static_refs m" for c
      using mem by (simp add: static_refs_def same_memory_def sample_running_def empty_machine_def)
    moreover have "object_refs (m\<lparr>cells := c\<rparr>) a (htype (header_of m a)) = object_refs m a (htype (header_of m a))"
      if "a \<in> objects m" for a c
    proof -
      have a: "a = 1000" "htype (header_of m a) = sample_thread_type"
        using that obj collected_graph(2) [OF \<open>collected _ m _\<close> refl that] by (auto simp: sample_running_facts)
      have "body_sim (bodies ?m 1000) (bodies m 1000)" using mem by (simp add: same_memory_def)
      then obtain th where "bodies m 1000 = ThreadBody th" "frames th = []"
        by (elim body_simE) (auto simp: fields zero_thread_def)
      then show ?thesis using a by (simp add: object_refs_def thread_refs_def sample_running_facts(6))
    qed
    moreover have "vptrs m = vptrs ?m" using mem by (simp add: same_memory_def)
    ultimately show ?thesis
      by (auto simp: fresh_block_def fields in_block_def)
  qed
  show ?thesis
    unfolding can_create_def
    using between layout locks vts due self fin fresh runtime.finalizer_axioms [of 1] runtime_stores_nothing [of 1]
    by (auto simp: gc_ready_def sample_environment_def sample_running_facts releasable_def)
qed




text \<open>The finding: \<open>2 ^ 61 + 1\<close> items of eight bytes ask the C allocator for 56 bytes.\<close>

lemma new_array_size_wraps:
  "(sizeof_Array + (2 ^ 61 + 1) * 8) mod 2 ^ 64 = 32"
  "sizeof_Array + 8 * (2 ^ 61) > (32 :: nat)"
  by (simp_all add: sizeof_Array_def)

section \<open>Frames\<close>

text \<open>A lock that an enter and an exit leave as it was.\<close>

definition lock_balanced :: "int \<Rightarrow> monitor_lock \<Rightarrow> bool" where
  "lock_balanced t l \<longleftrightarrow> lock_alive l \<and> (owner l = None \<and> held l = 0 \<or> owner l = Some t \<and> 1 \<le> held l)"

lemma balanced_enter_exit:
  assumes "lock_balanced t l"
  obtains l' where "il2c_enter_monitor_lock t l = Inr l'" "il2c_exit_monitor_lock t l' = Inr l"
  using assms by (cases l) (auto simp: lock_balanced_def il2c_enter_monitor_lock_def il2c_exit_monitor_lock_def)



end
