(* ===== verification/App_Domain.thy ===== *)
theory App_Domain
  imports Delegates
begin

text \<open>
  System.AppDomain (src/System/AppDomain.c): the current domain keeps one multicast
  handler for unhandled exceptions; \<open>add_\<close> and \<open>remove_\<close> combine with and remove
  from it, and the unwinder (Core/il2c_exception.c) raises it when no frame takes an
  exception.  The domain is the client of the \<open>multicast\<close> interface.
\<close>

record app_domain =
  unhandledExceptionEventHandler :: addr

definition System_AppDomain_add_UnhandledException ::
  "delegates \<Rightarrow> app_domain \<Rightarrow> addr \<Rightarrow> addr \<Rightarrow> addr \<Rightarrow> (app_domain \<times> delegates) result" where
  "System_AppDomain_add_UnhandledException d ad pNew this v =
     il2c_assert (this \<noteq> NULL)
     (il2c_assert (v \<noteq> NULL)
     (bind_result (System_Delegate_Combine d pNew (unhandledExceptionEventHandler ad) v)
        (\<lambda>(r, d'). Inr (ad\<lparr>unhandledExceptionEventHandler := r\<rparr>, d'))))"

definition System_AppDomain_remove_UnhandledException ::
  "delegates \<Rightarrow> app_domain \<Rightarrow> addr \<Rightarrow> addr \<Rightarrow> addr \<Rightarrow> (app_domain \<times> delegates) result" where
  "System_AppDomain_remove_UnhandledException d ad pNew this v =
     il2c_assert (this \<noteq> NULL)
     (il2c_assert (v \<noteq> NULL)
     (bind_result (System_Delegate_Remove d pNew (unhandledExceptionEventHandler ad) v)
        (\<lambda>(r, d'). Inr (ad\<lparr>unhandledExceptionEventHandler := r\<rparr>, d'))))"

text \<open>The handler calls made for an unhandled exception (arguments: the domain and the exception).\<close>

definition il2c_invoke_unhandled_exception ::
  "delegates \<Rightarrow> app_domain \<Rightarrow> addr \<Rightarrow> (addr option \<times> addr) list result" where
  "il2c_invoke_unhandled_exception d ad exception =
     il2c_assert (exception \<noteq> NULL)
     (if unhandledExceptionEventHandler ad \<noteq> NULL
      then System_UnhandledExceptionEventHandler_Invoke d (unhandledExceptionEventHandler ad)
      else Inr [])"

lemma invoke_unhandled_calls:
  assumes "delegates_ok d" and "is_delegate d (unhandledExceptionEventHandler ad)"
    and "exception \<noteq> NULL"
  shows "il2c_invoke_unhandled_exception d ad exception =
    Inr (calls_of (invocation_list d (unhandledExceptionEventHandler ad)))"
  using assms invoke_spec
  by (auto simp: il2c_invoke_unhandled_exception_def is_delegate_def calls_of_def)

text \<open>A concrete domain with one handler, for the witnesses.\<close>

definition sample_delegate :: "addr \<Rightarrow> addr \<Rightarrow> delegate" where
  "sample_delegate t m =
     \<lparr>delegate_type = 7, count = 1, methodtbl = [\<lparr>target = t, methodPtr = m\<rparr>], initialized = True\<rparr>"

definition sample_delegates :: delegates where
  "sample_delegates = [100 \<mapsto> sample_delegate 5 50, 200 \<mapsto> sample_delegate 0 60]"

lemma sample_delegates_ok: "delegates_ok sample_delegates"
  by (auto simp: delegates_ok_def sample_delegates_def sample_delegate_def delegate_ok_def
      split: if_splits)

text \<open>
  C23: System.Delegate.Combine implements concatenation.  For well-formed delegates of one
  type (either may be null) the call returns, its result invokes the entries of the first
  operand and then those of the second, no existing delegate object changes, and the
  store stays well formed.
\<close>

theorem delegate_combine_concatenates:
  assumes "delegates_ok d" and "pNew \<noteq> NULL" and "d pNew = None"
    and "is_delegate d a" and "is_delegate d b" and "same_delegate_type d a b"
  shows "\<exists>r d'. System_Delegate_Combine d pNew a b = Inr (r, d') \<and> delegates_ok d' \<and>
           invocation_list d' r = invocation_list d a @ invocation_list d b \<and>
           (\<forall>q. q \<noteq> pNew \<longrightarrow> d' q = d q)"
  using combine_spec [OF assms] by metis

theorem delegate_combine_concatenates_witness:
  "\<exists>r d'. System_Delegate_Combine sample_delegates 300 100 200 = Inr (r, d') \<and> delegates_ok d' \<and>
     invocation_list d' r =
       invocation_list sample_delegates 100 @ invocation_list sample_delegates 200 \<and>
     (\<forall>q. q \<noteq> 300 \<longrightarrow> d' q = sample_delegates q)"
  by (rule delegate_combine_concatenates [OF sample_delegates_ok])
     (auto simp: sample_delegates_def sample_delegate_def is_delegate_def same_delegate_type_def)

text \<open>
  C10: System.Delegate.Remove implements removal of the last occurrence.  For well-formed
  delegates of one type the call returns; the result's entries are those of the source
  with the last contiguous occurrence of the value's entries cut out (null when nothing
  is left, the source itself when there is no occurrence), and no existing delegate
  object changes.
\<close>

theorem delegate_remove_cuts_last:
  assumes "delegates_ok d" and "pNew \<noteq> NULL" and "d pNew = None"
    and "is_delegate d source" and "is_delegate d v" and "same_delegate_type d source v"
  shows "\<exists>r d'. System_Delegate_Remove d pNew source v = Inr (r, d') \<and> delegates_ok d' \<and>
           invocation_list d' r = remove_last (invocation_list d source) (invocation_list d v) \<and>
           (\<forall>q. q \<noteq> pNew \<longrightarrow> d' q = d q)"
proof -
  have "remove_last (invocation_list d source) (invocation_list d v) =
      (if v = NULL then invocation_list d source
       else remove_last (invocation_list d source) (invocation_list d v))"
    using assms(1) by (simp add: remove_last_Nil)
  then show ?thesis
    using remove_spec [OF assms] by metis
qed

theorem delegate_remove_cuts_last_witness:
  "\<exists>r d'. System_Delegate_Remove sample_delegates 300 100 200 = Inr (r, d') \<and> delegates_ok d' \<and>
     invocation_list d' r = remove_last
       (invocation_list sample_delegates 100) (invocation_list sample_delegates 200) \<and>
     (\<forall>q. q \<noteq> 300 \<longrightarrow> d' q = sample_delegates q)"
  by (rule delegate_remove_cuts_last [OF sample_delegates_ok])
     (auto simp: sample_delegates_def sample_delegate_def is_delegate_def same_delegate_type_def)



text \<open>
  Equality ignores the delegate type while the hash code is the type: two delegates of
  different types over the same method are equal and hash differently.
\<close>

lemma delegate_equals_ignores_type:
  "System_Delegate_Equals
     [100 \<mapsto> sample_delegate 5 50, 200 \<mapsto> sample_delegate 5 50\<lparr>delegate_type := 8\<rparr>]
     (\<lambda>_. True) 100 200 = Inr True \<and>
   System_Delegate_GetHashCode
     [100 \<mapsto> sample_delegate 5 50, 200 \<mapsto> sample_delegate 5 50\<lparr>delegate_type := 8\<rparr>] 100 \<noteq>
   System_Delegate_GetHashCode
     [100 \<mapsto> sample_delegate 5 50, 200 \<mapsto> sample_delegate 5 50\<lparr>delegate_type := 8\<rparr>] 200"
  by (simp add: System_Delegate_Equals_def System_Delegate_GetHashCode_def checked_delegate_def
      get_delegate_def sample_delegate_def methods_equal_def)

end
