(* ===== verification/Exception_Unwind.thy ===== *)
theory Exception_Unwind
  imports App_Domain
begin

text \<open>
  Exception frames and unwinding (src/Core/il2c_exception.c and the try macros of
  include/il2c.h).  Each \<open>il2c_try\<close> links a frame with a filter function; a throw
  walks the frames from the innermost one, calls the filters and jumps.  Frames live on
  the native stack and are linked by \<open>pNext\<close>, so the state is a store of frames by
  address together with the two fields of the thread context the code uses.

  A filter maps the exception to the number of the catch block, to 0 (no match) or to
  -1 (the frame has a finally block).  Filters are compiler-generated type tests and are
  modelled as functions without effects.
\<close>

section \<open>State\<close>

record exception_frame =
  ef_pNext :: addr
  ef_pFrame :: addr                        \<comment> \<open>execution frame to restore\<close>
  ef_ex :: addr                            \<comment> \<open>exception being handled, or \<open>NULL\<close>\<close>
  ef_filter :: "(addr \<Rightarrow> int) option"      \<comment> \<open>\<open>None\<close>: a null function pointer\<close>

record unwind_state =
  eframes :: "addr \<rightharpoonup> exception_frame"
  pUnwindTarget :: addr                    \<comment> \<open>\<open>IL2C_THREAD_CONTEXT.pUnwindTarget\<close>\<close>
  pFrame :: addr                           \<comment> \<open>\<open>IL2C_THREAD_CONTEXT.pFrame\<close>\<close>
  delegates_of :: delegates
  current_domain :: app_domain

definition IL2C_FILTER_NOMATCH :: int where "IL2C_FILTER_NOMATCH = 0"
definition IL2C_FILTER_FINALLY :: int where "IL2C_FILTER_FINALLY = -1"

text \<open>
  Where control goes: a \<open>longjmp\<close> to a frame with its filter number, or the end of
  the thread after the unhandled-exception handlers have been called, or the
  invalid-program break of a rethrow outside every handler.
\<close>

datatype transfer =
    LongJmp addr int
  | UnhandledException "(addr option \<times> addr) list"
  | InvalidProgram

section \<open>Linking and unlinking\<close>

definition il2c_link_unwind_target ::
  "unwind_state \<Rightarrow> addr \<Rightarrow> (addr \<Rightarrow> int) option \<Rightarrow> unwind_state result" where
  "il2c_link_unwind_target s p flt =
     il2c_assert (p \<noteq> NULL)
     (il2c_assert (flt \<noteq> None)
     (Inr (s\<lparr>eframes := (eframes s)(p \<mapsto>
              \<lparr>ef_pNext = pUnwindTarget s, ef_pFrame = pFrame s, ef_ex = NULL, ef_filter = flt\<rparr>),
            pUnwindTarget := p\<rparr>)))"

definition il2c_unlink_unwind_target :: "unwind_state \<Rightarrow> addr \<Rightarrow> unwind_state result" where
  "il2c_unlink_unwind_target s p =
     il2c_assert (p \<noteq> NULL)
     (case eframes s p of
        None \<Rightarrow> Inl BadAccess
      | Some f \<Rightarrow> il2c_assert (pUnwindTarget s = p) (Inr (s\<lparr>pUnwindTarget := ef_pNext f\<rparr>)))"

section \<open>Throwing\<close>

definition il2c_do_throw ::
  "unwind_state \<Rightarrow> addr \<Rightarrow> addr \<Rightarrow> int \<Rightarrow> (unwind_state \<times> transfer) result" where
  "il2c_do_throw s ex pTargetFrame filterNumber =
     il2c_assert (ex \<noteq> NULL)
     (il2c_assert (pTargetFrame \<noteq> NULL)
     (case eframes s pTargetFrame of
        None \<Rightarrow> Inl BadAccess
      | Some f \<Rightarrow> Inr (s\<lparr>eframes := (eframes s)(pTargetFrame \<mapsto> f\<lparr>ef_ex := ex\<rparr>),
                         pUnwindTarget := pTargetFrame, pFrame := ef_pFrame f\<rparr>,
                       LongJmp pTargetFrame filterNumber)))"

text \<open>
  The scan of \<open>il2c_throw_internal\<close>: the frame and number to jump to (\<open>None\<close> when
  nothing takes the exception).  The first finally frame met is remembered and wins over
  a catch found later.  The scan ends when the chain does, so it is a partial function;
  \<open>throw_scan_spec\<close> shows that it ends on every well-formed chain.
\<close>

partial_function (option) throw_scan ::
  "(addr \<rightharpoonup> exception_frame) \<Rightarrow> addr \<Rightarrow> addr \<Rightarrow> addr \<Rightarrow> (addr \<times> int) option result option" where
  "throw_scan F ex p fin =
     (if p = NULL then
        Some (Inr (if fin \<noteq> NULL then Some (fin, IL2C_FILTER_FINALLY) else None))
      else
        (case F p of
           None \<Rightarrow> Some (Inl BadAccess)
         | Some f \<Rightarrow>
             (case ef_filter f of
                None \<Rightarrow> Some (Inl AssertionFailed)
              | Some flt \<Rightarrow>
                  if ef_pFrame f = NULL then Some (Inl AssertionFailed)
                  else if flt ex = IL2C_FILTER_FINALLY then
                    throw_scan F ex (ef_pNext f) (if fin = NULL then p else fin)
                  else if flt ex \<noteq> IL2C_FILTER_NOMATCH then
                    Some (Inr (Some (if fin \<noteq> NULL then (fin, IL2C_FILTER_FINALLY) else (p, flt ex))))
                  else throw_scan F ex (ef_pNext f) fin)))"

definition il2c_throw_internal ::
  "unwind_state \<Rightarrow> addr \<Rightarrow> addr \<Rightarrow> (unwind_state \<times> transfer) result option" where
  "il2c_throw_internal s ex pTargetFrame =
     map_option (\<lambda>r. il2c_assert (ex \<noteq> NULL)
       (bind_result r (\<lambda>found. case found of
          Some (p, n) \<Rightarrow> il2c_do_throw s ex p n
        | None \<Rightarrow>
            bind_result (il2c_invoke_unhandled_exception (delegates_of s) (current_domain s) ex)
              (\<lambda>calls. Inr (s, UnhandledException calls)))))
     (throw_scan (eframes s) ex pTargetFrame NULL)"

definition il2c_throw :: "unwind_state \<Rightarrow> addr \<Rightarrow> (unwind_state \<times> transfer) result option" where
  "il2c_throw s ex =
     (if ex = NULL then Some (Inl AssertionFailed)
      else if pUnwindTarget s = NULL then il2c_throw_internal s ex NULL
      else
        (case eframes s (pUnwindTarget s) of
           None \<Rightarrow> Some (Inl BadAccess)
         | Some f \<Rightarrow> il2c_throw_internal s ex
             (if ef_ex f \<noteq> NULL then ef_pNext f else pUnwindTarget s)))"

text \<open>The search of \<open>il2c_rethrow\<close> for the nearest frame that is handling an exception.\<close>

partial_function (option) caught_scan ::
  "(addr \<rightharpoonup> exception_frame) \<Rightarrow> addr \<Rightarrow> addr option result option" where
  "caught_scan F p =
     (if p = NULL then Some (Inr None)
      else
        (case F p of
           None \<Rightarrow> Some (Inl BadAccess)
         | Some f \<Rightarrow> if ef_ex f \<noteq> NULL then Some (Inr (Some (ef_ex f)))
                     else caught_scan F (ef_pNext f)))"

definition il2c_rethrow :: "unwind_state \<Rightarrow> (unwind_state \<times> transfer) result option" where
  "il2c_rethrow s =
     (if pUnwindTarget s = NULL then Some (Inl AssertionFailed)
      else
        (case eframes s (pUnwindTarget s) of
           None \<Rightarrow> Some (Inl BadAccess)
         | Some f \<Rightarrow>
             if ef_ex f \<noteq> NULL then
               il2c_throw_internal (s\<lparr>pUnwindTarget := ef_pNext f\<rparr>) (ef_ex f) (ef_pNext f)
             else
               Option.bind (caught_scan (eframes s) (ef_pNext f)) (\<lambda>r. case r of
                 Inl e \<Rightarrow> Some (Inl e)
               | Inr (Some ex) \<Rightarrow> il2c_throw_internal s ex (pUnwindTarget s)
               | Inr None \<Rightarrow> Some (Inr (s, InvalidProgram)))))"

text \<open>
  \<open>il2c_endfinally\<close> of the frame at \<open>p\<close>: rethrow when the finally block was entered
  by an exception, otherwise (\<open>None\<close>) leave.
\<close>

definition il2c_endfinally ::
  "unwind_state \<Rightarrow> addr \<Rightarrow> (unwind_state \<times> transfer option) result option" where
  "il2c_endfinally s p =
     (case eframes s p of
        None \<Rightarrow> Some (Inl BadAccess)
      | Some f \<Rightarrow>
          if ef_ex f \<noteq> NULL then
            map_option (map_sum id (map_prod id Some)) (il2c_rethrow s)
          else Some (Inr (s, None)))"

text \<open>
  What happens after a throw: a jump with number -1 runs the finally block of its frame
  and then \<open>il2c_endfinally\<close>; any other number enters a catch block.  The result
  lists the frames whose finally blocks ran, in order, and where the exception ended.
\<close>

partial_function (option) propagate ::
  "unwind_state \<Rightarrow> transfer \<Rightarrow> addr list \<Rightarrow> (unwind_state \<times> addr list \<times> transfer) result option" where
  "propagate s t tr =
     (case t of
        LongJmp p n \<Rightarrow>
          if n = IL2C_FILTER_FINALLY then
            Option.bind (il2c_endfinally s p) (\<lambda>r. case r of
              Inl e \<Rightarrow> Some (Inl e)
            | Inr (s', None) \<Rightarrow> Some (Inr (s', tr @ [p], t))
            | Inr (s', Some t') \<Rightarrow> propagate s' t' (tr @ [p]))
          else Some (Inr (s, tr, t))
      | _ \<Rightarrow> Some (Inr (s, tr, t)))"

definition unwind ::
  "unwind_state \<Rightarrow> addr \<Rightarrow> (unwind_state \<times> addr list \<times> transfer) result option" where
  "unwind s ex =
     Option.bind (il2c_throw s ex) (\<lambda>r. case r of
       Inl e \<Rightarrow> Some (Inl e)
     | Inr (s', t) \<Rightarrow> propagate s' t [])"

section \<open>Well-formed chains\<close>

definition frame_ok :: "exception_frame \<Rightarrow> bool" where
  "frame_ok f \<longleftrightarrow> ef_filter f \<noteq> None \<and> ef_pFrame f \<noteq> NULL"

fun chain :: "(addr \<rightharpoonup> exception_frame) \<Rightarrow> addr \<Rightarrow> addr list \<Rightarrow> bool" where
  "chain F p [] \<longleftrightarrow> p = NULL"
| "chain F p (q # qs) \<longleftrightarrow> p = q \<and> q \<noteq> NULL \<and>
     (case F q of None \<Rightarrow> False | Some f \<Rightarrow> frame_ok f \<and> chain F (ef_pNext f) qs)"

definition filter_number :: "(addr \<rightharpoonup> exception_frame) \<Rightarrow> addr \<Rightarrow> addr \<Rightarrow> int" where
  "filter_number F ex p = (case F p of None \<Rightarrow> 0 | Some f \<Rightarrow> the (ef_filter f) ex)"

lemma chain_cong:
  "(\<And>q. q \<in> set qs \<Longrightarrow> F' q = F q) \<Longrightarrow> chain F' p qs = chain F p qs"
  by (induction F p qs rule: chain.induct) (auto split: option.splits)

lemma chain_not_NULL: "chain F p qs \<Longrightarrow> q \<in> set qs \<Longrightarrow> q \<noteq> NULL"
  by (induction F p qs rule: chain.induct) (auto split: option.splits)

lemma chain_append:
  "chain F p (qs @ rs) \<Longrightarrow> \<exists>q. chain F q rs"
  by (induction qs arbitrary: p) (auto split: option.splits)

text \<open>The frame a throw selects is the first whose filter does not answer 0.\<close>

definition first_taker :: "(addr \<rightharpoonup> exception_frame) \<Rightarrow> addr \<Rightarrow> addr list \<Rightarrow> (addr \<times> int) option" where
  "first_taker F ex ps =
     map_option (\<lambda>p. (p, filter_number F ex p)) (find (\<lambda>p. filter_number F ex p \<noteq> 0) ps)"

lemma throw_scan_finally:
  "chain F p ps \<Longrightarrow> fin \<noteq> NULL \<Longrightarrow>
   throw_scan F ex p fin = Some (Inr (Some (fin, IL2C_FILTER_FINALLY)))"
proof (induction ps arbitrary: p)
  case Nil
  then show ?case by (simp add: throw_scan.simps)
next
  case (Cons q qs)
  then show ?case
    by (subst throw_scan.simps) (auto simp: frame_ok_def split: option.splits)
qed

lemma throw_scan_spec:
  "chain F p ps \<Longrightarrow> throw_scan F ex p NULL = Some (Inr (first_taker F ex ps))"
proof (induction ps arbitrary: p)
  case Nil
  then show ?case by (simp add: throw_scan.simps first_taker_def)
next
  case (Cons q qs)
  then obtain f flt where f: "p = q" "q \<noteq> NULL" "F q = Some f" "ef_filter f = Some flt"
    "ef_pFrame f \<noteq> NULL" "chain F (ef_pNext f) qs"
    by (auto simp: frame_ok_def split: option.splits)
  consider (fin) "flt ex = -1" | (no) "flt ex = 0" | (catch) "flt ex \<noteq> -1" "flt ex \<noteq> 0" by blast
  then show ?case
  proof cases
    case fin
    with f show ?thesis
      by (subst throw_scan.simps)
         (simp add: throw_scan_finally IL2C_FILTER_FINALLY_def first_taker_def filter_number_def)
  next
    case no
    with f Cons.IH [OF f(6)] show ?thesis
      by (subst throw_scan.simps)
         (simp add: IL2C_FILTER_FINALLY_def IL2C_FILTER_NOMATCH_def first_taker_def
           filter_number_def)
  next
    case catch
    with f show ?thesis
      by (subst throw_scan.simps)
         (simp add: IL2C_FILTER_FINALLY_def IL2C_FILTER_NOMATCH_def first_taker_def
           filter_number_def)
  qed
qed

lemma chain_next:
  "chain F p (q # qs) \<Longrightarrow> \<exists>f. F q = Some f \<and> frame_ok f \<and> chain F (ef_pNext f) qs"
  by (auto split: option.splits)

lemma chain_unique: "chain F p qs \<Longrightarrow> chain F p rs \<Longrightarrow> qs = rs"
proof (induction qs arbitrary: p rs)
  case Nil
  then show ?case by (cases rs) auto
next
  case (Cons q qs)
  then show ?case by (cases rs) (auto split: option.splits)
qed

lemma chain_suffix: "chain F p ps \<Longrightarrow> q \<in> set ps \<Longrightarrow> \<exists>rs. chain F q (q # rs) \<and> length rs < length ps"
proof (induction ps arbitrary: p)
  case Nil
  then show ?case by simp
next
  case (Cons r ps)
  show ?case
  proof (cases "q = r")
    case True
    with Cons.prems show ?thesis by auto
  next
    case False
    with Cons.prems chain_next obtain f :: exception_frame where f: "chain F (ef_pNext f) ps" "q \<in> set ps"
      by (metis set_ConsD)
    from Cons.IH [OF f] show ?thesis by force
  qed
qed

lemma chain_distinct: "chain F p ps \<Longrightarrow> distinct ps"
proof (induction ps arbitrary: p)
  case Nil
  then show ?case by simp
next
  case (Cons q ps)
  from chain_next [OF Cons.prems] obtain f :: exception_frame where f: "chain F (ef_pNext f) ps" by blast
  have "q \<notin> set ps"
  proof
    assume "q \<in> set ps"
    from chain_suffix [OF f this] obtain rs where "chain F q (q # rs)" "length rs < length ps"
      by auto
    with Cons.prems chain_unique [of F q "q # ps" "q # rs"] show False by simp
  qed
  with Cons.IH [OF f] show ?case by simp
qed

section \<open>Where an exception goes\<close>

text \<open>
  Specification over the frames from the innermost out: the finally blocks passed before
  the first catching frame, and that frame.
\<close>

definition finally_frames :: "(addr \<Rightarrow> int) \<Rightarrow> addr list \<Rightarrow> addr list" where
  "finally_frames num ps = filter (\<lambda>q. num q = -1) (takeWhile (\<lambda>q. num q = 0 \<or> num q = -1) ps)"

definition catching_frame :: "(addr \<Rightarrow> int) \<Rightarrow> addr list \<Rightarrow> addr option" where
  "catching_frame num ps = find (\<lambda>q. \<not> (num q = 0 \<or> num q = -1)) ps"

definition outcome :: "(addr \<Rightarrow> int) \<Rightarrow> addr list \<Rightarrow> (addr option \<times> addr) list \<Rightarrow> transfer" where
  "outcome num ps calls =
     (case catching_frame num ps of Some q \<Rightarrow> LongJmp q (num q) | None \<Rightarrow> UnhandledException calls)"

definition run_from :: "unwind_state \<Rightarrow> addr \<Rightarrow> addr \<Rightarrow> addr list \<Rightarrow>
    (unwind_state \<times> addr list \<times> transfer) result option" where
  "run_from s ex p tr =
     Option.bind (il2c_throw_internal s ex p) (\<lambda>r. case r of
       Inl e \<Rightarrow> Some (Inl e)
     | Inr (s', t) \<Rightarrow> propagate s' t tr)"

definition numbers_are :: "unwind_state \<Rightarrow> addr \<Rightarrow> (addr \<Rightarrow> int) \<Rightarrow> addr list \<Rightarrow> bool" where
  "numbers_are s ex num ps \<longleftrightarrow> (\<forall>q \<in> set ps. filter_number (eframes s) ex q = num q)"

definition handler_state :: "unwind_state \<Rightarrow> unwind_state \<Rightarrow> addr \<Rightarrow> addr \<Rightarrow> bool" where
  "handler_state s s' ex q \<longleftrightarrow> pUnwindTarget s' = q \<and>
     (\<exists>f. eframes s q = Some f \<and> eframes s' q = Some (f\<lparr>ef_ex := ex\<rparr>) \<and> pFrame s' = ef_pFrame f)"

lemma chain_Cons_obtain:
  assumes "chain F p (q # qs)"
  obtains f where "p = q" "q \<noteq> NULL" "F q = Some f" "frame_ok f" "chain F (ef_pNext f) qs"
    "q \<notin> set qs"
  using assms chain_distinct [OF assms] by (auto split: option.splits)

lemma throw_internal_spec:
  assumes "chain (eframes s) p ps" and "ex \<noteq> NULL"
  shows "il2c_throw_internal s ex p = Some
    (case first_taker (eframes s) ex ps of
       Some (q, n) \<Rightarrow> il2c_do_throw s ex q n
     | None \<Rightarrow> bind_result (il2c_invoke_unhandled_exception (delegates_of s) (current_domain s) ex)
                 (\<lambda>calls. Inr (s, UnhandledException calls)))"
  using throw_scan_spec [OF assms(1)] assms(2)
  by (auto simp: il2c_throw_internal_def split: option.splits)

lemma rethrow_after_finally:
  assumes "q \<noteq> NULL" and "eframes s q = Some f" and "ex \<noteq> NULL"
  shows "propagate
      (s\<lparr>eframes := (eframes s)(q \<mapsto> f\<lparr>ef_ex := ex\<rparr>), pUnwindTarget := q, pFrame := fr\<rparr>)
      (LongJmp q (-1)) tr =
    run_from (s\<lparr>eframes := (eframes s)(q \<mapsto> f\<lparr>ef_ex := ex\<rparr>),
                pFrame := fr, pUnwindTarget := ef_pNext f\<rparr>) ex (ef_pNext f) (tr @ [q])"
proof -
  let ?s1 = "s\<lparr>eframes := (eframes s)(q \<mapsto> f\<lparr>ef_ex := ex\<rparr>), pUnwindTarget := q, pFrame := fr\<rparr>"
  let ?s2 = "s\<lparr>eframes := (eframes s)(q \<mapsto> f\<lparr>ef_ex := ex\<rparr>),
                pFrame := fr, pUnwindTarget := ef_pNext f\<rparr>"
  have "il2c_endfinally ?s1 q =
      map_option (map_sum id (map_prod id Some)) (il2c_throw_internal ?s2 ex (ef_pNext f))"
    using assms by (simp add: il2c_endfinally_def il2c_rethrow_def)
  then show ?thesis
    by (subst propagate.simps, cases "il2c_throw_internal ?s2 ex (ef_pNext f)")
       (auto simp: run_from_def IL2C_FILTER_FINALLY_def split: sum.splits)
qed

lemma run_from_Inr:
  assumes "run_from s ex p tr = Some (Inr y)"
  shows "\<exists>s1 t. il2c_throw_internal s ex p = Some (Inr (s1, t)) \<and> propagate s1 t tr = Some (Inr y)"
proof (cases "il2c_throw_internal s ex p")
  case None
  with assms show ?thesis by (simp add: run_from_def)
next
  case (Some r)
  with assms show ?thesis by (cases r) (auto simp: run_from_def)
qed

lemma first_taker_Cons:
  "first_taker F ex (q # qs) =
     (if filter_number F ex q = 0 then first_taker F ex qs else Some (q, filter_number F ex q))"
  by (simp add: first_taker_def)

lemma run_from_skip:
  assumes "chain (eframes s) p (q # qs)" and "ex \<noteq> NULL" and "filter_number (eframes s) ex q = 0"
    and "eframes s q = Some f"
  shows "run_from s ex p tr = run_from s ex (ef_pNext f) tr"
proof -
  have "chain (eframes s) (ef_pNext f) qs" using assms(1,4) by simp
  from throw_internal_spec [OF this assms(2)] throw_internal_spec [OF assms(1,2)] assms(3)
  show ?thesis by (simp add: run_from_def first_taker_Cons)
qed

lemma run_from_jump:
  assumes "chain (eframes s) p (q # qs)" and "ex \<noteq> NULL" and "filter_number (eframes s) ex q = n"
    and "n \<noteq> 0" and "eframes s q = Some f"
  shows "run_from s ex p tr = propagate
     (s\<lparr>eframes := (eframes s)(q \<mapsto> f\<lparr>ef_ex := ex\<rparr>), pUnwindTarget := q, pFrame := ef_pFrame f\<rparr>)
     (LongJmp q n) tr"
  using throw_internal_spec [OF assms(1,2)] assms
  by (simp add: run_from_def first_taker_Cons il2c_do_throw_def)

lemma numbers_are_Cons:
  "numbers_are s ex num (q # qs) \<longleftrightarrow> filter_number (eframes s) ex q = num q \<and> numbers_are s ex num qs"
  by (simp add: numbers_are_def)

lemma numbers_are_update:
  "numbers_are s ex num qs \<Longrightarrow> q \<notin> set qs \<Longrightarrow>
   numbers_are (s\<lparr>eframes := (eframes s)(q \<mapsto> f), pFrame := fr, pUnwindTarget := t\<rparr>) ex num qs"
  by (auto simp: numbers_are_def filter_number_def)

lemma unwind_from_spec:
  assumes "chain (eframes s) p ps" and "ex \<noteq> NULL" and "numbers_are s ex num ps"
    and "il2c_invoke_unhandled_exception (delegates_of s) (current_domain s) ex = Inr calls"
  shows "\<exists>s'. run_from s ex p tr = Some (Inr (s', tr @ finally_frames num ps, outcome num ps calls)) \<and>
     (\<forall>q. catching_frame num ps = Some q \<longrightarrow> handler_state s s' ex q)"
  using assms
proof (induction ps arbitrary: s p tr)
  case Nil
  from throw_internal_spec [OF Nil(1,2)] Nil show ?case
    by (simp add: run_from_def first_taker_def propagate.simps finally_frames_def outcome_def
        catching_frame_def)
next
  case (Cons q qs)
  obtain f where f: "p = q" "q \<noteq> NULL" "eframes s q = Some f" "frame_ok f"
    "chain (eframes s) (ef_pNext f) qs" "q \<notin> set qs"
    using Cons.prems(1) by (rule chain_Cons_obtain)
  have num: "filter_number (eframes s) ex q = num q" "numbers_are s ex num qs"
    using Cons.prems(3) by (simp_all add: numbers_are_Cons)
  consider (no) "num q = 0" | (fin) "num q = -1" | (catch) "num q \<noteq> 0" "num q \<noteq> -1" by blast
  then show ?case
  proof cases
    case no
    have "run_from s ex p tr = run_from s ex (ef_pNext f) tr"
      using Cons.prems(1,2) _ f(3) by (rule run_from_skip) (simp add: num no)
    with Cons.IH [OF f(5) Cons.prems(2) num(2) Cons.prems(4), of tr] no show ?thesis
      by (auto simp: finally_frames_def outcome_def catching_frame_def)
  next
    case fin
    let ?s = "s\<lparr>eframes := (eframes s)(q \<mapsto> f\<lparr>ef_ex := ex\<rparr>), pFrame := ef_pFrame f,
                pUnwindTarget := ef_pNext f\<rparr>"
    have run: "run_from s ex p tr = run_from ?s ex (ef_pNext f) (tr @ [q])"
      using run_from_jump [OF Cons.prems(1,2) num(1) _ f(3), of tr] fin
        rethrow_after_finally [OF f(2,3) Cons.prems(2), of "ef_pFrame f" tr] by simp
    have "chain (eframes ?s) (ef_pNext f) qs"
      using f(5,6) by (subst chain_cong [where F = "eframes s"]) auto
    from Cons.IH [OF this Cons.prems(2) numbers_are_update [OF num(2) f(6)], of "tr @ [q]"]
      Cons.prems(4) obtain s' where s': "run_from ?s ex (ef_pNext f) (tr @ [q]) =
        Some (Inr (s', (tr @ [q]) @ finally_frames num qs, outcome num qs calls))"
      "\<forall>q'. catching_frame num qs = Some q' \<longrightarrow> handler_state ?s s' ex q'" by auto
    have "handler_state s s' ex q'" if "catching_frame num qs = Some q'" for q'
    proof -
      have "q' \<noteq> q" using that f(6) by (auto simp: catching_frame_def find_Some_iff)
      with s'(2) that show ?thesis by (simp add: handler_state_def)
    qed
    with run s'(1) fin show ?thesis
      by (auto simp: finally_frames_def outcome_def catching_frame_def)
  next
    case catch
    then have "run_from s ex p tr = Some (Inr
        (s\<lparr>eframes := (eframes s)(q \<mapsto> f\<lparr>ef_ex := ex\<rparr>), pUnwindTarget := q, pFrame := ef_pFrame f\<rparr>,
         tr, LongJmp q (num q)))"
      using run_from_jump [OF Cons.prems(1,2) num(1) _ f(3), of tr]
      by (simp add: propagate.simps IL2C_FILTER_FINALLY_def)
    with catch f(3) show ?thesis
      by (auto simp: finally_frames_def outcome_def catching_frame_def handler_state_def)
  qed
qed

text \<open>The frames a new throw considers: a frame whose handler is running is skipped.\<close>

definition search_frames :: "(addr \<rightharpoonup> exception_frame) \<Rightarrow> addr list \<Rightarrow> addr list" where
  "search_frames F ps =
     (case ps of [] \<Rightarrow> []
      | q # qs \<Rightarrow> (case F q of None \<Rightarrow> ps | Some f \<Rightarrow> if ef_ex f \<noteq> NULL then qs else ps))"

lemma throw_starts:
  assumes "chain (eframes s) (pUnwindTarget s) ps" and "ex \<noteq> NULL"
  shows "\<exists>p. il2c_throw s ex = il2c_throw_internal s ex p \<and>
           chain (eframes s) p (search_frames (eframes s) ps)"
proof (cases ps)
  case Nil
  with assms show ?thesis by (intro exI [of _ NULL]) (simp add: il2c_throw_def search_frames_def)
next
  case (Cons q qs)
  with assms(1) have "chain (eframes s) (pUnwindTarget s) (q # qs)" by simp
  then obtain f where f: "pUnwindTarget s = q" "q \<noteq> NULL" "eframes s q = Some f"
    "chain (eframes s) (ef_pNext f) qs" by (rule chain_Cons_obtain)
  with assms Cons show ?thesis
    by (intro exI [of _ "if ef_ex f \<noteq> NULL then ef_pNext f else q"])
       (auto simp: il2c_throw_def search_frames_def)
qed

section \<open>Properties\<close>

text \<open>Concrete frames for the witnesses: a finally frame 10, a mismatch 20, a catch-all 30.\<close>

definition sample_frame :: "addr \<Rightarrow> int \<Rightarrow> addr \<Rightarrow> exception_frame" where
  "sample_frame next n handling =
     \<lparr>ef_pNext = next, ef_pFrame = 500, ef_ex = handling, ef_filter = Some (\<lambda>_. n)\<rparr>"

definition sample_unwind :: unwind_state where
  "sample_unwind = \<lparr>eframes = [10 \<mapsto> sample_frame 20 (-1) NULL, 20 \<mapsto> sample_frame 30 0 NULL,
       30 \<mapsto> sample_frame NULL 1 NULL],
     pUnwindTarget = 10, pFrame = 600, delegates_of = sample_delegates,
     current_domain = \<lparr>unhandledExceptionEventHandler = 100\<rparr>\<rparr>"

text \<open>
  C5: An exception reaches the right handler through the right finally blocks.  For every
  well-formed chain of frames, throwing returns after finitely many steps: the finally
  blocks of the frames inside the first catching frame run, innermost first and once each,
  then control enters that frame with its own catch number, the thread context points at
  it, the frame records the exception and the execution frame of its try block is
  restored; when no frame catches, all finally blocks run and the domain's
  unhandled-exception handlers are called.  A frame whose own handler is running is
  skipped.
\<close>

theorem exception_reaches_handler:
  assumes "chain (eframes s) (pUnwindTarget s) ps" and "ex \<noteq> NULL"
    and "il2c_invoke_unhandled_exception (delegates_of s) (current_domain s) ex = Inr calls"
    and "num = filter_number (eframes s) ex" and "qs = search_frames (eframes s) ps"
  shows "\<exists>s'. unwind s ex = Some (Inr (s', finally_frames num qs, outcome num qs calls)) \<and>
     (\<forall>q. catching_frame num qs = Some q \<longrightarrow> handler_state s s' ex q)"
proof -
  from throw_starts [OF assms(1,2)] obtain p where p:
    "il2c_throw s ex = il2c_throw_internal s ex p" "chain (eframes s) p qs"
    by (auto simp: assms(5))
  have "unwind s ex = run_from s ex p []"
    by (simp add: unwind_def run_from_def p(1))
  moreover have "numbers_are s ex num qs" by (simp add: numbers_are_def assms(4))
  ultimately show ?thesis
    using unwind_from_spec [OF p(2) assms(2) _ assms(3), of num "[]"] by simp
qed

lemma sample_unwind_facts:
  "chain (eframes sample_unwind) (pUnwindTarget sample_unwind) [10, 20, 30]"
  "il2c_invoke_unhandled_exception (delegates_of sample_unwind) (current_domain sample_unwind) 9 =
     Inr [(Some 5, 50)]"
  using invoke_unhandled_calls [OF sample_delegates_ok, of "\<lparr>unhandledExceptionEventHandler = 100\<rparr>" 9]
  by (simp_all add: sample_unwind_def sample_frame_def frame_ok_def is_delegate_def
      sample_delegates_def sample_delegate_def calls_of_def invocation_list_def)

theorem exception_reaches_handler_witness:
  "\<exists>s'. unwind sample_unwind 9 = Some (Inr (s', [10], LongJmp 30 1)) \<and>
     handler_state sample_unwind s' 9 30"
proof -
  let ?num = "filter_number (eframes sample_unwind) 9"
  let ?qs = "search_frames (eframes sample_unwind) [10, 20, 30]"
  have "finally_frames ?num ?qs = [10]" "catching_frame ?num ?qs = Some 30" "?num 30 = 1"
    by (simp_all add: search_frames_def sample_unwind_def sample_frame_def filter_number_def
        finally_frames_def catching_frame_def)
  then show ?thesis
    using exception_reaches_handler [OF sample_unwind_facts(1) _ sample_unwind_facts(2) refl refl]
    by (simp add: outcome_def)
qed

text \<open>
  C28: Rethrowing unwinds exactly one frame.  Inside a handler, \<open>il2c_rethrow\<close> raises
  the exception that handler took and continues with the frames outside it: the remaining
  finally blocks and the next catching frame are those of the enclosing frames alone.
\<close>

theorem rethrow_continues_outside:
  assumes "chain (eframes s) (pUnwindTarget s) (q # qs)" and "eframes s q = Some f"
    and "ef_ex f \<noteq> NULL"
    and "il2c_invoke_unhandled_exception (delegates_of s) (current_domain s) (ef_ex f) = Inr calls"
    and "num = filter_number (eframes s) (ef_ex f)"
  shows "\<exists>s1 t s'. il2c_rethrow s = Some (Inr (s1, t)) \<and>
     propagate s1 t [] = Some (Inr (s', finally_frames num qs, outcome num qs calls)) \<and>
     (\<forall>h. catching_frame num qs = Some h \<longrightarrow> handler_state s s' (ef_ex f) h)"
proof -
  let ?s = "s\<lparr>pUnwindTarget := ef_pNext f\<rparr>"
  obtain g where g: "pUnwindTarget s = q" "q \<noteq> NULL" "eframes s q = Some g"
    "chain (eframes s) (ef_pNext g) qs"
    using assms(1) by (rule chain_Cons_obtain)
  with assms(2) have c: "chain (eframes ?s) (ef_pNext f) qs" by simp
  have "numbers_are ?s (ef_ex f) num qs" by (simp add: numbers_are_def assms(5))
  from unwind_from_spec [OF c assms(3) this, of calls "[]"] assms(4) obtain s' where
    s': "run_from ?s (ef_ex f) (ef_pNext f) [] =
           Some (Inr (s', finally_frames num qs, outcome num qs calls))"
        "\<forall>h. catching_frame num qs = Some h \<longrightarrow> handler_state s s' (ef_ex f) h"
    by (auto simp: handler_state_def)
  moreover have "il2c_rethrow s = il2c_throw_internal ?s (ef_ex f) (ef_pNext f)"
    using g assms(2,3) by (simp add: il2c_rethrow_def)
  ultimately show ?thesis
    using run_from_Inr [OF s'(1)] by auto
qed

text \<open>The frame 10 of the sample as a catch block that handles exception 9.\<close>

definition sample_handling :: unwind_state where
  "sample_handling =
     sample_unwind\<lparr>eframes := (eframes sample_unwind)(10 \<mapsto> sample_frame 20 1 9)\<rparr>"

lemma sample_handling_facts:
  "chain (eframes sample_handling) (pUnwindTarget sample_handling) [10, 20, 30]"
  "eframes sample_handling 10 = Some (sample_frame 20 1 9)"
  "ef_ex (sample_frame 20 1 9) = 9"
  "il2c_invoke_unhandled_exception (delegates_of sample_handling) (current_domain sample_handling) 9 =
     Inr [(Some 5, 50)]"
  "filter_number (eframes sample_handling) 9 20 = 0"
  "filter_number (eframes sample_handling) 9 30 = 1"
  using sample_unwind_facts(2)
  by (simp_all add: sample_handling_def sample_unwind_def sample_frame_def frame_ok_def
      filter_number_def)

theorem rethrow_continues_outside_witness:
  "\<exists>s1 t s'. il2c_rethrow sample_handling = Some (Inr (s1, t)) \<and>
     propagate s1 t [] = Some (Inr (s', [], LongJmp 30 1))"
  using rethrow_continues_outside [OF sample_handling_facts(1,2), of "[(Some 5, 50)]", OF _ _ refl]
    sample_handling_facts
  by (auto simp: finally_frames_def outcome_def catching_frame_def)

text \<open>
  A try block leaves the frame chain as it found it.  Linking a frame and unlinking it
  restores the thread context, changes no other frame, and while it is linked the new
  frame is the first one a throw considers.
\<close>

theorem link_unlink_balanced:
  assumes "chain (eframes s) (pUnwindTarget s) ps" and "p \<noteq> NULL" and "p \<notin> set ps"
    and "pFrame s \<noteq> NULL"
  shows "\<exists>s1 s2. il2c_link_unwind_target s p (Some flt) = Inr s1 \<and>
     chain (eframes s1) (pUnwindTarget s1) (p # ps) \<and>
     search_frames (eframes s1) (p # ps) = p # ps \<and>
     il2c_unlink_unwind_target s1 p = Inr s2 \<and>
     pUnwindTarget s2 = pUnwindTarget s \<and> pFrame s2 = pFrame s \<and>
     (\<forall>q. q \<noteq> p \<longrightarrow> eframes s2 q = eframes s q) \<and> chain (eframes s2) (pUnwindTarget s2) ps"
proof -
  let ?F = "(eframes s)(p \<mapsto> \<lparr>ef_pNext = pUnwindTarget s, ef_pFrame = pFrame s, ef_ex = NULL,
                              ef_filter = Some flt\<rparr>)"
  have "chain ?F (pUnwindTarget s) ps"
    using assms(1,3) by (subst chain_cong [where F = "eframes s"]) auto
  with assms(2,4) show ?thesis
    by (simp add: il2c_link_unwind_target_def il2c_unlink_unwind_target_def frame_ok_def
        search_frames_def)
qed

theorem link_unlink_balanced_witness:
  "\<exists>s1 s2. il2c_link_unwind_target sample_unwind 40 (Some (\<lambda>_. 1)) = Inr s1 \<and>
     il2c_unlink_unwind_target s1 40 = Inr s2 \<and> pUnwindTarget s2 = 10"
  using link_unlink_balanced [OF sample_unwind_facts(1), of 40 "\<lambda>_. 1"]
  by (auto simp: sample_unwind_def)

text \<open>
  A handler is not protected against itself: while frame \<open>h\<close> runs its catch block, a
  throw from a try block nested in that catch block whose own filter does not match selects
  \<open>h\<close> again, although the exception was raised outside the try block of \<open>h\<close>.
\<close>

lemma nested_throw_reenters_handler:
  assumes "chain (eframes s) (pUnwindTarget s) (inner # h # ps)" and "ex \<noteq> NULL"
    and "eframes s inner = Some fi" and "ef_ex fi = NULL"
    and "filter_number (eframes s) ex inner = 0"
    and "eframes s h = Some fh" and "ef_ex fh \<noteq> NULL"
    and "filter_number (eframes s) ex h = n" and "n \<noteq> 0"
  shows "\<exists>s'. il2c_throw s ex = Some (Inr (s', LongJmp h n))"
proof -
  have "pUnwindTarget s = inner" "inner \<noteq> NULL" "h \<noteq> NULL"
    using assms(1,3) by auto
  moreover have "first_taker (eframes s) ex (inner # h # ps) = Some (h, n)"
    using assms by (simp add: first_taker_Cons)
  ultimately show ?thesis
    using throw_internal_spec [OF assms(1,2)] assms(2,3,4,6)
    by (auto simp: il2c_throw_def il2c_do_throw_def)
qed

lemma nested_throw_reenters_handler_example:
  "\<exists>s'. il2c_throw (sample_unwind\<lparr>pUnwindTarget := 20,
         eframes := (eframes sample_unwind)(30 \<mapsto> sample_frame NULL 1 8)\<rparr>) 9 =
       Some (Inr (s', LongJmp 30 1))"
  by (rule nested_throw_reenters_handler
        [where inner = 20 and h = 30 and ps = "[]" and fi = "sample_frame 30 0 NULL"
           and fh = "sample_frame NULL 1 8"])
     (simp_all add: sample_unwind_def sample_frame_def frame_ok_def filter_number_def)

end
