(* ===== verification/Thread_Start.thy ===== *)
theory Thread_Start
  imports Allocation Exception_Unwind
begin

text \<open>
  Starting a managed thread (src/System/Threading/Thread.c, ThreadStart.c and
  ParameterizedThreadStart.c).  \<open>Start\<close> makes the thread object a root, creates the
  native thread and stores its handle; the native thread attaches itself to the thread
  object, waits for the handle, links its bottom frame, runs the delegate, reports an
  unhandled exception to the domain, unlinks the frame and gives up the root.

  The two run at the same time.  Each piece between two visible actions is a definition;
  the step relation interleaves the pieces of both threads with everything the other
  threads do, among it collections.
\<close>

section \<open>Delegates in the heap\<close>

definition delegates_in :: "machine \<Rightarrow> delegates" where
  "delegates_in m = (\<lambda>a. case bodies m a of DelegateBody d \<Rightarrow> Some d | _ \<Rightarrow> None)"

text \<open>
  The compiled code behind a method pointer: called with its target and its argument, it
  returns the machine it leaves and the exception that leaves it (\<open>NULL\<close> when it returns
  normally), or never returns.
\<close>

type_synonym call = "addr option \<times> addr"
type_synonym user_code = "call \<Rightarrow> addr \<Rightarrow> machine \<Rightarrow> (machine \<times> addr) option"

definition call_of :: "method_table \<Rightarrow> call" where
  "call_of mt = (if target mt \<noteq> NULL then Some (target mt) else None, methodPtr mt)"

fun invoke_delegate ::
  "user_code \<Rightarrow> method_table list \<Rightarrow> nat \<Rightarrow> nat \<Rightarrow> addr \<Rightarrow> machine \<Rightarrow> (machine \<times> addr \<times> call list) result option" where
  "invoke_delegate user tbl index 0 obj m = Some (Inr (m, NULL, []))"
| "invoke_delegate user tbl index (Suc n) obj m =
     (case array_read tbl index of Inl e \<Rightarrow> Some (Inl e)
      | Inr mt \<Rightarrow>
          (case user (call_of mt) obj m of None \<Rightarrow> None
           | Some (m, ex) \<Rightarrow>
               if ex \<noteq> NULL then Some (Inr (m, ex, [call_of mt]))
               else map_option (map_sum id (\<lambda>(m, ex, cs). (m, ex, call_of mt # cs)))
                      (invoke_delegate user tbl (Suc index) n obj m)))"

definition System_Threading_ParameterizedThreadStart_Invoke ::
  "user_code \<Rightarrow> machine \<Rightarrow> addr \<Rightarrow> addr \<Rightarrow> (machine \<times> addr \<times> call list) result option" where
  "System_Threading_ParameterizedThreadStart_Invoke user m this obj =
     (if this = NULL \<or> \<not> has_vptr0 m this System_Delegate_VTABLE then Some (Inl AssertionFailed)
      else case checked_delegate (delegates_in m) this of Inl e \<Rightarrow> Some (Inl e)
      | Inr d \<Rightarrow> invoke_delegate user (methodtbl d) 0 (delegate.count d) obj m)"

text \<open>The same loop without an argument.\<close>

definition System_Threading_ThreadStart_Invoke ::
  "user_code \<Rightarrow> machine \<Rightarrow> addr \<Rightarrow> (machine \<times> addr \<times> call list) result option" where
  "System_Threading_ThreadStart_Invoke user m this =
     (if this = NULL \<or> \<not> has_vptr0 m this System_Delegate_VTABLE then Some (Inl AssertionFailed)
      else case checked_delegate (delegates_in m) this of Inl e \<Rightarrow> Some (Inl e)
      | Inr d \<Rightarrow> invoke_delegate user (methodtbl d) 0 (delegate.count d) NULL m)"

section \<open>The starting thread\<close>

text \<open>\<open>Start\<close> up to the creation of the native thread, with or without a parameter.\<close>

definition start_begin :: "machine \<Rightarrow> addr \<Rightarrow> addr option \<Rightarrow> machine result" where
  "start_begin m this param =
     il2c_assert (this \<noteq> NULL)
     (case bodies m this of
        ThreadBody th \<Rightarrow>
          il2c_assert (start th \<noteq> NULL)
          (il2c_assert (rawHandle th = -1)
          (bind_result (il2c_register_root_reference m this False) (\<lambda>m.
             case param of None \<Rightarrow> Inr m
             | Some obj \<Rightarrow> update_thread m this (\<lambda>th. Inr (th\<lparr>parameter := obj\<rparr>)))))
      | _ \<Rightarrow> Inl BadAccess)"

text \<open>\<open>Start\<close> from there on; resuming a POSIX thread is a no-op.\<close>

definition start_finish :: "machine \<Rightarrow> addr \<Rightarrow> int \<Rightarrow> machine result" where
  "start_finish m this handle =
     il2c_assert (0 \<le> handle) (update_thread m this (\<lambda>th. Inr (th\<lparr>rawHandle := handle\<rparr>)))"

definition System_Threading_Thread_Start :: "machine \<Rightarrow> addr \<Rightarrow> int \<Rightarrow> machine result" where
  "System_Threading_Thread_Start m this handle =
     bind_result (start_begin m this None) (\<lambda>m. start_finish m this handle)"

definition System_Threading_Thread_Start_Object :: "machine \<Rightarrow> addr \<Rightarrow> addr \<Rightarrow> int \<Rightarrow> machine result" where
  "System_Threading_Thread_Start_Object m this obj handle =
     bind_result (start_begin m this (Some obj)) (\<lambda>m. start_finish m this handle)"

section \<open>The started thread\<close>

text \<open>
  The bottom frame lies in the thread object, behind the context and the parameter.  Its
  two counts share one word; its reference slot is \<open>exception__\<close>.
\<close>

definition bottom_frame_addr :: "addr \<Rightarrow> addr" where "bottom_frame_addr this = this + 104"

definition bottom_frame_clear :: "machine \<Rightarrow> addr \<Rightarrow> bool" where
  "bottom_frame_clear m this \<longleftrightarrow>
     cells m (bottom_frame_addr this) = NULL \<and> cells m (bottom_frame_addr this + 8) = NULL \<and>
     cells m (bottom_frame_addr this + 16) = NULL"

definition bottom_frame :: "addr \<Rightarrow> addr \<Rightarrow> tracking_information" where
  "bottom_frame this ex = \<lparr>frame_addr = bottom_frame_addr this, pReferences = [ex], valueDescriptors = []\<rparr>"

text \<open>The assertions of the entry points, and the identity of the thread.\<close>

definition entry_attach :: "machine \<Rightarrow> addr \<Rightarrow> runtime_type \<Rightarrow> bool \<Rightarrow> int \<Rightarrow> machine result" where
  "entry_attach m p startType withParameter tid =
     il2c_assert (p \<noteq> NULL)
     (il2c_assert (has_vptr0 m p System_Threading_Thread_VTABLE)
     (case bodies m p of
        ThreadBody th \<Rightarrow>
          bind_result (il2c_isinst m (start th) startType) (\<lambda>s.
          il2c_assert (s \<noteq> NULL)
          (il2c_assert (withParameter \<or> parameter th = NULL)
          (il2c_assert (bottom_frame_clear m p)
             (update_thread m p (\<lambda>th. Inr (th\<lparr>thread_id := tid\<rparr>))))))
      | _ \<Rightarrow> Inl BadAccess))"

text \<open>The wait for the handle ends when \<open>Start\<close> has stored it; until then it goes on.\<close>

definition handle_known :: "machine \<Rightarrow> addr \<Rightarrow> bool" where
  "handle_known m p \<longleftrightarrow> (case bodies m p of ThreadBody th \<Rightarrow> rawHandle th \<noteq> -1 | _ \<Rightarrow> False)"

definition entry_link :: "environment \<Rightarrow> runtime_type \<Rightarrow> machine \<Rightarrow> addr \<Rightarrow> machine result option" where
  "entry_link env threadType m p =
     map_option (map_sum id fst) (il2c_link_execution_frame env threadType m p
       (bottom_frame p (cells m (bottom_frame_addr p + 16))))"

text \<open>The delegate, with the parameter of the thread in the second entry point.\<close>

definition entry_invoke ::
  "user_code \<Rightarrow> machine \<Rightarrow> addr \<Rightarrow> bool \<Rightarrow> (machine \<times> addr \<times> call list) result option" where
  "entry_invoke user m p withParameter =
     (case bodies m p of
        ThreadBody th \<Rightarrow>
          if withParameter
          then System_Threading_ParameterizedThreadStart_Invoke user m (start th) (parameter th)
          else System_Threading_ThreadStart_Invoke user m (start th)
      | _ \<Rightarrow> Some (Inl BadAccess))"

text \<open>
  The filter takes every exception.  The jump to the catch block drops the execution frames
  above the bottom frame; the block keeps the exception in the bottom frame.
\<close>

definition System_Threading_Thread_InternalExceptionFilter :: "addr \<Rightarrow> int result" where
  "System_Threading_Thread_InternalExceptionFilter ex = il2c_assert (ex \<noteq> NULL) (Inr 1)"

definition entry_catch :: "machine \<Rightarrow> addr \<Rightarrow> addr \<Rightarrow> machine result" where
  "entry_catch m p ex =
     il2c_assert (ex \<noteq> NULL)
     (update_thread m p (\<lambda>th.
        case dropWhile (\<lambda>f. frame_addr f \<noteq> bottom_frame_addr p) (frames th) of
          [] \<Rightarrow> Inl BadAccess
        | f # fs \<Rightarrow> Inr (th\<lparr>frames := f\<lparr>pReferences := [ex]\<rparr> # fs\<rparr>)))"

text \<open>The end of the thread: the bottom frame goes, and the thread object is no root any more.\<close>

definition entry_leave :: "environment \<Rightarrow> machine \<Rightarrow> addr \<Rightarrow> machine result option" where
  "entry_leave env m p =
     and_then (il2c_unlink_execution_frame env m p (bottom_frame_addr p) NULL)
       (\<lambda>(m, r). Some (il2c_unregister_root_reference m p False))"

section \<open>Other operations\<close>

text \<open>Waiting for the end: the native thread's handle, when there is one.\<close>

definition System_Threading_Thread_Join :: "machine \<Rightarrow> addr \<Rightarrow> int result" where
  "System_Threading_Thread_Join m this =
     il2c_assert (this \<noteq> NULL)
     (case bodies m this of
        ThreadBody th \<Rightarrow>
          il2c_assert (start th \<noteq> NULL) (il2c_assert (0 \<le> rawHandle th) (il2c_assert (rawHandle th \<noteq> 0) (Inr (rawHandle th))))
      | _ \<Rightarrow> Inl BadAccess)"

definition System_Threading_Thread_get_ManagedThreadId :: "machine \<Rightarrow> addr \<Rightarrow> int result" where
  "System_Threading_Thread_get_ManagedThreadId m this =
     il2c_assert (this \<noteq> NULL)
     (case bodies m this of ThreadBody th \<Rightarrow> Inr (thread_id th) | _ \<Rightarrow> Inl BadAccess)"

definition System_Threading_Thread_get_CurrentThread ::
  "environment \<Rightarrow> machine \<Rightarrow> addr \<Rightarrow> runtime_type \<Rightarrow> (machine \<times> addr) result option" where
  "System_Threading_Thread_get_CurrentThread env m tls threadType = il2c_acquire_thread_context env m tls threadType"

section \<open>The interleaving\<close>

datatype start_pc = Starting | Registered | Created int | Started int
datatype entry_pc = Absent | Entered | Attached | Linked | Returned addr | Left

record thread_run =
  run_machine :: machine
  run_domain :: app_domain
  start_at :: start_pc
  entry_at :: entry_pc
  run_calls :: "call list"       \<comment> \<open>the calls the delegate has made\<close>
  run_reports :: "call list"     \<comment> \<open>the calls of the domain's handlers\<close>

text \<open>What is started: the thread object, its delegate with the type the entry point expects.\<close>

record thread_job =
  job_thread :: addr
  job_start :: addr
  job_table :: delegate
  job_type :: runtime_type
  job_parameter :: "addr option"

abbreviation with_parameter :: "thread_job \<Rightarrow> bool" where
  "with_parameter j \<equiv> job_parameter j \<noteq> None"

text \<open>
  The thread object is sound, whatever its thread is doing; \<open>t\<close> is the native thread
  that touches the context's lock.  (While the bottom frame is linked its contents are those
  of the frame in the chain; the words in the object are what they were before.)
\<close>

definition thread_sound :: "int \<Rightarrow> thread_job \<Rightarrow> machine \<Rightarrow> bool" where
  "thread_sound t j m \<longleftrightarrow> job_thread j \<noteq> NULL \<and> job_start j \<noteq> NULL \<and>
     has_vptr0 m (job_thread j) System_Threading_Thread_VTABLE \<and> roots_ok (g_pRootReferences m) \<and>
     has_vptr0 m (job_start j) System_Delegate_VTABLE \<and>
     il2c_isinst m (job_start j) (job_type j) = Inr (job_start j) \<and>
     bodies m (job_start j) = DelegateBody (job_table j) \<and> delegate_ok (job_table j) \<and>
     bottom_frame_clear m (job_thread j) \<and>
     (\<exists>th. bodies m (job_thread j) = ThreadBody th \<and> start th = job_start j \<and> lock_balanced t (lockForCollect th))"

definition thread_of :: "machine \<Rightarrow> addr \<Rightarrow> thread_body" where
  "thread_of m p = (case bodies m p of ThreadBody th \<Rightarrow> th | _ \<Rightarrow> zero_thread)"

text \<open>
  What everything else leaves of the thread: its object stays sound, with its parameter and
  its handle, and it is a root as before.  Other threads leave its frames alone; its own
  code may push frames, and has popped them when it returns normally.
\<close>

definition thread_kept :: "int \<Rightarrow> thread_job \<Rightarrow> machine \<Rightarrow> machine \<Rightarrow> bool" where
  "thread_kept t j m m' \<longleftrightarrow> thread_sound t j m' \<and>
     parameter (thread_of m' (job_thread j)) = parameter (thread_of m (job_thread j)) \<and>
     rawHandle (thread_of m' (job_thread j)) = rawHandle (thread_of m (job_thread j)) \<and>
     (job_thread j \<in> registered (g_pRootReferences m') \<longleftrightarrow> job_thread j \<in> registered (g_pRootReferences m))"

definition undisturbed :: "int \<Rightarrow> thread_job \<Rightarrow> machine \<Rightarrow> machine \<Rightarrow> bool" where
  "undisturbed t j m m' \<longleftrightarrow> thread_kept t j m m' \<and>
     frames (thread_of m' (job_thread j)) = frames (thread_of m (job_thread j))"

definition code_keeps :: "int \<Rightarrow> thread_job \<Rightarrow> machine \<Rightarrow> machine \<Rightarrow> addr \<Rightarrow> bool" where
  "code_keeps t j m m' ex \<longleftrightarrow> thread_kept t j m m' \<and>
     (\<exists>fs. frames (thread_of m' (job_thread j)) = fs @ frames (thread_of m (job_thread j)) \<and>
        (\<forall>f \<in> set fs. frame_addr f \<noteq> bottom_frame_addr (job_thread j)) \<and> (ex = NULL \<longrightarrow> fs = []))"

text \<open>The pieces of the two threads; \<open>handle\<close> is the native handle of the new thread.\<close>

inductive own_step ::
  "environment \<Rightarrow> runtime_type \<Rightarrow> user_code \<Rightarrow> thread_job \<Rightarrow> thread_run \<Rightarrow> thread_run \<Rightarrow> bool"
  for env threadType user j where
  begin_step: "start_at r = Starting \<Longrightarrow> start_begin (run_machine r) (job_thread j) (job_parameter j) = Inr m \<Longrightarrow>
    own_step env threadType user j r (r\<lparr>run_machine := m, start_at := Registered\<rparr>)"
| create_step: "start_at r = Registered \<Longrightarrow> 0 < handle \<Longrightarrow>
    own_step env threadType user j r (r\<lparr>start_at := Created handle, entry_at := Entered\<rparr>)"
| finish_step: "start_at r = Created handle \<Longrightarrow> start_finish (run_machine r) (job_thread j) handle = Inr m \<Longrightarrow>
    own_step env threadType user j r (r\<lparr>run_machine := m, start_at := Started handle\<rparr>)"
| attach_step: "entry_at r = Entered \<Longrightarrow>
    entry_attach (run_machine r) (job_thread j) (job_type j) (with_parameter j) (env_thread env) = Inr m \<Longrightarrow>
    own_step env threadType user j r (r\<lparr>run_machine := m, entry_at := Attached\<rparr>)"
| link_step: "entry_at r = Attached \<Longrightarrow> handle_known (run_machine r) (job_thread j) \<Longrightarrow>
    entry_link env threadType (run_machine r) (job_thread j) = Some (Inr m) \<Longrightarrow>
    own_step env threadType user j r (r\<lparr>run_machine := m, entry_at := Linked\<rparr>)"
| return_step: "entry_at r = Linked \<Longrightarrow>
    entry_invoke user (run_machine r) (job_thread j) (with_parameter j) = Some (Inr (m, NULL, cs)) \<Longrightarrow>
    code_keeps (env_thread env) j (run_machine r) m NULL \<Longrightarrow>
    own_step env threadType user j r (r\<lparr>run_machine := m, entry_at := Returned NULL, run_calls := cs\<rparr>)"
| catch_step: "entry_at r = Linked \<Longrightarrow> ex \<noteq> NULL \<Longrightarrow>
    entry_invoke user (run_machine r) (job_thread j) (with_parameter j) = Some (Inr (m, ex, cs)) \<Longrightarrow>
    code_keeps (env_thread env) j (run_machine r) m ex \<Longrightarrow>
    System_Threading_Thread_InternalExceptionFilter ex = Inr n \<Longrightarrow> n = 1 \<Longrightarrow>
    entry_catch m (job_thread j) ex = Inr m' \<Longrightarrow>
    own_step env threadType user j r (r\<lparr>run_machine := m', entry_at := Returned ex, run_calls := cs\<rparr>)"
| report_step: "entry_at r = Returned ex \<Longrightarrow> ex \<noteq> NULL \<Longrightarrow>
    il2c_invoke_unhandled_exception (delegates_in (run_machine r)) (run_domain r) ex = Inr hs \<Longrightarrow>
    undisturbed (env_thread env) j (run_machine r) m \<Longrightarrow>
    own_step env threadType user j r (r\<lparr>run_machine := m, entry_at := Returned NULL, run_reports := hs\<rparr>)"
| leave_step: "entry_at r = Returned NULL \<Longrightarrow> env_collect env (run_machine r) = Some (Inr m) \<Longrightarrow>
    undisturbed (env_thread env) j (run_machine r) m \<Longrightarrow>
    entry_leave env (run_machine r) (job_thread j) = Some (Inr m') \<Longrightarrow>
    own_step env threadType user j r (r\<lparr>run_machine := m', entry_at := Left\<rparr>)"

text \<open>A run: these pieces, and everything the other threads do in between.\<close>

inductive thread_step ::
  "environment \<Rightarrow> runtime_type \<Rightarrow> user_code \<Rightarrow> thread_job \<Rightarrow> thread_run \<Rightarrow> thread_run \<Rightarrow> bool"
  for env threadType user j where
  own: "own_step env threadType user j r r' \<Longrightarrow> thread_step env threadType user j r r'"
| other: "undisturbed (env_thread env) j (run_machine r) m \<Longrightarrow>
    thread_step env threadType user j r (r\<lparr>run_machine := m, run_domain := d\<rparr>)"

definition fresh_run :: "int \<Rightarrow> thread_job \<Rightarrow> thread_run \<Rightarrow> bool" where
  "fresh_run t j r \<longleftrightarrow> start_at r = Starting \<and> entry_at r = Absent \<and> run_calls r = [] \<and> run_reports r = [] \<and>
     thread_sound t j (run_machine r) \<and> rawHandle (thread_of (run_machine r) (job_thread j)) = -1 \<and>
     parameter (thread_of (run_machine r) (job_thread j)) = NULL \<and> frames (thread_of (run_machine r) (job_thread j)) = [] \<and>
     job_thread j \<notin> registered (g_pRootReferences (run_machine r))"

section \<open>The pieces\<close>

lemma invoke_delegate_calls:
  assumes "index + n \<le> length tbl" and "invoke_delegate user tbl index n obj m = Some (Inr (m', ex, cs))"
  shows "\<exists>k \<le> n. cs = calls_of (take k (drop index tbl)) \<and> (ex = NULL \<longrightarrow> k = n) \<and> (ex \<noteq> NULL \<longrightarrow> 1 \<le> k)"
  using assms
proof (induction n arbitrary: index m cs)
  case 0
  then show ?case by (simp add: calls_of_def)
next
  case (Suc n)
  define c where "c = call_of (tbl ! index)"
  have drop: "drop index tbl = tbl ! index # drop (Suc index) tbl" using Suc.prems(1) by (simp add: Cons_nth_drop_Suc)
  have first: "calls_of [] = []" "calls_of (tbl ! index # xs) = c # calls_of xs" for xs
    by (simp_all add: calls_of_def c_def call_of_def)
  have run: "invoke_delegate user tbl index (Suc n) obj m = (case user c obj m of None \<Rightarrow> None
      | Some (m, ex) \<Rightarrow> if ex \<noteq> NULL then Some (Inr (m, ex, [c]))
          else map_option (map_sum id (\<lambda>(m, ex, cs). (m, ex, c # cs))) (invoke_delegate user tbl (Suc index) n obj m))"
    using Suc.prems(1) unfolding c_def by simp
  note result = Suc.prems(2) [unfolded run]
  from result obtain m1 ex1 where call: "user c obj m = Some (m1, ex1)"
    by (cases "user c obj m") auto
  show ?case
  proof (cases "ex1 = NULL")
    case True
    then have "map_option (map_sum id (\<lambda>(m, ex, cs). (m, ex, c # cs))) (invoke_delegate user tbl (Suc index) n obj m1) =
        Some (Inr (m', ex, cs))"
      using result call by simp
    then obtain cs' where "invoke_delegate user tbl (Suc index) n obj m1 = Some (Inr (m', ex, cs'))" "cs = c # cs'"
      by (cases "invoke_delegate user tbl (Suc index) n obj m1") (auto simp: map_sum_def split: sum.splits)
    with Suc.IH [of "Suc index" m1 cs'] Suc.prems(1) obtain k where
      "k \<le> n" "cs = c # calls_of (take k (drop (Suc index) tbl))" "ex = NULL \<longrightarrow> k = n" by auto
    then show ?thesis by (intro exI [of _ "Suc k"]) (simp add: drop first)
  next
    case False
    then have "cs = [c]" "ex = ex1" using result call by auto
    then show ?thesis using False by (intro exI [of _ 1]) (simp add: drop first)
  qed
qed

definition with_thread :: "machine \<Rightarrow> addr \<Rightarrow> thread_body \<Rightarrow> root_references list \<Rightarrow> machine" where
  "with_thread m p th roots = m\<lparr>bodies := (bodies m)(p := ThreadBody th), g_pRootReferences := roots\<rparr>"

lemma isinst_with_thread: "il2c_isinst (with_thread m p th roots) s ty = il2c_isinst m s ty"
  by (simp add: il2c_isinst_def il2c_adjusted_reference_def get_header_def with_thread_def)

lemma sound_with_thread:
  assumes "thread_sound t j m" and "start th = job_start j" and "lock_balanced t (lockForCollect th)" and "roots_ok roots"
  shows "thread_sound t j (with_thread m (job_thread j) th roots)"
proof -
  have "job_start j \<noteq> job_thread j" using assms(1) by (auto simp: thread_sound_def)
  then show ?thesis
    using assms by (simp add: thread_sound_def isinst_with_thread) (simp add: with_thread_def has_vptr0_def bottom_frame_clear_def)
qed

lemma thread_of_with_thread [simp]: "thread_of (with_thread m p th roots) p = th"
  "g_pRootReferences (with_thread m p th roots) = roots"
  by (simp_all add: thread_of_def with_thread_def)

lemma sound_thread:
  assumes "thread_sound t j m"
  shows "bodies m (job_thread j) = ThreadBody (thread_of m (job_thread j))" "job_thread j \<noteq> NULL"
    "start (thread_of m (job_thread j)) = job_start j" "job_start j \<noteq> NULL"
    "lock_balanced t (lockForCollect (thread_of m (job_thread j)))" "roots_ok (g_pRootReferences m)"
    "vptrs m (job_thread j) = Some System_Threading_Thread_VTABLE"
  using assms by (auto simp: thread_sound_def thread_of_def has_vptr0_def)

lemma update_with_thread:
  assumes "thread_sound t j m" and "f (thread_of m (job_thread j)) = Inr th"
  shows "update_thread m (job_thread j) f = Inr (with_thread m (job_thread j) th (g_pRootReferences m))"
  using assms sound_thread(1) [OF assms(1)] by (simp add: update_thread_def with_thread_def)

lemma thread_root_operations:
  assumes "thread_sound t j m"
  shows "il2c_register_root_reference m (job_thread j) False =
      Inr (with_thread m (job_thread j) (thread_of m (job_thread j)) (register_in (job_thread j) (g_pRootReferences m)))"
    and "il2c_unregister_root_reference m (job_thread j) False =
      Inr (with_thread m (job_thread j) (thread_of m (job_thread j)) (unregister_in (job_thread j) (g_pRootReferences m)))"
  using sound_thread [OF assms]
  by (auto simp: il2c_register_root_reference_def il2c_unregister_root_reference_def il2c_adjusted_reference_def
      get_roots_def set_roots_def with_thread_def System_Threading_Thread_VTABLE_def fun_upd_idem)

lemma start_begin_result:
  assumes "thread_sound t j m" and "rawHandle (thread_of m (job_thread j)) = -1"
  shows "start_begin m (job_thread j) param = Inr (with_thread m (job_thread j)
    (case param of None \<Rightarrow> thread_of m (job_thread j) | Some obj \<Rightarrow> (thread_of m (job_thread j))\<lparr>parameter := obj\<rparr>)
    (register_in (job_thread j) (g_pRootReferences m)))"
  using sound_thread [OF assms(1)] assms(2)
  by (cases param) (auto simp: start_begin_def thread_root_operations(1) [OF assms(1)] update_thread_def with_thread_def)

lemma start_finish_result:
  assumes "thread_sound t j m" and "0 \<le> handle"
  shows "start_finish m (job_thread j) handle =
    Inr (with_thread m (job_thread j) ((thread_of m (job_thread j))\<lparr>rawHandle := handle\<rparr>) (g_pRootReferences m))"
  using assms(2) by (simp add: start_finish_def update_with_thread [OF assms(1)])

lemma entry_attach_result:
  assumes "thread_sound t j m" and "withParameter \<or> parameter (thread_of m (job_thread j)) = NULL"
  shows "entry_attach m (job_thread j) (job_type j) withParameter tid =
    Inr (with_thread m (job_thread j) ((thread_of m (job_thread j))\<lparr>thread_id := tid\<rparr>) (g_pRootReferences m))"
  using assms sound_thread [OF assms(1)]
  by (simp add: entry_attach_def update_with_thread [OF assms(1)] thread_sound_def)

lemma entry_link_result:
  assumes "thread_sound (env_thread env) j m"
  shows "entry_link env threadType m (job_thread j) = Some (Inr (with_thread m (job_thread j)
    ((thread_of m (job_thread j))\<lparr>frames := bottom_frame (job_thread j) NULL # frames (thread_of m (job_thread j))\<rparr>) (g_pRootReferences m)))"
proof -
  note th = sound_thread [OF assms]
  obtain l where l: "il2c_enter_monitor_lock (env_thread env) (lockForCollect (thread_of m (job_thread j))) = Inr l"
      "il2c_exit_monitor_lock (env_thread env) l = Inr (lockForCollect (thread_of m (job_thread j)))"
    using th(5) by (rule balanced_enter_exit)
  have "cells m (bottom_frame_addr (job_thread j) + 16) = NULL"
    using assms by (simp add: thread_sound_def bottom_frame_clear_def)
  then show ?thesis
    using th l by (simp add: entry_link_def il2c_link_execution_frame_def il2c_acquire_thread_context_def context_lock_def
        push_frame_def update_thread_def with_thread_def bottom_frame_def bottom_frame_addr_def)
qed

lemma entry_catch_result:
  assumes "thread_sound t j m" and "ex \<noteq> NULL"
    and "frames (thread_of m (job_thread j)) = fs @ [bottom_frame (job_thread j) e]"
    and "\<forall>f \<in> set fs. frame_addr f \<noteq> bottom_frame_addr (job_thread j)"
  shows "entry_catch m (job_thread j) ex = Inr (with_thread m (job_thread j)
    ((thread_of m (job_thread j))\<lparr>frames := [bottom_frame (job_thread j) ex]\<rparr>) (g_pRootReferences m))"
proof -
  have "dropWhile (\<lambda>f. frame_addr f \<noteq> bottom_frame_addr (job_thread j)) (frames (thread_of m (job_thread j))) =
      [bottom_frame (job_thread j) e]"
    using assms(3,4) by (simp add: dropWhile_append bottom_frame_def)
  then show ?thesis using assms(2) by (simp add: entry_catch_def update_with_thread [OF assms(1)] bottom_frame_def)
qed

lemma entry_leave_result:
  assumes "thread_sound (env_thread env) j m1" and "env_collect env m = Some (Inr m1)"
    and "frames (thread_of m1 (job_thread j)) = bottom_frame (job_thread j) e # fs"
  shows "entry_leave env m (job_thread j) = Some (Inr (with_thread m1 (job_thread j)
    ((thread_of m1 (job_thread j))\<lparr>pTemporaryReferenceAnchor := NULL, frames := fs\<rparr>)
    (unregister_in (job_thread j) (g_pRootReferences m1))))"
proof -
  note th = sound_thread [OF assms(1)]
  obtain l where l: "il2c_enter_monitor_lock (env_thread env) (lockForCollect (thread_of m1 (job_thread j))) = Inr l"
      "il2c_exit_monitor_lock (env_thread env) l = Inr (lockForCollect (thread_of m1 (job_thread j)))"
    using th(5) by (rule balanced_enter_exit)
  have unlink: "il2c_unlink_execution_frame env m (job_thread j) (bottom_frame_addr (job_thread j)) NULL =
      Some (Inr (with_thread m1 (job_thread j)
        ((thread_of m1 (job_thread j))\<lparr>pTemporaryReferenceAnchor := NULL, frames := fs\<rparr>) (g_pRootReferences m1), NULL))"
    using th l assms(2,3)
    by (simp add: il2c_unlink_execution_frame_def context_lock_def pop_frame_def set_anchor_def update_thread_def with_thread_def
        bottom_frame_def bottom_frame_addr_def)
  have "thread_sound (env_thread env) j (with_thread m1 (job_thread j)
      ((thread_of m1 (job_thread j))\<lparr>pTemporaryReferenceAnchor := NULL, frames := fs\<rparr>) (g_pRootReferences m1))"
    using sound_with_thread [OF assms(1)] th by simp
  from thread_root_operations(2) [OF this] show ?thesis
    by (simp add: entry_leave_def unlink) (simp add: with_thread_def)
qed

text \<open>\<open>Start\<close> when the new thread does not run meanwhile; then the thread can be joined.\<close>

lemma start_then_join:
  assumes "thread_sound t j m" and "rawHandle (thread_of m (job_thread j)) = -1" and "0 < handle"
  shows "System_Threading_Thread_Start m (job_thread j) handle =
      Inr (with_thread m (job_thread j) ((thread_of m (job_thread j))\<lparr>rawHandle := handle\<rparr>) (register_in (job_thread j) (g_pRootReferences m)))"
    and "System_Threading_Thread_Start_Object m (job_thread j) obj handle =
      Inr (with_thread m (job_thread j) ((thread_of m (job_thread j))\<lparr>parameter := obj, rawHandle := handle\<rparr>) (register_in (job_thread j) (g_pRootReferences m)))"
    and "System_Threading_Thread_Start m (job_thread j) handle = Inr m' \<Longrightarrow> System_Threading_Thread_Join m' (job_thread j) = Inr handle"
proof -
  note th = sound_thread [OF assms(1)]
  have sound: "thread_sound t j (with_thread m (job_thread j) th' (register_in (job_thread j) (g_pRootReferences m)))"
    if "start th' = job_start j" "lockForCollect th' = lockForCollect (thread_of m (job_thread j))" for th'
    using sound_with_thread [OF assms(1)] that th roots_ok_register_in by simp
  show 1: "System_Threading_Thread_Start m (job_thread j) handle =
      Inr (with_thread m (job_thread j) ((thread_of m (job_thread j))\<lparr>rawHandle := handle\<rparr>) (register_in (job_thread j) (g_pRootReferences m)))"
    using start_begin_result [OF assms(1,2), of None] start_finish_result [OF sound, of "thread_of m (job_thread j)" handle] th assms(3)
    by (simp add: System_Threading_Thread_Start_def) (simp add: with_thread_def)
  show "System_Threading_Thread_Start_Object m (job_thread j) obj handle =
      Inr (with_thread m (job_thread j) ((thread_of m (job_thread j))\<lparr>parameter := obj, rawHandle := handle\<rparr>) (register_in (job_thread j) (g_pRootReferences m)))"
    using start_begin_result [OF assms(1,2), of "Some obj"]
      start_finish_result [OF sound, of "(thread_of m (job_thread j))\<lparr>parameter := obj\<rparr>" handle] th assms(3)
    by (simp add: System_Threading_Thread_Start_Object_def) (simp add: with_thread_def)
  show "System_Threading_Thread_Start m (job_thread j) handle = Inr m' \<Longrightarrow> System_Threading_Thread_Join m' (job_thread j) = Inr handle"
    using 1 th assms(3) by (auto simp: System_Threading_Thread_Join_def with_thread_def)
qed

text \<open>The frame of the entry point catches whatever leaves the delegate, in its catch block 1.\<close>

lemma bottom_frame_catches_all:
  assumes "eframes s p = Some f" "pUnwindTarget s = p" "p \<noteq> NULL" "ef_ex f = NULL" "ef_pFrame f \<noteq> NULL"
    and "\<forall>ex. ex \<noteq> NULL \<longrightarrow> (\<exists>flt. ef_filter f = Some flt \<and> System_Threading_Thread_InternalExceptionFilter ex = Inr (flt ex))"
    and "ex \<noteq> NULL"
  shows "\<exists>s'. il2c_throw s ex = Some (Inr (s', LongJmp p 1)) \<and> pFrame s' = ef_pFrame f"
proof -
  obtain flt where "ef_filter f = Some flt" "flt ex = 1"
    using assms(6,7) by (auto simp: System_Threading_Thread_InternalExceptionFilter_def)
  then show ?thesis
    using assms(1-5,7) throw_scan.simps [of "eframes s" ex p NULL]
    by (simp add: il2c_throw_def il2c_throw_internal_def il2c_do_throw_def IL2C_FILTER_FINALLY_def IL2C_FILTER_NOMATCH_def)
qed

section \<open>The invariant of a run\<close>

definition run_inv :: "int \<Rightarrow> thread_job \<Rightarrow> thread_run \<Rightarrow> bool" where
  "run_inv t j r \<longleftrightarrow> thread_sound t j (run_machine r) \<and>
     rawHandle (thread_of (run_machine r) (job_thread j)) = (case start_at r of Started h \<Rightarrow> h | _ \<Rightarrow> -1) \<and>
     (case start_at r of Created h \<Rightarrow> 0 < h | Started h \<Rightarrow> 0 < h | _ \<Rightarrow> True) \<and>
     (entry_at r = Absent \<longleftrightarrow> start_at r \<in> {Starting, Registered}) \<and>
     (entry_at r \<notin> {Absent, Entered, Attached} \<longrightarrow> (\<exists>h. start_at r = Started h)) \<and>
     (job_thread j \<in> registered (g_pRootReferences (run_machine r)) \<longleftrightarrow> start_at r \<noteq> Starting \<and> entry_at r \<noteq> Left) \<and>
     parameter (thread_of (run_machine r) (job_thread j)) =
       (case job_parameter j of None \<Rightarrow> NULL | Some obj \<Rightarrow> if start_at r = Starting then NULL else obj) \<and>
     (case entry_at r of
        Linked \<Rightarrow> frames (thread_of (run_machine r) (job_thread j)) = [bottom_frame (job_thread j) NULL] \<and> run_calls r = []
      | Returned ex \<Rightarrow>
          (\<exists>e. frames (thread_of (run_machine r) (job_thread j)) = [bottom_frame (job_thread j) e] \<and> (ex \<noteq> NULL \<longrightarrow> e = ex) \<and>
            (e = NULL \<longrightarrow> run_calls r = calls_of (methodtbl (job_table j)))) \<and>
          (\<exists>k \<ge> 1. run_calls r = take k (calls_of (methodtbl (job_table j))))
      | Left \<Rightarrow> frames (thread_of (run_machine r) (job_thread j)) = [] \<and>
          (\<exists>k \<ge> 1. run_calls r = take k (calls_of (methodtbl (job_table j))))
      | _ \<Rightarrow> frames (thread_of (run_machine r) (job_thread j)) = [] \<and> run_calls r = [])"

lemma fresh_run_inv: "fresh_run t j r \<Longrightarrow> run_inv t j r"
  by (auto simp: fresh_run_def run_inv_def split: option.splits)

lemma undisturbed_inv:
  assumes "run_inv t j r" and "undisturbed t j (run_machine r) m"
  shows "run_inv t j (r\<lparr>run_machine := m, run_domain := d\<rparr>)"
  using assms by (cases "entry_at r"; cases "job_parameter j") (simp_all add: run_inv_def undisturbed_def thread_kept_def)

lemma invoke_calls:
  assumes "thread_sound t j m" and "entry_invoke user m (job_thread j) w = Some (Inr (m', ex, cs))"
  shows "\<exists>k \<ge> 1. cs = take k (calls_of (methodtbl (job_table j)))"
    and "ex = NULL \<Longrightarrow> cs = calls_of (methodtbl (job_table j))"
proof -
  have job: "delegates_in m (job_start j) = Some (job_table j)" "delegate_ok (job_table j)"
      "has_vptr0 m (job_start j) System_Delegate_VTABLE"
    using assms(1) by (simp_all add: thread_sound_def delegates_in_def)
  then have "checked_delegate (delegates_in m) (job_start j) = Inr (job_table j)"
    by (simp add: checked_delegate_def get_delegate_def delegate_ok_def)
  then obtain obj where
    "invoke_delegate user (methodtbl (job_table j)) 0 (delegate.count (job_table j)) obj m = Some (Inr (m', ex, cs))"
    using assms(2) sound_thread [OF assms(1)] job(3)
    by (auto simp: entry_invoke_def System_Threading_ThreadStart_Invoke_def System_Threading_ParameterizedThreadStart_Invoke_def
        split: if_splits)
  from invoke_delegate_calls [OF _ this] job(2) obtain k where
    k: "k \<le> length (methodtbl (job_table j))" "cs = calls_of (take k (methodtbl (job_table j)))"
      "ex = NULL \<longrightarrow> k = length (methodtbl (job_table j))" "ex \<noteq> NULL \<longrightarrow> 1 \<le> k" "1 \<le> length (methodtbl (job_table j))"
    by (auto simp: delegate_ok_def)
  then show "\<exists>k \<ge> 1. cs = take k (calls_of (methodtbl (job_table j)))"
    by (intro exI [of _ k]) (auto simp: calls_of_def take_map)
  show "ex = NULL \<Longrightarrow> cs = calls_of (methodtbl (job_table j))" using k by simp
qed

lemma own_step_inv:
  assumes "own_step env threadType user j r r'" and "run_inv (env_thread env) j r"
  shows "run_inv (env_thread env) j r'"
  using assms
proof (cases rule: own_step.cases)
  case (begin_step m)
  let ?m = "run_machine r"
  have s: "thread_sound (env_thread env) j ?m" "rawHandle (thread_of ?m (job_thread j)) = -1"
    using assms(2) begin_step by (simp_all add: run_inv_def)
  note th = sound_thread [OF s(1)]
  define th' where "th' = (case job_parameter j of None \<Rightarrow> thread_of ?m (job_thread j)
    | Some obj \<Rightarrow> (thread_of ?m (job_thread j))\<lparr>parameter := obj\<rparr>)"
  have m: "m = with_thread ?m (job_thread j) th' (register_in (job_thread j) (g_pRootReferences ?m))"
    using start_begin_result [OF s, of "job_parameter j"] begin_step by (simp add: th'_def)
  have f: "start th' = job_start j" "lockForCollect th' = lockForCollect (thread_of ?m (job_thread j))"
    "frames th' = frames (thread_of ?m (job_thread j))" "rawHandle th' = rawHandle (thread_of ?m (job_thread j))"
    "parameter th' = (case job_parameter j of None \<Rightarrow> parameter (thread_of ?m (job_thread j)) | Some obj \<Rightarrow> obj)"
    using th by (simp_all add: th'_def split: option.split)
  then have "thread_sound (env_thread env) j m"
    using sound_with_thread [OF s(1)] th roots_ok_register_in by (simp add: m)
  then show ?thesis
    using assms(2) begin_step f th registered_register_in by (cases "job_parameter j") (auto simp: run_inv_def m split: entry_pc.split)
next
  case (create_step handle)
  then show ?thesis using assms(2) by (cases "job_parameter j") (auto simp: run_inv_def)
next
  case (finish_step handle m)
  have s: "thread_sound (env_thread env) j (run_machine r)" "0 \<le> handle"
    using assms(2) finish_step by (simp_all add: run_inv_def)
  have "thread_sound (env_thread env) j m"
    using start_finish_result [OF s] finish_step sound_with_thread [OF s(1)] sound_thread [OF s(1)] by auto
  then show ?thesis
    using assms(2) finish_step start_finish_result [OF s] 
    by (cases "job_parameter j") (auto simp: run_inv_def split: entry_pc.split_asm entry_pc.split)
next
  case (attach_step m)
  have s: "thread_sound (env_thread env) j (run_machine r)"
      "with_parameter j \<or> parameter (thread_of (run_machine r) (job_thread j)) = NULL"
    using assms(2) attach_step by (cases "job_parameter j", auto simp: run_inv_def)+
  note result = entry_attach_result [OF s, of "env_thread env"]
  have "thread_sound (env_thread env) j m"
    using result attach_step sound_with_thread [OF s(1)] sound_thread [OF s(1)] by auto
  then show ?thesis
    using assms(2) attach_step result by (cases "job_parameter j") (auto simp: run_inv_def split: start_pc.split)
next
  case (link_step m)
  have s: "thread_sound (env_thread env) j (run_machine r)" using assms(2) by (simp add: run_inv_def)
  note result = entry_link_result [OF s, of threadType]
  have "thread_sound (env_thread env) j m"
    using result link_step sound_with_thread [OF s] sound_thread [OF s] by auto
  moreover have "\<exists>h. start_at r = Started h"
    using assms(2) link_step sound_thread(1) [OF s] by (cases "start_at r") (auto simp: run_inv_def handle_known_def)
  ultimately show ?thesis
    using assms(2) link_step result by (cases "job_parameter j") (auto simp: run_inv_def)
next
  case (return_step m cs)
  have s: "thread_sound (env_thread env) j (run_machine r)" using assms(2) by (simp add: run_inv_def)
  then show ?thesis
    using assms(2) return_step invoke_calls [OF s] by (cases "job_parameter j") (auto simp: run_inv_def code_keeps_def thread_kept_def)
next
  case (catch_step ex m cs n m')
  have s: "thread_sound (env_thread env) j (run_machine r)" using assms(2) by (simp add: run_inv_def)
  have kept: "thread_kept (env_thread env) j (run_machine r) m" and s': "thread_sound (env_thread env) j m"
    using catch_step by (simp_all add: code_keeps_def thread_kept_def)
  obtain fs where fs: "frames (thread_of m (job_thread j)) = fs @ [bottom_frame (job_thread j) NULL]"
      "\<forall>f \<in> set fs. frame_addr f \<noteq> bottom_frame_addr (job_thread j)"
    using assms(2) catch_step by (auto simp: run_inv_def code_keeps_def)
  have result: "m' = with_thread m (job_thread j) ((thread_of m (job_thread j))\<lparr>frames := [bottom_frame (job_thread j) ex]\<rparr>)
      (g_pRootReferences m)"
    using entry_catch_result [OF s' _ fs] catch_step by simp
  have "thread_sound (env_thread env) j m'"
    using result sound_with_thread [OF s'] sound_thread [OF s'] by simp
  then show ?thesis
    using assms(2) catch_step result kept invoke_calls [OF s]
    by (cases "job_parameter j") (auto simp: run_inv_def thread_kept_def)
next
  case (report_step ex hs m)
  then show ?thesis using assms(2) by (cases "job_parameter j") (auto simp: run_inv_def undisturbed_def thread_kept_def)
next
  case (leave_step m m')
  have kept: "thread_kept (env_thread env) j (run_machine r) m" and s: "thread_sound (env_thread env) j m"
    using leave_step by (simp_all add: undisturbed_def thread_kept_def)
  obtain e where e: "frames (thread_of m (job_thread j)) = [bottom_frame (job_thread j) e]"
    using assms(2) leave_step by (auto simp: run_inv_def undisturbed_def)
  note th = sound_thread [OF s]
  have result: "m' = with_thread m (job_thread j) ((thread_of m (job_thread j))\<lparr>pTemporaryReferenceAnchor := NULL, frames := []\<rparr>)
      (unregister_in (job_thread j) (g_pRootReferences m))"
    using entry_leave_result [OF s] leave_step e by simp
  have "thread_sound (env_thread env) j m'"
    using result sound_with_thread [OF s] th roots_ok_unregister_in by simp
  then show ?thesis
    using assms(2) leave_step result kept th registered_unregister_in [OF th(6,2)]
    by (cases "job_parameter j") (auto simp: run_inv_def thread_kept_def)
qed

lemma run_reachable:
  assumes "(thread_step env threadType user j)\<^sup>*\<^sup>* r r'" and "run_inv (env_thread env) j r"
  shows "run_inv (env_thread env) j r'"
  using assms(1)
proof (induction rule: rtranclp_induct)
  case base
  show ?case by (rule assms(2))
next
  case (step r1 r2)
  from step(2) show ?case
  proof (cases rule: thread_step.cases)
    case own
    then show ?thesis using own_step_inv step(3) by blast
  next
    case (other m d)
    then show ?thesis using undisturbed_inv [OF step(3)] by simp
  qed
qed

section \<open>Progress\<close>

text \<open>How far the two threads are.\<close>

definition progress :: "thread_run \<Rightarrow> nat" where
  "progress r = (case start_at r of Starting \<Rightarrow> 0 | Registered \<Rightarrow> 1 | Created h \<Rightarrow> 2 | Started h \<Rightarrow> 3) +
     (case entry_at r of Absent \<Rightarrow> 0 | Entered \<Rightarrow> 1 | Attached \<Rightarrow> 2 | Linked \<Rightarrow> 3
      | Returned ex \<Rightarrow> if ex \<noteq> NULL then 4 else 5 | Left \<Rightarrow> 6)"

definition run_over :: "thread_run \<Rightarrow> bool" where
  "run_over r \<longleftrightarrow> (\<exists>h. start_at r = Started h) \<and> entry_at r = Left"

lemma own_step_progress:
  assumes "own_step env threadType user j r r'" and "run_inv t j r"
  shows "progress r < progress r'"
  using assms by (cases rule: own_step.cases) (auto simp: progress_def run_inv_def)

text \<open>
  What the run needs of its surroundings in the state it is in: the delegate's code returns
  or throws, the domain's handler is a delegate, and the collection at the end returns.
\<close>

definition surroundings_ready :: "environment \<Rightarrow> user_code \<Rightarrow> thread_job \<Rightarrow> thread_run \<Rightarrow> bool" where
  "surroundings_ready env user j r \<longleftrightarrow>
     (case entry_at r of
        Linked \<Rightarrow> \<exists>m ex cs. entry_invoke user (run_machine r) (job_thread j) (with_parameter j) = Some (Inr (m, ex, cs)) \<and>
          code_keeps (env_thread env) j (run_machine r) m ex
      | Returned ex \<Rightarrow>
          if ex \<noteq> NULL
          then delegates_ok (delegates_in (run_machine r)) \<and>
            is_delegate (delegates_in (run_machine r)) (unhandledExceptionEventHandler (run_domain r))
          else \<exists>m. env_collect env (run_machine r) = Some (Inr m) \<and> undisturbed (env_thread env) j (run_machine r) m
      | _ \<Rightarrow> True)"

lemma undisturbed_refl: "thread_sound t j m \<Longrightarrow> undisturbed t j m m"
  by (simp add: undisturbed_def thread_kept_def)

lemma started_enabled:
  assumes inv: "run_inv (env_thread env) j r" and "start_at r = Started h" "entry_at r \<noteq> Left"
    and near: "surroundings_ready env user j r"
  shows "\<exists>r'. own_step env threadType user j r r'"
proof -
  let ?m = "run_machine r"
  have s: "thread_sound (env_thread env) j ?m" using inv by (simp add: run_inv_def)
  show ?thesis
  proof (cases "entry_at r")
    case Entered
    have "with_parameter j \<or> parameter (thread_of ?m (job_thread j)) = NULL"
      using inv Entered by (cases "job_parameter j") (auto simp: run_inv_def)
    from entry_attach_result [OF s this] show ?thesis using attach_step [of r j env] Entered by blast
  next
    case Attached
    have "handle_known ?m (job_thread j)"
      using inv assms(2) sound_thread(1) [OF s] by (auto simp: run_inv_def handle_known_def)
    then show ?thesis using link_step [OF Attached _ entry_link_result [OF s]] by blast
  next
    case Linked
    then obtain m ex cs where
      run: "entry_invoke user ?m (job_thread j) (with_parameter j) = Some (Inr (m, ex, cs))"
        "code_keeps (env_thread env) j ?m m ex"
      using near by (auto simp: surroundings_ready_def)
    show ?thesis
    proof (cases "ex = NULL")
      case True
      then show ?thesis using return_step Linked run by blast
    next
      case False
      have "frames (thread_of ?m (job_thread j)) = [bottom_frame (job_thread j) NULL]"
        using inv Linked by (simp add: run_inv_def)
      then obtain fs where fs: "frames (thread_of m (job_thread j)) = fs @ [bottom_frame (job_thread j) NULL]"
          "\<forall>f \<in> set fs. frame_addr f \<noteq> bottom_frame_addr (job_thread j)"
        using run(2) by (auto simp: code_keeps_def)
      have "thread_sound (env_thread env) j m" using run(2) by (simp add: code_keeps_def thread_kept_def)
      from entry_catch_result [OF this False fs] obtain m' where "entry_catch m (job_thread j) ex = Inr m'" by blast
      then show ?thesis
        using catch_step [OF Linked False run, of 1 m'] False
        by (auto simp: System_Threading_Thread_InternalExceptionFilter_def)
    qed
  next
    case (Returned ex)
    show ?thesis
    proof (cases "ex = NULL")
      case True
      then obtain m where m: "env_collect env ?m = Some (Inr m)" "undisturbed (env_thread env) j ?m m"
        using near Returned by (auto simp: surroundings_ready_def)
      obtain e where "frames (thread_of ?m (job_thread j)) = [bottom_frame (job_thread j) e]"
        using inv Returned by (auto simp: run_inv_def)
      then have "frames (thread_of m (job_thread j)) = [bottom_frame (job_thread j) e]" using m(2) by (simp add: undisturbed_def)
      moreover have "thread_sound (env_thread env) j m" using m(2) by (simp add: undisturbed_def thread_kept_def)
      ultimately have "\<exists>m'. entry_leave env ?m (job_thread j) = Some (Inr m')" using entry_leave_result [OF _ m(1)] by blast
      then show ?thesis using leave_step [of r env _ j] Returned True m by blast
    next
      case False
      then have "il2c_invoke_unhandled_exception (delegates_in ?m) (run_domain r) ex =
          Inr (calls_of (invocation_list (delegates_in ?m) (unhandledExceptionEventHandler (run_domain r))))"
        using near Returned by (intro invoke_unhandled_calls) (simp_all add: surroundings_ready_def)
      then show ?thesis using report_step [OF Returned False _ undisturbed_refl [OF s]] by blast
    qed
  qed (use inv assms in \<open>auto simp: run_inv_def\<close>)
qed

lemma own_step_enabled:
  assumes inv: "run_inv (env_thread env) j r" and "\<not> run_over r" and near: "surroundings_ready env user j r"
  shows "\<exists>r'. own_step env threadType user j r r'"
proof -
  have s: "thread_sound (env_thread env) j (run_machine r)" using inv by (simp add: run_inv_def)
  show ?thesis
  proof (cases "start_at r")
    case Starting
    then have "rawHandle (thread_of (run_machine r) (job_thread j)) = -1" using inv by (simp add: run_inv_def)
    from start_begin_result [OF s this] show ?thesis using begin_step [OF Starting] by blast
  next
    case Registered
    then show ?thesis using create_step [OF Registered zero_less_one] by blast
  next
    case (Created h)
    then have "0 \<le> h" using inv by (simp add: run_inv_def)
    from start_finish_result [OF s this] show ?thesis using finish_step [OF Created] by blast
  next
    case (Started h)
    then show ?thesis using started_enabled [OF inv Started _ near] assms(2) by (auto simp: run_over_def)
  qed
qed

section \<open>A sample\<close>

text \<open>
  The sample: a thread over a static method, started while a collection is under way; its
  method returns.  The new thread attaches itself before the handle is stored.
\<close>

definition sample_start_type :: runtime_type where
  "sample_start_type = RuntimeType 6 ''System.Threading.ThreadStart'' 0x0C 0 None (Some System_Object_VTABLE)
     (Some DelegateMarkHandler) [] []"

definition sample_job :: thread_job where
  "sample_job = \<lparr>job_thread = 1000, job_start = 2000,
     job_table = \<lparr>delegate_type = 6, count = 1, methodtbl = [\<lparr>target = NULL, methodPtr = 50\<rparr>], initialized = True\<rparr>,
     job_type = sample_start_type, job_parameter = None\<rparr>"

definition sample_thread :: thread_body where
  "sample_thread = zero_thread\<lparr>start := 2000, rawHandle := -1, lockForCollect := il2c_initialize_monitor_lock\<rparr>"

definition sample_fresh :: machine where
  "sample_fresh = empty_machine\<lparr>
     headers := [1976 \<mapsto> \<lparr>pNext = NULL, htype = sample_start_type, characteristic = 0x40000000\<rparr>],
     vptrs := [1000 \<mapsto> System_Threading_Thread_VTABLE, 2000 \<mapsto> System_Delegate_VTABLE],
     bodies := (\<lambda>_. PlainBody)(1000 := ThreadBody sample_thread, 2000 := DelegateBody (job_table sample_job)),
     g_ExecutingCollection := 1\<rparr>"

definition quiet_code :: user_code where "quiet_code c obj m = Some (m, NULL)"

definition sample_state :: "thread_body \<Rightarrow> root_references list \<Rightarrow> start_pc \<Rightarrow> entry_pc \<Rightarrow> call list \<Rightarrow> thread_run" where
  "sample_state th roots sa ea cs =
     \<lparr>run_machine = with_thread sample_fresh 1000 th roots, run_domain = \<lparr>unhandledExceptionEventHandler = NULL\<rparr>,
      start_at = sa, entry_at = ea, run_calls = cs, run_reports = []\<rparr>"

abbreviation sample_step :: "thread_run \<Rightarrow> thread_run \<Rightarrow> bool" where
  "sample_step \<equiv> own_step sample_environment sample_thread_type quiet_code sample_job"

lemma with_thread_twice [simp]: "with_thread (with_thread m p th roots) p th' roots' = with_thread m p th' roots'"
  by (simp add: with_thread_def)

lemma sample_sound:
  assumes "start th = 2000" and "lockForCollect th = il2c_initialize_monitor_lock" and "roots_ok roots"
  shows "thread_sound 1 sample_job (with_thread sample_fresh 1000 th roots)"
proof -
  have "thread_sound 1 sample_job sample_fresh"
    by (simp add: thread_sound_def sample_job_def sample_fresh_def has_vptr0_def il2c_isinst_def il2c_adjusted_reference_def
        get_header_def il2c_get_header_def sizeof_REF_HEADER_def sample_start_type_def System_Object_VTABLE_def
        IL2C_TYPE_INTERFACE_def delegate_ok_def bottom_frame_clear_def empty_machine_def sample_thread_def lock_balanced_def
        il2c_initialize_monitor_lock_def roots_ok_def)
  from sound_with_thread [OF this] show ?thesis
    using assms by (simp add: sample_job_def lock_balanced_def il2c_initialize_monitor_lock_def)
qed

definition sample_roots :: "root_references list" where "sample_roots = [\<lparr>root_slots = [1000, NULL, NULL]\<rparr>]"

lemma sample_roots_ok: "roots_ok []" "roots_ok sample_roots" "register_in 1000 [] = sample_roots"
  "unregister_in 1000 sample_roots = [\<lparr>root_slots = [NULL, NULL, NULL]\<rparr>]"
  by (simp_all add: roots_ok_def sample_roots_def register_in_def append_block_def)

lemma sample_fresh_run: "fresh_run 1 sample_job (sample_state sample_thread [] Starting Absent [])"
  using sample_sound [of sample_thread "[]"]
  by (simp add: fresh_run_def sample_state_def sample_job_def sample_thread_def sample_roots_ok zero_thread_def registered_def)

definition sample_attached :: thread_run where
  "sample_attached = sample_state (sample_thread\<lparr>thread_id := 1\<rparr>) sample_roots (Created 7) Attached []"

definition sample_linked :: thread_run where
  "sample_linked = sample_state (sample_thread\<lparr>thread_id := 1, rawHandle := 7, frames := [bottom_frame 1000 NULL]\<rparr>) sample_roots
     (Started 7) Linked []"

definition sample_left :: thread_run where
  "sample_left = sample_state (sample_thread\<lparr>thread_id := 1, rawHandle := 7, pTemporaryReferenceAnchor := NULL, frames := []\<rparr>)
     [\<lparr>root_slots = [NULL, NULL, NULL]\<rparr>] (Started 7) Left [(None, 50)]"

lemma sample_job_fields [simp]: "job_thread sample_job = 1000" "job_parameter sample_job = None" "job_start sample_job = 2000"
  "env_thread sample_environment = 1"
  by (simp_all add: sample_job_def sample_environment_def)

lemma sample_attach_run: "sample_step\<^sup>*\<^sup>* (sample_state sample_thread [] Starting Absent []) sample_attached"
proof -
  let ?th = sample_thread
  have f: "start ?th = 2000" "lockForCollect ?th = il2c_initialize_monitor_lock" "rawHandle ?th = -1" "parameter ?th = NULL"
    by (simp_all add: sample_thread_def zero_thread_def)
  have s0: "thread_sound 1 sample_job (with_thread sample_fresh 1000 ?th [])" by (rule sample_sound [OF f(1,2) sample_roots_ok(1)])
  have "start_begin (with_thread sample_fresh 1000 ?th []) 1000 None = Inr (with_thread sample_fresh 1000 ?th sample_roots)"
    using start_begin_result [OF s0, of None] f(3) by (simp add: sample_roots_ok)
  then have 1: "sample_step (sample_state ?th [] Starting Absent []) (sample_state ?th sample_roots Registered Absent [])"
    using begin_step [of "sample_state ?th [] Starting Absent []" sample_job] by (simp add: sample_state_def)
  have 2: "sample_step (sample_state ?th sample_roots Registered Absent []) (sample_state ?th sample_roots (Created 7) Entered [])"
    using create_step [of "sample_state ?th sample_roots Registered Absent []" 7] by (simp add: sample_state_def)
  have s1: "thread_sound 1 sample_job (with_thread sample_fresh 1000 ?th sample_roots)"
    by (rule sample_sound [OF f(1,2) sample_roots_ok(2)])
  have "entry_attach (with_thread sample_fresh 1000 ?th sample_roots) 1000 (job_type sample_job) False 1 =
      Inr (with_thread sample_fresh 1000 (?th\<lparr>thread_id := 1\<rparr>) sample_roots)"
    using entry_attach_result [OF s1, of False 1] f(4) by simp
  then have 3: "sample_step (sample_state ?th sample_roots (Created 7) Entered []) sample_attached"
    using attach_step [of "sample_state ?th sample_roots (Created 7) Entered []" sample_job sample_environment]
    by (simp add: sample_state_def sample_attached_def)
  show ?thesis using 1 2 3 by (meson converse_rtranclp_into_rtranclp rtranclp.rtrancl_refl)
qed

lemma sample_link_run: "sample_step\<^sup>*\<^sup>* sample_attached sample_linked"
proof -
  let ?th = "sample_thread\<lparr>thread_id := 1\<rparr>"
  let ?th' = "sample_thread\<lparr>thread_id := 1, rawHandle := 7\<rparr>"
  have s0: "thread_sound 1 sample_job (with_thread sample_fresh 1000 ?th sample_roots)"
    and s1: "thread_sound 1 sample_job (with_thread sample_fresh 1000 ?th' sample_roots)"
    by (rule sample_sound; simp add: sample_thread_def sample_roots_ok)+
  have "start_finish (with_thread sample_fresh 1000 ?th sample_roots) 1000 7 =
      Inr (with_thread sample_fresh 1000 ?th' sample_roots)"
    using start_finish_result [OF s0, of 7] by simp
  then have 1: "sample_step sample_attached (sample_state ?th' sample_roots (Started 7) Attached [])"
    using finish_step [of sample_attached 7 sample_job] by (simp add: sample_state_def sample_attached_def)
  have "entry_link sample_environment sample_thread_type (with_thread sample_fresh 1000 ?th' sample_roots) 1000 =
      Some (Inr (with_thread sample_fresh 1000 (?th'\<lparr>frames := [bottom_frame 1000 NULL]\<rparr>) sample_roots))"
    using entry_link_result [of sample_environment sample_job] s1 by (simp add: sample_thread_def zero_thread_def)
  moreover have "handle_known (with_thread sample_fresh 1000 ?th' sample_roots) 1000" by (simp add: handle_known_def with_thread_def)
  ultimately have 2: "sample_step (sample_state ?th' sample_roots (Started 7) Attached []) sample_linked"
    using link_step [of "sample_state ?th' sample_roots (Started 7) Attached []" sample_job sample_environment]
    by (simp add: sample_state_def sample_linked_def)
  show ?thesis using 1 2 by (meson converse_rtranclp_into_rtranclp rtranclp.rtrancl_refl)
qed

lemma sample_linked_sound: "thread_sound 1 sample_job (run_machine sample_linked)"
  unfolding sample_linked_def sample_state_def by (simp, rule sample_sound) (simp_all add: sample_thread_def sample_roots_ok)

lemma sample_invoke:
  "entry_invoke quiet_code (run_machine sample_linked) 1000 False = Some (Inr (run_machine sample_linked, NULL, [(None, 50)]))"
  by (simp add: entry_invoke_def System_Threading_ThreadStart_Invoke_def has_vptr0_def sample_linked_def sample_state_def with_thread_def
      sample_fresh_def sample_thread_def checked_delegate_def get_delegate_def delegates_in_def sample_job_def quiet_code_def call_of_def)

lemma sample_leave_run: "sample_step\<^sup>*\<^sup>* sample_linked sample_left"
proof -
  let ?m = "run_machine sample_linked"
  have kept: "code_keeps 1 sample_job ?m ?m NULL" "undisturbed 1 sample_job ?m ?m"
    using undisturbed_refl [OF sample_linked_sound] by (simp_all add: code_keeps_def undisturbed_def)
  let ?r = "sample_linked\<lparr>entry_at := Returned NULL, run_calls := [(None, 50)]\<rparr>"
  have 1: "sample_step sample_linked ?r"
    using return_step [of sample_linked quiet_code sample_job ?m "[(None, 50)]" sample_environment sample_thread_type]
      sample_invoke kept(1) by (simp add: sample_linked_def sample_state_def)
  have idle: "env_collect sample_environment ?m = Some (Inr ?m)"
    by (simp add: env_collect_def il2c_collect_def sample_linked_def sample_state_def with_thread_def sample_fresh_def)
  have "frames (thread_of ?m 1000) = [bottom_frame 1000 NULL]" by (simp add: sample_linked_def sample_state_def)
  then have "entry_leave sample_environment ?m 1000 = Some (Inr (run_machine sample_left))"
    using entry_leave_result [of sample_environment sample_job ?m ?m NULL "[]"] sample_linked_sound idle
    by (simp add: sample_left_def sample_linked_def sample_state_def sample_roots_ok sample_thread_def)
  then have 2: "sample_step ?r sample_left"
    using leave_step [of ?r sample_environment ?m sample_job] idle kept(2)
    by (simp add: sample_linked_def sample_left_def sample_state_def)
  show ?thesis using 1 2 by (meson converse_rtranclp_into_rtranclp rtranclp.rtrancl_refl)
qed

lemma own_steps: "(own_step env threadType user j)\<^sup>*\<^sup>* r r' \<Longrightarrow> (thread_step env threadType user j)\<^sup>*\<^sup>* r r'"
  by (rule rtranclp_mono [THEN predicate2D]) (auto intro: own)

section \<open>Properties\<close>

text \<open>
  C8: a started thread is safe in every interleaving.  Whatever the other threads do in between,
  the thread object is a root exactly from \<open>Start\<close> to the end of the thread; the delegate
  runs only after the handle has been stored; the calls made are the delegate's, in order,
  up to the first that throws; and when the thread ends its frames are gone.
\<close>

theorem started_thread_is_safe:
  assumes "fresh_run (env_thread env) j r0" and "(thread_step env threadType user j)\<^sup>*\<^sup>* r0 r"
  shows "(job_thread j \<in> registered (g_pRootReferences (run_machine r)) \<longleftrightarrow> start_at r \<noteq> Starting \<and> entry_at r \<noteq> Left) \<and>
    (\<exists>k. run_calls r = take k (calls_of (methodtbl (job_table j)))) \<and>
    (run_calls r \<noteq> [] \<longrightarrow> (\<exists>h. start_at r = Started h \<and> rawHandle (thread_of (run_machine r) (job_thread j)) = h)) \<and>
    (entry_at r = Left \<longrightarrow> run_calls r \<noteq> [] \<and> frames (thread_of (run_machine r) (job_thread j)) = [])"
proof -
  have inv: "run_inv (env_thread env) j r" using run_reachable [OF assms(2) fresh_run_inv [OF assms(1)]] .
  have "calls_of (methodtbl (job_table j)) \<noteq> []"
    using inv by (auto simp: run_inv_def thread_sound_def delegate_ok_def calls_of_def)
  then have some: "1 \<le> k \<Longrightarrow> take k (calls_of (methodtbl (job_table j))) \<noteq> []" for k by simp
  have none: "\<exists>k. [] = take k (calls_of (methodtbl (job_table j)))" by (rule exI [of _ 0]) simp
  show ?thesis
    using inv some none by (cases "entry_at r") (auto simp: run_inv_def)
qed

lemma started_thread_is_safe_witness:
  "1000 \<notin> registered (g_pRootReferences (run_machine sample_left)) \<and> run_calls sample_left \<noteq> [] \<and>
   frames (thread_of (run_machine sample_left) 1000) = []"
proof -
  have "(thread_step sample_environment sample_thread_type quiet_code sample_job)\<^sup>*\<^sup>*
      (sample_state sample_thread [] Starting Absent []) sample_left"
    using sample_attach_run sample_link_run sample_leave_run by (intro own_steps) (meson rtranclp_trans)
  from started_thread_is_safe [OF _ this] sample_fresh_run show ?thesis by (simp add: sample_left_def sample_state_def)
qed

text \<open>
  C15: the start of a thread never gets stuck.  In every reachable state one of the two
  threads can go on without an error, as long as the delegate's code, the domain's handlers and the
  collector do what they promise, until the thread has ended; and each such step makes
  progress, of which there are at most nine.
\<close>

theorem started_thread_goes_on:
  assumes "fresh_run (env_thread env) j r0" and "(thread_step env threadType user j)\<^sup>*\<^sup>* r0 r"
    and "surroundings_ready env user j r"
  shows "(run_over r \<or> (\<exists>r'. own_step env threadType user j r r')) \<and>
    (\<forall>r'. own_step env threadType user j r r' \<longrightarrow> progress r < progress r' \<and> progress r' \<le> 9)"
proof -
  have inv: "run_inv (env_thread env) j r" using run_reachable [OF assms(2) fresh_run_inv [OF assms(1)]] .
  have "progress r' \<le> 9" for r' by (auto simp: progress_def split: start_pc.split entry_pc.split)
  then show ?thesis using own_step_enabled [OF inv _ assms(3)] own_step_progress [OF _ inv] by blast
qed

text \<open>Attached and waiting, the handle not yet stored: the starting thread goes on.\<close>

lemma started_thread_goes_on_witness:
  "entry_at sample_attached = Attached \<and> \<not> handle_known (run_machine sample_attached) 1000 \<and>
   (\<exists>r'. own_step sample_environment sample_thread_type quiet_code sample_job sample_attached r')"
proof -
  have "surroundings_ready sample_environment quiet_code sample_job sample_attached"
    by (simp add: surroundings_ready_def sample_attached_def sample_state_def)
  from started_thread_goes_on [OF _ own_steps [OF sample_attach_run] this] sample_fresh_run show ?thesis
    by (auto simp: sample_attached_def sample_state_def run_over_def handle_known_def with_thread_def sample_thread_def)
qed

end
