(* ===== verification/Thread_Collect.thy ===== *)
theory Thread_Collect
  imports Thread_Start
begin

text \<open>
  A collection while a thread runs (src/Core/il2c_gc.c against src/System/Threading/Thread.c).
  It takes the lock of every running thread and gives it back, so it leaves a
  started thread as the theory before expects it of everything the other threads do: the thread object is a
  root, so it is kept, and its delegate with it.
\<close>

section \<open>The locks\<close>

lemma thread_locks_exact:
  assumes "thread_locks operation m as = Inr m'" and "distinct (filter (\<lambda>a. a \<noteq> NULL) as)"
  shows "m' = m\<lparr>bodies := bodies m'\<rparr> \<and>
    (\<forall>a. a \<notin> set as \<or> a = NULL \<longrightarrow> bodies m' a = bodies m a) \<and>
    (\<forall>a \<in> set as - {NULL}. \<exists>th l. bodies m a = ThreadBody th \<and> operation (lockForCollect th) = Inr l \<and>
       bodies m' a = ThreadBody (th\<lparr>lockForCollect := l\<rparr>))"
  using assms
proof (induction as arbitrary: m)
  case Nil
  then show ?case by simp
next
  case (Cons a as)
  show ?case
  proof (cases "a = NULL")
    case True
    then show ?thesis using Cons by auto
  next
    case False
    then obtain m1 where step: "thread_lock operation m a = Inr m1" "thread_locks operation m1 as = Inr m'"
      using Cons.prems(1) by auto
    then obtain th l where th: "bodies m a = ThreadBody th" "operation (lockForCollect th) = Inr l"
        "m1 = m\<lparr>bodies := (bodies m)(a := ThreadBody (th\<lparr>lockForCollect := l\<rparr>))\<rparr>"
      by (auto simp: thread_lock_def update_thread_def split: object_body.splits)
    have new: "a \<notin> set as" "distinct (filter (\<lambda>a. a \<noteq> NULL) as)" using Cons.prems(2) False by auto
    note IH = Cons.IH [OF step(2) new(2)]
    have other: "bodies m1 x = bodies m x" if "x \<noteq> a" for x using that by (simp add: th(3))
    have "m' = m1\<lparr>bodies := bodies m'\<rparr>" using IH by blast
    also have "\<dots> = m\<lparr>bodies := bodies m'\<rparr>" by (simp add: th(3))
    finally have "m' = m\<lparr>bodies := bodies m'\<rparr>" .
    moreover have "bodies m' x = bodies m x" if "x \<notin> set (a # as) \<or> x = NULL" for x
      using IH other [of x] that False by (metis list.set_intros(1,2))
    moreover have "\<exists>th l. bodies m x = ThreadBody th \<and> operation (lockForCollect th) = Inr l \<and>
        bodies m' x = ThreadBody (th\<lparr>lockForCollect := l\<rparr>)" if x: "x \<in> set (a # as) - {NULL}" for x
    proof (cases "x = a")
      case True
      then have "bodies m' x = bodies m1 x" using IH new(1) by blast
      then show ?thesis using th True by simp
    next
      case False
      then show ?thesis using IH other [OF False] x by (metis Diff_iff set_ConsD)
    qed
    ultimately show ?thesis by blast
  qed
qed

lemma slots_distinct:
  assumes "roots_ok blks"
  shows "distinct (filter (\<lambda>a. a \<noteq> NULL) (all_slots blks))"
proof -
  define ys where "ys = filter (\<lambda>a. a \<noteq> NULL) (all_slots blks)"
  have one: "count (mset ys) x \<le> 1" for x
    using assms by (cases "x = NULL") (simp_all add: ys_def roots_ok_def)
  have zero: "count (mset ys) x = 0 \<longleftrightarrow> x \<notin> set ys" for x by (simp only: count_eq_zero_iff set_mset_mset)
  have "count (mset ys) x = (if x \<in> set ys then 1 else 0)" for x
  proof (cases "x \<in> set ys")
    case True
    then have "count (mset ys) x \<noteq> 0" using zero by blast
    then have "count (mset ys) x = 1" using one [of x] by linarith
    then show ?thesis by (simp only: True if_True)
  next
    case False
    then have "count (mset ys) x = 0" using zero by blast
    then show ?thesis by (simp only: False if_False)
  qed
  then have "distinct ys" by (simp only: distinct_count_atmost_1) simp
  then show ?thesis by (simp only: ys_def)
qed

text \<open>A lock is given back as it was taken.\<close>

lemma locks_given_back:
  assumes begin': "collect_begin t m = Inr m1" and end': "collect_end t m3 = Inr m4"
    and same: "bodies m3 a = bodies m1 a" "g_pRootReferences m3 = g_pRootReferences m" and roots: "roots_ok (g_pRootReferences m)"
    and a: "a \<in> registered (g_pRootReferences m)" "bodies m a = ThreadBody th" "lock_balanced t (lockForCollect th)"
  shows "bodies m4 a = bodies m a"
proof -
  have a': "a \<in> set (all_slots (g_pRootReferences m)) - {NULL}" using a(1) by (simp add: registered_def)
  obtain l where "thread_locks (il2c_enter_monitor_lock t) (m\<lparr>g_GlobalLockForCollect := l\<rparr>) (all_slots (g_pRootReferences m)) = Inr m1"
    using begin' by (auto simp: collect_begin_def il2c_enter_for_collect_def)
  from thread_locks_exact [OF this slots_distinct [OF roots]] a' obtain th1 l1 where
    "bodies (m\<lparr>g_GlobalLockForCollect := l\<rparr>) a = ThreadBody th1" "il2c_enter_monitor_lock t (lockForCollect th1) = Inr l1"
    "bodies m1 a = ThreadBody (th1\<lparr>lockForCollect := l1\<rparr>)" by blast
  then have l1: "il2c_enter_monitor_lock t (lockForCollect th) = Inr l1" "bodies m1 a = ThreadBody (th\<lparr>lockForCollect := l1\<rparr>)"
    using a(2) by simp_all
  obtain m5 where m5: "thread_locks (il2c_exit_monitor_lock t) m3 (all_slots (g_pRootReferences m)) = Inr m5" "bodies m4 = bodies m5"
    using end' same(2) by (auto simp: collect_end_def il2c_exit_for_collect_def)
  from thread_locks_exact [OF m5(1) slots_distinct [OF roots]] a' obtain th2 l2 where
    "bodies m3 a = ThreadBody th2" "il2c_exit_monitor_lock t (lockForCollect th2) = Inr l2"
    "bodies m5 a = ThreadBody (th2\<lparr>lockForCollect := l2\<rparr>)" by blast
  then have l2: "il2c_exit_monitor_lock t l1 = Inr l2" "bodies m5 a = ThreadBody (th\<lparr>lockForCollect := l2\<rparr>)"
    using l1(2) same(1) by auto
  obtain l' where "il2c_enter_monitor_lock t (lockForCollect th) = Inr l'" "il2c_exit_monitor_lock t l' = Inr (lockForCollect th)"
    using a(3) by (rule balanced_enter_exit)
  then have "l2 = lockForCollect th" using l1(1) l2(1) by simp
  then show ?thesis using l2(2) m5(2) a(2) by simp
qed

section \<open>The thread and its delegate\<close>

text \<open>What makes the thread object one that the collector traverses as a thread.\<close>

definition collected_as_thread :: "machine \<Rightarrow> addr \<Rightarrow> bool" where
  "collected_as_thread m p \<longleftrightarrow> \<not> const_object m p \<and> has_handler (htype (header_of m p))"

lemma thread_ref_kept:
  assumes p: "p \<in> registered (g_pRootReferences m)" "collected_as_thread m p" "bodies m p = ThreadBody th" and layout: "heap_layout m"
    and r: "r \<in> set (thread_refs m th)" "r \<noteq> NULL" and x: "x = r - adjustor_offset (the (vptrs m r))"
  shows "x \<in> objects m" and "const_object m x \<or> reaches m (root_set m) x"
proof -
  have p_obj: "p \<in> objects m" using layout p(1) by (auto simp: heap_layout_def roots_valid_def)
  have reach: "reaches m (root_set m) p"
    using p_obj p by (intro reaches_root) (simp_all add: root_set_def collected_as_thread_def)
  have ref: "r \<in> set (object_refs m p (htype (header_of m p)))"
    using p(2,3) r(1) by (simp add: object_refs_def collected_as_thread_def)
  have "refs_valid m (object_refs m p (htype (header_of m p)))"
    using layout p_obj p(2) by (simp add: heap_layout_def collected_as_thread_def)
  then show obj: "x \<in> objects m" using ref r(2) by (force simp: refs_valid_def x)
  have "x \<in> set (children m p)" using ref r(2) by (auto simp: children_def adjusted_def x)
  then show "const_object m x \<or> reaches m (root_set m) x" using reach obj by (blast intro: reaches_child)
qed

lemma start_reached:
  assumes s: "thread_sound t j m" and p: "job_thread j \<in> registered (g_pRootReferences m)" "collected_as_thread m (job_thread j)"
    and layout: "heap_layout m"
  shows "job_start j \<in> objects m" and "const_object m (job_start j) \<or> reaches m (root_set m) (job_start j)"
proof -
  note th = sound_thread [OF s]
  have vp: "vptrs m (job_start j) = Some System_Delegate_VTABLE" using s by (simp add: thread_sound_def has_vptr0_def)
  have ref: "job_start j \<in> set (thread_refs m (thread_of m (job_thread j)))"
    using th(3,4) by (simp add: thread_refs_def)
  have "job_start j = job_start j - adjustor_offset (the (vptrs m (job_start j)))" by (simp add: vp System_Object_VTABLE_def)
  note kept = thread_ref_kept [OF p th(1) layout ref th(4) this]
  show "job_start j \<in> objects m" "const_object m (job_start j) \<or> reaches m (root_set m) (job_start j)" by (fact kept)+
qed

lemma sound_after_collection:
  assumes s: "thread_sound t j m" and mem: "same_memory m m'" and same: "bodies m' (job_thread j) = bodies m (job_thread j)"
    and kept: "map_option htype (headers m' (il2c_get_header (job_start j))) = map_option htype (headers m (il2c_get_header (job_start j)))"
  shows "thread_sound t j m'"
proof -
  have "body_sim (DelegateBody (job_table j)) (bodies m' (job_start j))"
    using s mem unfolding same_memory_def thread_sound_def by metis
  then have body: "bodies m' (job_start j) = DelegateBody (job_table j)" by (cases rule: body_simE) auto
  have fields: "cells m' = cells m" "vptrs m' = vptrs m" "g_pRootReferences m' = g_pRootReferences m"
    using mem by (simp_all add: same_memory_def)
  have "il2c_isinst m' (job_start j) (job_type j) = il2c_isinst m (job_start j) (job_type j)"
  proof -
    have vp: "vptrs m (job_start j) = Some System_Delegate_VTABLE" using s by (simp add: thread_sound_def has_vptr0_def)
    show ?thesis
      using kept by (cases "headers m (il2c_get_header (job_start j))"; cases "headers m' (il2c_get_header (job_start j))")
        (simp_all add: il2c_isinst_def il2c_adjusted_reference_def fields vp get_header_def System_Object_VTABLE_def)
  qed
  then show ?thesis
    using s body same by (simp add: thread_sound_def fields has_vptr0_def bottom_frame_clear_def)
qed

text \<open>
  The current domain is static data of the runtime whose vtable pointer is null.  It has no
  place among the roots and no header: marking a frame that holds a reference to it fails.
\<close>

lemma current_domain_breaks_marking:
  assumes "domain \<noteq> NULL" and "vptrs m domain = None" and "1 \<le> g_ExecutingCollection m"
  shows "il2c_default_mark_handler_for_objref mark m domain = Inl BadAccess"
  using assms by (simp add: il2c_default_mark_handler_for_objref_def il2c_adjusted_reference_def)

section \<open>A sample\<close>

text \<open>The sample thread in a heap with its delegate, between collections.\<close>

definition sample_started :: machine where
  "sample_started = empty_machine\<lparr>
     headers := [976 \<mapsto> \<lparr>pNext = 1976, htype = sample_thread_type, characteristic = 0x40000000\<rparr>,
       1976 \<mapsto> \<lparr>pNext = NULL, htype = sample_start_type, characteristic = 0x40000000\<rparr>],
     vptrs := [1000 \<mapsto> System_Threading_Thread_VTABLE, 2000 \<mapsto> System_Delegate_VTABLE],
     bodies := (\<lambda>_. PlainBody)(1000 := ThreadBody (sample_thread\<lparr>rawHandle := 7\<rparr>), 2000 := DelegateBody (job_table sample_job)),
     g_pBeginHeader := 976, g_pRootReferences := sample_roots\<rparr>"

lemma sample_started_fields:
  "headers sample_started 976 = Some \<lparr>pNext = 1976, htype = sample_thread_type, characteristic = 0x40000000\<rparr>"
  "headers sample_started 1976 = Some \<lparr>pNext = NULL, htype = sample_start_type, characteristic = 0x40000000\<rparr>"
  "dom (headers sample_started) = {976, 1976}" "objects sample_started = {1000, 2000}"
  "vptrs sample_started 1000 = Some System_Threading_Thread_VTABLE" "vptrs sample_started 2000 = Some System_Delegate_VTABLE"
  "bodies sample_started 1000 = ThreadBody (sample_thread\<lparr>rawHandle := 7\<rparr>)" "bodies sample_started 2000 = DelegateBody (job_table sample_job)"
  "g_pBeginHeader sample_started = 976" "g_CollectionMarkIndex sample_started = 0" "g_ExecutingCollection sample_started = 0"
  "g_pRootReferences sample_started = sample_roots" "g_pBeginStaticFields sample_started = []" "g_pFixedReferences sample_started = []"
  "g_GlobalLockForCollect sample_started = \<lparr>lock_alive = True, owner = None, held = 0\<rparr>" "cells sample_started = (\<lambda>_. NULL)"
  by (auto simp: sample_started_def empty_machine_def objects_def object_of_def sizeof_REF_HEADER_def split: if_splits)

lemma sample_started_graph:
  "header_of sample_started 1000 = \<lparr>pNext = 1976, htype = sample_thread_type, characteristic = 0x40000000\<rparr>"
  "header_of sample_started 2000 = \<lparr>pNext = NULL, htype = sample_start_type, characteristic = 0x40000000\<rparr>"
  "registered sample_roots = {1000}" "registered [] = {}"
  "static_refs sample_started = []" "has_handler sample_thread_type" "has_handler sample_start_type"
  "object_refs sample_started 1000 sample_thread_type = [2000, NULL, NULL]"
  "object_refs sample_started 2000 sample_start_type = [NULL]"
  by (auto simp: header_of_def il2c_get_header_def sizeof_REF_HEADER_def sample_started_fields sample_roots_def registered_def
      static_refs_def has_handler_def sample_thread_type_def sample_start_type_def IL2C_TYPE_WITH_MARK_HANDLER_def
      object_refs_def thread_refs_def sample_thread_def zero_thread_def sample_job_def)

lemma sample_started_live: "\<not> const_object sample_started 1000" "\<not> const_object sample_started 2000"
  by (simp_all add: const_object_def sample_started_graph)

lemma sample_started_ready: "gc_ready 1 sample_started [976, 1976]"
proof -
  have "between_collections sample_started [976, 1976]"
    by (simp add: between_collections_def sample_started_fields mark_index_ok_def sample_started_live il2c_get_header_def
        sizeof_REF_HEADER_def)
  moreover have "object_ok sample_started 1000 sample_thread_type" "object_ok sample_started 2000 sample_start_type"
    by (simp_all add: object_ok_def sample_started_graph sample_started_fields has_vptr0_def sample_thread_def sample_job_def zero_thread_def)
      (simp_all add: sample_thread_type_def sample_start_type_def)
  then have "heap_layout sample_started"
    by (simp add: heap_layout_def roots_valid_def sample_started_graph sample_started_fields refs_valid_def System_Object_VTABLE_def)
  moreover have "locks_ready 1 sample_started"
    by (simp add: locks_ready_def sample_started_graph(3) sample_started_fields takeable_def thread_ready_def has_vptr0_def sample_thread_def il2c_initialize_monitor_lock_def)
  moreover have "vtables_ok sample_started [976, 1976]"
    by (simp add: vtables_ok_def sample_started_fields object_of_def sizeof_REF_HEADER_def sample_thread_type_def sample_start_type_def)
  ultimately show ?thesis by (simp add: gc_ready_def)
qed

lemma sample_started_reaches: "reaches sample_started (root_set sample_started) 1000"
  using sample_started_live by (intro reaches_root) (simp_all add: root_set_def sample_started_graph sample_started_fields)

lemma sample_started_calm: "none_due sample_started [976, 1976]" "finalizers_ready runtime_ready sample_started [976, 1976]"
proof -
  show "none_due sample_started [976, 1976]"
    using sample_started_reaches
    by (simp add: none_due_def object_of_def sizeof_REF_HEADER_def needs_finalizer_def sample_started_fields sample_start_type_def
        System_Object_VTABLE_def)
  show "finalizers_ready runtime_ready sample_started [976, 1976]"
    by (rule runtime_finalizers_ready)
      (simp add: runtime_ready_def sample_started_fields object_of_def sizeof_REF_HEADER_def sample_thread_type_def
        sample_start_type_def System_Threading_Thread_VTABLE_def System_Object_VTABLE_def System_Object_Finalize_def
        System_Threading_Thread_Finalize_code_def sample_thread_def il2c_initialize_monitor_lock_def)
qed

lemma sample_started_sound: "thread_sound 2 sample_job sample_started"
  by (simp add: thread_sound_def sample_started_fields has_vptr0_def sample_roots_ok il2c_isinst_def il2c_adjusted_reference_def
      get_header_def il2c_get_header_def sizeof_REF_HEADER_def System_Object_VTABLE_def delegate_ok_def bottom_frame_clear_def
      sample_thread_def lock_balanced_def il2c_initialize_monitor_lock_def)
     (simp add: sample_job_def sample_start_type_def IL2C_TYPE_INTERFACE_def)

section \<open>Property\<close>

text \<open>
  C16: a collection leaves a started thread alone.  From a heap ready for collections in which
  no finalizer comes due, with the thread object among the roots and the lock of its context
  free (or held by the collecting thread), \<open>il2c_collect\<close> returns, and the thread is undisturbed:
  its object and its delegate are kept, its context, frames and lock are as before.
\<close>

theorem collection_leaves_thread:
  assumes "gc_ready c m hs" and "none_due m hs"
    and "finalizer finalize ready once" and "finalizers_ready ready m hs" and "stores_nothing finalize"
    and "\<forall>p \<in> set hs. releasable m p (characteristic (the (headers m p)))" and "card (objects m) \<le> stack"
    and "thread_sound t j m" and "job_thread j \<in> registered (g_pRootReferences m)" and "collected_as_thread m (job_thread j)"
    and "lock_balanced c (lockForCollect (thread_of m (job_thread j)))"
  shows "\<exists>m'. il2c_collect c stack finalize m = Some (Inr m') \<and> undisturbed t j m m' \<and>
    job_thread j \<in> objects m' \<and> job_start j \<in> objects m' \<and> bodies m' (job_thread j) = bodies m (job_thread j)"
proof -
  from collect_run [OF assms(1-7)] obtain m1 m3 m' where
    run: "il2c_collect c stack finalize m = Some (Inr m')" "collected m m' {a. reaches m (root_set m) a}"
      "collect_begin c (m\<lparr>g_ExecutingCollection := 1\<rparr>) = Inr m1" "collect_end c m3 = Inr m'" "bodies m3 = bodies m1"
      "g_pRootReferences m3 = g_pRootReferences m" by blast
  note th = sound_thread [OF assms(8)]
  have layout: "heap_layout m" using assms(1) by (simp add: gc_ready_def)
  have same: "bodies m' (job_thread j) = bodies m (job_thread j)"
    using locks_given_back [OF run(3,4), of "job_thread j" "thread_of m (job_thread j)"] run(5,6) th(1,6) assms(9,11) by simp
  have mem: "same_memory m m'" using run(2) by (simp add: collected_def)
  note obj = collected_graph(1) [OF run(2) refl]
  have p: "job_thread j \<in> objects m'"
    using layout assms(9,10) reaches_root [of "job_thread j" "root_set m" m]
    by (auto simp: obj heap_layout_def roots_valid_def root_set_def collected_as_thread_def)
  note start = start_reached [OF assms(8-10) layout]
  have s: "job_start j \<in> objects m'" using start by (auto simp: obj)
  obtain q where q: "job_start j = object_of q" using start(1) by (auto simp: objects_def)
  have "map_option htype (headers m' q) = map_option htype (headers m q)"
    using run(2) start(2) by (auto simp: collected_def q)
  then have "thread_sound t j m'" using sound_after_collection [OF assms(8) mem same] by (simp add: q)
  then have "undisturbed t j m m'"
    using same mem by (simp add: undisturbed_def thread_kept_def thread_of_def same_memory_def)
  then show ?thesis using run(1) p s same by blast
qed

text \<open>Thread 1 collects while thread 2 starts.\<close>

lemma collection_leaves_thread_witness:
  "\<exists>m'. il2c_collect 1 2 (runtime_finalize 1) sample_started = Some (Inr m') \<and> undisturbed 2 sample_job sample_started m' \<and>
     {1000, 2000} \<subseteq> objects m'"
proof -
  have "lock_balanced 1 (lockForCollect (thread_of sample_started 1000))"
    by (simp add: thread_of_def sample_started_fields sample_thread_def lock_balanced_def il2c_initialize_monitor_lock_def)
  moreover have "collected_as_thread sample_started 1000"
    by (simp add: collected_as_thread_def sample_started_live sample_started_graph)
  ultimately show ?thesis
    using collection_leaves_thread [of 1 sample_started "[976, 1976]" "runtime_finalize 1" runtime_ready True 2 2 sample_job]
      sample_started_ready sample_started_calm sample_started_sound runtime.finalizer_axioms [of 1] runtime_stores_nothing [of 1]
    by (auto simp: sample_started_graph(3) sample_started_fields(1,2,4,12) releasable_def)
qed

end
