(* ===== verification/Exception_Frames.thy ===== *)
theory Exception_Frames
  imports Thread_Collect
begin

text \<open>
  Exceptions and execution frames (src/Core/il2c_exception.c with src/Core/il2c_allocator.c).
  A thread has two linked lists: the execution frames that the collector traverses, and the
  exception frames of its try blocks, each with the execution frame that was current when the
  try block was entered.  A throw cuts both lists.  The lemmas show that together they
  behave as one stack of methods and try blocks, and what a collection keeps of it.
\<close>

section \<open>Operations\<close>

text \<open>The frames that a pointer to an execution frame designates.\<close>

definition top_frame :: "tracking_information list \<Rightarrow> addr" where
  "top_frame fs = (case fs of [] \<Rightarrow> NULL | f # _ \<Rightarrow> frame_addr f)"

definition frames_at :: "addr \<Rightarrow> tracking_information list \<Rightarrow> tracking_information list result" where
  "frames_at a fs =
     (if a = NULL then Inr []
      else (case dropWhile (\<lambda>f. frame_addr f \<noteq> a) fs of [] \<Rightarrow> Inl BadAccess | f # fs \<Rightarrow> Inr (f # fs)))"

text \<open>
  Both lists belong to the thread context \<open>ctx\<close>: the machine has the execution frames, and
  the unwind state the exception frames and the pointer \<open>pFrame\<close>.
\<close>

definition enter_method :: "addr \<Rightarrow> tracking_information \<Rightarrow> machine \<times> unwind_state \<Rightarrow> (machine \<times> unwind_state) result" where
  "enter_method ctx f = (\<lambda>(m, s). bind_result (push_frame m ctx f) (\<lambda>m. Inr (m, s\<lparr>pFrame := frame_addr f\<rparr>)))"

definition leave_method :: "addr \<Rightarrow> addr \<Rightarrow> machine \<times> unwind_state \<Rightarrow> (machine \<times> unwind_state) result" where
  "leave_method ctx a = (\<lambda>(m, s). bind_result (pop_frame m ctx a) (\<lambda>m.
     Inr (m, s\<lparr>pFrame := top_frame (frames (thread_of m ctx))\<rparr>)))"

definition restore_frame ::
  "addr \<Rightarrow> machine \<Rightarrow> (unwind_state \<times> transfer) result option \<Rightarrow> ((machine \<times> unwind_state) \<times> transfer) result option" where
  "restore_frame ctx m thrown =
     map_option (\<lambda>r. bind_result r (\<lambda>(s, t).
       bind_result (update_thread m ctx (\<lambda>th.
           bind_result (frames_at (pFrame s) (frames th)) (\<lambda>fs. Inr (th\<lparr>frames := fs\<rparr>))))
         (\<lambda>m. Inr ((m, s), t)))) thrown"

text \<open>What compiled code does with the two lists.\<close>

datatype unwinding =
    Call tracking_information
  | Return addr
  | TryBegin addr "addr \<Rightarrow> int"
  | TryEnd addr
  | Throw addr
  | Rethrow

definition unwinding_step ::
  "addr \<Rightarrow> unwinding \<Rightarrow> machine \<times> unwind_state \<Rightarrow> ((machine \<times> unwind_state) \<times> transfer option) result option" where
  "unwinding_step ctx opn = (\<lambda>(m, s). case opn of
       Call f \<Rightarrow> Some (bind_result (enter_method ctx f (m, s)) (\<lambda>ms. Inr (ms, None)))
     | Return a \<Rightarrow> Some (bind_result (leave_method ctx a (m, s)) (\<lambda>ms. Inr (ms, None)))
     | TryBegin p flt \<Rightarrow> Some (bind_result (il2c_link_unwind_target s p (Some flt)) (\<lambda>s. Inr ((m, s), None)))
     | TryEnd p \<Rightarrow> Some (bind_result (il2c_unlink_unwind_target s p) (\<lambda>s. Inr ((m, s), None)))
     | Throw ex \<Rightarrow> map_option (map_sum id (map_prod id Some)) (restore_frame ctx m (il2c_throw s ex))
     | Rethrow \<Rightarrow> map_option (map_sum id (map_prod id Some)) (restore_frame ctx m (il2c_rethrow s)))"

fun unwinding_run ::
  "addr \<Rightarrow> unwinding list \<Rightarrow> machine \<times> unwind_state \<Rightarrow> ((machine \<times> unwind_state) \<times> transfer option list) result option" where
  "unwinding_run ctx [] ms = Some (Inr (ms, []))"
| "unwinding_run ctx (opn # opns) ms =
     and_then (unwinding_step ctx opn ms) (\<lambda>(ms, t).
     map_option (\<lambda>r. bind_result r (\<lambda>(ms, ts). Inr (ms, t # ts))) (unwinding_run ctx opns ms))"

section \<open>One stack\<close>

text \<open>
  The reference: the methods and the try blocks entered and not left, the latest first.  A
  try block has its frame's address, its filter and the exception it handles.
\<close>

datatype entry = Method tracking_information | Try addr "addr \<Rightarrow> int" addr

fun methods :: "entry list \<Rightarrow> tracking_information list" where
  "methods [] = []"
| "methods (Method f # st) = f # methods st"
| "methods (Try p flt h # st) = methods st"

fun tries :: "entry list \<Rightarrow> addr list" where
  "tries [] = []"
| "tries (Method f # st) = tries st"
| "tries (Try p flt h # st) = p # tries st"

text \<open>The first try block that takes the exception: what lies above it is gone.\<close>

fun search_stack :: "addr \<Rightarrow> entry list \<Rightarrow> (entry list \<times> transfer) option" where
  "search_stack ex [] = None"
| "search_stack ex (Method f # st) = search_stack ex st"
| "search_stack ex (Try p flt h # st) =
     (if flt ex = 0 then search_stack ex st else Some (Try p flt ex # st, LongJmp p (flt ex)))"

fun throw_stack :: "addr \<Rightarrow> entry list \<Rightarrow> (entry list \<times> transfer) option" where
  "throw_stack ex [] = None"
| "throw_stack ex (Method f # st) = throw_stack ex st"
| "throw_stack ex (Try p flt h # st) = search_stack ex (if h \<noteq> NULL then st else Try p flt h # st)"

fun handled :: "entry list \<Rightarrow> addr" where
  "handled [] = NULL"
| "handled (Method f # st) = handled st"
| "handled (Try p flt h # st) = (if h \<noteq> NULL then h else handled st)"

fun rethrow_stack :: "entry list \<Rightarrow> (entry list \<times> transfer) option" where
  "rethrow_stack [] = None"
| "rethrow_stack (Method f # st) = rethrow_stack st"
| "rethrow_stack (Try p flt h # st) =
     (if h \<noteq> NULL then search_stack h st
      else if handled st \<noteq> NULL then search_stack (handled st) (Try p flt h # st) else None)"

text \<open>\<open>None\<close>: not what compiled code does here, or the exception is not handled.\<close>

definition stack_step :: "unwinding \<Rightarrow> entry list \<Rightarrow> (entry list \<times> transfer option) option" where
  "stack_step opn st = (case opn of
       Call f \<Rightarrow> if frame_addr f = NULL \<or> frame_addr f \<in> frame_addr ` set (methods st) then None
                else Some (Method f # st, None)
     | Return a \<Rightarrow> (case st of Method f # st' \<Rightarrow> if frame_addr f = a then Some (st', None) else None | _ \<Rightarrow> None)
     | TryBegin p flt \<Rightarrow> if p = NULL \<or> p \<in> set (tries st) \<or> methods st = [] then None
                else Some (Try p flt NULL # st, None)
     | TryEnd p \<Rightarrow> (case st of Try q flt h # st' \<Rightarrow> if p = q then Some (st', None) else None | _ \<Rightarrow> None)
     | Throw ex \<Rightarrow> if ex = NULL then None else map_option (map_prod id Some) (throw_stack ex st)
     | Rethrow \<Rightarrow> map_option (map_prod id Some) (rethrow_stack st))"

fun stack_run :: "unwinding list \<Rightarrow> entry list \<Rightarrow> (entry list \<times> transfer option list) option" where
  "stack_run [] st = Some (st, [])"
| "stack_run (opn # opns) st =
     Option.bind (stack_step opn st) (\<lambda>(st, t). map_option (\<lambda>(st, ts). (st, t # ts)) (stack_run opns st))"

text \<open>The two lists hold the stack.\<close>

definition top_try :: "entry list \<Rightarrow> addr" where
  "top_try st = (case tries st of [] \<Rightarrow> NULL | p # _ \<Rightarrow> p)"

fun entries_ok :: "(addr \<rightharpoonup> exception_frame) \<Rightarrow> entry list \<Rightarrow> bool" where
  "entries_ok F [] \<longleftrightarrow> True"
| "entries_ok F (Method f # st) \<longleftrightarrow> frame_addr f \<noteq> NULL \<and> frame_addr f \<notin> frame_addr ` set (methods st) \<and> entries_ok F st"
| "entries_ok F (Try p flt h # st) \<longleftrightarrow> p \<noteq> NULL \<and> p \<notin> set (tries st) \<and> methods st \<noteq> [] \<and>
     F p = Some \<lparr>ef_pNext = top_try st, ef_pFrame = top_frame (methods st), ef_ex = h, ef_filter = Some flt\<rparr> \<and>
     entries_ok F st"

definition holds_stack :: "addr \<Rightarrow> machine \<times> unwind_state \<Rightarrow> entry list \<Rightarrow> bool" where
  "holds_stack ctx = (\<lambda>(m, s) st. (\<exists>th. bodies m ctx = ThreadBody th \<and> frames th = methods st) \<and>
     pFrame s = top_frame (methods st) \<and> pUnwindTarget s = top_try st \<and> entries_ok (eframes s) st)"

section \<open>The lists cut\<close>

lemma entries_ok_cong: "(\<And>p. p \<in> set (tries st) \<Longrightarrow> F p = G p) \<Longrightarrow> entries_ok F st = entries_ok G st"
  by (induction F st rule: entries_ok.induct) auto

lemma methods_distinct: "entries_ok F st \<Longrightarrow> distinct (map frame_addr (methods st)) \<and> NULL \<notin> frame_addr ` set (methods st)"
  by (induction F st rule: entries_ok.induct) auto

lemma top_frame_linked: "entries_ok F st \<Longrightarrow> methods st \<noteq> [] \<Longrightarrow> top_frame (methods st) \<noteq> NULL"
  using methods_distinct [of F st] by (cases "methods st") (auto simp: top_frame_def)

text \<open>The try blocks are a chain of exception frames.\<close>

lemma entries_chain: "entries_ok F st \<Longrightarrow> chain F (top_try st) (tries st)"
proof (induction F st rule: entries_ok.induct)
  case (1 F)
  then show ?case by (simp add: top_try_def)
next
  case (2 F f st)
  then show ?case by (simp add: top_try_def)
next
  case (3 F p flt h st)
  then show ?case using top_frame_linked [of F st] by (simp add: top_try_def Exception_Unwind.frame_ok_def)
qed

lemma entries_suffix: "entries_ok F (st @ st') \<Longrightarrow> entries_ok F st'"
  by (induction F st rule: entries_ok.induct) auto

lemma methods_append: "methods (st @ st') = methods st @ methods st'"
  by (induction st rule: methods.induct) auto

lemma frames_cut:
  assumes "entries_ok F (st @ st')"
  shows "frames_at (top_frame (methods st')) (methods (st @ st')) = Inr (methods st')"
proof (cases "methods st'")
  case Nil
  then show ?thesis by (simp add: frames_at_def top_frame_def)
next
  case (Cons f fs)
  have *: "distinct (map frame_addr (methods st @ f # fs))" "frame_addr f \<noteq> NULL"
    using methods_distinct [OF assms] unfolding methods_append Cons by auto
  then have other: "frame_addr g \<noteq> frame_addr f" if "g \<in> set (methods st)" for g
    using image_eqI [OF refl that, of frame_addr] by (auto simp only: map_append distinct_append set_map list.map list.set)
  have "dropWhile (\<lambda>g. frame_addr g \<noteq> frame_addr f) (methods st @ f # fs) =
      dropWhile (\<lambda>g. frame_addr g \<noteq> frame_addr f) (f # fs)"
    by (rule dropWhile_append2) (rule other)
  then show ?thesis using *(2) unfolding frames_at_def top_frame_def methods_append Cons by simp
qed

definition taken_by :: "addr \<Rightarrow> entry list \<Rightarrow> entry list \<Rightarrow> transfer \<Rightarrow> entry list \<Rightarrow> addr \<Rightarrow> (addr \<Rightarrow> int) \<Rightarrow> addr \<Rightarrow> entry list \<Rightarrow> bool" where
  "taken_by ex st st' t inner p flt h rest \<longleftrightarrow> st = inner @ Try p flt h # rest \<and> st' = Try p flt ex # rest \<and>
     t = LongJmp p (flt ex) \<and> flt ex \<noteq> 0 \<and> (\<forall>F. entries_ok F st \<longrightarrow> first_taker F ex (tries st) = Some (p, flt ex))"

lemma search_stack_Some:
  "search_stack ex st = Some (st', t) \<Longrightarrow> \<exists>inner p flt h rest. taken_by ex st st' t inner p flt h rest"
proof (induction ex st rule: search_stack.induct)
  case (1 ex)
  then show ?case by simp
next
  case (2 ex f st)
  then obtain inner p flt h rest where "taken_by ex st st' t inner p flt h rest" by auto
  then have "taken_by ex (Method f # st) st' t (Method f # inner) p flt h rest"
    unfolding taken_by_def by fastforce
  then show ?case by blast
next
  case (3 ex q g k st)
  show ?case
  proof (cases "g ex = 0")
    case True
    with 3 obtain inner p flt h rest where "taken_by ex st st' t inner p flt h rest" by auto
    then have "taken_by ex (Try q g k # st) st' t (Try q g k # inner) p flt h rest"
      using True unfolding taken_by_def by (fastforce simp: first_taker_Cons filter_number_def)
    then show ?thesis by blast
  next
    case False
    then have "taken_by ex (Try q g k # st) st' t [] q g k st"
      using 3(2) by (auto simp: taken_by_def first_taker_Cons filter_number_def)
    then show ?thesis by blast
  qed
qed

text \<open>A throw that the search answers cuts both lists at the same place.\<close>

lemma throw_cuts:
  assumes ok: "entries_ok (eframes s) (inner @ st)" and th: "bodies m ctx = ThreadBody th" "frames th = methods (inner @ st)"
    and ex: "ex \<noteq> NULL" and found: "search_stack ex st = Some (st', t)"
  shows "\<exists>m' s'. restore_frame ctx m (il2c_throw_internal s ex (top_try st)) = Some (Inr ((m', s'), t)) \<and>
    holds_stack ctx (m', s') st'"
proof -
  from found obtain upper p flt h rest where st: "st = upper @ Try p flt h # rest" "st' = Try p flt ex # rest"
    "t = LongJmp p (flt ex)" "flt ex \<noteq> 0" "\<And>F. entries_ok F st \<Longrightarrow> first_taker F ex (tries st) = Some (p, flt ex)"
    using search_stack_Some unfolding taken_by_def by metis
  note ok_st = entries_suffix [OF ok]
  have ok_p: "entries_ok (eframes s) (Try p flt h # rest)" using entries_suffix ok_st unfolding st(1) .
  then have f: "p \<noteq> NULL" "p \<notin> set (tries rest)" "methods rest \<noteq> []"
    "eframes s p = Some \<lparr>ef_pNext = top_try rest, ef_pFrame = top_frame (methods rest), ef_ex = h, ef_filter = Some flt\<rparr>"
    by simp_all
  define s' where "s' = s\<lparr>eframes := (eframes s)(p \<mapsto> \<lparr>ef_pNext = top_try rest, ef_pFrame = top_frame (methods rest),
      ef_ex = ex, ef_filter = Some flt\<rparr>), pUnwindTarget := p, pFrame := top_frame (methods rest)\<rparr>"
  have jump: "il2c_throw_internal s ex (top_try st) = Some (Inr (s', LongJmp p (flt ex)))"
    using throw_internal_spec [OF entries_chain [OF ok_st] ex] st(5) [OF ok_st] f ex
    by (simp add: il2c_do_throw_def s'_def)
  have "entries_ok (eframes s) ((inner @ upper @ [Try p flt h]) @ rest)" using ok by (simp add: st(1))
  from frames_cut [OF this] have cut: "frames_at (top_frame (methods rest)) (methods (inner @ st)) = Inr (methods rest)"
    by (simp add: st(1))
  have "entries_ok (eframes s') rest = entries_ok (eframes s) rest"
    using f(2) by (intro entries_ok_cong) (auto simp: s'_def)
  then have ok': "entries_ok (eframes s') st'" using ok_p f by (simp add: st(2) s'_def)
  let ?m = "m\<lparr>bodies := (bodies m)(ctx := ThreadBody (th\<lparr>frames := methods rest\<rparr>))\<rparr>"
  have "restore_frame ctx m (il2c_throw_internal s ex (top_try st)) = Some (Inr ((?m, s'), t))"
    unfolding jump st(3) using cut th by (simp add: restore_frame_def update_thread_def) (simp add: s'_def)
  moreover have "holds_stack ctx (?m, s') st'"
    using ok' by (simp add: holds_stack_def st(2) top_try_def) (simp add: s'_def)
  ultimately show ?thesis by blast
qed

section \<open>Every operation on the stack\<close>

lemma stack_top:
  "tries st \<noteq> [] \<Longrightarrow> \<exists>inner p flt h rest. st = inner @ Try p flt h # rest \<and> tries st = p # tries rest \<and>
     throw_stack ex st = throw_stack ex (Try p flt h # rest) \<and> rethrow_stack st = rethrow_stack (Try p flt h # rest)"
proof (induction st rule: tries.induct)
  case 1
  then show ?case by simp
next
  case (2 f st)
  then obtain inner p flt h rest where "st = inner @ Try p flt h # rest" "tries st = p # tries rest"
    "throw_stack ex st = throw_stack ex (Try p flt h # rest)" "rethrow_stack st = rethrow_stack (Try p flt h # rest)"
    by auto
  then show ?case
    by (intro exI [of _ "Method f # inner"] exI [of _ p] exI [of _ flt] exI [of _ h] exI [of _ rest])
      (simp del: throw_stack.simps(3) rethrow_stack.simps(3))
next
  case (3 p flt h st)
  show ?case
    by (intro exI [of _ "[]"] exI [of _ p] exI [of _ flt] exI [of _ h] exI [of _ st])
      (simp del: throw_stack.simps(3) rethrow_stack.simps(3))
qed

lemma no_tries: "tries st = [] \<Longrightarrow> throw_stack ex st = None \<and> rethrow_stack st = None"
  by (induction st rule: tries.induct) auto

text \<open>The innermost try block, and where the code starts its search.\<close>

lemma stack_top_frame:
  assumes held: "holds_stack ctx (m, s) st" and some: "throw_stack ex st \<noteq> None \<or> rethrow_stack st \<noteq> None"
  obtains inner p flt h rest th where "st = inner @ Try p flt h # rest"
    "throw_stack ex st = throw_stack ex (Try p flt h # rest)" "rethrow_stack st = rethrow_stack (Try p flt h # rest)"
    "pUnwindTarget s = p" "p \<noteq> NULL" "entries_ok (eframes s) st" "entries_ok (eframes s) rest"
    "eframes s p = Some \<lparr>ef_pNext = top_try rest, ef_pFrame = top_frame (methods rest), ef_ex = h, ef_filter = Some flt\<rparr>"
    "bodies m ctx = ThreadBody th" "frames th = methods st"
proof -
  have "tries st \<noteq> []" using some no_tries [of st ex] by auto
  from stack_top [OF this, of ex] obtain inner p flt h rest where st: "st = inner @ Try p flt h # rest" "tries st = p # tries rest"
    "throw_stack ex st = throw_stack ex (Try p flt h # rest)" "rethrow_stack st = rethrow_stack (Try p flt h # rest)"
    by blast
  obtain th where th: "bodies m ctx = ThreadBody th" "frames th = methods st" using held by (auto simp: holds_stack_def)
  have ok: "entries_ok (eframes s) st" using held by (simp add: holds_stack_def)
  then have "entries_ok (eframes s) (Try p flt h # rest)" unfolding st(1) by (rule entries_suffix)
  then have f: "p \<noteq> NULL" "entries_ok (eframes s) rest"
    "eframes s p = Some \<lparr>ef_pNext = top_try rest, ef_pFrame = top_frame (methods rest), ef_ex = h, ef_filter = Some flt\<rparr>"
    by simp_all
  have "pUnwindTarget s = p" using held st(2) by (simp add: holds_stack_def top_try_def)
  from that [OF st(1,3,4) this f(1) ok f(2,3) th] show thesis .
qed

lemma throw_step:
  assumes held: "holds_stack ctx (m, s) st" and ex: "ex \<noteq> NULL" and found: "throw_stack ex st = Some (st', t)"
  shows "\<exists>m' s'. restore_frame ctx m (il2c_throw s ex) = Some (Inr ((m', s'), t)) \<and> holds_stack ctx (m', s') st'"
proof -
  from found have "throw_stack ex st \<noteq> None \<or> rethrow_stack st \<noteq> None" by simp
  then obtain inner p flt h rest th where top: "st = inner @ Try p flt h # rest"
    "throw_stack ex st = throw_stack ex (Try p flt h # rest)" "pUnwindTarget s = p" "p \<noteq> NULL" "entries_ok (eframes s) st"
    "eframes s p = Some \<lparr>ef_pNext = top_try rest, ef_pFrame = top_frame (methods rest), ef_ex = h, ef_filter = Some flt\<rparr>"
    "bodies m ctx = ThreadBody th" "frames th = methods st"
    by (rule stack_top_frame [OF held]) blast
  show ?thesis
  proof (cases "h = NULL")
    case True
    then have "search_stack ex (Try p flt h # rest) = Some (st', t)" using found top(2) by simp
    from throw_cuts [OF _ top(7) _ ex this, of s inner] top True
    show ?thesis using ex by (simp add: il2c_throw_def top_try_def)
  next
    case False
    then have "search_stack ex rest = Some (st', t)" using found top(2) by simp
    from throw_cuts [OF _ top(7) _ ex this, of s "inner @ [Try p flt h]"] top False
    show ?thesis using ex by (simp add: il2c_throw_def)
  qed
qed

lemma caught_scan_handled:
  "entries_ok F st \<Longrightarrow> caught_scan F (top_try st) = Some (Inr (if handled st \<noteq> NULL then Some (handled st) else None))"
proof (induction F st rule: entries_ok.induct)
  case (1 F)
  then show ?case by (simp add: top_try_def caught_scan.simps)
next
  case (2 F f st)
  then show ?case by (simp add: top_try_def)
next
  case (3 F p flt h st)
  then have "top_try (Try p flt h # st) = p" by (simp add: top_try_def)
  with 3 show ?case by (subst caught_scan.simps) simp
qed

lemma rethrow_step:
  assumes held: "holds_stack ctx (m, s) st" and found: "rethrow_stack st = Some (st', t)"
  shows "\<exists>m' s'. restore_frame ctx m (il2c_rethrow s) = Some (Inr ((m', s'), t)) \<and> holds_stack ctx (m', s') st'"
proof -
  from found have "throw_stack NULL st \<noteq> None \<or> rethrow_stack st \<noteq> None" by simp
  then obtain inner p flt h rest th where top: "st = inner @ Try p flt h # rest"
    "rethrow_stack st = rethrow_stack (Try p flt h # rest)" "pUnwindTarget s = p" "p \<noteq> NULL" "entries_ok (eframes s) st"
    "entries_ok (eframes s) rest"
    "eframes s p = Some \<lparr>ef_pNext = top_try rest, ef_pFrame = top_frame (methods rest), ef_ex = h, ef_filter = Some flt\<rparr>"
    "bodies m ctx = ThreadBody th" "frames th = methods st"
    by (rule stack_top_frame [OF held]) blast
  show ?thesis
  proof (cases "h = NULL")
    case True
    then have h: "handled rest \<noteq> NULL" "search_stack (handled rest) (Try p flt h # rest) = Some (st', t)"
      using found top(2) by (auto split: if_splits)
    from throw_cuts [OF _ top(8) _ h(1) h(2), of s inner] top True caught_scan_handled [OF top(6)] h(1)
    show ?thesis by (simp add: il2c_rethrow_def top_try_def)
  next
    case False
    then have "search_stack h rest = Some (st', t)" using found top(2) by simp
    from throw_cuts [OF _ top(8) _ False this, of "s\<lparr>pUnwindTarget := top_try rest\<rparr>" "inner @ [Try p flt h]"] top False
    show ?thesis by (simp add: il2c_rethrow_def)
  qed
qed

lemma step_simulates:
  assumes held: "holds_stack ctx (m, s) st" and spec: "stack_step opn st = Some (st', t)"
  shows "\<exists>m' s'. unwinding_step ctx opn (m, s) = Some (Inr ((m', s'), t)) \<and> holds_stack ctx (m', s') st'"
proof -
  obtain th where th: "bodies m ctx = ThreadBody th" "frames th = methods st" and ptr: "pFrame s = top_frame (methods st)"
      "pUnwindTarget s = top_try st" and ok: "entries_ok (eframes s) st"
    using held by (auto simp: holds_stack_def)
  show ?thesis
  proof (cases opn)
    case (Call f)
    then show ?thesis using spec th ptr ok
      by (auto simp: stack_step_def unwinding_step_def enter_method_def push_frame_def update_thread_def holds_stack_def
          top_frame_def top_try_def split: if_splits)
  next
    case (Return a)
    then obtain f where st: "st = Method f # st'" "frame_addr f = a" "t = None"
      using spec by (auto simp: stack_step_def split: list.splits entry.splits if_splits)
    then show ?thesis using Return th ptr ok
      by (simp add: unwinding_step_def leave_method_def pop_frame_def update_thread_def holds_stack_def thread_of_def top_try_def)
  next
    case (TryBegin p flt)
    then have new: "p \<noteq> NULL" "p \<notin> set (tries st)" "methods st \<noteq> []" "st' = Try p flt NULL # st" "t = None"
      using spec by (auto simp: stack_step_def split: if_splits)
    have "entries_ok ((eframes s)(p \<mapsto> x)) st" for x
      using ok entries_ok_cong [of st "(eframes s)(p \<mapsto> x)" "eframes s"] new(2) by (metis fun_upd_other)
    then show ?thesis using TryBegin th ptr new
      by (simp add: unwinding_step_def il2c_link_unwind_target_def holds_stack_def top_try_def)
  next
    case (TryEnd p)
    then obtain flt h where st: "st = Try p flt h # st'" "t = None"
      using spec by (auto simp: stack_step_def split: list.splits entry.splits if_splits)
    then show ?thesis using TryEnd th ptr ok
      by (simp add: unwinding_step_def il2c_unlink_unwind_target_def holds_stack_def top_try_def)
  next
    case (Throw ex)
    then obtain u where u: "ex \<noteq> NULL" "throw_stack ex st = Some (st', u)" "t = Some u"
      using spec by (auto simp: stack_step_def split: if_splits)
    from throw_step [OF held u(1,2)] obtain m' s' where
      r: "restore_frame ctx m (il2c_throw s ex) = Some (Inr ((m', s'), u))" "holds_stack ctx (m', s') st'" by blast
    have "unwinding_step ctx (Throw ex) (m, s) = Some (Inr ((m', s'), Some u))"
      unfolding unwinding_step_def by (simp add: r(1))
    then show ?thesis using Throw r(2) u(3) by blast
  next
    case Rethrow
    then obtain u where u: "rethrow_stack st = Some (st', u)" "t = Some u"
      using spec by (auto simp: stack_step_def)
    from rethrow_step [OF held u(1)] obtain m' s' where
      r: "restore_frame ctx m (il2c_rethrow s) = Some (Inr ((m', s'), u))" "holds_stack ctx (m', s') st'" by blast
    have "unwinding_step ctx Rethrow (m, s) = Some (Inr ((m', s'), Some u))"
      unfolding unwinding_step_def by (simp add: r(1))
    then show ?thesis using Rethrow r(2) u(2) by blast
  qed
qed

section \<open>Properties\<close>

text \<open>
  C6: The two lists are one stack.  Take a thread whose execution frames and exception frames
  hold a stack of methods and try blocks.  Whatever sequence of calls, returns, try blocks,
  throws and rethrows the stack allows with every exception handled, the code runs it without
  an error: each throw and rethrow goes to the first try block of the stack that takes the
  exception, with its catch number, everything above that try block is gone from both lists,
  and what lies below is as it was when the try block was entered.
\<close>

theorem unwinding_is_a_stack:
  assumes "holds_stack ctx (m, s) st" and "stack_run opns st = Some (st', ts)"
  shows "\<exists>m' s'. unwinding_run ctx opns (m, s) = Some (Inr ((m', s'), ts)) \<and> holds_stack ctx (m', s') st'"
  using assms
proof (induction opns arbitrary: m s st ts)
  case Nil
  then show ?case by simp
next
  case (Cons opn opns)
  then obtain st1 t ts' where spec: "stack_step opn st = Some (st1, t)" "stack_run opns st1 = Some (st', ts')" "ts = t # ts'"
    by (auto simp: bind_eq_Some_conv)
  obtain m1 s1 where step: "unwinding_step ctx opn (m, s) = Some (Inr ((m1, s1), t))" "holds_stack ctx (m1, s1) st1"
    using step_simulates [OF Cons.prems(1) spec(1)] by blast
  obtain m' s' where "unwinding_run ctx opns (m1, s1) = Some (Inr ((m', s'), ts'))" "holds_stack ctx (m', s') st'"
    using Cons.IH [OF step(2) spec(2)] by blast
  then show ?case using step(1) spec(3) by (auto simp: and_then_def)
qed

text \<open>Two finally blocks and a catch block: a method with three try blocks calls one that throws.\<close>

definition sample_method :: tracking_information where
  "sample_method = \<lparr>frame_addr = 600, pReferences = [2000], valueDescriptors = []\<rparr>"

definition sample_callee :: tracking_information where
  "sample_callee = \<lparr>frame_addr = 700, pReferences = [3000], valueDescriptors = []\<rparr>"

definition sample_tries :: "entry list" where
  "sample_tries = [Try 60 (\<lambda>_. -1) NULL, Try 50 (\<lambda>_. 0) NULL, Try 40 (\<lambda>_. 2) NULL, Method sample_method]"

definition sample_unwinding :: "entry list \<Rightarrow> unwind_state" where
  "sample_unwinding st = sample_unwind\<lparr>eframes := [
       60 \<mapsto> \<lparr>ef_pNext = 50, ef_pFrame = 600, ef_ex = handled (take 1 st), ef_filter = Some (\<lambda>_. -1)\<rparr>,
       50 \<mapsto> \<lparr>ef_pNext = 40, ef_pFrame = 600, ef_ex = NULL, ef_filter = Some (\<lambda>_. 0)\<rparr>,
       40 \<mapsto> \<lparr>ef_pNext = NULL, ef_pFrame = 600, ef_ex = NULL, ef_filter = Some (\<lambda>_. 2)\<rparr>],
     pUnwindTarget := 60, pFrame := 600\<rparr>"

text \<open>The thread 1000 runs the method; 2000 and 3000 are plain objects.\<close>

definition sample_raised :: machine where
  "sample_raised = empty_machine\<lparr>
     headers := [976 \<mapsto> \<lparr>pNext = 1976, htype = sample_thread_type, characteristic = 0x40000000\<rparr>,
       1976 \<mapsto> \<lparr>pNext = 2976, htype = sample_base, characteristic = 0x40000000\<rparr>,
       2976 \<mapsto> \<lparr>pNext = NULL, htype = sample_base, characteristic = 0x40000000\<rparr>],
     vptrs := [1000 \<mapsto> System_Threading_Thread_VTABLE, 2000 \<mapsto> System_Object_VTABLE, 3000 \<mapsto> System_Object_VTABLE],
     bodies := (\<lambda>_. PlainBody)(1000 := ThreadBody (sample_thread\<lparr>start := NULL, rawHandle := 7, frames := [sample_method]\<rparr>)),
     g_pBeginHeader := 976, g_pRootReferences := sample_roots\<rparr>"

lemma sample_raised_holds:
  "holds_stack 1000 (sample_raised, sample_unwinding sample_tries) sample_tries"
  "holds_stack 1000 (sample_raised, sample_unwinding [Try 60 (\<lambda>_. -1) 3000]) (Try 60 (\<lambda>_. -1) 3000 # tl sample_tries)"
  by (simp_all add: holds_stack_def sample_raised_def sample_unwinding_def sample_tries_def sample_method_def top_frame_def top_try_def)

text \<open>The callee throws: the first finally block runs, and its rethrow goes to the catch block 2.\<close>

lemma unwinding_is_a_stack_witness:
  "\<exists>m' s'. unwinding_run 1000 [Call sample_callee, Throw 3000, Rethrow] (sample_raised, sample_unwinding sample_tries) =
      Some (Inr ((m', s'), [None, Some (LongJmp 60 (-1)), Some (LongJmp 40 2)])) \<and>
    holds_stack 1000 (m', s') [Try 40 (\<lambda>_. 2) 3000, Method sample_method]"
  by (rule unwinding_is_a_stack [OF sample_raised_holds(1)])
    (simp add: stack_step_def sample_tries_def sample_callee_def sample_method_def)

section \<open>Collections\<close>


text \<open>The sample is ready for a collection; 3000 is the exception that the finally block 60 handles.\<close>

lemma sample_raised_fields:
  "headers sample_raised 976 = Some \<lparr>pNext = 1976, htype = sample_thread_type, characteristic = 0x40000000\<rparr>"
  "headers sample_raised 1976 = Some \<lparr>pNext = 2976, htype = sample_base, characteristic = 0x40000000\<rparr>"
  "headers sample_raised 2976 = Some \<lparr>pNext = NULL, htype = sample_base, characteristic = 0x40000000\<rparr>"
  "dom (headers sample_raised) = {976, 1976, 2976}" "objects sample_raised = {1000, 2000, 3000}"
  "vptrs sample_raised 1000 = Some System_Threading_Thread_VTABLE" "vptrs sample_raised 2000 = Some System_Object_VTABLE"
  "vptrs sample_raised 3000 = Some System_Object_VTABLE"
  "bodies sample_raised 1000 = ThreadBody (sample_thread\<lparr>start := NULL, rawHandle := 7, frames := [sample_method]\<rparr>)"
  "bodies sample_raised 2000 = PlainBody" "bodies sample_raised 3000 = PlainBody"
  "g_pBeginHeader sample_raised = 976" "g_CollectionMarkIndex sample_raised = 0" "g_ExecutingCollection sample_raised = 0"
  "g_pRootReferences sample_raised = sample_roots" "g_pBeginStaticFields sample_raised = []" "g_pFixedReferences sample_raised = []"
  "g_GlobalLockForCollect sample_raised = \<lparr>lock_alive = True, owner = None, held = 0\<rparr>" "cells sample_raised = (\<lambda>_. NULL)"
  by (auto simp: sample_raised_def empty_machine_def objects_def object_of_def sizeof_REF_HEADER_def split: if_splits)

lemma sample_raised_graph:
  "header_of sample_raised 1000 = \<lparr>pNext = 1976, htype = sample_thread_type, characteristic = 0x40000000\<rparr>"
  "header_of sample_raised 2000 = \<lparr>pNext = 2976, htype = sample_base, characteristic = 0x40000000\<rparr>"
  "header_of sample_raised 3000 = \<lparr>pNext = NULL, htype = sample_base, characteristic = 0x40000000\<rparr>"
  "static_refs sample_raised = []" "\<not> has_handler sample_base"
  "object_refs sample_raised 1000 sample_thread_type = [NULL, 2000]" "object_refs sample_raised a sample_base = [NULL]"
  by (auto simp: header_of_def il2c_get_header_def sizeof_REF_HEADER_def sample_raised_fields static_refs_def has_handler_def
      sample_thread_type_def sample_base_def IL2C_TYPE_WITH_MARK_HANDLER_def object_refs_def thread_refs_def frame_refs_def
      sample_thread_def zero_thread_def sample_method_def IL2C_TYPE_VALUE_def)

lemma sample_raised_live: "\<not> const_object sample_raised 1000" "\<not> const_object sample_raised 2000" "\<not> const_object sample_raised 3000"
  by (simp_all add: const_object_def sample_raised_graph)

lemma sample_raised_ready: "gc_ready 1 sample_raised [976, 1976, 2976]"
proof -
  have "between_collections sample_raised [976, 1976, 2976]"
    by (simp add: between_collections_def sample_raised_fields mark_index_ok_def sample_raised_live il2c_get_header_def
        sizeof_REF_HEADER_def)
  moreover have "object_ok sample_raised 1000 sample_thread_type" "object_ok sample_raised 2000 sample_base"
      "object_ok sample_raised 3000 sample_base"
    by (simp_all add: object_ok_def sample_raised_graph sample_started_graph(6) sample_raised_fields has_vptr0_def sample_thread_def
          zero_thread_def sample_method_def GC_Mark.frame_ok_def)
      (simp_all add: sample_thread_type_def sample_base_def IL2C_TYPE_VALUE_def)
  then have "heap_layout sample_raised"
    by (simp add: heap_layout_def roots_valid_def sample_raised_graph sample_started_graph(3,4) sample_raised_fields refs_valid_def
        System_Object_VTABLE_def)
  moreover have "locks_ready 1 sample_raised"
    by (simp add: locks_ready_def sample_started_graph(3) sample_raised_fields takeable_def thread_ready_def has_vptr0_def
        sample_thread_def il2c_initialize_monitor_lock_def)
  moreover have "vtables_ok sample_raised [976, 1976, 2976]"
    by (simp add: vtables_ok_def sample_raised_fields object_of_def sizeof_REF_HEADER_def sample_thread_type_def sample_base_def System_Object_VTABLE_def)
  ultimately show ?thesis by (simp add: gc_ready_def)
qed

lemma sample_raised_reaches:
  "root_set sample_raised = {1000}" "reaches sample_raised {1000} 1000"
  "reaches sample_raised {1000} a \<Longrightarrow> a \<in> {1000, 2000}"
proof -
  show "root_set sample_raised = {1000}"
    by (simp add: root_set_def sample_raised_graph sample_raised_fields sample_started_graph adjusted_def)
  have children: "children sample_raised 1000 = [2000]" "children sample_raised 2000 = []"
    by (simp_all add: children_def sample_raised_graph adjusted_def sample_raised_fields System_Object_VTABLE_def)
  show "reaches sample_raised {1000} 1000"
    using sample_raised_live by (intro reaches_root) (simp_all add: sample_raised_fields)
  show "a \<in> {1000, 2000}" if "reaches sample_raised {1000} a"
    using that by (induction rule: reaches.induct) (auto simp: children)
qed

lemma sample_raised_calm: "none_due sample_raised [976, 1976, 2976]" "finalizers_ready runtime_ready sample_raised [976, 1976, 2976]"
proof -
  show "none_due sample_raised [976, 1976, 2976]"
    using sample_raised_reaches(2)
    by (simp add: none_due_def object_of_def sizeof_REF_HEADER_def needs_finalizer_def sample_raised_fields sample_raised_reaches(1)
        sample_base_def)
  show "finalizers_ready runtime_ready sample_raised [976, 1976, 2976]"
    by (rule runtime_finalizers_ready)
      (simp add: runtime_ready_def sample_raised_fields object_of_def sizeof_REF_HEADER_def sample_thread_type_def sample_base_def
        System_Threading_Thread_VTABLE_def System_Object_VTABLE_def System_Object_Finalize_def needs_finalizer_def
        System_Threading_Thread_Finalize_code_def sample_thread_def il2c_initialize_monitor_lock_def)
qed

lemma sample_raised_ctx:
  "collected_as_thread sample_raised 1000" "1000 \<in> registered (g_pRootReferences sample_raised)"
  "roots_ok (g_pRootReferences sample_raised)" "lock_balanced 1 (lockForCollect (thread_of sample_raised 1000))"
  by (simp_all add: collected_as_thread_def sample_raised_live sample_raised_graph sample_started_graph(3,6) sample_raised_fields
      sample_roots_ok thread_of_def sample_thread_def lock_balanced_def il2c_initialize_monitor_lock_def)


end
