(* ===== verification/Boxing.thy ===== *)
theory Boxing
  imports Allocation
begin

text \<open>
  Boxing of values (src/Core/il2c.c): \<open>il2c_box\<close> copies a value behind the vptr of a new
  object, \<open>il2c_box2\<close> converts an integer to the width and the signedness of another integer
  type on the way.  The contents of values are bytes, kept beside the machine, in the byte
  order of the target; references inside a value are cells of the machine and are copied
  with it.
\<close>

section \<open>Values in memory\<close>

type_synonym bytes = "addr \<Rightarrow> u8"

definition memcpy :: "(addr \<Rightarrow> 'a) \<Rightarrow> addr \<Rightarrow> addr \<Rightarrow> nat \<Rightarrow> addr \<Rightarrow> 'a" where
  "memcpy f d s n = (\<lambda>a. if d \<le> a \<and> a < d + n then f (a - d + s) else f a)"

lemma memcpy_nothing [simp]: "memcpy f d s 0 = f"
  by (rule ext) (auto simp: memcpy_def)

definition clear_bytes :: "bytes \<Rightarrow> addr \<Rightarrow> nat \<Rightarrow> bytes" where
  "clear_bytes v p n = (\<lambda>a. if p \<le> a \<and> a < p + n then 0 else v a)"

text \<open>An unsigned integer of \<open>n\<close> bytes, the least significant one first.\<close>

primrec le_value :: "u8 list \<Rightarrow> int" where
  "le_value [] = 0"
| "le_value (b # bs) = uint b + 256 * le_value bs"

primrec le_bytes :: "nat \<Rightarrow> int \<Rightarrow> u8 list" where
  "le_bytes 0 x = []"
| "le_bytes (Suc n) x = word_of_int x # le_bytes n (x div 256)"

definition in_order :: "bool \<Rightarrow> u8 list \<Rightarrow> u8 list" where
  "in_order big bs = (if big then rev bs else bs)"

text \<open>\<open>*(uintN_t*)p\<close>, \<open>*(intN_t*)p\<close> and a store of an integer of \<open>n\<close> bytes.\<close>

definition load_uint :: "bool \<Rightarrow> bytes \<Rightarrow> addr \<Rightarrow> nat \<Rightarrow> int" where
  "load_uint big v p n = le_value (in_order big (map v [p..<p + n]))"

definition to_uint :: "nat \<Rightarrow> int \<Rightarrow> int" where "to_uint n x = x mod 2 ^ (8 * n)"

definition to_sint :: "nat \<Rightarrow> int \<Rightarrow> int" where
  "to_sint n x = (let y = to_uint n x in if 2 * y < 2 ^ (8 * n) then y else y - 2 ^ (8 * n))"

definition load_sint :: "bool \<Rightarrow> bytes \<Rightarrow> addr \<Rightarrow> nat \<Rightarrow> int" where
  "load_sint big v p n = to_sint n (load_uint big v p n)"

definition store_int :: "bool \<Rightarrow> bytes \<Rightarrow> addr \<Rightarrow> nat \<Rightarrow> int \<Rightarrow> bytes" where
  "store_int big v p n x = (\<lambda>a. if p \<le> a \<and> a < p + n then in_order big (le_bytes n x) ! (a - p) else v a)"

section \<open>Boxing\<close>

definition boxed_size :: "runtime_type \<Rightarrow> nat" where
  "boxed_size vt = (sizeof_ValueType + bodySize vt + length (interfaces vt) * sizeof_pointer) mod 2 ^ 64"

text \<open>The block of a new box is cleared; the box is created around the copied references.\<close>

definition create_box ::
  "environment \<Rightarrow> runtime_type \<Rightarrow> machine \<Rightarrow> bytes \<Rightarrow> addr \<Rightarrow> runtime_type \<Rightarrow> (machine \<Rightarrow> addr \<Rightarrow> machine)
    \<Rightarrow> (bytes \<Rightarrow> addr \<Rightarrow> bytes) \<Rightarrow> (machine \<times> bytes \<times> addr \<times> addr) result option" where
  "create_box env threadType m v tls vt put_cells put_bytes =
     and_then (create_object env threadType m tls vt (boxed_size vt) (\<lambda>m pBoxed.
       il2c_assert (vptrs m pBoxed = vptr0 vt) (Inr (put_cells m (pBoxed + sizeof_ValueType)))))
     (\<lambda>(m, tls, pBoxed).
       let v = clear_bytes v (il2c_get_header pBoxed) (sizeof_REF_HEADER + boxed_size vt) in
       Some (Inr (m, put_bytes v (pBoxed + sizeof_ValueType), tls, pBoxed)))"

definition il2c_box ::
  "environment \<Rightarrow> runtime_type \<Rightarrow> machine \<Rightarrow> bytes \<Rightarrow> addr \<Rightarrow> addr \<Rightarrow> runtime_type
    \<Rightarrow> (machine \<times> bytes \<times> addr \<times> addr) result option" where
  "il2c_box env threadType m v tls pValue vt =
     (if pValue = NULL then Some (Inl AssertionFailed)
      else create_box env threadType m v tls vt
        (\<lambda>m p. m\<lparr>cells := memcpy (cells m) p pValue (bodySize vt)\<rparr>) (\<lambda>v p. memcpy v p pValue (bodySize vt)))"

text \<open>
  One line group of the conversion table: destination of \<open>d\<close> bytes, source of \<open>s\<close> bytes,
  each signed or unsigned.
\<close>

definition converted :: "bool \<Rightarrow> bytes \<Rightarrow> addr \<Rightarrow> bool \<Rightarrow> bool \<Rightarrow> nat \<Rightarrow> nat \<Rightarrow> int" where
  "converted big v pValue vui sui d s =
     (if vui \<and> sui then to_uint d (load_uint big v pValue s)
      else if vui then to_uint d (load_sint big v pValue s)
      else if sui then to_sint d (load_uint big v pValue s)
      else to_sint d (load_sint big v pValue s))"

definition is_unsigned :: "runtime_type \<Rightarrow> bool" where
  "is_unsigned ty \<longleftrightarrow> flags ty AND IL2C_TYPE_UNSIGNED_INTEGER = IL2C_TYPE_UNSIGNED_INTEGER"

definition is_integer :: "runtime_type \<Rightarrow> bool" where
  "is_integer ty \<longleftrightarrow> flags ty AND IL2C_TYPE_INTEGER = IL2C_TYPE_INTEGER"

definition box2_value :: "bool \<Rightarrow> bytes \<Rightarrow> addr \<Rightarrow> runtime_type \<Rightarrow> runtime_type \<Rightarrow> int result" where
  "box2_value big v pValue valueType stackType =
     (let c = converted big v pValue (is_unsigned valueType) (is_unsigned stackType); s = bodySize stackType in
      if bodySize valueType = 1 then
        (if s = 2 then Inr (c 1 2) else if s = 4 then Inr (c 1 4) else Inl InvalidCastException)
      else if bodySize valueType = 2 then
        (if s = 1 then Inr (c 2 1) else if s = 4 then Inr (c 2 4) else Inl InvalidCastException)
      else if bodySize valueType = 4 then
        (if s = 1 then Inr (c 4 1) else if s = 2 then Inr (c 4 2) else if s = 8 then Inr (c 4 8)
         else Inl InvalidCastException)
      else Inl InvalidCastException)"

definition il2c_box2 ::
  "bool \<Rightarrow> environment \<Rightarrow> runtime_type \<Rightarrow> machine \<Rightarrow> bytes \<Rightarrow> addr \<Rightarrow> addr \<Rightarrow> runtime_type \<Rightarrow> runtime_type
    \<Rightarrow> (machine \<times> bytes \<times> addr \<times> addr) result option" where
  "il2c_box2 big env threadType m v tls pValue valueType stackType =
     (if pValue = NULL \<or> \<not> (is_integer valueType \<and> is_integer stackType)
        \<or> \<not> (bodySize valueType \<le> 8 \<and> bodySize stackType \<le> 8) \<or> \<not> (1 \<le> bodySize valueType \<and> 1 \<le> bodySize stackType)
      then Some (Inl AssertionFailed)
      else case box2_value big v pValue valueType stackType of
        Inl e \<Rightarrow> Some (Inl e)
      | Inr x \<Rightarrow> create_box env threadType m v tls valueType (\<lambda>m p. m) (\<lambda>v p.
          if bodySize valueType \<in> {1, 2, 4, 8} then store_int big v p (bodySize valueType) x else v))"

section \<open>Integers as bytes\<close>

lemma le_bytes_length [simp]: "length (le_bytes n x) = n"
  by (induction n arbitrary: x) simp_all

lemma le_value_bytes: "le_value (le_bytes n x) = to_uint n x"
proof (induction n arbitrary: x)
  case (Suc n)
  have "uint (word_of_int x :: u8) = x mod 256" by (simp add: uint_word_of_int)
  then show ?case
    using Suc mod_mult2_eq' [of x 256 "2 ^ (8 * n)"]
    by (simp add: to_uint_def power_add zmod_zmult2_eq algebra_simps)
qed (simp add: to_uint_def)

lemma in_order_facts [simp]: "length (in_order big bs) = length bs" "in_order big (in_order big bs) = bs"
  by (simp_all add: in_order_def)

lemma load_store: "load_uint big (store_int big v p n x) p n = to_uint n x"
proof -
  have "map (store_int big v p n x) [p..<p + n] = in_order big (le_bytes n x)"
    by (intro nth_equalityI) (simp_all add: store_int_def)
  then show ?thesis by (simp add: load_uint_def le_value_bytes)
qed

lemma to_uint_idem [simp]: "to_uint n (to_uint n x) = to_uint n x" "to_uint n (to_sint n x) = to_uint n x"
  by (simp_all add: to_uint_def to_sint_def Let_def)

lemma to_sint_idem [simp]: "to_sint n (to_uint n x) = to_sint n x" "to_sint n (to_sint n x) = to_sint n x"
  by (simp_all add: to_sint_def [of n "to_uint n x"] to_sint_def [of n "to_sint n x"]) (simp_all add: to_sint_def)

definition typed_value :: "bool \<Rightarrow> bytes \<Rightarrow> addr \<Rightarrow> runtime_type \<Rightarrow> int" where
  "typed_value big v p ty = (if is_unsigned ty then load_uint big v p (bodySize ty) else load_sint big v p (bodySize ty))"

text \<open>The integer of a type that an integer is reduced to.\<close>

definition wrapped :: "runtime_type \<Rightarrow> int \<Rightarrow> int" where
  "wrapped ty x = (if is_unsigned ty then to_uint (bodySize ty) x else to_sint (bodySize ty) x)"

lemma wrapped_range:
  assumes "1 \<le> bodySize ty"
  shows "wrapped ty x mod 2 ^ (8 * bodySize ty) = x mod 2 ^ (8 * bodySize ty)"
    and "is_unsigned ty \<Longrightarrow> 0 \<le> wrapped ty x \<and> wrapped ty x < 2 ^ (8 * bodySize ty)"
    and "\<not> is_unsigned ty \<Longrightarrow> - (2 ^ (8 * bodySize ty - 1)) \<le> wrapped ty x \<and> wrapped ty x < 2 ^ (8 * bodySize ty - 1)"
proof -
  show "wrapped ty x mod 2 ^ (8 * bodySize ty) = x mod 2 ^ (8 * bodySize ty)"
    using to_uint_idem [of "bodySize ty" x] by (simp add: wrapped_def to_uint_def)
  show "is_unsigned ty \<Longrightarrow> 0 \<le> wrapped ty x \<and> wrapped ty x < 2 ^ (8 * bodySize ty)"
    by (simp add: wrapped_def to_uint_def)
  obtain k where k: "8 * bodySize ty = Suc k" using assms by (cases "8 * bodySize ty") auto
  obtain y where y: "x mod 2 ^ Suc k = y" "0 \<le> y" "y < 2 * 2 ^ k" "0 < (2 :: int) ^ k"
    using pos_mod_bound [of "2 ^ Suc k" x] by simp
  then show "\<not> is_unsigned ty \<Longrightarrow> - (2 ^ (8 * bodySize ty - 1)) \<le> wrapped ty x \<and> wrapped ty x < 2 ^ (8 * bodySize ty - 1)"
    unfolding wrapped_def to_sint_def to_uint_def k y(1) by (auto simp: Let_def)
qed

definition convertible :: "nat \<Rightarrow> nat \<Rightarrow> bool" where
  "convertible s d \<longleftrightarrow> (s, d) \<in> {(2, 1), (4, 1), (1, 2), (4, 2), (1, 4), (2, 4), (8, 4)}"

lemma box2_value_converts:
  "box2_value big v pValue valueType stackType =
     (if convertible (bodySize stackType) (bodySize valueType)
      then Inr (wrapped valueType (typed_value big v pValue stackType)) else Inl InvalidCastException)"
  by (auto simp: box2_value_def convertible_def converted_def wrapped_def typed_value_def Let_def)

section \<open>A box in the heap\<close>

text \<open>A value type: its references lie in its value, the vtables of a box behind it.\<close>

definition value_type_ok :: "runtime_type \<Rightarrow> bool" where
  "value_type_ok vt \<longleftrightarrow> is_value_type vt \<and> \<not> has_handler vt \<and> targets_ok (markTargets vt) \<and> layout_ok vt (boxed_size vt) \<and>
     sizeof_REF_HEADER + sizeof_ValueType + bodySize vt + length (interfaces vt) * sizeof_pointer < 2 ^ 64 \<and>
     (\<forall>b. \<forall>a \<in> set (value_slots b (markTargets vt) 0). b \<le> a \<and> a < b + bodySize vt)"

text \<open>
  A value that can be boxed: the objects it refers to are held by a root, and it does not lie
  in the memory that the C allocator hands out.
\<close>

definition not_allocated :: "environment \<Rightarrow> machine \<Rightarrow> nat \<Rightarrow> addr \<Rightarrow> bool" where
  "not_allocated env m0 N a \<longleftrightarrow>
     (\<forall>m. collected m0 m {a. reaches m0 (root_set m0) a} \<longrightarrow> \<not> in_block (env_malloc env m N) N a)"

definition value_ready :: "environment \<Rightarrow> machine \<Rightarrow> addr \<Rightarrow> runtime_type \<Rightarrow> bool" where
  "value_ready env m0 pValue vt \<longleftrightarrow>
     (\<forall>a \<in> set (value_slots pValue (markTargets vt) 0). cells m0 a \<noteq> NULL \<longrightarrow>
        (\<exists>w. vptrs m0 (cells m0 a) = Some w \<and> reaches m0 (root_set m0) (cells m0 a - adjustor_offset w))) \<and>
     (\<forall>a. pValue \<le> a \<and> a < pValue + bodySize vt \<longrightarrow> not_allocated env m0 (sizeof_REF_HEADER + boxed_size vt) a)"

lemma value_slots_shift: "value_slots (p + k) ts k' = map (\<lambda>a. a + k + k') (value_slots p ts 0)"
proof (induction p ts "0 :: nat" arbitrary: k k' rule: value_slots.induct)
  case (2 p ty o' ts)
  show ?case using 2(1) [of "k + k'" 0] 2(2) [of k k'] by (simp add: algebra_simps)
qed (simp_all add: algebra_simps)

lemma boxed_size_small:
  assumes "value_type_ok vt"
  shows "boxed_size vt = sizeof_ValueType + bodySize vt + length (interfaces vt) * sizeof_pointer"
    "0 < boxed_size vt" "sizeof_REF_HEADER + boxed_size vt < 2 ^ 64"
  using assms by (simp_all add: value_type_ok_def boxed_size_def sizeof_ValueType_def)

lemma boxed_refs:
  assumes "value_type_ok vt"
  shows "object_refs m a vt = map (\<lambda>q. cells m (q - b + (a + sizeof_ValueType))) (value_slots b (markTargets vt) 0)"
proof -
  have "flags vt AND IL2C_TYPE_VALUE \<noteq> 0" using assms by (auto simp: value_type_ok_def IL2C_TYPE_VALUE_def)
  moreover have "value_slots a (markTargets vt) sizeof_ValueType = map (\<lambda>q. q - b + (a + sizeof_ValueType)) (value_slots b (markTargets vt) 0)"
  proof -
    have "value_slots a (markTargets vt) sizeof_ValueType = map (\<lambda>q. q + (a + sizeof_ValueType)) (value_slots 0 (markTargets vt) 0)"
      using value_slots_shift [of 0 a "markTargets vt" sizeof_ValueType] by (simp add: algebra_simps)
    moreover have "value_slots b (markTargets vt) 0 = map (\<lambda>q. q + b) (value_slots 0 (markTargets vt) 0)"
      using value_slots_shift [of 0 b "markTargets vt" 0] by simp
    ultimately show ?thesis by simp
  qed
  ultimately show ?thesis using assms by (simp add: object_refs_def value_type_ok_def)
qed

lemma boxed_copy:
  assumes vt: "value_type_ok vt" and ready: "value_ready env m0 pValue vt" and c: "collected m0 m {a. reaches m0 (root_set m0) a}"
    and p: "p = env_malloc env m (sizeof_REF_HEADER + boxed_size vt)"
    and cells: "cells m' = memcpy (cleared m p (sizeof_REF_HEADER + boxed_size vt)) (object_of p + sizeof_ValueType) pValue (bodySize vt)"
  shows "object_refs m' (object_of p) vt = map (cells m0) (value_slots pValue (markTargets vt) 0)"
  unfolding boxed_refs [OF vt, of m' "object_of p" pValue]
proof (rule map_cong [OF refl])
  fix q assume q: "q \<in> set (value_slots pValue (markTargets vt) 0)"
  then have inside: "pValue \<le> q" "q < pValue + bodySize vt" using vt by (auto simp: value_type_ok_def)
  then obtain i where i: "q = pValue + i" "i < bodySize vt" by (metis add_less_cancel_left le_Suc_ex)
  have "\<not> in_block p (sizeof_REF_HEADER + boxed_size vt) q" using ready c p inside by (auto simp: value_ready_def not_allocated_def)
  moreover have "cells m = cells m0" using c by (simp add: collected_def same_memory_def)
  ultimately show "cells m' (q - pValue + (object_of p + sizeof_ValueType)) = cells m0 q"
    using i by (simp add: cells memcpy_def cleared_def add.commute)
qed

text \<open>
  The creation of a box into which the references of a value are copied: \<open>k\<close> bytes of it,
  all or none.
\<close>

lemma create_box_in_heap:
  assumes can: "can_create env m0 hs self (sizeof_REF_HEADER + boxed_size vt)" and vt: "value_type_ok vt"
    and k: "k = bodySize vt \<or> k = 0 \<and> markTargets vt = []"
    and ready: "value_ready env m0 pValue vt \<or> markTargets vt = []"
  shows "\<exists>m m' p. create_box env threadType m0 v self vt (\<lambda>m p. m\<lparr>cells := memcpy (cells m) p pValue k\<rparr>) put =
      Some (Inr (m', put (clear_bytes v p (sizeof_REF_HEADER + boxed_size vt)) (object_of p + sizeof_ValueType), self, object_of p)) \<and>
    gc_ready (env_thread env) m' (p # filter (survives m0) hs) \<and> survives m' p \<and>
    htype (header_of m' (object_of p)) = vt \<and> headers m' p \<noteq> None \<and>
    cells m' = memcpy (cleared m p (sizeof_REF_HEADER + boxed_size vt)) (object_of p + sizeof_ValueType) pValue k \<and>
    collected m0 m {a. reaches m0 (root_set m0) a} \<and> p = env_malloc env m (sizeof_REF_HEADER + boxed_size vt)"
proof -
  let ?n = "boxed_size vt"
  define copy where "copy = (\<lambda>p f. memcpy (f :: addr \<Rightarrow> addr) (object_of p + sizeof_ValueType) pValue k)"
  define fill :: "machine \<Rightarrow> addr \<Rightarrow> machine result" where "fill = (\<lambda>m pBoxed. il2c_assert (vptrs m pBoxed = vptr0 vt)
    (Inr (m\<lparr>cells := memcpy (cells m) (pBoxed + sizeof_ValueType) pValue k\<rparr>)))"
  note n = boxed_size_small [OF vt]
  have layout: "layout_ok vt ?n" using vt by (simp add: value_type_ok_def)
  have fill: "\<forall>m p. bodies m (object_of p) = PlainBody \<longrightarrow> vptrs m (object_of p) = vptr0 vt \<longrightarrow>
      fill m (object_of p) = Inr (m\<lparr>bodies := (bodies m)(object_of p := PlainBody), cells := copy p (cells m)\<rparr>)"
    by (simp add: fill_def copy_def plain_body_unchanged)
  have copy: "copies_inside copy (sizeof_REF_HEADER + ?n)"
    using k n(1) by (auto simp: copies_inside_def copy_def memcpy_def in_block_def object_of_def)
  have new: "\<forall>m m' p. created m m' p vt (sizeof_REF_HEADER + ?n) self PlainBody \<longrightarrow>
      fresh_block m p (sizeof_REF_HEADER + ?n) \<longrightarrow> cells m' = copy p (cleared m p (sizeof_REF_HEADER + ?n)) \<longrightarrow>
      p = env_malloc env m (sizeof_REF_HEADER + ?n) \<longrightarrow> collected m0 m {a. reaches m0 (root_set m0) a} \<longrightarrow>
      object_ok m' (object_of p) vt \<and> refs_valid m' (object_refs m' (object_of p) vt)"
  proof (intro allI impI conjI)
    fix m m' p
    assume c: "created m m' p vt (sizeof_REF_HEADER + ?n) self PlainBody" "fresh_block m p (sizeof_REF_HEADER + ?n)"
      "cells m' = copy p (cleared m p (sizeof_REF_HEADER + ?n))" "p = env_malloc env m (sizeof_REF_HEADER + ?n)"
      "collected m0 m {a. reaches m0 (root_set m0) a}"
    show "object_ok m' (object_of p) vt"
      using vt by (simp add: object_ok_def value_type_ok_def object_of_def sizeof_REF_HEADER_def)
    show "refs_valid m' (object_refs m' (object_of p) vt)"
    proof (cases "markTargets vt = []")
      case True
      then show ?thesis by (simp add: boxed_refs [OF vt, of m' "object_of p" pValue] refs_valid_def)
    next
      case False
      then have v: "k = bodySize vt" "value_ready env m0 pValue vt" using k ready by auto
      have refs: "object_refs m' (object_of p) vt = map (cells m0) (value_slots pValue (markTargets vt) 0)"
        using boxed_copy [OF vt v(2) c(5,4)] c(3) v(1) by (simp add: copy_def)
      show ?thesis
        unfolding refs_valid_def refs
      proof (intro ballI impI)
      fix r assume "r \<in> set (map (cells m0) (value_slots pValue (markTargets vt) 0))" "r \<noteq> NULL"
      then obtain w where w: "vptrs m0 r = Some w" "reaches m0 (root_set m0) (r - adjustor_offset w)"
        using v(2) by (auto simp: value_ready_def not_allocated_def)
      then have "r - adjustor_offset w \<in> objects m"
        using collected_graph(1) [OF c(5) refl] by (auto dest: reaches_object)
      then have "r - adjustor_offset w \<in> objects m'" using c(1) by (auto simp: created_def objects_def)
      moreover have "vptrs m r = Some w" using w(1) c(5) by (simp add: collected_def same_memory_def)
      then have "vptrs m' r = Some w" using created_vptrs [OF c(1,2)] by simp
      ultimately show "\<exists>w. vptrs m' r = Some w \<and> r - adjustor_offset w \<in> objects m'" by blast
      qed
    qed
  qed
  from creation_in_heap [where fill = fill and ty = vt and body = PlainBody and threadType = threadType and copy = copy,
      OF can n(2,3) layout fill copy new]
  obtain m m' p where m': "create_object env threadType m0 self vt ?n fill = Some (Inr (m', self, object_of p))"
      "collected m0 m {a. reaches m0 (root_set m0) a}" "created m m' p vt (sizeof_REF_HEADER + ?n) self PlainBody"
      "cells m' = copy p (cleared m p (sizeof_REF_HEADER + ?n))" "p = env_malloc env m (sizeof_REF_HEADER + ?n)"
      "gc_ready (env_thread env) m' (p # filter (survives m0) hs)" "reaches m' (root_set m') (object_of p)"
    by blast
  then show ?thesis
    by (intro exI [of _ m] exI [of _ m'] exI [of _ p])
       (auto simp: create_box_def fill_def [symmetric] copy_def Let_def survives_def created_def)
qed

lemma box_result:
  assumes "can_create env m0 hs self (sizeof_REF_HEADER + boxed_size vt)" and "value_type_ok vt"
    and "value_ready env m0 pValue vt" and "pValue \<noteq> NULL"
  shows "\<exists>m' v' p. il2c_box env threadType m0 v self pValue vt = Some (Inr (m', v', self, object_of p)) \<and>
    gc_ready (env_thread env) m' (p # filter (survives m0) hs) \<and> survives m' p \<and>
    (\<forall>T. il2c_unbox m' (object_of p) T =
       (if type_addr T = type_addr vt then Inr (object_of p + sizeof_ValueType) else Inl InvalidCastException)) \<and>
    (\<forall>i < bodySize vt. v' (object_of p + sizeof_ValueType + i) = v (pValue + i)) \<and>
    (\<forall>a. not_allocated env m0 (sizeof_REF_HEADER + boxed_size vt) a \<longrightarrow> v' a = v a) \<and>
    object_refs m' (object_of p) vt = map (cells m0) (value_slots pValue (markTargets vt) 0)"
proof -
  let ?N = "sizeof_REF_HEADER + boxed_size vt" and ?put = "\<lambda>v p. memcpy v p pValue (bodySize vt)"
  obtain m m' p where m': "create_box env threadType m0 v self vt (\<lambda>m p. m\<lparr>cells := memcpy (cells m) p pValue (bodySize vt)\<rparr>) ?put =
      Some (Inr (m', ?put (clear_bytes v p ?N) (object_of p + sizeof_ValueType), self, object_of p))"
      "gc_ready (env_thread env) m' (p # filter (survives m0) hs)" "survives m' p"
      "htype (header_of m' (object_of p)) = vt" "headers m' p \<noteq> None"
      "cells m' = memcpy (cleared m p ?N) (object_of p + sizeof_ValueType) pValue (bodySize vt)"
      "collected m0 m {a. reaches m0 (root_set m0) a}" "p = env_malloc env m ?N"
    using create_box_in_heap [OF assms(1,2), of "bodySize vt" pValue threadType v ?put] assms(3) by auto
  have "?put (clear_bytes v p ?N) (object_of p + sizeof_ValueType) (object_of p + sizeof_ValueType + i) = v (pValue + i)"
    if "i < bodySize vt" for i
  proof -
    have "\<not> in_block p ?N (pValue + i)" using that assms(3) m'(7,8) by (auto simp: value_ready_def not_allocated_def)
    then show ?thesis using that by (auto simp: memcpy_def clear_bytes_def in_block_def add.commute)
  qed
  moreover have "?put (clear_bytes v p ?N) (object_of p + sizeof_ValueType) a = v a" if "not_allocated env m0 ?N a" for a
  proof -
    have "\<not> in_block p ?N a" using that m'(7,8) by (simp add: not_allocated_def)
    then show ?thesis using boxed_size_small(1) [OF assms(2)]
      by (auto simp: memcpy_def clear_bytes_def in_block_def object_of_def)
  qed
  moreover have "il2c_unbox m' (object_of p) T =
      (if type_addr T = type_addr vt then Inr (object_of p + sizeof_ValueType) else Inl InvalidCastException)" for T
    using m'(4,5) by (auto simp: il2c_unbox_def get_header_def object_of_def il2c_get_header_def sizeof_REF_HEADER_def header_of_def)
  ultimately show ?thesis
    using m'(1-3) boxed_copy [OF assms(2,3) m'(7,8,6)] assms(4) unfolding il2c_box_def by auto
qed

section \<open>Properties\<close>

text \<open>
  C25: a box keeps the type and the contents of its value.  For a value whose references are
  held by a root, boxing succeeds, the heap is ready for the next collection and keeps the
  box; unboxing answers the value behind the vptr for the very type that was boxed and
  throws \<open>InvalidCastException\<close> for every other; the bytes of the value and the references
  in it, which the box keeps alive, are those of the source.
\<close>

theorem box_keeps_type:
  assumes "can_create env m0 hs self (sizeof_REF_HEADER + boxed_size vt)" and "value_type_ok vt"
    and "value_ready env m0 pValue vt" and "pValue \<noteq> NULL"
  shows "\<exists>m' v' p. il2c_box env threadType m0 v self pValue vt = Some (Inr (m', v', self, object_of p)) \<and>
    gc_ready (env_thread env) m' (p # filter (survives m0) hs) \<and> survives m' p \<and>
    (\<forall>T. il2c_unbox m' (object_of p) T =
       (if type_addr T = type_addr vt then Inr (object_of p + sizeof_ValueType) else Inl InvalidCastException)) \<and>
    (\<forall>i < bodySize vt. v' (object_of p + sizeof_ValueType + i) = v (pValue + i)) \<and>
    (\<forall>a. not_allocated env m0 (sizeof_REF_HEADER + boxed_size vt) a \<longrightarrow> v' a = v a) \<and>
    object_refs m' (object_of p) vt = map (cells m0) (value_slots pValue (markTargets vt) 0)"
  by (rule box_result [OF assms])

text \<open>
  C34: boxing with conversion.  An integer in memory, of either byte order, is boxed as the
  integer of the destination type congruent to it: truncated or extended by the signedness of
  its own type, then read with the signedness of the destination.  The widths 1, 2 and 4
  convert into each other and 8 into 4; every other pair, equal widths and a destination of 8
  bytes among them, throws \<open>InvalidCastException\<close> and creates nothing.
\<close>

theorem box2_converts:
  assumes "can_create env m0 hs self (sizeof_REF_HEADER + boxed_size vt)" and "value_type_ok vt"
    and "is_integer vt" "markTargets vt = []" "bodySize vt \<in> {1, 2, 4, 8}" and "is_integer st" "bodySize st \<in> {1, 2, 4, 8}"
    and "pValue \<noteq> NULL"
  shows "if convertible (bodySize st) (bodySize vt)
    then \<exists>m' v' p q. il2c_box2 big env threadType m0 v self pValue vt st = Some (Inr (m', v', self, object_of p)) \<and>
      gc_ready (env_thread env) m' (p # filter (survives m0) hs) \<and> survives m' p \<and>
      il2c_unbox m' (object_of p) vt = Inr q \<and>
      typed_value big v' q vt = wrapped vt (typed_value big v pValue st)
    else il2c_box2 big env threadType m0 v self pValue vt st = Some (Inl InvalidCastException)"
proof (cases "convertible (bodySize st) (bodySize vt)")
  case True
  let ?N = "sizeof_REF_HEADER + boxed_size vt" and ?x = "wrapped vt (typed_value big v pValue st)"
  let ?put = "\<lambda>v p. if bodySize vt \<in> {1, 2, 4, 8} then store_int big v p (bodySize vt) ?x else v"
  obtain m m' p where m': "create_box env threadType m0 v self vt (\<lambda>m p. m\<lparr>cells := memcpy (cells m) p 0 0\<rparr>) ?put =
      Some (Inr (m', ?put (clear_bytes v p ?N) (object_of p + sizeof_ValueType), self, object_of p))"
      "gc_ready (env_thread env) m' (p # filter (survives m0) hs)" "survives m' p"
      "htype (header_of m' (object_of p)) = vt" "headers m' p \<noteq> None"
    using create_box_in_heap [OF assms(1,2), of 0 0 threadType v ?put] assms(4) by auto
  have "(\<lambda>m p. m\<lparr>cells := memcpy (cells m) p 0 0\<rparr>) = (\<lambda>m p. m)" by simp
  then have "il2c_box2 big env threadType m0 v self pValue vt st =
      Some (Inr (m', ?put (clear_bytes v p ?N) (object_of p + sizeof_ValueType), self, object_of p))"
    using True assms(3-8) m'(1) by (auto simp: il2c_box2_def box2_value_converts)
  moreover have "typed_value big (?put (clear_bytes v p ?N) (object_of p + sizeof_ValueType)) (object_of p + sizeof_ValueType) vt = ?x"
    using assms(5) by (simp add: typed_value_def load_store load_sint_def wrapped_def)
  moreover have "il2c_unbox m' (object_of p) vt = Inr (object_of p + sizeof_ValueType)"
    using m'(4,5) by (auto simp: il2c_unbox_def get_header_def object_of_def il2c_get_header_def sizeof_REF_HEADER_def header_of_def)
  ultimately show ?thesis using True m'(2,3) by auto
next
  case False
  then show ?thesis using assms(3-8) by (auto simp: il2c_box2_def box2_value_converts)
qed

text \<open>
  Witnesses in the heap with one running thread: the integers 0xFEDC and 300 at address 16,
  as \<open>uint16_t\<close> and \<open>int16_t\<close>.
\<close>

definition sample_integer :: "addr \<Rightarrow> u64 \<Rightarrow> nat \<Rightarrow> runtime_type" where
  "sample_integer a f n = RuntimeType a ''integer'' f n None (Some \<lparr>adjustor_offset = 0, Finalize = System_Object_Finalize\<rparr>)
     None [] []"

lemma sample_integer_ok:
  assumes "f \<in> {IL2C_TYPE_INTEGER, IL2C_TYPE_UNSIGNED_INTEGER}" "n \<in> {1, 2, 4, 8}"
  shows "value_type_ok (sample_integer a f n)" "is_integer (sample_integer a f n)" "markTargets (sample_integer a f n) = []"
    "bodySize (sample_integer a f n) = n" "type_addr (sample_integer a f n) = a"
    "is_unsigned (sample_integer a f n) \<longleftrightarrow> f = IL2C_TYPE_UNSIGNED_INTEGER"
  using assms
  by (auto simp: sample_integer_def value_type_ok_def is_integer_def is_unsigned_def has_handler_def layout_ok_def
      IL2C_TYPE_VALUE_def IL2C_TYPE_INTEGER_def IL2C_TYPE_UNSIGNED_INTEGER_def IL2C_TYPE_WITH_MARK_HANDLER_def
      sizeof_REF_HEADER_def sizeof_ValueType_def)

lemma box_keeps_type_witness:
  "\<exists>m' v' p. il2c_box sample_environment sample_thread_type sample_running (\<lambda>a. of_nat a) 1000 16
      (sample_integer 20 IL2C_TYPE_UNSIGNED_INTEGER 2) = Some (Inr (m', v', 1000, object_of p)) \<and>
    il2c_unbox m' (object_of p) (sample_integer 20 IL2C_TYPE_UNSIGNED_INTEGER 2) = Inr (object_of p + 8) \<and>
    il2c_unbox m' (object_of p) (sample_integer 21 IL2C_TYPE_INTEGER 2) = Inl InvalidCastException \<and>
    v' (object_of p + 9) = 17"
proof -
  let ?ty = "sample_integer 20 IL2C_TYPE_UNSIGNED_INTEGER 2"
  note ok = sample_integer_ok [of IL2C_TYPE_UNSIGNED_INTEGER 2 20] sample_integer_ok [of IL2C_TYPE_INTEGER 2 21]
  have ready: "value_ready sample_environment sample_running 16 ?ty"
    using ok(3,4) by (auto simp: value_ready_def not_allocated_def in_block_def sample_environment_def)
  have vt: "value_type_ok ?ty" using ok(1) by simp
  have "\<exists>m' v' p. il2c_box sample_environment sample_thread_type sample_running (\<lambda>a. of_nat a) 1000 16 ?ty = Some (Inr (m', v', 1000, object_of p)) \<and>
    gc_ready (env_thread sample_environment) m' (p # filter (survives sample_running) [976]) \<and> survives m' p \<and>
    (\<forall>T. il2c_unbox m' (object_of p) T =
       (if type_addr T = type_addr ?ty then Inr (object_of p + sizeof_ValueType) else Inl InvalidCastException)) \<and>
    (\<forall>i < bodySize ?ty. v' (object_of p + sizeof_ValueType + i) = of_nat (16 + i)) \<and>
    (\<forall>a. not_allocated sample_environment sample_running (sizeof_REF_HEADER + boxed_size ?ty) a \<longrightarrow> v' a = of_nat a) \<and>
    object_refs m' (object_of p) ?ty = map (cells sample_running) (value_slots 16 (markTargets ?ty) 0)"
    by (rule box_keeps_type [OF sample_can_create vt ready]) simp
  then obtain m' v' p where r: "il2c_box sample_environment sample_thread_type sample_running (\<lambda>a. of_nat a) 1000 16 ?ty = Some (Inr (m', v', 1000, object_of p))"
      "\<forall>T. il2c_unbox m' (object_of p) T = (if type_addr T = type_addr ?ty then Inr (object_of p + sizeof_ValueType) else Inl InvalidCastException)"
      "\<forall>i < bodySize ?ty. v' (object_of p + sizeof_ValueType + i) = of_nat (16 + i)" by blast
  have "v' (object_of p + 9) = 17" using r(3) [rule_format, of 1] ok(4) by (simp add: sizeof_ValueType_def add.commute)
  then show ?thesis using r(1,2) ok(5,11) by (intro exI) (auto simp: sizeof_ValueType_def)
qed

lemma box2_converts_witness:
  "(\<exists>m' v' p q. il2c_box2 True sample_environment sample_thread_type sample_running ((\<lambda>a. 0)(16 := 0xFE, 17 := 0xDC)) 1000 16
      (sample_integer 20 IL2C_TYPE_INTEGER 4) (sample_integer 21 IL2C_TYPE_INTEGER 2) = Some (Inr (m', v', 1000, object_of p)) \<and>
    il2c_unbox m' (object_of p) (sample_integer 20 IL2C_TYPE_INTEGER 4) = Inr q \<and>
    typed_value True v' q (sample_integer 20 IL2C_TYPE_INTEGER 4) = - 292)"
proof -
  let ?v = "(\<lambda>a. 0)(16 := 0xFE, 17 := 0xDC) :: bytes"
  let ?vt = "sample_integer 20 IL2C_TYPE_INTEGER 4" and ?st = "sample_integer 21 IL2C_TYPE_INTEGER 2"
  note ok = sample_integer_ok [of IL2C_TYPE_INTEGER 4 20] sample_integer_ok [of IL2C_TYPE_INTEGER 2 21]
  have "is_unsigned ?vt = False" "is_unsigned ?st = False"
    using ok(6,12) by (simp_all add: IL2C_TYPE_INTEGER_def IL2C_TYPE_UNSIGNED_INTEGER_def IL2C_TYPE_VALUE_def)
  moreover have "wrapped ?vt (typed_value True ?v 16 ?st) = - 292"
    using calculation ok(4,10)
    by (simp add: wrapped_def typed_value_def load_sint_def load_uint_def in_order_def to_sint_def to_uint_def upt_rec)
  ultimately show ?thesis
    using box2_converts [OF sample_can_create, of ?vt ?st 16 True sample_thread_type ?v] ok by (auto simp: convertible_def)
qed

end
