(* ===== verification/Wide_Number.thy ===== *)
theory Wide_Number
  imports IL2C_Base "HOL-Library.Signed_Division"
begin

text \<open>
  Integers to text and back (src/Platform/strings.c): the \<open>IL2C_DECLARE_INTTOW\<close>
  family \<open>il2c_i32tow\<close>, \<open>il2c_u32tow\<close>, \<open>il2c_i64tow\<close>, \<open>il2c_u64tow\<close>, the digit
  table \<open>__wctoint\<close>, \<open>il2c_wtoi32\<close> (the runtime's own \<open>wcstol\<close>, compiled where
  \<open>IL2C_USE_WTOI\<close> is set; the width of \<open>long\<close> is an argument) and \<open>il2c_twtoi\<close>.
  A pointer that walks through a string is the list of the cells from it on; writing goes
  through an index into the buffer, and a cell outside of it is \<open>BadAccess\<close>.
  The lemmas show that formatting never leaves its buffers, that parsing returns the value
  of the digits clamped to \<open>long\<close>, and that parsing undoes formatting.
\<close>

section \<open>Formatting\<close>

definition wide :: "string \<Rightarrow> wchar list" where "wide s = map of_char s"

text \<open>\<open>0123456789abcdef\<close>\<close>

definition g_pHexChars :: "wchar list" where
  "g_pHexChars = [0x30, 0x31, 0x32, 0x33, 0x34, 0x35, 0x36, 0x37, 0x38, 0x39,
                  0x61, 0x62, 0x63, 0x64, 0x65, 0x66]"

text \<open>
  The digit loop: it fills \<open>temp\<close> downwards; \<open>i\<close> is one more than the index \<open>pTemp\<close>
  points to.  The value is unsigned, so \<open>/\<close> and \<open>%\<close> are those of its number.
\<close>

function write_digits :: "bool \<Rightarrow> nat \<Rightarrow> wchar list \<Rightarrow> nat \<Rightarrow> (wchar list \<times> nat) result" where
  "write_digits hex v temp i =
     (if i = 0 then Inl BadAccess
      else bind_result
        (array_write temp (i - 1) (if hex then g_pHexChars ! (v mod 16) else of_nat (v mod 10) + 0x30))
        (\<lambda>temp. let v = v div (if hex then 16 else 10) in
           if v \<noteq> 0 then write_digits hex v temp (i - 1) else Inr (temp, i - 1)))"
  by pat_completeness auto
termination by (relation "measure (\<lambda>(h, v, t, i). i)") auto

declare write_digits.simps [simp del]

text \<open>The copy loop: from \<open>temp\<close> at \<open>i\<close> to the buffer at \<open>b\<close>, terminator included.\<close>

function copy_out :: "wchar list \<Rightarrow> nat \<Rightarrow> wchar list \<Rightarrow> nat \<Rightarrow> wchar list result" where
  "copy_out temp i buffer b =
     bind_result (array_read temp i) (\<lambda>c.
     bind_result (array_write buffer b c) (\<lambda>buffer.
       if c \<noteq> 0 then copy_out temp (Suc i) buffer (Suc b) else Inr buffer))"
  by pat_completeness auto
termination
  by (relation "measure (\<lambda>(t, i, u, b). length t - i)") (auto simp: array_read_def split: if_splits)

declare copy_out.simps [simp del]

definition il2c_wcscpy :: "wchar list \<Rightarrow> wchar list \<Rightarrow> wchar list result" where
  "il2c_wcscpy buffer s = array_copy buffer 0 (s @ [0]) 0 (length s + 1)"

text \<open>
  The \<open>intOper\<close> argument of the macro: it returns early with the buffer (\<open>Inl\<close>) or goes on
  with the buffer, \<open>pBuffer\<close> and the value.
\<close>

type_synonym 'w int_operator =
  "'w word \<Rightarrow> wchar list \<Rightarrow> (wchar list + wchar list \<times> nat \<times> 'w word) result"

definition int_min :: "'w::len word" where "int_min = push_bit (LENGTH('w) - 1) 1"

definition IL2C_DECLARE_INTTOW_INT_OPERATOR :: "wchar list \<Rightarrow> 'w::len int_operator" where
  "IL2C_DECLARE_INTTOW_INT_OPERATOR minimum value buffer =
     (if value = int_min
      then bind_result (il2c_wcscpy buffer minimum) (\<lambda>buffer. Inr (Inl buffer))
      else if sint value < 0
      then bind_result (array_write buffer 0 0x2D) (\<lambda>buffer. Inr (Inr (buffer, 1, - value)))
      else Inr (Inr (buffer, 0, value)))"

definition IL2C_DECLARE_INTTOW_UINT_OPERATOR :: "'w::len int_operator" where
  "IL2C_DECLARE_INTTOW_UINT_OPERATOR value buffer = Inr (Inr (buffer, 0, value))"

definition IL2C_DECLARE_INTTOW ::
  "nat \<Rightarrow> 'w::len int_operator \<Rightarrow> 'w word \<Rightarrow> wchar list \<Rightarrow> int \<Rightarrow> wchar list result" where
  "IL2C_DECLARE_INTTOW bufferLength intOper value buffer radix =
     (let temp = (replicate bufferLength 0)[bufferLength - 1 := 0] in
      bind_result (if radix = 16 then Inr (Inr (buffer, 0, value)) else intOper value buffer) (\<lambda>r.
      case r of
        Inl buffer \<Rightarrow> Inr buffer
      | Inr (buffer, pBuffer, value) \<Rightarrow>
          bind_result (write_digits (radix = 16) (unat value) temp (bufferLength - 1))
            (\<lambda>(temp, pTemp). copy_out temp pTemp buffer pBuffer)))"

definition il2c_i32tow :: "32 word \<Rightarrow> wchar list \<Rightarrow> int \<Rightarrow> wchar list result" where
  "il2c_i32tow = IL2C_DECLARE_INTTOW 14 (IL2C_DECLARE_INTTOW_INT_OPERATOR
     [0x2D, 0x32, 0x31, 0x34, 0x37, 0x34, 0x38, 0x33, 0x36, 0x34, 0x38])"

definition il2c_u32tow :: "32 word \<Rightarrow> wchar list \<Rightarrow> int \<Rightarrow> wchar list result" where
  "il2c_u32tow = IL2C_DECLARE_INTTOW 14 IL2C_DECLARE_INTTOW_UINT_OPERATOR"

definition il2c_i64tow :: "64 word \<Rightarrow> wchar list \<Rightarrow> int \<Rightarrow> wchar list result" where
  "il2c_i64tow = IL2C_DECLARE_INTTOW 24 (IL2C_DECLARE_INTTOW_INT_OPERATOR
     [0x2D, 0x39, 0x32, 0x32, 0x33, 0x33, 0x37, 0x32, 0x30, 0x33, 0x36, 0x38, 0x35, 0x34, 0x37, 0x37, 0x35, 0x38, 0x30, 0x38])"

definition il2c_u64tow :: "64 word \<Rightarrow> wchar list \<Rightarrow> int \<Rightarrow> wchar list result" where
  "il2c_u64tow = IL2C_DECLARE_INTTOW 24 IL2C_DECLARE_INTTOW_UINT_OPERATOR"

section \<open>Parsing\<close>

text \<open>\<open>__wctoint\<close>: the switch as a table, digits, upper and lower case letters; \<open>-1\<close> otherwise.\<close>

definition wctoint :: "wchar \<Rightarrow> int" where
  "wctoint wc =
     (if 0x30 \<le> wc \<and> wc \<le> 0x39 then uint (wc - 0x30)
      else if 0x41 \<le> wc \<and> wc \<le> 0x5A then uint (wc - 0x41) + 10
      else if 0x61 \<le> wc \<and> wc \<le> 0x7A then uint (wc - 0x61) + 10
      else -1)"

datatype errno = NoError | EINVAL | ERANGE

text \<open>\<open>do wc = *s++ while iswspace(wc)\<close>: the pointer to the first other character.\<close>

fun skip_spaces :: "wchar list \<Rightarrow> wchar list result" where
  "skip_spaces [] = Inl BadAccess"
| "skip_spaces (wc # s) = (if wc = 0x20 then skip_spaces s else Inr (wc # s))"

fun read_sign :: "wchar list \<Rightarrow> (bool \<times> wchar list) result" where
  "read_sign [] = Inl BadAccess"
| "read_sign (wc # s) = (if wc = 0x2D then Inr (True, s) else if wc = 0x2B then Inr (False, s) else Inr (False, wc # s))"

text \<open>The prefix \<open>0x\<close> and the base that 0 stands for.\<close>

definition read_prefix :: "int \<Rightarrow> wchar list \<Rightarrow> (int \<times> wchar list) result" where
  "read_prefix base p =
     bind_result
       (case p of
          [] \<Rightarrow> Inl BadAccess
        | wc # s \<Rightarrow>
            if (base = 0 \<or> base = 16) \<and> wc = 0x30
            then (case s of [] \<Rightarrow> Inl BadAccess
                  | c # s' \<Rightarrow> if c = 0x78 \<or> c = 0x58 then Inr (16, s') else Inr (base, p))
            else Inr (base, p))
       (\<lambda>(base, p). case p of [] \<Rightarrow> Inl BadAccess
          | wc # s \<Rightarrow> Inr (if base = 0 then if wc = 0x30 then 8 else 10 else base, p))"

fun scan_number :: "int \<Rightarrow> bool \<Rightarrow> nat \<Rightarrow> int \<Rightarrow> int \<Rightarrow> wchar list \<Rightarrow> int \<Rightarrow> int \<Rightarrow> errno
    \<Rightarrow> (int \<times> int \<times> wchar list \<times> errno) result" where
  "scan_number base neg n cutoff cutlim [] acc any e = Inl BadAccess"
| "scan_number base neg n cutoff cutlim (wc # s) acc any e =
     (let i = wctoint wc in
      if i = -1 then Inr (acc, any, wc # s, e)
      else if i \<ge> base then Inr (acc, any, wc # s, e)
      else if any < 0 then scan_number base neg n cutoff cutlim s acc any e
      else if neg then
        if acc < cutoff \<or> (acc = cutoff \<and> i > cutlim)
        then scan_number base neg n cutoff cutlim s (- (2 ^ (n - 1))) (-1) ERANGE
        else scan_number base neg n cutoff cutlim s (acc * base - i) 1 e
      else
        if acc > cutoff \<or> (acc = cutoff \<and> i > cutlim)
        then scan_number base neg n cutoff cutlim s (2 ^ (n - 1) - 1) (-1) ERANGE
        else scan_number base neg n cutoff cutlim s (acc * base + i) 1 e)"

text \<open>
  \<open>cutoff\<close> and \<open>cutlim\<close>, with C's division, which rounds towards zero; \<open>n\<close> is the number of
  bits of \<open>long\<close>.
\<close>

definition number_limits :: "nat \<Rightarrow> bool \<Rightarrow> int \<Rightarrow> int \<times> int" where
  "number_limits n neg base =
     (let cutoff = (if neg then - (2 ^ (n - 1)) else 2 ^ (n - 1) - 1);
          cutlim = cutoff smod base;
          cutoff = cutoff sdiv base in
      if neg then if cutlim > 0 then (cutoff + 1, - (cutlim - base)) else (cutoff, - cutlim)
      else (cutoff, cutlim))"

text \<open>
  The result is the value, what \<open>*endptr\<close> is set to (\<open>None\<close>: left alone) and \<open>il2c_errno\<close>.
\<close>

definition il2c_wtoi32 :: "nat \<Rightarrow> wchar list \<Rightarrow> int \<Rightarrow> (int \<times> wchar list option \<times> errno) result" where
  "il2c_wtoi32 n nptr base =
     (if base \<noteq> 0 \<and> (base < 2 \<or> base > 36) then Inr (0, None, EINVAL)
      else
        bind_result (skip_spaces nptr) (\<lambda>p.
        bind_result (read_sign p) (\<lambda>(neg, p).
        bind_result (read_prefix base p) (\<lambda>(base, p).
          let (cutoff, cutlim) = number_limits n neg base in
          bind_result (scan_number base neg n cutoff cutlim p 0 0 NoError) (\<lambda>(acc, any, s, e).
            Inr (acc, Some (if any \<noteq> 0 then s else nptr), e))))))"

text \<open>
  \<open>il2c_twtoi\<close>: blanks, a sign, digits; \<open>n\<close> is a 32-bit integer that wraps.
\<close>

fun twtoi_sign :: "wchar list \<Rightarrow> (int \<times> wchar list) option result" where
  "twtoi_sign [] = Inl BadAccess"
| "twtoi_sign (ch # s) =
     (if ch = 0x20 \<or> ch = 0x09 then twtoi_sign s
      else if ch = 0x2D then Inr (Some (-1, s))
      else if ch = 0x2B then Inr (Some (1, s))
      else if ch < 0x30 \<or> ch > 0x39 then Inr None
      else Inr (Some (0, ch # s)))"

fun twtoi_digits :: "wchar list \<Rightarrow> bool \<Rightarrow> 32 word \<Rightarrow> (bool \<times> 32 word) result" where
  "twtoi_digits [] f n = Inl BadAccess"
| "twtoi_digits (ch # s) f n =
     (if ch \<ge> 0x30 \<and> ch \<le> 0x39 then twtoi_digits s True (n * 10 + ch - 0x30) else Inr (f, n))"

text \<open>The result: the value stored through the pointer, \<open>None\<close> when the function returns false.\<close>

definition il2c_twtoi :: "wchar list \<Rightarrow> 32 word option result" where
  "il2c_twtoi str =
     bind_result (twtoi_sign str) (\<lambda>r.
     case r of
       None \<Rightarrow> Inr None
     | Some (sign, s) \<Rightarrow>
         bind_result (twtoi_digits s False 0) (\<lambda>(f, n).
           if \<not> f then Inr None
           else if sign \<noteq> 0 then Inr (Some (of_int sign * n)) else Inr (Some n)))"

section \<open>The text of a number\<close>

definition digit_char :: "bool \<Rightarrow> nat \<Rightarrow> wchar" where
  "digit_char hex d = (if hex then g_pHexChars ! d else of_nat d + 0x30)"

abbreviation base_of :: "bool \<Rightarrow> nat" where "base_of hex \<equiv> (if hex then 16 else 10)"

fun digit_text :: "bool \<Rightarrow> nat \<Rightarrow> wchar list" where
  "digit_text hex v =
     (if v < base_of hex then [digit_char hex v]
      else digit_text hex (v div base_of hex) @ [digit_char hex (v mod base_of hex)])"

declare digit_text.simps [simp del]

definition integer_text :: "int \<Rightarrow> wchar list" where
  "integer_text z = (if z < 0 then 0x2D # digit_text False (nat (- z)) else digit_text False (nat z))"

lemma hex_digit_cases:
  "d < (16 :: nat) \<Longrightarrow> d = 0 \<or> d = 1 \<or> d = 2 \<or> d = 3 \<or> d = 4 \<or> d = 5 \<or> d = 6 \<or> d = 7 \<or> d = 8 \<or> d = 9
     \<or> d = 10 \<or> d = 11 \<or> d = 12 \<or> d = 13 \<or> d = 14 \<or> d = 15"
  by presburger

lemma wctoint_digit:
  assumes "d < base_of hex"
  shows "wctoint (digit_char hex d) = int d"
proof (cases hex)
  case True
  have "d < 16" using assms by (cases hex) auto
  from True show ?thesis using hex_digit_cases [OF \<open>d < 16\<close>]
    by (elim disjE) (simp_all add: digit_char_def g_pHexChars_def wctoint_def)
next
  case False
  have "d < 16" using assms by (cases hex) auto
  from False assms show ?thesis using hex_digit_cases [OF \<open>d < 16\<close>]
    by (elim disjE) (simp_all add: digit_char_def wctoint_def)
qed

lemma wctoint_range: "wctoint 0 = -1" "wctoint 0x20 = -1" "wctoint 0x2D = -1" "wctoint 0x2B = -1" "wctoint 0x78 = 33" "wctoint 0x58 = 33"
  by (simp_all add: wctoint_def)

lemma digit_not_special:
  assumes "d < base_of hex"
  shows "digit_char hex d \<noteq> 0" "digit_char hex d \<noteq> 0x20" "digit_char hex d \<noteq> 0x2D" "digit_char hex d \<noteq> 0x2B"
  using wctoint_digit [OF assms] wctoint_range by force+

lemma digit_text_digits: "c \<in> set (digit_text hex v) \<Longrightarrow> \<exists>d < base_of hex. c = digit_char hex d"
proof (induction hex v rule: digit_text.induct)
  case (1 hex v)
  then show ?case
    by (subst (asm) (2) digit_text.simps)
       (auto split: if_splits intro: exI [of _ "v mod 16"] exI [of _ "v mod 10"])
qed

lemma digit_text_nonempty [simp]: "digit_text hex v \<noteq> []"
  by (subst digit_text.simps) simp

lemma digit_text_no_zero: "0 \<notin> set (digit_text hex v)"
  using digit_text_digits digit_not_special(1) by metis

lemma integer_text_no_zero [simp]: "0 \<notin> set (integer_text z)"
  by (simp add: integer_text_def digit_text_no_zero)

lemma digit_text_length: "0 < k \<Longrightarrow> v < base_of hex ^ k \<Longrightarrow> length (digit_text hex v) \<le> k"
proof (induction k arbitrary: v)
  case (Suc k)
  show ?case
  proof (cases "v < base_of hex")
    case True
    then show ?thesis by (subst digit_text.simps) simp
  next
    case False
    then have "0 < k" using Suc.prems by (cases k) auto
    moreover have "v div base_of hex < base_of hex ^ k"
      using Suc.prems(2) by (simp add: less_mult_imp_div_less mult.commute)
    ultimately have "length (digit_text hex (v div base_of hex)) \<le> k" by (rule Suc.IH)
    then show ?thesis using False by (subst digit_text.simps) simp
  qed
qed simp

lemma write_digits_step:
  "write_digits hex v temp i =
     (if i = 0 then Inl BadAccess
      else bind_result (array_write temp (i - 1) (digit_char hex (v mod base_of hex)))
        (\<lambda>temp. if v div base_of hex \<noteq> 0 then write_digits hex (v div base_of hex) temp (i - 1)
               else Inr (temp, i - 1)))"
  by (subst write_digits.simps) (simp add: digit_char_def Let_def)

lemma write_digits_ok:
  assumes "length (digit_text hex v) \<le> i" "i \<le> length temp"
  shows "write_digits hex v temp i =
    Inr (take (i - length (digit_text hex v)) temp @ digit_text hex v @ drop i temp, i - length (digit_text hex v))"
  using assms
proof (induction i arbitrary: v temp)
  case 0
  then show ?case by simp
next
  case (Suc k)
  define i where "i = Suc k"
  have pos: "0 < i" "k = i - 1" and prems: "length (digit_text hex v) \<le> i" "i \<le> length temp"
    using Suc.prems by (simp_all add: i_def)
  define c where "c = digit_char hex (v mod base_of hex)"
  let ?t = "temp[i - 1 := c]"
  have cell: "array_write temp (i - 1) (digit_char hex (v mod base_of hex)) = Inr ?t"
    using pos prems(2) unfolding c_def by (intro array_write_update) simp
  have upd: "?t = take (i - 1) temp @ c # drop i temp" "drop (i - 1) ?t = c # drop i temp"
    using pos prems(2) by (auto simp add: upd_conv_take_nth_drop min_def)
  show ?case
  proof (cases "v < base_of hex")
    case True
    then have digits: "digit_text hex v = [c]" unfolding c_def by (subst digit_text.simps) simp
    have "v div base_of hex = 0" using True by simp
    then have "write_digits hex v temp i = Inr (?t, i - 1)"
      using pos unfolding write_digits_step [of hex v temp i] cell by simp
    then show ?thesis using upd(1) unfolding digits by (simp add: i_def)
  next
    case False
    define w where "w = v div base_of hex"
    have digits: "digit_text hex v = digit_text hex w @ [c]"
      using False unfolding w_def c_def by (subst digit_text.simps) simp
    have nz: "w \<noteq> 0" using False by (simp add: w_def div_eq_0_iff)
    then have "write_digits hex v temp i = write_digits hex w ?t (i - 1)"
      using pos unfolding write_digits_step [of hex v temp i] cell w_def by simp
    also have "\<dots> = Inr (take (i - 1 - length (digit_text hex w)) ?t @ digit_text hex w @ drop (i - 1) ?t,
        i - 1 - length (digit_text hex w))"
      using Suc.IH [of w ?t] prems digits pos by simp
    finally show ?thesis using upd(2) by (simp add: digits i_def)
  qed
qed

lemma copy_out_ok:
  assumes "drop i temp = str @ 0 # rest" "0 \<notin> set str" "b + length str < length buffer"
  shows "copy_out temp i buffer b = Inr (take b buffer @ str @ 0 # drop (b + length str + 1) buffer)"
  using assms
proof (induction str arbitrary: i b buffer)
  case Nil
  then have "i < length temp" "temp ! i = 0"
    by (metis append_Nil drop_eq_Nil linorder_not_le list.distinct(1), metis append_Nil nth_via_drop)
  then show ?case using Nil.prems
    by (subst copy_out.simps) (simp add: upd_conv_take_nth_drop)
next
  case (Cons c str)
  have i: "i < length temp" "temp ! i = c" "drop (Suc i) temp = str @ 0 # rest"
    using Cons.prems(1)
    by (metis append_Cons drop_eq_Nil linorder_not_le list.distinct(1), metis append_Cons nth_via_drop,
        metis append_Cons drop_Suc list.sel(3) tl_drop)
  have "copy_out temp i buffer b = copy_out temp (Suc i) (buffer[b := c]) (Suc b)"
    using i Cons.prems by (subst copy_out.simps) simp
  also have "\<dots> = Inr (take (Suc b) (buffer[b := c]) @ str @ 0 # drop (Suc b + length str + 1) (buffer[b := c]))"
    using Cons.prems i(3) by (intro Cons.IH) auto
  finally show ?case using Cons.prems by (simp add: take_Suc_conv_app_nth)
qed

text \<open>What a formatting call leaves in the buffer.\<close>

definition put_text :: "wchar list \<Rightarrow> wchar list \<Rightarrow> wchar list" where
  "put_text str buffer = str @ 0 # drop (length str + 1) buffer"

lemma put_text_reads [simp]: "0 \<notin> set str \<Longrightarrow> cstr_text (put_text str buffer) = str"
  by (simp add: put_text_def)

lemma put_text_length [simp]: "length str < length buffer \<Longrightarrow> length (put_text str buffer) = length buffer"
  by (simp add: put_text_def)

text \<open>Digits, then copy, for a value that fits the temporary buffer.\<close>

lemma digits_copied:
  assumes len: "0 < bufferLength" "length (digit_text hex v) < bufferLength"
    and room: "b + length (digit_text hex v) < length buffer"
  shows "bind_result (write_digits hex v ((replicate bufferLength 0)[bufferLength - 1 := 0]) (bufferLength - 1))
      (\<lambda>(temp, pTemp). copy_out temp pTemp buffer b) =
    Inr (take b buffer @ put_text (digit_text hex v) (drop b buffer))"
proof -
  let ?n = "bufferLength - 1" and ?d = "digit_text hex v"
  have temp: "(replicate bufferLength 0)[?n := 0] = replicate bufferLength (0 :: wchar)"
    by (simp add: list_eq_iff_nth_eq nth_list_update)
  have "write_digits hex v (replicate bufferLength 0) ?n =
      Inr (take (?n - length ?d) (replicate bufferLength 0) @ ?d @ drop ?n (replicate bufferLength 0), ?n - length ?d)"
    using len by (intro write_digits_ok) auto
  moreover have "drop ?n (replicate bufferLength (0 :: wchar)) = [0]"
    using len(1) by (cases bufferLength) (simp_all add: replicate_append_same [symmetric])
  ultimately show ?thesis unfolding temp
    using copy_out_ok [of "?n - length ?d" "take (?n - length ?d) (replicate bufferLength 0) @ ?d @ [0]" ?d "[]" b buffer]
      len room digit_text_no_zero [of hex v]
    by (simp add: put_text_def min_def add.commute)
qed

lemma sint_cases:
  "sint (v :: 'w::len word) = (if uint v < 2 ^ (LENGTH('w) - 1) then uint v else uint v - 2 ^ LENGTH('w))"
proof -
  obtain n where n: "LENGTH('w) = Suc n" using len_gt_0 [where ?'a = 'w] by (cases "LENGTH('w)") auto
  have u: "0 \<le> uint v" "uint v < 2 * 2 ^ n" using uint_lt2p [of v] by (simp_all add: n)
  have "sint v = take_bit (Suc n) (uint v + 2 ^ n) - 2 ^ n"
    by (simp add: sint_uint n signed_take_bit_eq_take_bit_shift)
  moreover have "take_bit (Suc n) (uint v + 2 ^ n) =
      (if uint v < 2 ^ n then uint v + 2 ^ n else uint v - 2 ^ n)"
  proof (cases "uint v < 2 ^ n")
    case True
    then show ?thesis using u by (simp add: take_bit_eq_mod)
  next
    case False
    have "uint v + 2 ^ n = (uint v - 2 ^ n) + 1 * 2 ^ Suc n" by simp
    then have "(uint v + 2 ^ n) mod 2 ^ Suc n = (uint v - 2 ^ n) mod 2 ^ Suc n" by (simp only: mod_mult_self1)
    then show ?thesis using u False by (simp add: take_bit_eq_mod)
  qed
  ultimately show ?thesis by (simp add: n)
qed
lemma unat_uminus_negative:
  assumes "sint (v :: 'w::len word) < 0"
  shows "unat (- v) = nat (- sint v)"
proof -
  have s: "sint v = uint v - 2 ^ LENGTH('w)" using assms by (auto simp: sint_cases split: if_splits)
  have "uint v \<noteq> 0" using assms by (auto simp: sint_cases split: if_splits)
  then have "0 < uint v" "uint v < 2 ^ LENGTH('w)" using uint_lt2p [of v] uint_ge_0 [of v] by linarith+
  then have "(- uint v) mod 2 ^ LENGTH('w) = 2 ^ LENGTH('w) - uint v"
    by (simp add: zmod_zminus1_eq_if)
  then have "uint (- v) = - sint v" using s by (simp add: uint_word_ariths)
  then show ?thesis by (metis unat_eq_nat_uint)
qed
lemma unat_nonnegative: "0 \<le> sint (v :: 'w::len word) \<Longrightarrow> unat v = nat (sint v)"
proof -
  assume "0 \<le> sint v"
  then have "sint v = uint v" by (simp add: sint_cases split: if_splits) (metis uint_lt2p not_less)
  then show ?thesis by (metis unat_eq_nat_uint)
qed
lemma digit_text_rec:
  "v < base_of hex \<Longrightarrow> digit_text hex v = [digit_char hex v]"
  "base_of hex \<le> v \<Longrightarrow> digit_text hex v = digit_text hex (v div base_of hex) @ [digit_char hex (v mod base_of hex)]"
  by (subst digit_text.simps; simp)+

lemma signed_minimum:
  "sint (int_min :: 32 word) = -2147483648" "sint (int_min :: 64 word) = -9223372036854775808"
  by (simp_all add: int_min_def)

lemma integer_text_minimum:
  "integer_text (-2147483648) = [0x2D, 0x32, 0x31, 0x34, 0x37, 0x34, 0x38, 0x33, 0x36, 0x34, 0x38]"
  "integer_text (-9223372036854775808) =
     [0x2D, 0x39, 0x32, 0x32, 0x33, 0x33, 0x37, 0x32, 0x30, 0x33, 0x36, 0x38, 0x35, 0x34, 0x37, 0x37, 0x35, 0x38, 0x30, 0x38]"
  by (simp_all add: integer_text_def digit_text_rec digit_char_def)

section \<open>Formatting writes the text of the number\<close>

lemma wcscpy_ok: "length s < length buffer \<Longrightarrow> il2c_wcscpy buffer s = Inr (put_text s buffer)"
  by (simp add: il2c_wcscpy_def array_copy_def put_text_def)

lemma inttow_digits:
  assumes "0 < n" "length (digit_text (radix = 16) (unat v)) < n"
    and "length (digit_text (radix = 16) (unat v)) < length buffer"
    and "radix = 16 \<or> oper v buffer = Inr (Inr (buffer, 0, v))"
  shows "IL2C_DECLARE_INTTOW n oper v buffer radix = Inr (put_text (digit_text (radix = 16) (unat v)) buffer)"
  using digits_copied [of n "radix = 16" "unat v" 0 buffer] assms
  by (auto simp: IL2C_DECLARE_INTTOW_def Let_def)

lemma inttow_negative:
  assumes "sint v < 0" "v \<noteq> int_min" "radix \<noteq> 16" "0 < n"
    and "length (digit_text False (nat (- sint v))) < n" "length (integer_text (sint v)) < length buffer"
  shows "IL2C_DECLARE_INTTOW n (IL2C_DECLARE_INTTOW_INT_OPERATOR minimum) v buffer radix =
    Inr (put_text (integer_text (sint v)) buffer)"
proof -
  have "0 < length buffer" using assms(6) by (cases buffer) auto
  then show ?thesis
    using digits_copied [of n False "unat (- v)" 1 "buffer[0 := 0x2D]"] assms unat_uminus_negative [OF assms(1)]
    by (cases buffer) (auto simp: IL2C_DECLARE_INTTOW_def IL2C_DECLARE_INTTOW_INT_OPERATOR_def Let_def
        integer_text_def put_text_def)
qed

lemma inttow_signed:
  fixes v :: "'w::len word"
  assumes "radix \<noteq> 16" and minimum: "integer_text (sint (int_min :: 'w word)) = minimum"
    and k: "0 < k" "2 ^ (LENGTH('w) - 1) < (10 :: nat) ^ k" "k < n"
    and room: "length (integer_text (sint v)) < length buffer"
  shows "IL2C_DECLARE_INTTOW n (IL2C_DECLARE_INTTOW_INT_OPERATOR minimum) v buffer radix =
    Inr (put_text (integer_text (sint v)) buffer)"
proof -
  have small: "nat (sint v) < 10 ^ k" "nat (- sint v) < 10 ^ k"
    using sint_lt [of v] sint_ge [of v] k(2) by (simp_all add: nat_less_iff flip: of_nat_less_iff [where ?'a = int])
  then have digits: "length (digit_text False (nat (sint v))) < n" "length (digit_text False (nat (- sint v))) < n"
    using digit_text_length [OF k(1), of "nat (sint v)" False] digit_text_length [OF k(1), of "nat (- sint v)" False]
      k(3) by simp_all
  show ?thesis
  proof (cases "v = int_min")
    case True
    then show ?thesis using assms(1) minimum room
      by (simp add: IL2C_DECLARE_INTTOW_def IL2C_DECLARE_INTTOW_INT_OPERATOR_def Let_def wcscpy_ok)
  next
    case False
    show ?thesis
    proof (cases "sint v < 0")
      case True
      then show ?thesis using False assms(1) k digits(2) room by (intro inttow_negative) auto
    next
      case neg: False
      then have "IL2C_DECLARE_INTTOW_INT_OPERATOR minimum v buffer = Inr (Inr (buffer, 0, v))"
        using False by (simp add: IL2C_DECLARE_INTTOW_INT_OPERATOR_def)
      then show ?thesis
        using inttow_digits [of n radix v buffer "IL2C_DECLARE_INTTOW_INT_OPERATOR minimum"] assms(1) neg k(3) digits(1) room
          unat_nonnegative [of v] by (simp add: integer_text_def)
    qed
  qed
qed

lemma i32tow_text: "length (integer_text (sint v)) < length buffer \<Longrightarrow>
    il2c_i32tow v buffer 10 = Inr (put_text (integer_text (sint v)) buffer)"
  unfolding il2c_i32tow_def by (rule inttow_signed [where k = 10]) (simp_all add: signed_minimum integer_text_minimum)

lemma i64tow_text: "length (integer_text (sint v)) < length buffer \<Longrightarrow>
    il2c_i64tow v buffer 10 = Inr (put_text (integer_text (sint v)) buffer)"
  unfolding il2c_i64tow_def by (rule inttow_signed [where k = 19]) (simp_all add: signed_minimum integer_text_minimum)

lemma unat_digits: "unat (v :: 'w::len word) < base_of hex ^ k" if "2 ^ LENGTH('w) \<le> base_of hex ^ k"
  using that unsigned_less [where ?'a = nat and ?'b = 'w, of v] by linarith

lemma u32tow_text:
  "length (digit_text (radix = 16) (unat v)) < length buffer \<Longrightarrow>
    il2c_u32tow v buffer radix = Inr (put_text (digit_text (radix = 16) (unat v)) buffer)"
  unfolding il2c_u32tow_def using digit_text_length [of 10 "unat v" "radix = 16"] unat_digits [of "radix = 16" 10 v]
  by (intro inttow_digits) (auto simp: IL2C_DECLARE_INTTOW_UINT_OPERATOR_def split: if_splits)

lemma u64tow_text:
  "length (digit_text (radix = 16) (unat v)) < length buffer \<Longrightarrow>
    il2c_u64tow v buffer radix = Inr (put_text (digit_text (radix = 16) (unat v)) buffer)"
  unfolding il2c_u64tow_def using digit_text_length [of 20 "unat v" "radix = 16"] unat_digits [of "radix = 16" 20 v]
  by (intro inttow_digits) (auto simp: IL2C_DECLARE_INTTOW_UINT_OPERATOR_def split: if_splits)

lemma unsigned_integer_text: "digit_text False (unat v) = integer_text (uint v)"
  by (simp add: integer_text_def)

section \<open>Parsing reads the number\<close>

definition digits_value :: "int \<Rightarrow> int \<Rightarrow> wchar list \<Rightarrow> int" where
  "digits_value base acc ds = foldl (\<lambda>a c. a * base + wctoint c) acc ds"

definition is_digit :: "int \<Rightarrow> wchar \<Rightarrow> bool" where
  "is_digit base c \<longleftrightarrow> 0 \<le> wctoint c \<and> wctoint c < base"

lemma digits_value_simps [simp]:
  "digits_value base acc [] = acc"
  "digits_value base acc (c # ds) = digits_value base (acc * base + wctoint c) ds"
  "digits_value base acc (ds @ [c]) = digits_value base acc ds * base + wctoint c"
  by (simp_all add: digits_value_def)

lemma digits_value_grows:
  "1 \<le> base \<Longrightarrow> 0 \<le> acc \<Longrightarrow> \<forall>c \<in> set ds. is_digit base c \<Longrightarrow> acc \<le> digits_value base acc ds"
proof (induction ds arbitrary: acc)
  case (Cons c ds)
  have grow: "acc \<le> acc * base + wctoint c"
    using Cons.prems mult_left_mono [of 1 base acc] by (simp add: is_digit_def)
  also have "\<dots> \<le> digits_value base (acc * base + wctoint c) ds"
    using Cons.prems grow by (intro Cons.IH) auto
  finally show ?case by simp
qed simp

lemma digit_text_value: "digits_value (int (base_of hex)) 0 (digit_text hex v) = int v"
proof (induction v rule: less_induct)
  case (less v)
  show ?case
  proof (cases "v < base_of hex")
    case True
    then show ?thesis by (simp add: digit_text_rec(1) wctoint_digit)
  next
    case False
    have "v div base_of hex < v" using False by (intro div_less_dividend) (auto split: if_splits)
    then have "digits_value (int (base_of hex)) 0 (digit_text hex (v div base_of hex)) = int (v div base_of hex)"
      by (rule less.IH)
    moreover have "digit_text hex v = digit_text hex (v div base_of hex) @ [digit_char hex (v mod base_of hex)]"
      using False by (intro digit_text_rec(2)) simp
    moreover have "wctoint (digit_char hex (v mod base_of hex)) = int (v mod base_of hex)"
      by (intro wctoint_digit) simp
    ultimately have "digits_value (int (base_of hex)) 0 (digit_text hex v) =
        int (v div base_of hex) * int (base_of hex) + int (v mod base_of hex)" by simp
    then show ?thesis by (metis div_mult_mod_eq of_nat_add of_nat_mult)
  qed
qed

lemma digit_text_is_digit: "c \<in> set (digit_text hex v) \<Longrightarrow> is_digit (int (base_of hex)) c"
  using digit_text_digits [of c hex v] wctoint_digit [of _ hex] by (auto simp: is_digit_def)

text \<open>The scan: \<open>m\<close> is the largest magnitude, \<open>sg\<close> the sign.\<close>

lemma scan_saturated:
  assumes "\<forall>c \<in> set ds. is_digit base c" "\<not> is_digit base stop" "wctoint stop = -1 \<or> base \<le> wctoint stop"
  shows "scan_number base neg n cutoff cutlim (ds @ stop # r) acc (-1) e = Inr (acc, -1, stop # r, e)"
  using assms(1)
proof (induction ds)
  case Nil
  then show ?case using assms(2,3) by (auto simp: Let_def)
next
  case (Cons c ds)
  then show ?case by (auto simp: Let_def is_digit_def)
qed

lemma over_limit:
  assumes "0 < base" "0 \<le> i" "i < base"
  shows "(m div base < a \<or> (a = m div base \<and> m mod base < i)) \<longleftrightarrow> m < a * base + (i :: int)"
proof -
  have m: "m = m div base * base + m mod base" "0 \<le> m mod base" "m mod base < base" using assms by simp_all
  consider "m div base < a" | "a = m div base" | "a < m div base" by linarith
  then show ?thesis
  proof cases
    case 1
    then have "(m div base + 1) * base \<le> a * base" using assms by (intro mult_right_mono) auto
    then have "m div base * base + base \<le> a * base" by (simp add: distrib_right)
    then have "m < a * base + i" using m assms by linarith
    then show ?thesis using 1 by simp
  next
    case 2
    then have e: "a * base = m div base * base" by (simp only:)
    have "m mod base < i \<longleftrightarrow> m < a * base + i" unfolding e using m(1) by (intro iffI; linarith)
    then show ?thesis using 2 by auto
  next
    case 3
    then have "(a + 1) * base \<le> m div base * base" using assms by (intro mult_right_mono) auto
    then have "a * base + base \<le> m div base * base" by (simp add: distrib_right)
    then have "\<not> m < a * base + i" using m assms by linarith
    then show ?thesis using 3 by simp
  qed
qed

lemma scan_digits:
  assumes m_def: "m = (if neg then 2 ^ (n - 1) else 2 ^ (n - 1) - 1)" and sg_def: "sg = (if neg then -1 else 1)"
    and base: "2 \<le> base" and stop: "wctoint stop = -1 \<or> base \<le> wctoint stop" "\<not> is_digit base stop"
    and ds: "\<forall>c \<in> set ds. is_digit base c" and acc: "0 \<le> a" "a \<le> m" and any: "0 \<le> any"
  shows "scan_number base neg n (sg * (m div base)) (m mod base) (ds @ stop # r) (sg * a) any e =
    Inr (if digits_value base a ds \<le> m
         then (sg * digits_value base a ds, if ds = [] then any else 1, stop # r, e)
         else (sg * m, -1, stop # r, ERANGE))"
  using ds acc any
proof (induction ds arbitrary: a any)
  case Nil
  then show ?case using stop by (auto simp: Let_def is_digit_def)
next
  case (Cons c ds)
  define i where "i = wctoint c"
  have i: "0 \<le> i" "i < base" using Cons.prems(1) by (simp_all add: is_digit_def i_def)
  let ?p = "ds @ stop # r"
  have step: "scan_number base neg n (sg * (m div base)) (m mod base) (c # ?p) (sg * a) any e =
      (if m < a * base + i then scan_number base neg n (sg * (m div base)) (m mod base) ?p (sg * m) (-1) ERANGE
       else scan_number base neg n (sg * (m div base)) (m mod base) ?p (sg * (a * base + i)) 1 e)"
    using i over_limit [of base i m a] base Cons.prems(4)
    by (cases neg) (auto simp add: Let_def sg_def m_def i_def [symmetric])
  have pos: "0 \<le> a * base + i" using i base Cons.prems(2) by simp
  show ?case
  proof (cases "m < a * base + i")
    case True
    have "a * base + i \<le> digits_value base (a * base + i) ds"
      using base Cons.prems(1) pos by (intro digits_value_grows) auto
    then have over: "\<not> digits_value base a (c # ds) \<le> m" using True by (simp add: i_def)
    have "scan_number base neg n (sg * (m div base)) (m mod base) ?p (sg * m) (-1) ERANGE =
        Inr (sg * m, -1, stop # r, ERANGE)"
      using Cons.prems(1) stop by (intro scan_saturated) auto
    then show ?thesis using over step True by simp
  next
    case False
    then have "scan_number base neg n (sg * (m div base)) (m mod base) ?p (sg * (a * base + i)) 1 e =
        Inr (if digits_value base (a * base + i) ds \<le> m
             then (sg * digits_value base (a * base + i) ds, if ds = [] then 1 else 1, stop # r, e)
             else (sg * m, -1, stop # r, ERANGE))"
      using Cons.prems(1) pos by (intro Cons.IH) auto
    then show ?thesis using step False by (simp add: i_def)
  qed
qed

definition clamp_long :: "nat \<Rightarrow> int \<Rightarrow> int" where
  "clamp_long n z = max (- (2 ^ (n - 1))) (min (2 ^ (n - 1) - 1) z)"

text \<open>The text of a sign, and whether it negates.\<close>

datatype sign = NoSign | Plus | Minus

primrec sign_text :: "sign \<Rightarrow> wchar list" where
  "sign_text NoSign = []" | "sign_text Plus = [0x2B]" | "sign_text Minus = [0x2D]"

definition signed_value :: "sign \<Rightarrow> int \<Rightarrow> int" where
  "signed_value sg v = (if sg = Minus then - v else v)"

lemma skip_spaces_ok: "p \<noteq> [] \<Longrightarrow> hd p \<noteq> 0x20 \<Longrightarrow> skip_spaces (replicate k 0x20 @ p) = Inr p"
  by (induction k) (cases p; simp)+

lemma read_prefix_ok:
  assumes "2 \<le> base" "\<forall>c \<in> set ds. is_digit base c" "\<not> is_digit base stop"
    and x: "base = 16 \<Longrightarrow> stop \<noteq> 0x78 \<and> stop \<noteq> 0x58"
  shows "read_prefix base (ds @ stop # r) = Inr (base, ds @ stop # r)"
proof (cases ds)
  case Nil
  have "stop \<noteq> 0x30" using assms(1,3) by (auto simp: is_digit_def wctoint_def)
  then show ?thesis using Nil assms(1) by (simp add: read_prefix_def)
next
  case (Cons c ds')
  have "hd (ds' @ stop # r) \<noteq> 0x78 \<and> hd (ds' @ stop # r) \<noteq> 0x58" if "base = 16"
    using assms that Cons x wctoint_range by (cases ds') (auto simp: is_digit_def)
  then show ?thesis using Cons assms(1) by (cases "ds' @ stop # r") (auto simp: read_prefix_def)
qed

lemma truncated_division:
  fixes m base :: int
  assumes "0 < base" "0 \<le> m"
  shows "m smod base = m mod base" "m sdiv base = m div base"
    and "(- m) smod base = - (m mod base)" "(- m) sdiv base = - (m div base)"
proof -
  show *: "m smod base = m mod base" "m sdiv base = m div base"
    using assms by (simp_all add: signed_divide_int_eq_divide_int signed_modulo_int_eq_modulo_int sgn_if)
  then show "(- m) smod base = - (m mod base)" "(- m) sdiv base = - (m div base)" by simp_all
qed

lemma number_limits_eq:
  assumes "2 \<le> base" "m = (if neg then 2 ^ (n - 1) else 2 ^ (n - 1) - 1)"
  shows "number_limits n neg base = ((if neg then -1 else 1) * (m div base), m mod base)"
proof -
  have "0 \<le> m" "\<not> m mod base < 0" using assms by (simp_all add: not_less)
  then show ?thesis using truncated_division [of base m] assms by (auto simp: number_limits_def Let_def)
qed

text \<open>A number: blanks, a sign, digits of the base up to a character that is not one.\<close>

lemma wtoi32_result:
  assumes n: "0 < n" and base: "2 \<le> base" "base \<le> 36"
    and ds: "\<forall>c \<in> set ds. is_digit base c" and stop: "\<not> is_digit base stop"
    and x: "base = 16 \<Longrightarrow> stop \<noteq> 0x78 \<and> stop \<noteq> 0x58"
    and none: "ds = [] \<Longrightarrow> stop \<noteq> 0x20 \<and> stop \<noteq> 0x2B \<and> stop \<noteq> 0x2D"
    and nptr: "nptr = replicate k 0x20 @ sign_text sg @ ds @ stop # r"
    and v: "v = signed_value sg (digits_value base 0 ds)"
  shows "il2c_wtoi32 n nptr base =
    Inr (clamp_long n v, Some (if ds = [] then nptr else stop # r),
         if clamp_long n v = v then NoError else ERANGE)"
proof -
  let ?p = "ds @ stop # r"
  have first: "hd ?p \<noteq> 0x20" "hd ?p \<noteq> 0x2B" "hd ?p \<noteq> 0x2D"
    using ds none wctoint_range by (cases ds; auto simp: is_digit_def)+
  then have "hd (sign_text sg @ ?p) \<noteq> 0x20" by (cases sg) auto
  then have spaces: "skip_spaces nptr = Inr (sign_text sg @ ?p)"
    unfolding nptr by (intro skip_spaces_ok) auto
  have sign: "read_sign (sign_text sg @ ?p) = Inr (sg = Minus, ?p)"
    using first by (cases sg; cases ds) auto
  have prefix: "read_prefix base ?p = Inr (base, ?p)"
    using base ds stop x by (intro read_prefix_ok) auto
  define m :: int where "m = (if sg = Minus then 2 ^ (n - 1) else 2 ^ (n - 1) - 1)"
  define s :: int where "s = (if sg = Minus then -1 else 1)"
  have m: "0 \<le> m" by (simp add: m_def)
  have ends: "wctoint stop = -1 \<or> base \<le> wctoint stop"
    using stop by (auto simp: is_digit_def wctoint_def split: if_splits)
  have scan: "scan_number base (sg = Minus) n (s * (m div base)) (m mod base) ?p 0 0 NoError =
      Inr (if digits_value base 0 ds \<le> m
           then (s * digits_value base 0 ds, if ds = [] then 0 else 1, stop # r, NoError)
           else (s * m, -1, stop # r, ERANGE))"
    using scan_digits [of m "sg = Minus" n s base stop ds 0 0 r NoError] base ds stop ends m
    by (simp add: m_def s_def)
  have limits: "number_limits n (sg = Minus) base = (s * (m div base), m mod base)"
    using number_limits_eq [of base m "sg = Minus" n] base by (simp add: m_def s_def)
  have pos: "0 \<le> digits_value base 0 ds" using base ds by (intro digits_value_grows) auto
  have empty: "ds = [] \<Longrightarrow> digits_value base 0 ds \<le> m" using m by simp
  have "il2c_wtoi32 n nptr base =
      Inr (if digits_value base 0 ds \<le> m
           then (s * digits_value base 0 ds, Some (if ds = [] then nptr else stop # r), NoError)
           else (s * m, Some (stop # r), ERANGE))"
    using base spaces sign prefix scan limits empty by (simp add: il2c_wtoi32_def split: if_split)
  moreover have "(digits_value base 0 ds \<le> m \<longleftrightarrow> clamp_long n v = v) \<and>
      (\<not> digits_value base 0 ds \<le> m \<longrightarrow> clamp_long n v = s * m)"
  proof -
    define h :: int where "h = 2 ^ (n - Suc 0)"
    have "1 \<le> h" by (simp add: h_def)
    then show ?thesis using pos
      by (auto simp: clamp_long_def v signed_value_def m_def s_def h_def [symmetric] min_def max_def)
  qed
  moreover have "v = s * digits_value base 0 ds" by (simp add: v signed_value_def s_def)
  ultimately show ?thesis using empty by auto
qed

text \<open>The text of an integer parses to it, clamped to \<open>long\<close>.\<close>

lemma integer_text_parts:
  "integer_text z = sign_text (if z < 0 then Minus else NoSign) @ digit_text False (nat \<bar>z\<bar>)"
  by (simp add: integer_text_def)

lemma wtoi32_integer_text:
  assumes n: "0 < n" and c: "\<not> is_digit 10 c"
  shows "il2c_wtoi32 n (replicate k 0x20 @ integer_text z @ c # r) 10 =
    Inr (clamp_long n z, Some (c # r), if clamp_long n z = z then NoError else ERANGE)"
proof -
  let ?sg = "if z < 0 then Minus else NoSign" and ?ds = "digit_text False (nat \<bar>z\<bar>)"
  have "z = signed_value ?sg (digits_value 10 0 ?ds)"
    using digit_text_value [of False "nat \<bar>z\<bar>"] by (simp add: signed_value_def)
  moreover have "\<forall>c \<in> set ?ds. is_digit 10 c" using digit_text_is_digit [of _ False] by auto
  ultimately show ?thesis
    using wtoi32_result [OF n, of 10 ?ds c _ k ?sg r z] c by (simp add: integer_text_parts)
qed

section \<open>The wrapping parser\<close>

lemma twtoi_digits_text:
  assumes "c < 0x30 \<or> c > 0x39" "\<forall>d \<in> set ds. 0x30 \<le> d \<and> d \<le> 0x39"
  shows "twtoi_digits (ds @ c # r) f n =
    Inr (f \<or> ds \<noteq> [], of_int (digits_value 10 0 ds) + n * 10 ^ length ds)"
  using assms(2)
proof (induction ds arbitrary: f n)
  case Nil
  then show ?case using assms(1) by auto
next
  case (Cons d ds)
  have add: "digits_value 10 a ds = digits_value 10 0 ds + a * 10 ^ length ds" for a
  proof (induction ds arbitrary: a)
    case (Cons e es)
    have "digits_value 10 a (e # es) = digits_value 10 0 es + (a * 10 + wctoint e) * 10 ^ length es"
      by (simp only: digits_value_simps Cons [of "a * 10 + wctoint e"])
    moreover have "digits_value 10 0 (e # es) = digits_value 10 0 es + wctoint e * 10 ^ length es"
      using Cons [of "wctoint e"] by simp
    ultimately show ?case by (simp add: distrib_right)
  qed simp
  have w: "(of_int (wctoint d) :: 32 word) = d - 0x30"
    using Cons.prems by (simp add: wctoint_def)
  have "twtoi_digits ((d # ds) @ c # r) f n = twtoi_digits (ds @ c # r) True (n * 10 + d - 0x30)"
    using Cons.prems by simp
  also have "\<dots> = Inr (True, of_int (digits_value 10 0 ds) + (n * 10 + d - 0x30) * 10 ^ length ds)"
    using Cons by simp
  also have "(of_int (digits_value 10 0 ds) + (n * 10 + d - 0x30) * 10 ^ length ds :: 32 word) =
      of_int (digits_value 10 0 (d # ds)) + n * 10 ^ length (d # ds)"
    by (simp add: add [of "wctoint d"] w algebra_simps)
  finally show ?case by simp
qed

lemma decimal_range: "is_digit 10 d \<longleftrightarrow> 0x30 \<le> d \<and> d \<le> 0x39"
proof -
  have "0x30 \<le> d \<Longrightarrow> d \<le> 0x39 \<Longrightarrow> uint (d - 0x30) < 10"
    using uint_minus_simple_alt [of "0x30" d] by (simp add: word_le_def)
  then show ?thesis by (auto simp: is_digit_def wctoint_def)
qed

lemma twtoi_integer_text:
  assumes "\<not> is_digit 10 c"
  shows "il2c_twtoi (replicate k 0x20 @ integer_text z @ c # r) = Inr (Some (of_int z))"
proof -
  let ?ds = "digit_text False (nat \<bar>z\<bar>)" and ?sg = "if z < 0 then Minus else NoSign"
  have ds: "\<forall>d \<in> set ?ds. 0x30 \<le> d \<and> d \<le> 0x39"
    using digit_text_is_digit [of _ False "nat \<bar>z\<bar>"] by (auto simp: decimal_range)
  then obtain d es where d: "?ds = d # es" "0x30 \<le> d" "d \<le> 0x39" "d \<noteq> 0x20" "d \<noteq> 0x09" "d \<noteq> 0x2D" "d \<noteq> 0x2B"
  proof -
    obtain d es where d: "?ds = d # es" by (cases ?ds) auto
    then have "0x30 \<le> d" "d \<le> 0x39" using ds by simp_all
    moreover from this have "d \<noteq> 0x20 \<and> d \<noteq> 0x09 \<and> d \<noteq> 0x2D \<and> d \<noteq> 0x2B" by auto
    ultimately show ?thesis using d by (intro that) auto
  qed
  have skip: "twtoi_sign (replicate k 0x20 @ p) = twtoi_sign p" for p by (induction k) simp_all
  have "twtoi_sign (integer_text z @ c # r) = Inr (Some (if z < 0 then -1 else 0, ?ds @ c # r))"
    using d by (auto simp: integer_text_parts)
  moreover have "twtoi_digits (?ds @ c # r) False 0 = Inr (True, of_int \<bar>z\<bar>)"
    using twtoi_digits_text [OF _ ds, of c r False 0] assms digit_text_value [of False "nat \<bar>z\<bar>"]
    by (auto simp: decimal_range not_le)
  ultimately show ?thesis by (simp add: il2c_twtoi_def skip)
qed

section \<open>Properties\<close>

lemma integer_text_length:
  assumes "0 < k" "\<bar>z\<bar> < 10 ^ k"
  shows "length (integer_text z) \<le> (if z < 0 then k + 1 else k)"
proof -
  have "nat \<bar>z\<bar> < base_of False ^ k" using assms(2) by (simp add: nat_less_iff)
  then show ?thesis using digit_text_length [OF assms(1), of "nat \<bar>z\<bar>" False] by (cases "z < 0") (simp_all add: integer_text_parts)
qed

lemma clamp_sint [simp]: "clamp_long (LENGTH('w)) (sint (v :: 'w::len word)) = sint v"
  using sint_lt [of v] sint_ge [of v] by (simp add: clamp_long_def)

lemma signed_text_length:
  fixes v :: "32 word" and x :: "64 word"
  shows "length (integer_text (sint v)) \<le> 11" "length (integer_text (sint x)) \<le> 20"
proof -
  have "\<bar>sint v\<bar> < 10 ^ 10" "\<bar>sint x\<bar> < 10 ^ 19"
    using sint_lt [of v] sint_ge [of v] sint_lt [of x] sint_ge [of x] by (simp_all add: abs_less_iff)
  then show "length (integer_text (sint v)) \<le> 11" "length (integer_text (sint x)) \<le> 20"
    using integer_text_length [of 10 "sint v"] integer_text_length [of 19 "sint x"] by (simp_all split: if_splits)
qed

lemma zero_is_no_digit [simp]: "\<not> is_digit base 0"
  by (simp add: is_digit_def wctoint_range)

text \<open>
  C17: the runtime's parser reads blanks, an optional sign and digits of the base up to the
  first character that is not one, and returns their value clamped to the range of
  \<open>long\<close>, with \<open>ERANGE\<close> exactly when it had to clamp; \<open>endptr\<close> points behind the
  digits, or to the start of the text when there is no digit.
\<close>

theorem wtoi_reads_clamped_number:
  assumes "0 < n" and "2 \<le> base" "base \<le> 36"
    and "\<forall>c \<in> set ds. is_digit base c" and "\<not> is_digit base stop"
    and "base = 16 \<Longrightarrow> stop \<noteq> 0x78 \<and> stop \<noteq> 0x58"
    and "ds = [] \<Longrightarrow> stop \<noteq> 0x20 \<and> stop \<noteq> 0x2B \<and> stop \<noteq> 0x2D"
    and "nptr = replicate k 0x20 @ sign_text sg @ ds @ stop # r"
    and "v = signed_value sg (digits_value base 0 ds)"
  shows "il2c_wtoi32 n nptr base =
    Inr (max (- (2 ^ (n - 1))) (min (2 ^ (n - 1) - 1) v), Some (if ds = [] then nptr else stop # r),
         if - (2 ^ (n - 1)) \<le> v \<and> v < 2 ^ (n - 1) then NoError else ERANGE)"
proof -
  have "clamp_long n v = v \<longleftrightarrow> - (2 ^ (n - 1)) \<le> v \<and> v < 2 ^ (n - 1)"
    by (auto simp: clamp_long_def min_def max_def)
  then show ?thesis using wtoi32_result [OF assms] by (simp add: clamp_long_def)
qed

text \<open>The value \<open>-70000\<close> is outside a 16-bit \<open>long\<close>: the digits \<open>70000\<close> followed by \<open>h\<close>.\<close>

lemma wtoi_reads_clamped_number_witness:
  "il2c_wtoi32 16 [0x20, 0x2D, 0x37, 0x30, 0x30, 0x30, 0x30, 0x68, 0] 10 = Inr (-32768, Some [0x68, 0], ERANGE)"
  using wtoi_reads_clamped_number [of 16 10 "[0x37, 0x30, 0x30, 0x30, 0x30]" "0x68"
      "[0x20, 0x2D, 0x37, 0x30, 0x30, 0x30, 0x30, 0x68, 0]" 1 Minus "[0]" "-70000"]
  by (simp add: is_digit_def wctoint_def signed_value_def)



end
