(* ===== verification/Wide_String.thy ===== *)
theory Wide_String
  imports Wide_Number
begin

text \<open>
  System.String (src/System/String.c): creation from C strings and UTF-8, comparison, hash,
  concatenation, substrings, indexing.  A string object is immutable; the state is the
  store of string bodies by object address, each the cells that \<open>string_body__\<close> points to.
  As in the delegates theory the address of a new object is the allocator's choice and an
  argument (\<open>pNew\<close>).  The allocator clears the body, so the cells start as zero.
  The lemmas relate each operation to the text of its arguments, on every branch, and show
  that bodies stay terminated and existing strings are never changed.
\<close>

section \<open>The store\<close>

type_synonym strings = "addr \<rightharpoonup> wchar list"

definition get_string :: "strings \<Rightarrow> addr \<Rightarrow> wchar list result" where
  "get_string s p = (case s p of None \<Rightarrow> Inl BadAccess | Some b \<Rightarrow> Inr b)"

definition sizeof_wchar :: nat where "sizeof_wchar = 4"

text \<open>The constant object of the literal \<open>\<close>; it is no heap address.\<close>

definition System_String_Empty :: addr where "System_String_Empty = 16"

definition new_string_internal :: "nat \<Rightarrow> wchar list" where
  "new_string_internal byteSize = replicate (byteSize div sizeof_wchar) 0"

text \<open>\<open>(int32_t)il2c_wcslen(body)\<close>\<close>

definition wcslen32 :: "wchar list \<Rightarrow> int result" where
  "wcslen32 b = bind_result (cstr_len b) (\<lambda>n. Inr (sint (of_nat n :: 32 word)))"

section \<open>Creation\<close>

text \<open>\<open>length + 1\<close> is computed in 32 bits.\<close>

definition il2c_new_string_with_length ::
  "strings \<Rightarrow> addr \<Rightarrow> wchar list \<Rightarrow> u32 \<Rightarrow> (addr \<times> strings) result" where
  "il2c_new_string_with_length s pNew pString len =
     (let p = new_string_internal (unat (len + 1) * sizeof_wchar) in
      bind_result (array_copy p 0 pString 0 (unat len)) (\<lambda>p.
      bind_result (array_write p (unat len) 0) (\<lambda>p. Inr (pNew, s(pNew \<mapsto> p)))))"

definition il2c_new_string :: "strings \<Rightarrow> addr \<Rightarrow> wchar list \<Rightarrow> (addr \<times> strings) result" where
  "il2c_new_string s pNew pString =
     bind_result (cstr_len pString) (\<lambda>n. il2c_new_string_with_length s pNew pString (of_nat n))"

text \<open>
  UTF-8: \<open>char\<close> is signed on some targets (x86) and unsigned on others (ARM); its value
  decides the branches.
\<close>

definition char_value :: "bool \<Rightarrow> u8 \<Rightarrow> int" where
  "char_value schar ch = (if schar then sint ch else uint ch)"

function utf8_length :: "bool \<Rightarrow> bool \<Rightarrow> u8 list \<Rightarrow> int \<Rightarrow> int result" where
  "utf8_length schar detect [] len = Inl BadAccess"
| "utf8_length schar detect (ch # p) len =
     (let ch0 = char_value schar ch in
      if ch0 = 0 then Inr len
      else if ch0 \<le> 0x7f then utf8_length schar detect p (len + 1)
      else if ch0 \<le> 0xdf then utf8_length schar detect (drop 1 p) (len + 1)
      else if ch0 \<le> 0xef then utf8_length schar detect (drop 2 p) (len + 1)
      else if ch0 \<le> 0xf7 then utf8_length schar detect (drop 3 p) (len + 1)
      else if ch0 \<le> 0xfb then utf8_length schar detect (drop 4 p) (len + 1)
      else if ch0 \<le> 0xfd then utf8_length schar detect (drop 5 p) (len + 1)
      else if detect then Inr (- len)
      else utf8_length schar detect p (len + 1))"
  by pat_completeness auto
termination by (relation "measure (\<lambda>(_, _, p, _). length p)") auto

definition il2c_get_utf8_length :: "bool \<Rightarrow> u8 list \<Rightarrow> bool \<Rightarrow> int result" where
  "il2c_get_utf8_length schar pUtf8String detectInvalidChars = utf8_length schar detectInvalidChars pUtf8String 1"

text \<open>The decoder writes through \<open>pDest\<close>, an index into the destination; it returns the last position.\<close>

fun il2c_utf16_from_utf8_and_get_last ::
  "bool \<Rightarrow> wchar list \<Rightarrow> nat \<Rightarrow> u8 list \<Rightarrow> (wchar list \<times> nat) result" where
  "il2c_utf16_from_utf8_and_get_last schar dst pDest [] = Inl BadAccess"
| "il2c_utf16_from_utf8_and_get_last schar dst pDest (c0 # p) =
     (let ch0 = char_value schar c0; wc = \<lambda>c. of_int (char_value schar c) :: wchar in
      if ch0 = 0 then bind_result (array_write dst pDest 0) (\<lambda>dst. Inr (dst, pDest))
      else if ch0 \<le> 0x7f then
        bind_result (array_write dst pDest (wc c0)) (\<lambda>dst. il2c_utf16_from_utf8_and_get_last schar dst (Suc pDest) p)
      else (case p of [] \<Rightarrow> Inl BadAccess | c1 # p1 \<Rightarrow>
        if ch0 \<le> 0xdf then
          bind_result (array_write dst pDest (push_bit 6 (wc c0 AND 0x1f) OR (wc c1 AND 0x3f)))
            (\<lambda>dst. il2c_utf16_from_utf8_and_get_last schar dst (Suc pDest) p1)
        else (case p1 of [] \<Rightarrow> Inl BadAccess | c2 # p2 \<Rightarrow>
          if ch0 \<le> 0xef then
            bind_result (array_write dst pDest
                (push_bit 8 (wc c0 AND 0x0f) OR push_bit 6 (wc c1 AND 0x3f) OR (wc c2 AND 0x3f)))
              (\<lambda>dst. il2c_utf16_from_utf8_and_get_last schar dst (Suc pDest) p2)
          else
            bind_result (array_write dst pDest 0x3F)
              (\<lambda>dst. il2c_utf16_from_utf8_and_get_last schar dst (Suc pDest) p2))))"

definition il2c_new_string_from_utf8 ::
  "bool \<Rightarrow> strings \<Rightarrow> addr \<Rightarrow> u8 list option \<Rightarrow> (addr \<times> strings) result" where
  "il2c_new_string_from_utf8 schar s pNew pUtf8String =
     (case pUtf8String of None \<Rightarrow> Inr (NULL, s)
      | Some p \<Rightarrow>
          bind_result (il2c_get_utf8_length schar p False) (\<lambda>len.
          il2c_assert (0 \<le> len)
          (bind_result (il2c_utf16_from_utf8_and_get_last schar (new_string_internal (nat len * sizeof_wchar)) 0 p)
            (\<lambda>(body, _). Inr (pNew, s(pNew \<mapsto> body))))))"

definition il2c_c_str :: "strings \<Rightarrow> addr \<Rightarrow> wchar list option result" where
  "il2c_c_str s str = (if str \<noteq> NULL then bind_result (get_string s str) (\<lambda>b. Inr (Some b)) else Inr None)"

section \<open>Comparison and hash\<close>

text \<open>\<open>wcscmp(a, b) == 0\<close>\<close>

fun wcs_equal :: "wchar list \<Rightarrow> wchar list \<Rightarrow> bool result" where
  "wcs_equal (x # xs) (y # ys) = (if x \<noteq> y then Inr False else if x = 0 then Inr True else wcs_equal xs ys)"
| "wcs_equal _ _ = Inl BadAccess"

definition System_String_ToString :: "strings \<Rightarrow> addr \<Rightarrow> addr result" where
  "System_String_ToString s this = il2c_assert (this \<noteq> NULL) (Inr this)"

definition System_String_Equals :: "strings \<Rightarrow> addr \<Rightarrow> addr \<Rightarrow> bool result" where
  "System_String_Equals s this obj =
     il2c_assert (this \<noteq> NULL)
     (bind_result (get_string s this) (\<lambda>a.
       if this = obj then Inr True
       else if obj = NULL then Inr False
       else bind_result (get_string s obj) (wcs_equal a)))"

text \<open>The objects in the store are those of type System.String; a cast of any other throws.\<close>

definition System_String_Equals_Object :: "strings \<Rightarrow> addr \<Rightarrow> addr \<Rightarrow> bool result" where
  "System_String_Equals_Object s this obj =
     il2c_assert (this \<noteq> NULL)
     (bind_result (if obj = NULL \<or> s obj \<noteq> None then Inr obj else Inl InvalidCastException)
       (System_String_Equals s this))"

fun hash_step :: "wchar list \<Rightarrow> u32 \<Rightarrow> u32 result" where
  "hash_step [] h = Inl BadAccess"
| "hash_step (ch # p) h =
     (if ch = 0 then Inr h
      else hash_step p (push_bit 16 h XOR (NOT (signed_take_bit 15 ch) AND 0xffff)))"

definition System_String_GetHashCode :: "strings \<Rightarrow> addr \<Rightarrow> u32 result" where
  "System_String_GetHashCode s this = il2c_assert (this \<noteq> NULL) (bind_result (get_string s this) (\<lambda>b. hash_step b 0))"

section \<open>Concatenation and substrings\<close>

definition System_String_Concat :: "strings \<Rightarrow> addr \<Rightarrow> addr \<Rightarrow> addr \<Rightarrow> (addr \<times> strings) result" where
  "System_String_Concat s pNew str0 str1 =
     (if str0 = NULL then Inr (if str1 = NULL then System_String_Empty else str1, s)
      else if str1 = NULL then Inr (str0, s)
      else
        bind_result (get_string s str0) (\<lambda>b0.
        bind_result (get_string s str1) (\<lambda>b1.
        bind_result (cstr_len b0) (\<lambda>n0.
        bind_result (cstr_len b1) (\<lambda>n1.
          let p = new_string_internal (n0 * sizeof_wchar + n1 * sizeof_wchar + sizeof_wchar) in
          bind_result (array_copy p 0 b0 0 n0) (\<lambda>p.
          bind_result (array_copy p n0 b1 0 (n1 + 1)) (\<lambda>p.
            Inr (pNew, s(pNew \<mapsto> p)))))))))"

text \<open>
  \<open>Concat(object, object)\<close>: the virtual \<open>ToString\<close> of the arguments is an argument; it may
  allocate.
\<close>

definition System_String_Concat_Object ::
  "(strings \<Rightarrow> addr \<Rightarrow> (addr \<times> strings) result) \<Rightarrow> strings \<Rightarrow> addr \<Rightarrow> addr \<Rightarrow> addr \<Rightarrow> (addr \<times> strings) result" where
  "System_String_Concat_Object to_string s pNew arg0 arg1 =
     il2c_assert (arg0 \<noteq> NULL)
     (il2c_assert (arg1 \<noteq> NULL)
     (bind_result (to_string s arg0) (\<lambda>(str0, s).
      bind_result (to_string s arg1) (\<lambda>(str1, s).
      System_String_Concat s pNew str0 str1))))"

definition System_String_Concat3 :: "strings \<Rightarrow> addr \<Rightarrow> addr \<Rightarrow> addr \<Rightarrow> addr \<Rightarrow> (addr \<times> strings) result" where
  "System_String_Concat3 s pNew str0 str1 str2 =
     il2c_assert (str0 \<noteq> NULL)
     (il2c_assert (str1 \<noteq> NULL)
     (il2c_assert (str2 \<noteq> NULL)
     (bind_result (get_string s str0) (\<lambda>b0.
      bind_result (get_string s str1) (\<lambda>b1.
      bind_result (get_string s str2) (\<lambda>b2.
      bind_result (cstr_len b0) (\<lambda>n0.
      bind_result (cstr_len b1) (\<lambda>n1.
      bind_result (cstr_len b2) (\<lambda>n2.
        let p = new_string_internal (n0 * sizeof_wchar + n1 * sizeof_wchar + n2 * sizeof_wchar + sizeof_wchar) in
        bind_result (array_copy p 0 b0 0 n0) (\<lambda>p.
        bind_result (array_copy p n0 b1 0 n1) (\<lambda>p.
        bind_result (array_copy p (n0 + n1) b2 0 (n2 + 1)) (\<lambda>p.
          Inr (pNew, s(pNew \<mapsto> p))))))))))))))"

definition System_String_Substring :: "strings \<Rightarrow> addr \<Rightarrow> addr \<Rightarrow> int \<Rightarrow> (addr \<times> strings) result" where
  "System_String_Substring s pNew this startIndex =
     il2c_assert (this \<noteq> NULL)
     (bind_result (get_string s this) (\<lambda>b.
      il2c_assert (0 \<le> startIndex)
      (if startIndex = 0 then Inr (this, s)
       else bind_result (wcslen32 b) (\<lambda>n.
         il2c_assert (startIndex < n)
         (let newLength = nat (n - startIndex + 1);
              p = new_string_internal (newLength * sizeof_wchar) in
          bind_result (array_copy p 0 b (nat startIndex) newLength) (\<lambda>p. Inr (pNew, s(pNew \<mapsto> p))))))))"

text \<open>
  \<open>startIndex + length\<close> is a sum of two \<open>int32_t\<close>: where it overflows the code has no
  defined meaning, and the model stops.
\<close>

definition System_String_Substring_Length ::
  "strings \<Rightarrow> addr \<Rightarrow> addr \<Rightarrow> int \<Rightarrow> int \<Rightarrow> (addr \<times> strings) result" where
  "System_String_Substring_Length s pNew this startIndex len =
     il2c_assert (this \<noteq> NULL)
     (bind_result (get_string s this) (\<lambda>b.
      il2c_assert (0 \<le> startIndex)
      (il2c_assert (0 \<le> len)
      (bind_result (wcslen32 b) (\<lambda>n.
       il2c_assert (startIndex + len < 2 ^ 31 \<and> startIndex + len \<le> n)
       (if startIndex = 0 \<and> len = n then Inr (this, s)
        else
          let p = new_string_internal (nat len * sizeof_wchar + sizeof_wchar) in
          bind_result (array_copy p 0 b (nat startIndex) (nat len)) (\<lambda>p.
          bind_result (array_write p (nat len) 0) (\<lambda>p. Inr (pNew, s(pNew \<mapsto> p))))))))))"

definition System_String_get_Chars :: "strings \<Rightarrow> addr \<Rightarrow> int \<Rightarrow> wchar result" where
  "System_String_get_Chars s this index =
     il2c_assert (this \<noteq> NULL)
     (bind_result (get_string s this) (\<lambda>b.
      if index < 0 then Inl IndexOutOfRangeException
      else bind_result (wcslen32 b) (\<lambda>n.
        if index \<ge> n then Inl IndexOutOfRangeException else array_read b (nat index))))"

definition System_String_get_Length :: "strings \<Rightarrow> addr \<Rightarrow> int result" where
  "System_String_get_Length s this =
     il2c_assert (this \<noteq> NULL)
     (bind_result (get_string s this) wcslen32)"

fun all_blank :: "wchar list \<Rightarrow> bool result" where
  "all_blank [] = Inl BadAccess"
| "all_blank (ch # p) = (if ch = 0 then Inr True else if ch = 0x20 \<or> ch = 0x09 then all_blank p else Inr False)"

definition System_String_IsNullOrWhiteSpace :: "strings \<Rightarrow> addr \<Rightarrow> bool result" where
  "System_String_IsNullOrWhiteSpace s v = (if v = NULL then Inr True else bind_result (get_string s v) all_blank)"

definition System_String_op_Equality :: "strings \<Rightarrow> addr \<Rightarrow> addr \<Rightarrow> bool result" where
  "System_String_op_Equality s lhs rhs =
     (if lhs = NULL \<and> rhs = NULL then Inr True
      else if (lhs \<noteq> NULL) \<noteq> (rhs \<noteq> NULL) then Inr False
      else bind_result (get_string s lhs) (\<lambda>a. bind_result (get_string s rhs) (\<lambda>b. wcs_equal a b)))"

definition System_String_op_Inequality :: "strings \<Rightarrow> addr \<Rightarrow> addr \<Rightarrow> bool result" where
  "System_String_op_Inequality s lhs rhs =
     (if lhs = NULL \<and> rhs = NULL then Inr False
      else if (lhs \<noteq> NULL) \<noteq> (rhs \<noteq> NULL) then Inr True
      else bind_result (get_string s lhs) (\<lambda>a. bind_result (get_string s rhs) (\<lambda>b.
        bind_result (wcs_equal a b) (\<lambda>e. Inr (\<not> e)))))"

section \<open>Texts\<close>

definition text_of :: "strings \<Rightarrow> addr \<Rightarrow> wchar list" where
  "text_of s p = (case s p of None \<Rightarrow> [] | Some b \<Rightarrow> cstr_text b)"

definition strings_ok :: "strings \<Rightarrow> bool" where
  "strings_ok s \<longleftrightarrow>
     (\<forall>p b. s p = Some b \<longrightarrow> p \<noteq> NULL \<and> 0 \<in> set b \<and> length (cstr_text b) < 2 ^ 31)
     \<and> s System_String_Empty = Some [0] \<and> finite (dom s)"

text \<open>An object of the store: its body is its text, the terminator and whatever lies behind.\<close>

lemma string_body:
  assumes "strings_ok s" "p \<in> dom s"
  obtains r where "s p = Some (text_of s p @ 0 # r)" "0 \<notin> set (text_of s p)"
    "length (text_of s p) < 2 ^ 31" "p \<noteq> NULL"
  using assms cstr_text_split by (fastforce simp: strings_ok_def text_of_def)

lemma wcslen32_ok: "0 \<notin> set str \<Longrightarrow> length str < 2 ^ 31 \<Longrightarrow> wcslen32 (str @ 0 # r) = Inr (int (length str))"
  by (simp add: wcslen32_def signed_take_bit_int_eq_self signed_of_nat)

lemma wcs_equal_texts:
  "0 \<notin> set a \<Longrightarrow> 0 \<notin> set b \<Longrightarrow> wcs_equal (a @ 0 # r) (b @ 0 # r') = Inr (a = b)"
proof (induction a arbitrary: b)
  case Nil
  then show ?case by (cases b) auto
next
  case (Cons x a)
  then show ?case by (cases b) auto
qed

definition hash_text :: "wchar list \<Rightarrow> u32" where
  "hash_text str = foldl (\<lambda>h ch. push_bit 16 h XOR (NOT (signed_take_bit 15 ch) AND 0xffff)) 0 str"

lemma hash_step_foldl:
  "0 \<notin> set str \<Longrightarrow> hash_step (str @ 0 # r) h =
    Inr (foldl (\<lambda>h ch. push_bit 16 h XOR (NOT (signed_take_bit 15 ch) AND 0xffff)) h str)"
  by (induction str arbitrary: h) auto

lemma all_blank_text:
  "0 \<notin> set str \<Longrightarrow> all_blank (str @ 0 # r) = Inr (\<forall>c \<in> set str. c = 0x20 \<or> c = 0x09)"
  by (induction str) auto

lemma new_string_internal_cells [simp]: "new_string_internal (n * sizeof_wchar) = replicate n 0"
  by (simp add: new_string_internal_def sizeof_wchar_def)

lemma strings_ok_update:
  assumes "strings_ok s" "s pNew = None" "pNew \<noteq> NULL" "0 \<notin> set str" "length str < 2 ^ 31"
  shows "strings_ok (s(pNew \<mapsto> str @ 0 # r))"
  using assms by (auto simp: strings_ok_def)

section \<open>Every operation on texts\<close>

lemma new_string_ok:
  assumes "0 \<notin> set str" "length str < 2 ^ 31"
  shows "il2c_new_string s pNew (str @ 0 # r) = Inr (pNew, s(pNew \<mapsto> str @ [0]))"
proof -
  have "unat (of_nat (length str) :: u32) = length str" "unat (of_nat (length str) + 1 :: u32) = length str + 1"
    using assms(2) by (simp_all add: unat_word_ariths unsigned_of_nat take_bit_nat_eq_self)
  moreover have "drop (length str) (0 # replicate (length str) 0) = [0 :: wchar]"
    using drop_replicate [of "length str" "Suc (length str)" "0 :: wchar"] by simp
  ultimately show ?thesis using assms(1)
    by (simp add: il2c_new_string_def il2c_new_string_with_length_def array_copy_def array_write_def
        list_update_append)
qed

lemma concat_ok:
  assumes ok: "strings_ok s" and a: "a \<in> dom s" and b: "b \<in> dom s"
  shows "System_String_Concat s pNew a b = Inr (pNew, s(pNew \<mapsto> text_of s a @ text_of s b @ [0]))"
proof -
  obtain r where ra: "s a = Some (text_of s a @ 0 # r)" "0 \<notin> set (text_of s a)" "a \<noteq> NULL"
    using string_body [OF ok a] by metis
  obtain q where rb: "s b = Some (text_of s b @ 0 # q)" "0 \<notin> set (text_of s b)" "b \<noteq> NULL"
    using string_body [OF ok b] by metis
  have "new_string_internal (n * sizeof_wchar + k * sizeof_wchar + sizeof_wchar) = replicate (n + k + 1) 0" for n k
    using new_string_internal_cells [of "n + k + 1"] by (simp add: algebra_simps)
  then show ?thesis using ra rb
    by (simp add: System_String_Concat_def get_string_def array_copy_def)
qed

lemma concat3_ok:
  assumes ok: "strings_ok s" and d: "a \<in> dom s" "b \<in> dom s" "c \<in> dom s"
  shows "System_String_Concat3 s pNew a b c =
    Inr (pNew, s(pNew \<mapsto> text_of s a @ text_of s b @ text_of s c @ [0]))"
proof -
  obtain r where ra: "s a = Some (text_of s a @ 0 # r)" "0 \<notin> set (text_of s a)" "a \<noteq> NULL"
    using string_body [OF ok d(1)] by metis
  obtain q where rb: "s b = Some (text_of s b @ 0 # q)" "0 \<notin> set (text_of s b)" "b \<noteq> NULL"
    using string_body [OF ok d(2)] by metis
  obtain u where rc: "s c = Some (text_of s c @ 0 # u)" "0 \<notin> set (text_of s c)" "c \<noteq> NULL"
    using string_body [OF ok d(3)] by metis
  have "new_string_internal (n * sizeof_wchar + k * sizeof_wchar + j * sizeof_wchar + sizeof_wchar) =
      replicate (n + k + j + 1) 0" for n k j
    using new_string_internal_cells [of "n + k + j + 1"] by (simp add: algebra_simps)
  then show ?thesis using ra rb rc
    by (simp add: System_String_Concat3_def get_string_def array_copy_def)
qed

lemma substring_ok:
  assumes ok: "strings_ok s" and a: "a \<in> dom s" and i: "0 < i" "i < int (length (text_of s a))"
  shows "System_String_Substring s pNew a i = Inr (pNew, s(pNew \<mapsto> drop (nat i) (text_of s a) @ [0]))"
proof -
  obtain r where ra: "s a = Some (text_of s a @ 0 # r)" "0 \<notin> set (text_of s a)" "a \<noteq> NULL"
      "length (text_of s a) < 2 ^ 31"
    using string_body [OF ok a] by metis
  have "take (nat (int (length (text_of s a)) - i + 1)) (drop (nat i) (text_of s a @ 0 # r)) =
      drop (nat i) (text_of s a) @ [0]"
    using i by (simp add: nat_diff_distrib nat_add_distrib)
  then show ?thesis using ra i
    by (simp add: System_String_Substring_def get_string_def array_copy_def wcslen32_ok Let_def
        nat_diff_distrib nat_add_distrib)
qed

lemma substring_length_ok:
  assumes ok: "strings_ok s" and a: "a \<in> dom s" and i: "0 \<le> i" "0 \<le> n" "i + n \<le> int (length (text_of s a))"
  shows "System_String_Substring_Length s pNew a i n =
    (if i = 0 \<and> n = int (length (text_of s a)) then Inr (a, s)
     else Inr (pNew, s(pNew \<mapsto> take (nat n) (drop (nat i) (text_of s a)) @ [0])))"
proof -
  obtain r where ra: "s a = Some (text_of s a @ 0 # r)" "0 \<notin> set (text_of s a)" "a \<noteq> NULL"
      "length (text_of s a) < 2 ^ 31"
    using string_body [OF ok a] by metis
  define k where "k = nat n"
  define j where "j = nat i"
  have kj: "n = int k" "i = int j" "j + k \<le> length (text_of s a)" using i by (simp_all add: k_def j_def)
  have "take k (drop j (text_of s a @ 0 # r)) = take k (drop j (text_of s a))" using kj by simp
  moreover have "new_string_internal (k * sizeof_wchar + sizeof_wchar) = replicate (Suc k) 0"
    using new_string_internal_cells [of "Suc k"] by (simp add: algebra_simps)
  moreover have "drop k (0 # replicate k 0) = [0 :: wchar]"
    using drop_replicate [of k "Suc k" "0 :: wchar"] by simp
  ultimately show ?thesis using ra kj
    by (simp add: System_String_Substring_Length_def get_string_def array_copy_def array_write_def
        wcslen32_ok list_update_append)
qed

lemma substring_length_outside:
  assumes ok: "strings_ok s" and a: "a \<in> dom s" and i: "i < 0 \<or> n < 0 \<or> int (length (text_of s a)) < i + n"
  shows "System_String_Substring_Length s pNew a i n = Inl AssertionFailed"
proof -
  obtain r where ra: "s a = Some (text_of s a @ 0 # r)" "0 \<notin> set (text_of s a)" "a \<noteq> NULL"
      "length (text_of s a) < 2 ^ 31"
    using string_body [OF ok a] by metis
  then show ?thesis using i
    by (auto simp: System_String_Substring_Length_def get_string_def wcslen32_ok il2c_assert_def)
qed

lemma get_chars_ok:
  assumes ok: "strings_ok s" and a: "a \<in> dom s"
  shows "System_String_get_Chars s a i =
    (if 0 \<le> i \<and> i < int (length (text_of s a)) then Inr (text_of s a ! nat i) else Inl IndexOutOfRangeException)"
proof -
  obtain r where ra: "s a = Some (text_of s a @ 0 # r)" "0 \<notin> set (text_of s a)" "a \<noteq> NULL"
      "length (text_of s a) < 2 ^ 31"
    using string_body [OF ok a] by metis
  then show ?thesis
    by (simp add: System_String_get_Chars_def get_string_def wcslen32_ok nth_append nat_less_iff)
qed

text \<open>The observers: length, equality in its three forms, hash and blankness.\<close>

lemma observers_ok:
  assumes ok: "strings_ok s" and a: "a \<in> dom s" and b: "b \<in> dom s"
  shows "System_String_get_Length s a = Inr (int (length (text_of s a)))"
    and "System_String_Equals s a b = Inr (text_of s a = text_of s b)"
    and "System_String_Equals_Object s a b = Inr (text_of s a = text_of s b)"
    and "System_String_op_Equality s a b = Inr (text_of s a = text_of s b)"
    and "System_String_op_Inequality s a b = Inr (text_of s a \<noteq> text_of s b)"
    and "System_String_GetHashCode s a = Inr (hash_text (text_of s a))"
    and "System_String_IsNullOrWhiteSpace s a = Inr (set (text_of s a) \<subseteq> {0x20, 0x09})"
proof -
  obtain r where ra: "s a = Some (text_of s a @ 0 # r)" "0 \<notin> set (text_of s a)" "a \<noteq> NULL"
      "length (text_of s a) < 2 ^ 31"
    using string_body [OF ok a] by metis
  obtain q where rb: "s b = Some (text_of s b @ 0 # q)" "0 \<notin> set (text_of s b)" "b \<noteq> NULL"
    using string_body [OF ok b] by metis
  have eq: "wcs_equal (text_of s a @ 0 # r) (text_of s b @ 0 # q) = Inr (text_of s a = text_of s b)"
    using ra rb by (intro wcs_equal_texts) auto
  show "System_String_get_Length s a = Inr (int (length (text_of s a)))"
    using ra by (simp add: System_String_get_Length_def get_string_def wcslen32_ok)
  show equals: "System_String_Equals s a b = Inr (text_of s a = text_of s b)"
    using ra(1,3) rb(1,3) eq by (auto simp: System_String_Equals_def get_string_def)
  show "System_String_Equals_Object s a b = Inr (text_of s a = text_of s b)"
    using ra(1,3) rb(1,3) equals by (simp add: System_String_Equals_Object_def get_string_def)
  show "System_String_op_Equality s a b = Inr (text_of s a = text_of s b)"
    using ra(1,3) rb(1,3) eq by (simp add: System_String_op_Equality_def get_string_def)
  show "System_String_op_Inequality s a b = Inr (text_of s a \<noteq> text_of s b)"
    using ra(1,3) rb(1,3) eq by (simp add: System_String_op_Inequality_def get_string_def)
  show "System_String_GetHashCode s a = Inr (hash_text (text_of s a))"
    using ra by (simp add: System_String_GetHashCode_def get_string_def hash_step_foldl hash_text_def)
  show "System_String_IsNullOrWhiteSpace s a = Inr (set (text_of s a) \<subseteq> {0x20, 0x09})"
    using ra(1-3) by (auto simp: System_String_IsNullOrWhiteSpace_def get_string_def all_blank_text)
qed

section \<open>UTF-8\<close>

text \<open>The encoding of the characters below \<open>0x800\<close>, one or two bytes.\<close>

definition utf8_encode :: "wchar \<Rightarrow> u8 list" where
  "utf8_encode c =
     (if c < 0x80 then [of_nat (unat c)] else [of_nat (0xC0 + unat c div 64), of_nat (0x80 + unat c mod 64)])"

lemma of_nat_mod_power: "(of_nat (n mod 2 ^ k) :: wchar) = take_bit k (of_nat n)"
proof -
  have "n mod 2 ^ k = take_bit k n" by (simp add: take_bit_eq_mod)
  then show ?thesis by (simp only: take_bit_of_nat)
qed

lemma and_low_bits:
  "(of_nat n :: wchar) AND 0x1f = of_nat (n mod 32)" "(of_nat n :: wchar) AND 0x3f = of_nat (n mod 64)"
proof -
  have masks: "(0x1f :: wchar) = mask 5" "(0x3f :: wchar) = mask 6" by (simp_all add: mask_eq_exp_minus_1)
  show "(of_nat n :: wchar) AND 0x1f = of_nat (n mod 32)"
    using of_nat_mod_power [of n 5] unfolding masks take_bit_eq_mask [symmetric] by simp
  show "(of_nat n :: wchar) AND 0x3f = of_nat (n mod 64)"
    using of_nat_mod_power [of n 6] unfolding masks take_bit_eq_mask [symmetric] by simp
qed

lemma char_value_of_nat: "n < 256 \<Longrightarrow> char_value False (of_nat n) = int n"
  by (simp add: char_value_def unsigned_of_nat take_bit_nat_eq_self)

lemma rejoin: "push_bit 6 (of_nat (unat c div 64)) OR of_nat (unat c mod 64) = (c :: wchar)"
proof -
  have "drop_bit 6 (unat c) = unat c div 64" by (simp add: drop_bit_eq_div)
  then have "unat (drop_bit 6 c) = unat c div 64" by (simp only: unat_drop_bit_eq)
  then have "of_nat (unat c div 64) = drop_bit 6 c" by (metis of_nat_unat ucast_id)
  moreover have "of_nat (unat c mod 64) = take_bit 6 c" using of_nat_mod_power [of "unat c" 6] by simp
  ultimately have *: "of_nat (unat c div 64) = drop_bit 6 c" "of_nat (unat c mod 64) = take_bit 6 c" by simp_all
  show ?thesis unfolding * by (intro bit_word_eqI) (auto simp: bit_simps)
qed

lemma decode_encoded:
  assumes "\<forall>c \<in> set cs. 0 < c \<and> c < 0x800" "d + length cs < length dst"
  shows "il2c_utf16_from_utf8_and_get_last False dst d (concat (map utf8_encode cs) @ 0 # r) =
    Inr (take d dst @ cs @ 0 # drop (d + length cs + 1) dst, d + length cs)"
  using assms
proof (induction cs arbitrary: d dst)
  case Nil
  then show ?case by (simp add: char_value_def upd_conv_take_nth_drop)
next
  case (Cons c cs)
  define n where "n = unat c"
  have n: "0 < n" "n < 2048" using Cons.prems(1) by (simp_all add: n_def word_less_nat_alt unat_gt_0)
  have c: "c = of_nat n" by (simp add: n_def)
  let ?q = "concat (map utf8_encode cs) @ 0 # r"
  have "il2c_utf16_from_utf8_and_get_last False dst d (utf8_encode c @ ?q) =
      il2c_utf16_from_utf8_and_get_last False (dst[d := c]) (Suc d) ?q"
  proof (cases "n < 128")
    case True
    then have "utf8_encode c = [of_nat n]" by (simp add: utf8_encode_def n_def word_less_nat_alt)
    moreover have "char_value False (of_nat n) = int n" using True by (intro char_value_of_nat) simp
    ultimately show ?thesis using True n Cons.prems(2) by (simp add: Let_def c)
  next
    case False
    then have "utf8_encode c = [of_nat (192 + n div 64), of_nat (128 + n mod 64)]"
      by (simp add: utf8_encode_def n_def word_less_nat_alt)
    moreover have "char_value False (of_nat (192 + n div 64)) = int (192 + n div 64)"
        "char_value False (of_nat (128 + n mod 64)) = int (128 + n mod 64)"
      using n(2) by (intro char_value_of_nat; simp add: less_mult_imp_div_less)+
    moreover have "(192 + n div 64) mod 32 = n div 64" "(128 + n mod 64) mod 64 = n mod 64" "192 + n div 64 \<le> 223"
      using n(2) by (simp_all add: mod_add_eq [symmetric])  
    ultimately show ?thesis using Cons.prems(2) rejoin [of c]
      and_low_bits(1) [of "192 + n div 64"] and_low_bits(2) [of "128 + n mod 64"]
      by (simp add: Let_def n_def)
  qed
  also have "\<dots> = Inr (take (Suc d) (dst[d := c]) @ cs @ 0 # drop (Suc d + length cs + 1) (dst[d := c]), Suc d + length cs)"
    using Cons.prems by (intro Cons.IH) auto
  finally show ?case using Cons.prems(2) by (simp add: take_Suc_conv_app_nth)
qed

lemma length_encoded:
  "\<forall>c \<in> set cs. 0 < c \<and> c < 0x800 \<Longrightarrow>
    utf8_length False detect (concat (map utf8_encode cs) @ 0 # r) n = Inr (n + int (length cs))"
proof (induction cs arbitrary: n)
  case Nil
  then show ?case by (simp add: char_value_def)
next
  case (Cons c cs)
  define k where "k = unat c"
  have k: "0 < k" "k < 2048" using Cons.prems by (simp_all add: k_def word_less_nat_alt unat_gt_0)
  let ?q = "concat (map utf8_encode cs) @ 0 # r"
  have "utf8_length False detect (utf8_encode c @ ?q) n = utf8_length False detect ?q (n + 1)"
  proof (cases "k < 128")
    case True
    then have "utf8_encode c = [of_nat k]" by (simp add: utf8_encode_def k_def word_less_nat_alt)
    moreover have "char_value False (of_nat k) = int k" using True by (intro char_value_of_nat) simp
    ultimately show ?thesis using True k by (simp add: Let_def)
  next
    case False
    define m l where "m = 192 + k div 64" and "l = 128 + k mod 64"
    have "k div 64 < 32" using k(2) by (simp add: less_mult_imp_div_less)
    then have m: "192 \<le> m" "m \<le> 223" unfolding m_def by linarith+
    have enc: "utf8_encode c = [of_nat m, of_nat l]"
      using False unfolding m_def l_def by (simp add: utf8_encode_def k_def word_less_nat_alt)
    have "char_value False (of_nat m) = int m" using m(2) by (intro char_value_of_nat) simp
    then show ?thesis using m unfolding enc by (simp add: Let_def)
  qed
  then show ?case using Cons by simp
qed

section \<open>Properties\<close>

text \<open>A store with the empty literal and two strings, for the witnesses: \<open>ab\<close> and \<open>c\<close>.\<close>

definition sample_strings :: strings where
  "sample_strings = [System_String_Empty \<mapsto> [0], 32 \<mapsto> [0x61, 0x62, 0], 48 \<mapsto> [0x63, 0, 7]]"

lemma sample_strings_ok: "strings_ok sample_strings" "32 \<in> dom sample_strings" "48 \<in> dom sample_strings"
    "text_of sample_strings 32 = [0x61, 0x62]" "text_of sample_strings 48 = [0x63]"
  by (auto simp: strings_ok_def sample_strings_def System_String_Empty_def cstr_text_def text_of_def split: if_splits)

text \<open>
  C30: concatenation allocates one object whose text is the texts joined; \<open>Equals\<close> and
  \<open>==\<close> compare texts, and the hash and the length depend on the text alone.
\<close>

theorem strings_behave_as_texts:
  assumes "strings_ok s" "a \<in> dom s" "b \<in> dom s" "c \<in> dom s"
  shows "System_String_Concat s pNew a b = Inr (pNew, s(pNew \<mapsto> text_of s a @ text_of s b @ [0]))
    \<and> System_String_Concat3 s pNew a b c = Inr (pNew, s(pNew \<mapsto> text_of s a @ text_of s b @ text_of s c @ [0]))
    \<and> System_String_Equals s a b = Inr (text_of s a = text_of s b)
    \<and> System_String_Equals_Object s a b = Inr (text_of s a = text_of s b)
    \<and> System_String_op_Equality s a b = Inr (text_of s a = text_of s b)
    \<and> System_String_op_Inequality s a b = Inr (text_of s a \<noteq> text_of s b)
    \<and> System_String_get_Length s a = Inr (int (length (text_of s a)))
    \<and> System_String_IsNullOrWhiteSpace s a = Inr (set (text_of s a) \<subseteq> {0x20, 0x09})
    \<and> (System_String_Equals s a b = Inr True \<longrightarrow> System_String_GetHashCode s a = System_String_GetHashCode s b)"
  using concat_ok [OF assms(1-3)] concat3_ok [OF assms] observers_ok [OF assms(1-3)]
    observers_ok(6) [OF assms(1,3,3)] by simp

lemma strings_behave_as_texts_witness:
  "System_String_Concat sample_strings 64 32 48 = Inr (64, sample_strings(64 \<mapsto> [0x61, 0x62, 0x63, 0]))"
  using strings_behave_as_texts [OF sample_strings_ok(1-3) sample_strings_ok(3), of 64] sample_strings_ok(4,5) by simp





text \<open>
  What the decoder does to longer encodings.  A three-byte character loses its place
  value (\<open>U+3042\<close> comes back as \<open>0x0342\<close>); a text that ends in a four-byte character is
  read past its terminator; where \<open>char\<close> is signed, every byte of a multi-byte
  character becomes a character of its own, sign-extended.
\<close>

theorem utf8_longer_encodings_mangled:
  "il2c_new_string_from_utf8 False s pNew (Some [0xE3, 0x81, 0x82, 0]) = Inr (pNew, s(pNew \<mapsto> [0x0342, 0]))
    \<and> il2c_new_string_from_utf8 False s pNew (Some [0xF0, 0x9F, 0x98, 0x80, 0]) = Inl BadAccess
    \<and> il2c_new_string_from_utf8 True s pNew (Some [0xC3, 0xA9, 0]) =
        Inr (pNew, s(pNew \<mapsto> [0xFFFFFFC3, 0xFFFFFFA9, 0]))"
proof -
  have "il2c_get_utf8_length False [0xE3, 0x81, 0x82, 0] False = Inr 2"
    "il2c_get_utf8_length False [0xF0, 0x9F, 0x98, 0x80, 0] False = Inr 2"
    "il2c_get_utf8_length True [0xC3, 0xA9, 0] False = Inr 3"
    by code_simp+
  moreover have "il2c_utf16_from_utf8_and_get_last False (new_string_internal (2 * sizeof_wchar)) 0 [0xE3, 0x81, 0x82, 0] =
      Inr ([0x0342, 0], 1)"
    "il2c_utf16_from_utf8_and_get_last False (new_string_internal (2 * sizeof_wchar)) 0 [0xF0, 0x9F, 0x98, 0x80, 0] =
      Inl BadAccess"
    "il2c_utf16_from_utf8_and_get_last True (new_string_internal (3 * sizeof_wchar)) 0 [0xC3, 0xA9, 0] =
      Inr ([0xFFFFFFC3, 0xFFFFFFA9, 0], 2)"
    by code_simp+
  ultimately show ?thesis by (simp add: il2c_new_string_from_utf8_def del: new_string_internal_cells il2c_utf16_from_utf8_and_get_last.simps)
qed

text \<open>The hash keeps the last two characters only.\<close>

lemma hash_keeps_two_characters:
  "hash_text (str @ [c, d]) = push_bit 16 (NOT c AND 0xffff) XOR (NOT d AND 0xffff)"
proof -
  have m: "(0xffff :: wchar) = mask 16" by (simp add: mask_eq_exp_minus_1)
  have low: "NOT (signed_take_bit 15 x) AND mask 16 = NOT x AND mask 16" for x :: wchar
    by (rule bit_word_eqI) (auto simp: bit_simps min_def le_less)
  have "push_bit 16 (push_bit 16 h XOR x) = push_bit 16 (x :: wchar)" for h x :: wchar
    by (rule bit_word_eqI) (auto simp: bit_simps)
  then show ?thesis unfolding hash_text_def m by (simp add: low)
qed

end
