(* ===== verification/Type_Objects.thy ===== *)
theory Type_Objects
  imports Boxing Wide_String
begin

text \<open>
  The base classes: System.Object, System.ValueType, System.Enum, System.Type,
  System.Exception and System.UnhandledExceptionEventArgs (src/System), and
  RuntimeHelpers and Interlocked.  Type objects are a store by address, as strings are; the
  address of a new object is an argument.  The message of an exception is the reference in
  its second word.
\<close>

section \<open>System.Type\<close>

type_synonym types = "addr \<rightharpoonup> runtime_type"     \<comment> \<open>\<open>type__\<close> of a type object\<close>

definition get_type :: "types \<Rightarrow> addr \<Rightarrow> runtime_type result" where
  "get_type ty p = (case ty p of None \<Rightarrow> Inl BadAccess | Some T \<Rightarrow> Inr T)"

text \<open>The type's name, a C string.\<close>

definition name_bytes :: "string \<Rightarrow> u8 list" where
  "name_bytes name = map (\<lambda>c. of_nat (of_char c)) name @ [0]"

definition System_Type_get_FullName :: "bool \<Rightarrow> types \<Rightarrow> strings \<Rightarrow> addr \<Rightarrow> addr \<Rightarrow> (addr \<times> strings) result" where
  "System_Type_get_FullName schar ty s pNew this =
     il2c_assert (this \<noteq> NULL)
     (bind_result (get_type ty this) (\<lambda>T. il2c_new_string_from_utf8 schar s pNew (Some (name_bytes (type_name T)))))"

definition System_Type_ToString :: "bool \<Rightarrow> types \<Rightarrow> strings \<Rightarrow> addr \<Rightarrow> addr \<Rightarrow> (addr \<times> strings) result" where
  "System_Type_ToString schar ty s pNew this =
     il2c_assert (this \<noteq> NULL) (System_Type_get_FullName schar ty s pNew this)"

text \<open>The low 32 bits of a pointer.\<close>

definition pointer_hash :: "addr \<Rightarrow> int" where
  "pointer_hash p = sint (of_nat p :: 32 word)"

definition System_Type_GetHashCode :: "types \<Rightarrow> addr \<Rightarrow> int result" where
  "System_Type_GetHashCode ty this =
     il2c_assert (this \<noteq> NULL) (bind_result (get_type ty this) (\<lambda>T. Inr (pointer_hash (type_addr T))))"

definition System_Type_Equals :: "types \<Rightarrow> addr \<Rightarrow> addr \<Rightarrow> bool result" where
  "System_Type_Equals ty this obj =
     il2c_assert (this \<noteq> NULL)
     (bind_result (get_type ty this) (\<lambda>T.
       if obj = NULL then Inr False
       else bind_result (get_type ty obj) (\<lambda>U. Inr (type_addr T = type_addr U))))"

definition System_Type_Equals_Object :: "machine \<Rightarrow> runtime_type \<Rightarrow> types \<Rightarrow> addr \<Rightarrow> addr \<Rightarrow> bool result" where
  "System_Type_Equals_Object m typeType ty this obj =
     il2c_assert (this \<noteq> NULL)
     (bind_result (get_type ty this) (\<lambda>T.
      bind_result (il2c_isinst_or_null m obj typeType) (\<lambda>rhs.
       if rhs = NULL then Inr False
       else bind_result (get_type ty rhs) (\<lambda>U. Inr (type_addr T = type_addr U)))))"

definition System_Type_get_BaseType :: "types \<Rightarrow> addr \<Rightarrow> addr \<Rightarrow> (addr \<times> types) result" where
  "System_Type_get_BaseType ty pNew this =
     il2c_assert (this \<noteq> NULL)
     (bind_result (get_type ty this) (\<lambda>T. case baseType T of
        None \<Rightarrow> Inr (NULL, ty)
      | Some B \<Rightarrow> Inr (pNew, ty(pNew \<mapsto> B))))"

section \<open>System.Object, System.ValueType, System.Enum\<close>

definition System_Object_GetType :: "machine \<Rightarrow> types \<Rightarrow> addr \<Rightarrow> addr \<Rightarrow> (addr \<times> types) result" where
  "System_Object_GetType m ty pNew this =
     il2c_assert (this \<noteq> NULL) (bind_result (get_header m this) (\<lambda>h. Inr (pNew, ty(pNew \<mapsto> htype h))))"

definition System_Object_ToString ::
  "bool \<Rightarrow> machine \<Rightarrow> types \<Rightarrow> strings \<Rightarrow> addr \<Rightarrow> addr \<Rightarrow> addr \<Rightarrow> (addr \<times> types \<times> strings) result" where
  "System_Object_ToString schar m ty s pType pNew this =
     il2c_assert (this \<noteq> NULL)
     (bind_result (System_Object_GetType m ty pType this) (\<lambda>(p, ty).
      bind_result (System_Type_get_FullName schar ty s pNew p) (\<lambda>(r, s). Inr (r, ty, s))))"

definition System_Object_GetHashCode :: "addr \<Rightarrow> int result" where
  "System_Object_GetHashCode this = il2c_assert (this \<noteq> NULL) (Inr (pointer_hash this))"

definition System_Object_Equals :: "addr \<Rightarrow> addr \<Rightarrow> bool result" where
  "System_Object_Equals this obj = il2c_assert (this \<noteq> NULL) (Inr (this = obj))"

definition System_Object_ReferenceEquals :: "addr \<Rightarrow> addr \<Rightarrow> bool" where
  "System_Object_ReferenceEquals objA objB \<longleftrightarrow> objA = objB"

definition System_ValueType_ToString ::
  "bool \<Rightarrow> machine \<Rightarrow> types \<Rightarrow> strings \<Rightarrow> addr \<Rightarrow> addr \<Rightarrow> addr \<Rightarrow> (addr \<times> types \<times> strings) result" where
  "System_ValueType_ToString = System_Object_ToString"

definition System_ValueType_GetHashCode :: "addr \<Rightarrow> int result" where
  "System_ValueType_GetHashCode this = Inr (pointer_hash this)"

definition System_ValueType_Equals :: "addr \<Rightarrow> addr \<Rightarrow> bool result" where
  "System_ValueType_Equals this obj = Inr False"

definition System_Enum_ToString ::
  "bool \<Rightarrow> machine \<Rightarrow> types \<Rightarrow> strings \<Rightarrow> addr \<Rightarrow> addr \<Rightarrow> addr \<Rightarrow> (addr \<times> types \<times> strings) result" where
  "System_Enum_ToString = System_Object_ToString"

definition System_Enum_GetHashCode :: "addr \<Rightarrow> int result" where
  "System_Enum_GetHashCode this = Inr (pointer_hash this)"

definition System_Enum_Equals :: "addr \<Rightarrow> addr \<Rightarrow> bool result" where
  "System_Enum_Equals this obj = Inr False"

section \<open>System.Exception and its event arguments\<close>

definition off_message :: nat where "off_message = 8"

definition System_Exception_ctor :: "machine \<Rightarrow> addr \<Rightarrow> machine result" where
  "System_Exception_ctor m this = il2c_assert (this \<noteq> NULL) (Inr m)"

definition System_Exception_ctor_String :: "machine \<Rightarrow> addr \<Rightarrow> addr \<Rightarrow> machine result" where
  "System_Exception_ctor_String m this message =
     il2c_assert (this \<noteq> NULL) (Inr (m\<lparr>cells := (cells m)(this + off_message := message)\<rparr>))"

definition System_Exception_get_Message :: "machine \<Rightarrow> addr \<Rightarrow> addr result" where
  "System_Exception_get_Message m this = il2c_assert (this \<noteq> NULL) (Inr (cells m (this + off_message)))"

text \<open>The constant string \<open>": "\<close> has the address \<open>separator\<close>.\<close>

definition System_Exception_ToString ::
  "bool \<Rightarrow> machine \<Rightarrow> types \<Rightarrow> strings \<Rightarrow> addr \<Rightarrow> addr \<Rightarrow> addr \<Rightarrow> addr \<Rightarrow> addr \<Rightarrow> (addr \<times> types \<times> strings) result" where
  "System_Exception_ToString schar m ty s separator pType pName pNew this =
     il2c_assert (this \<noteq> NULL)
     (bind_result (System_Object_GetType m ty pType this) (\<lambda>(p, ty).
      bind_result (System_Type_get_FullName schar ty s pName p) (\<lambda>(typeName, s).
      bind_result (System_String_Concat3 s pNew typeName separator (cells m (this + off_message)))
        (\<lambda>(r, s). Inr (r, ty, s)))))"

definition System_UnhandledExceptionEventArgs_ctor ::
  "machine \<Rightarrow> bytes \<Rightarrow> addr \<Rightarrow> addr \<Rightarrow> bool \<Rightarrow> machine \<times> bytes" where
  "System_UnhandledExceptionEventArgs_ctor m v this exception isTerminating =
     (m\<lparr>cells := (cells m)(this + 8 := exception)\<rparr>, v(this + 16 := of_bool isTerminating))"

definition System_UnhandledExceptionEventArgs_get_ExceptionObject :: "machine \<Rightarrow> addr \<Rightarrow> addr result" where
  "System_UnhandledExceptionEventArgs_get_ExceptionObject m this =
     il2c_assert (this \<noteq> NULL) (Inr (cells m (this + 8)))"

definition System_UnhandledExceptionEventArgs_get_IsTerminating :: "bytes \<Rightarrow> addr \<Rightarrow> bool result" where
  "System_UnhandledExceptionEventArgs_get_IsTerminating v this =
     il2c_assert (this \<noteq> NULL) (Inr (v (this + 16) \<noteq> 0))"

section \<open>RuntimeHelpers and Interlocked\<close>

definition RuntimeHelpers_GetHashCode :: "addr \<Rightarrow> int result" where
  "RuntimeHelpers_GetHashCode o' = System_Object_GetHashCode o'"

text \<open>The static data behind a field handle: its address and its size.\<close>

record field_handle =
  field_addr :: addr
  field_size :: nat

definition RuntimeHelpers_InitializeArray :: "machine \<Rightarrow> bytes \<Rightarrow> addr \<Rightarrow> field_handle \<Rightarrow> bytes result" where
  "RuntimeHelpers_InitializeArray m v arr fldHandle =
     il2c_assert (arr \<noteq> NULL)
     (il2c_assert (field_addr fldHandle \<noteq> NULL)
     (case bodies m arr of
        ArrayBody elementType len \<Rightarrow>
          (let arraySize = (len * il2c_sizeof elementType) mod 2 ^ 64;
               n = (if field_size fldHandle < arraySize then field_size fldHandle else arraySize) in
           Inr (memcpy v (arr + sizeof_Array) (field_addr fldHandle) n))
      | _ \<Rightarrow> Inl BadAccess))"

definition Interlocked_CompareExchange :: "machine \<Rightarrow> addr \<Rightarrow> addr \<Rightarrow> addr \<Rightarrow> machine \<times> addr" where
  "Interlocked_CompareExchange m location1 v comparand =
     (if cells m location1 = comparand then m\<lparr>cells := (cells m)(location1 := v)\<rparr> else m, cells m location1)"

section \<open>Type names\<close>

definition name_ok :: "string \<Rightarrow> bool" where
  "name_ok name \<longleftrightarrow> (\<forall>c \<in> set name. 0 < (of_char c :: nat) \<and> (of_char c :: nat) < 128) \<and> length name < 2 ^ 31"

definition name_text :: "string \<Rightarrow> wchar list" where
  "name_text name = map (\<lambda>c. of_nat (of_char c)) name"

lemma ascii_value:
  assumes "n < 128" shows "char_value schar (of_nat n) = int n"
proof -
  have "uint (of_nat n :: u8) = int n" using assms by (simp add: unsigned_of_nat take_bit_nat_eq_self)
  moreover have "sint (of_nat n :: u8) = int n"
    using assms by (simp add: signed_of_nat signed_take_bit_int_eq_self)
  ultimately show ?thesis by (simp add: char_value_def)
qed

lemma name_length:
  "\<forall>c \<in> set name. 0 < (of_char c :: nat) \<and> (of_char c :: nat) < 128 \<Longrightarrow>
   utf8_length schar detect (name_bytes name) k = Inr (k + int (length name))"
proof (induction name arbitrary: k)
  case Nil
  then show ?case by (simp add: name_bytes_def char_value_def)
next
  case (Cons c name)
  then show ?case using ascii_value [of "of_char c" schar]
    by (simp add: name_bytes_def Let_def algebra_simps)
qed

lemma name_decoded:
  assumes "\<forall>c \<in> set name. 0 < (of_char c :: nat) \<and> (of_char c :: nat) < 128" "d + length name < length dst"
  shows "il2c_utf16_from_utf8_and_get_last schar dst d (name_bytes name) =
    Inr (take d dst @ name_text name @ 0 # drop (d + length name + 1) dst, d + length name)"
  using assms
proof (induction name arbitrary: d dst)
  case Nil
  then show ?case by (simp add: name_bytes_def name_text_def char_value_def upd_conv_take_nth_drop)
next
  case (Cons c name)
  have "il2c_utf16_from_utf8_and_get_last schar dst d (name_bytes (c # name)) =
      il2c_utf16_from_utf8_and_get_last schar (dst[d := of_nat (of_char c)]) (Suc d) (name_bytes name)"
    using Cons.prems ascii_value [of "of_char c" schar] by (simp add: name_bytes_def Let_def)
  also have "\<dots> = Inr (take (Suc d) (dst[d := of_nat (of_char c)]) @ name_text name @
      0 # drop (Suc d + length name + 1) (dst[d := of_nat (of_char c)]), Suc d + length name)"
    using Cons.prems by (intro Cons.IH) auto
  finally show ?case using Cons.prems(2) by (simp add: name_text_def take_Suc_conv_app_nth)
qed

lemma full_name:
  assumes "ty p = Some T" "p \<noteq> NULL" "name_ok (type_name T)"
  shows "System_Type_get_FullName schar ty s pNew p = Inr (pNew, s(pNew \<mapsto> name_text (type_name T) @ [0]))"
proof -
  let ?n = "length (type_name T)"
  have ascii: "\<forall>c \<in> set (type_name T). 0 < (of_char c :: nat) \<and> (of_char c :: nat) < 128"
    using assms(3) by (simp add: name_ok_def)
  have "nat (1 + int ?n) = ?n + 1" by simp
  then have "il2c_utf16_from_utf8_and_get_last schar (new_string_internal (nat (1 + int ?n) * sizeof_wchar)) 0
      (name_bytes (type_name T)) = Inr (name_text (type_name T) @ [0], ?n)"
    using name_decoded [OF ascii, of 0 "replicate (?n + 1) 0" schar] by (simp only: new_string_internal_cells) simp
  then show ?thesis using assms(1,2) name_length [OF ascii, of schar False 1]
    by (simp add: System_Type_get_FullName_def get_type_def il2c_new_string_from_utf8_def il2c_get_utf8_length_def)
qed

lemma ascii_nonzero: "0 < n \<Longrightarrow> n < 128 \<Longrightarrow> (of_nat n :: wchar) \<noteq> 0"
proof
  assume n: "0 < n" "n < 128" "(of_nat n :: wchar) = 0"
  have "unat (of_nat n :: wchar) = n" using n(2) by (simp add: unsigned_of_nat take_bit_nat_eq_self del: word_of_nat_eq_0_iff)
  with n(1,3) show False by simp
qed

lemma name_text_ok: "name_ok name \<Longrightarrow> 0 \<notin> set (name_text name)"
  using ascii_nonzero by (fastforce simp: name_ok_def name_text_def)

section \<open>Exceptions as text\<close>

lemma exception_text:
  assumes "get_header m this = Inr h" "this \<noteq> NULL" "name_ok (type_name (htype h))" "strings_ok s"
    and "pType \<noteq> NULL" "pName \<noteq> NULL" "s pName = None" "separator \<in> dom s" "cells m (this + off_message) \<in> dom s"
  shows "\<exists>ty' s'. System_Exception_ToString schar m ty s separator pType pName pNew this = Inr (pNew, ty', s') \<and>
    s' pNew = Some (name_text (type_name (htype h)) @ text_of s separator @ text_of s (cells m (this + off_message)) @ [0])"
proof -
  define s1 where "s1 = s(pName \<mapsto> name_text (type_name (htype h)) @ [0])"
  have ok: "strings_ok s1"
    unfolding s1_def using strings_ok_update [OF assms(4,7,6) name_text_ok [OF assms(3)]] assms(3)
    by (simp add: name_ok_def name_text_def)
  have name: "System_Type_get_FullName schar (ty(pType \<mapsto> htype h)) s pName pType = Inr (pName, s1)"
    unfolding s1_def using assms(3,5) by (intro full_name) auto
  have other: "text_of s1 a = text_of s a" if "a \<in> dom s" for a
    using that assms(7) by (auto simp: s1_def text_of_def)
  have "text_of s1 pName = name_text (type_name (htype h))"
    using name_text_ok [OF assms(3)] by (simp add: s1_def text_of_def)
  moreover have "System_String_Concat3 s1 pNew pName separator (cells m (this + off_message)) =
    Inr (pNew, s1(pNew \<mapsto> text_of s1 pName @ text_of s1 separator @ text_of s1 (cells m (this + off_message)) @ [0]))"
    using assms(8,9) by (intro concat3_ok [OF ok]) (auto simp: s1_def)
  ultimately show ?thesis using assms(1,2) name other [OF assms(8)] other [OF assms(9)]
    by (simp add: System_Exception_ToString_def System_Object_GetType_def)
qed

text \<open>The finding: the default constructor leaves the message null, and then there is no text.\<close>

lemma no_message_no_text:
  assumes "get_header m this = Inr h" "this \<noteq> NULL" "name_ok (type_name (htype h))"
    and "pType \<noteq> NULL" "cells m (this + off_message) = NULL" "System_Exception_ctor m this = Inr m'"
    and "separator \<noteq> NULL" "pName \<noteq> NULL"
  shows "System_Exception_ToString schar m' ty s separator pType pName pNew this = Inl AssertionFailed"
proof -
  have [simp]: "m' = m" using assms(6) by (simp add: System_Exception_ctor_def)
  have "System_Type_get_FullName schar (ty(pType \<mapsto> htype h)) s pName pType =
      Inr (pName, s(pName \<mapsto> name_text (type_name (htype h)) @ [0]))"
    using assms(3,4) by (intro full_name) auto
  then show ?thesis using assms
    by (simp add: System_Exception_ToString_def System_Object_GetType_def System_String_Concat3_def)
qed

section \<open>Arrays from static data\<close>

text \<open>The copy takes the smaller of the two sizes; what lies behind it keeps its value.\<close>

lemma initialized_array:
  assumes "bodies m arr = ArrayBody elementType len" "arr \<noteq> NULL" "field_addr h \<noteq> NULL"
    and "len * il2c_sizeof elementType < 2 ^ 64"
  shows "\<exists>v'. RuntimeHelpers_InitializeArray m v arr h = Inr v' \<and>
    (\<forall>k < min (field_size h) (len * il2c_sizeof elementType).
       v' (arr + sizeof_Array + k) = v (field_addr h + k)) \<and>
    (\<forall>a. a < arr + sizeof_Array \<or> arr + sizeof_Array + min (field_size h) (len * il2c_sizeof elementType) \<le> a
       \<longrightarrow> v' a = v a)"
  using assms by (auto simp: RuntimeHelpers_InitializeArray_def memcpy_def Let_def min_def add.commute)

section \<open>Walking the base types\<close>

text \<open>
  The loop a program writes with \<open>GetType\<close>, \<open>BaseType\<close> and
  \<open>Equals\<close>: is \<open>u\<close> the type \<open>t\<close> or one of its base types?  Each round makes
  one type object, at the next address of the list.
\<close>

fun search_bases :: "types \<Rightarrow> addr list \<Rightarrow> addr \<Rightarrow> addr \<Rightarrow> bool result" where
  "search_bases ty fresh t u =
     (if t = NULL then Inr False
      else bind_result (System_Type_Equals ty t u) (\<lambda>e.
        if e then Inr True
        else (case fresh of [] \<Rightarrow> Inl StackOverflow
          | p # fresh \<Rightarrow> bind_result (System_Type_get_BaseType ty p t) (\<lambda>(b, ty). search_bases ty fresh b u))))"

declare search_bases.simps [simp del]

lemma search_bases_iff:
  "ty t = Some T \<Longrightarrow> t \<noteq> NULL \<Longrightarrow> ty u = Some U \<Longrightarrow> u \<noteq> NULL \<Longrightarrow> NULL \<notin> set fresh \<Longrightarrow> u \<notin> set fresh \<Longrightarrow>
   length (base_chain T) \<le> length fresh \<Longrightarrow> search_bases ty fresh t u = Inr (isinst_class T (type_addr U))"
proof (induction T arbitrary: ty t fresh rule: base_chain.induct)
  case (1 a n f s base v h mt ifs)
  then obtain p rest where fresh: "fresh = p # rest" by (cases fresh) auto
  show ?case
  proof (cases base)
    case None
    then show ?thesis using "1.prems" fresh
      by (simp add: search_bases.simps System_Type_Equals_def
          System_Type_get_BaseType_def get_type_def)
  next
    case (Some B)
    have "search_bases (ty(p \<mapsto> B)) rest p u = Inr (isinst_class B (type_addr U))"
      using "1.prems" fresh Some by (intro "1.IH") auto
    then show ?thesis using "1.prems" fresh Some
      by (simp add: search_bases.simps [of ty "_ # _"] System_Type_Equals_def System_Type_get_BaseType_def get_type_def)
  qed
qed

text \<open>
  C40: Reflection agrees with the casts.  For an object reference and a class \<open>U\<close> whose
  type object is \<open>u\<close>, the loop over \<open>GetType\<close>, \<open>BaseType\<close> and
  \<open>Type.Equals\<close> ends within the length of the base chain and answers what the
  dynamic cast decides; and \<open>ToString\<close> gives the name in the type's record, for both
  signednesses of \<open>char\<close>.
\<close>

theorem reflection_agrees_with_casts:
  assumes "get_header m this = Inr h" "il2c_adjusted_reference m this = Inr this" "this \<noteq> NULL"
    and "flags U AND IL2C_TYPE_INTERFACE = 0" "ty u = Some U" "u \<noteq> NULL"
    and "NULL \<notin> set (p # fresh)" "u \<notin> set (p # fresh)" "length (base_chain (htype h)) \<le> length fresh"
    and "name_ok (type_name (htype h))"
  shows "bind_result (System_Object_GetType m ty p this) (\<lambda>(t, ty). search_bases ty fresh t u) =
      bind_result (il2c_isinst m this U) (\<lambda>r. Inr (r \<noteq> NULL)) \<and>
    System_Object_ToString schar m ty s p pNew this =
      Inr (pNew, ty(p \<mapsto> htype h), s(pNew \<mapsto> name_text (type_name (htype h)) @ [0]))"
proof -
  have "search_bases (ty(p \<mapsto> htype h)) fresh p u = Inr (isinst_class (htype h) (type_addr U))"
    using assms by (intro search_bases_iff) auto
  moreover have "System_Type_get_FullName schar (ty(p \<mapsto> htype h)) s pNew p =
      Inr (pNew, s(pNew \<mapsto> name_text (type_name (htype h)) @ [0]))"
    using assms by (intro full_name) auto
  ultimately show ?thesis using assms
    by (simp add: System_Object_GetType_def System_Object_ToString_def il2c_isinst_def)
qed

text \<open>The object of the class \<open>Derived\<close> is an instance of \<open>Base\<close>; the type objects lie at 2000 and on.\<close>

lemma reflection_agrees_with_casts_witness:
  "bind_result (System_Object_GetType sample_cast_machine [1900 \<mapsto> sample_base] 2000 1000)
     (\<lambda>(t, ty). search_bases ty [2040, 2080, 2120] t 1900) = Inr True \<and>
   il2c_isinst sample_cast_machine 1000 sample_base = Inr 1000"
proof -
  have "il2c_adjusted_reference sample_cast_machine 1000 = Inr 1000"
    by (simp add: il2c_adjusted_reference_def sample_cast_machine_def)
  moreover have cast: "il2c_isinst sample_cast_machine 1000 sample_base = Inr 1000"
    using sample_cast_facts(2) calculation
    by (simp add: il2c_isinst_def sample_base_def sample_derived_def IL2C_TYPE_INTERFACE_def)
  moreover have "name_ok (type_name sample_derived)"
    by (auto simp: name_ok_def sample_derived_def)
  ultimately show ?thesis
    using reflection_agrees_with_casts [of sample_cast_machine 1000 _ sample_base "[1900 \<mapsto> sample_base]" 1900 2000
      "[2040, 2080, 2120]" False sample_strings 2200] sample_cast_facts(2)
    by (simp add: sample_base_def sample_derived_def)
qed

end
