(* ===== verification/Primitive_Types.thy ===== *)
theory Primitive_Types
  imports Wide_String Boxing
begin

text \<open>
  The primitive value types (src/System/Byte.c, SByte.c, Int16.c, UInt16.c, Int32.c, UInt32.c,
  Int64.c, UInt64.c, IntPtr.c, UIntPtr.c, Char.c, Boolean.c).  A receiver \<open>this\<close> points to the
  value's bytes; \<open>obj\<close> is a boxed object; texts live in the store of strings.

  \<open>TryParse\<close> calls the parser that the platform header names: \<open>wcstol\<close> and its relatives, or
  the runtime's own \<open>il2c_wtoi32\<close>.  They are an argument with one contract, the locale
  \<open>integer_parser\<close>, which \<open>il2c_wtoi32\<close> is shown to satisfy.  \<open>il2c_errno\<close> is state that is
  passed along: the parsers set it when they fail and nothing resets it.
\<close>

section \<open>Access\<close>

definition deref :: "bool \<Rightarrow> bytes \<Rightarrow> addr \<Rightarrow> 'w::len word result" where
  "deref big v p = (if p = NULL then Inl BadAccess else Inr (word_of_int (load_uint big v p (LENGTH('w) div 8))))"

text \<open>The asserted receiver, read.\<close>

definition receiver :: "bool \<Rightarrow> bytes \<Rightarrow> addr \<Rightarrow> ('w::len word \<Rightarrow> 'a result) \<Rightarrow> 'a result" where
  "receiver big v this k = il2c_assert (this \<noteq> NULL) (bind_result (deref big v this) k)"

text \<open>Type information of the primitive types: their vtable overrides no finalizer.\<close>

definition System_Object_TYPE :: runtime_type where
  "System_Object_TYPE = RuntimeType 2 ''System.Object'' 0 8 None
     (Some \<lparr>adjustor_offset = 0, Finalize = System_Object_Finalize\<rparr>) None [] []"

definition System_ValueType_TYPE :: runtime_type where
  "System_ValueType_TYPE = RuntimeType 3 ''System.ValueType'' 0 sizeof_ValueType (Some System_Object_TYPE) None None [] []"

definition primitive_type :: "addr \<Rightarrow> string \<Rightarrow> u64 \<Rightarrow> nat \<Rightarrow> runtime_type" where
  "primitive_type a name f n = RuntimeType a name f n (Some System_ValueType_TYPE)
     (Some \<lparr>adjustor_offset = 0, Finalize = System_Object_Finalize\<rparr>) None [] []"

section \<open>The common frames\<close>

definition integer_ToString :: "nat \<Rightarrow> (wchar list \<Rightarrow> wchar list result) \<Rightarrow> strings \<Rightarrow> addr \<Rightarrow> (addr \<times> strings) result" where
  "integer_ToString n tow s pNew = bind_result (tow (replicate n 0)) (il2c_new_string s pNew)"

definition Equals_boxed ::
  "machine \<Rightarrow> bool \<Rightarrow> bytes \<Rightarrow> runtime_type \<Rightarrow> addr \<Rightarrow> addr \<Rightarrow> ('w::len word \<Rightarrow> 'w word \<Rightarrow> bool) \<Rightarrow> bool result" where
  "Equals_boxed m big v ty this obj eq =
     il2c_assert (this \<noteq> NULL)
     (if obj = NULL then Inr False
      else bind_result (il2c_unbox m obj ty) (\<lambda>p.
           bind_result (deref big v p) (\<lambda>rhs. bind_result (deref big v this) (\<lambda>x. Inr (eq x rhs)))))"

type_synonym number_parser = "wchar list \<Rightarrow> int \<Rightarrow> (int \<times> wchar list option \<times> errno) result"

text \<open>
  The part that the \<open>TryParse\<close> functions share: the value, and whether \<open>endPtr\<close> moved and
  \<open>il2c_errno\<close> is 0, with the new \<open>il2c_errno\<close>.
\<close>

definition parse_text ::
  "number_parser \<Rightarrow> errno \<Rightarrow> strings \<Rightarrow> addr \<Rightarrow> addr \<Rightarrow> (int \<times> bool \<times> errno) result" where
  "parse_text wto e s str pResult =
     il2c_assert (str \<noteq> NULL) (il2c_assert (pResult \<noteq> NULL)
     (bind_result (get_string s str) (\<lambda>body.
      bind_result (wto body 10) (\<lambda>(value, endPtr, e').
      let e = (if e' = NoError then e else e') in
      case endPtr of None \<Rightarrow> Inl BadAccess | Some p \<Rightarrow> Inr (value, body \<noteq> p \<and> e = NoError, e)))))"

section \<open>System.Byte\<close>

definition System_Byte_TYPE :: runtime_type where
  "System_Byte_TYPE = primitive_type 0x11 ''System.Byte'' IL2C_TYPE_UNSIGNED_INTEGER 1"

definition System_Byte_ToString :: "bool \<Rightarrow> bytes \<Rightarrow> strings \<Rightarrow> addr \<Rightarrow> addr \<Rightarrow> (addr \<times> strings) result" where
  "System_Byte_ToString big v s pNew this = receiver big v this (\<lambda>x :: u8. integer_ToString 5 (\<lambda>b. il2c_i32tow (ucast x) b 10) s pNew)"

definition System_Byte_GetHashCode :: "bool \<Rightarrow> bytes \<Rightarrow> addr \<Rightarrow> 32 word result" where
  "System_Byte_GetHashCode big v this = receiver big v this (\<lambda>x :: u8. Inr (ucast x))"

definition System_Byte_Equals :: "bool \<Rightarrow> bytes \<Rightarrow> addr \<Rightarrow> u8 \<Rightarrow> bool result" where
  "System_Byte_Equals big v this obj = receiver big v this (\<lambda>x. Inr (x = obj))"

definition System_Byte_Equals_Object :: "machine \<Rightarrow> bool \<Rightarrow> bytes \<Rightarrow> addr \<Rightarrow> addr \<Rightarrow> bool result" where
  "System_Byte_Equals_Object m big v this obj = Equals_boxed m big v System_Byte_TYPE this obj (\<lambda>(x :: u8) rhs. x = rhs)"

definition System_Byte_TryParse :: "number_parser \<Rightarrow> errno \<Rightarrow> strings \<Rightarrow> addr \<Rightarrow> addr \<Rightarrow> (u8 \<times> bool \<times> errno) result" where
  "System_Byte_TryParse wtou32 e s str pResult =
     bind_result (parse_text wtou32 e s str pResult) (\<lambda>(value, ok, e). Inr (of_int value, ok \<and> value \<le> 255, e))"

section \<open>System.SByte\<close>

definition System_SByte_TYPE :: runtime_type where
  "System_SByte_TYPE = primitive_type 0x12 ''System.SByte'' IL2C_TYPE_INTEGER 1"

definition System_SByte_ToString :: "bool \<Rightarrow> bytes \<Rightarrow> strings \<Rightarrow> addr \<Rightarrow> addr \<Rightarrow> (addr \<times> strings) result" where
  "System_SByte_ToString big v s pNew this = receiver big v this (\<lambda>x :: u8. integer_ToString 5 (\<lambda>b. il2c_i32tow (scast x) b 10) s pNew)"

definition System_SByte_GetHashCode :: "bool \<Rightarrow> bytes \<Rightarrow> addr \<Rightarrow> 32 word result" where
  "System_SByte_GetHashCode big v this = receiver big v this (\<lambda>x :: u8. Inr (scast x))"

definition System_SByte_Equals :: "bool \<Rightarrow> bytes \<Rightarrow> addr \<Rightarrow> u8 \<Rightarrow> bool result" where
  "System_SByte_Equals big v this obj = receiver big v this (\<lambda>x. Inr (x = obj))"

definition System_SByte_Equals_Object :: "machine \<Rightarrow> bool \<Rightarrow> bytes \<Rightarrow> addr \<Rightarrow> addr \<Rightarrow> bool result" where
  "System_SByte_Equals_Object m big v this obj = Equals_boxed m big v System_SByte_TYPE this obj (\<lambda>(x :: u8) rhs. x = rhs)"

definition System_SByte_TryParse :: "number_parser \<Rightarrow> errno \<Rightarrow> strings \<Rightarrow> addr \<Rightarrow> addr \<Rightarrow> (u8 \<times> bool \<times> errno) result" where
  "System_SByte_TryParse wtoi32 e s str pResult =
     bind_result (parse_text wtoi32 e s str pResult) (\<lambda>(value, ok, e). Inr (of_int value, ok \<and> value \<le> 127 \<and> value \<ge> -128, e))"

section \<open>System.Int16\<close>

definition System_Int16_TYPE :: runtime_type where
  "System_Int16_TYPE = primitive_type 0x13 ''System.Int16'' IL2C_TYPE_INTEGER 2"

definition System_Int16_ToString :: "bool \<Rightarrow> bytes \<Rightarrow> strings \<Rightarrow> addr \<Rightarrow> addr \<Rightarrow> (addr \<times> strings) result" where
  "System_Int16_ToString big v s pNew this = bind_result (deref big v this) (\<lambda>x :: u16. integer_ToString 7 (\<lambda>b. il2c_i32tow (scast x) b 10) s pNew)"

definition System_Int16_GetHashCode :: "bool \<Rightarrow> bytes \<Rightarrow> addr \<Rightarrow> 32 word result" where
  "System_Int16_GetHashCode big v this = receiver big v this (\<lambda>x :: u16. Inr (scast x))"

definition System_Int16_Equals :: "bool \<Rightarrow> bytes \<Rightarrow> addr \<Rightarrow> u16 \<Rightarrow> bool result" where
  "System_Int16_Equals big v this obj = receiver big v this (\<lambda>x. Inr (x = obj))"

definition System_Int16_Equals_Object :: "machine \<Rightarrow> bool \<Rightarrow> bytes \<Rightarrow> addr \<Rightarrow> addr \<Rightarrow> bool result" where
  "System_Int16_Equals_Object m big v this obj = Equals_boxed m big v System_Int16_TYPE this obj (\<lambda>(x :: u16) rhs. x = rhs)"

definition System_Int16_TryParse :: "number_parser \<Rightarrow> errno \<Rightarrow> strings \<Rightarrow> addr \<Rightarrow> addr \<Rightarrow> (u16 \<times> bool \<times> errno) result" where
  "System_Int16_TryParse wtoi32 e s str pResult =
     bind_result (parse_text wtoi32 e s str pResult) (\<lambda>(value, ok, e). Inr (of_int value, ok \<and> value \<le> 32767 \<and> value \<ge> -32768, e))"

section \<open>System.UInt16\<close>

definition System_UInt16_TYPE :: runtime_type where
  "System_UInt16_TYPE = primitive_type 0x14 ''System.UInt16'' IL2C_TYPE_UNSIGNED_INTEGER 2"

definition System_UInt16_ToString :: "bool \<Rightarrow> bytes \<Rightarrow> strings \<Rightarrow> addr \<Rightarrow> addr \<Rightarrow> (addr \<times> strings) result" where
  "System_UInt16_ToString big v s pNew this = receiver big v this (\<lambda>x :: u16. integer_ToString 7 (\<lambda>b. il2c_i32tow (ucast x) b 10) s pNew)"

definition System_UInt16_GetHashCode :: "bool \<Rightarrow> bytes \<Rightarrow> addr \<Rightarrow> 32 word result" where
  "System_UInt16_GetHashCode big v this = receiver big v this (\<lambda>x :: u16. Inr (ucast x))"

definition System_UInt16_Equals :: "bool \<Rightarrow> bytes \<Rightarrow> addr \<Rightarrow> u16 \<Rightarrow> bool result" where
  "System_UInt16_Equals big v this obj = receiver big v this (\<lambda>x. Inr (x = obj))"

definition System_UInt16_Equals_Object :: "machine \<Rightarrow> bool \<Rightarrow> bytes \<Rightarrow> addr \<Rightarrow> addr \<Rightarrow> bool result" where
  "System_UInt16_Equals_Object m big v this obj = Equals_boxed m big v System_UInt16_TYPE this obj (\<lambda>(x :: u16) rhs. x = rhs)"

definition System_UInt16_TryParse :: "number_parser \<Rightarrow> errno \<Rightarrow> strings \<Rightarrow> addr \<Rightarrow> addr \<Rightarrow> (u16 \<times> bool \<times> errno) result" where
  "System_UInt16_TryParse wtou32 e s str pResult =
     bind_result (parse_text wtou32 e s str pResult) (\<lambda>(value, ok, e). Inr (of_int value, ok \<and> value \<le> 65535, e))"

section \<open>System.Int32\<close>

definition System_Int32_TYPE :: runtime_type where
  "System_Int32_TYPE = primitive_type 0x15 ''System.Int32'' IL2C_TYPE_INTEGER 4"

definition System_Int32_ToString :: "bool \<Rightarrow> bytes \<Rightarrow> strings \<Rightarrow> addr \<Rightarrow> addr \<Rightarrow> (addr \<times> strings) result" where
  "System_Int32_ToString big v s pNew this = receiver big v this (\<lambda>x :: u32. integer_ToString 14 (\<lambda>b. il2c_i32tow x b 10) s pNew)"

definition System_Int32_GetHashCode :: "bool \<Rightarrow> bytes \<Rightarrow> addr \<Rightarrow> 32 word result" where
  "System_Int32_GetHashCode big v this = receiver big v this (\<lambda>x :: u32. Inr (x))"

definition System_Int32_Equals :: "bool \<Rightarrow> bytes \<Rightarrow> addr \<Rightarrow> u32 \<Rightarrow> bool result" where
  "System_Int32_Equals big v this obj = receiver big v this (\<lambda>x. Inr (x = obj))"

definition System_Int32_Equals_Object :: "machine \<Rightarrow> bool \<Rightarrow> bytes \<Rightarrow> addr \<Rightarrow> addr \<Rightarrow> bool result" where
  "System_Int32_Equals_Object m big v this obj = Equals_boxed m big v System_Int32_TYPE this obj (\<lambda>(x :: u32) rhs. x = rhs)"

definition System_Int32_TryParse :: "number_parser \<Rightarrow> errno \<Rightarrow> strings \<Rightarrow> addr \<Rightarrow> addr \<Rightarrow> (u32 \<times> bool \<times> errno) result" where
  "System_Int32_TryParse wtoi32 e s str pResult =
     bind_result (parse_text wtoi32 e s str pResult) (\<lambda>(value, ok, e). Inr (of_int value, ok, e))"

section \<open>System.UInt32\<close>

definition System_UInt32_TYPE :: runtime_type where
  "System_UInt32_TYPE = primitive_type 0x16 ''System.UInt32'' IL2C_TYPE_UNSIGNED_INTEGER 4"

definition System_UInt32_ToString :: "bool \<Rightarrow> bytes \<Rightarrow> strings \<Rightarrow> addr \<Rightarrow> addr \<Rightarrow> (addr \<times> strings) result" where
  "System_UInt32_ToString big v s pNew this = receiver big v this (\<lambda>x :: u32. integer_ToString 14 (\<lambda>b. il2c_u32tow x b 10) s pNew)"

definition System_UInt32_GetHashCode :: "bool \<Rightarrow> bytes \<Rightarrow> addr \<Rightarrow> 32 word result" where
  "System_UInt32_GetHashCode big v this = receiver big v this (\<lambda>x :: u32. Inr (x))"

definition System_UInt32_Equals :: "bool \<Rightarrow> bytes \<Rightarrow> addr \<Rightarrow> u32 \<Rightarrow> bool result" where
  "System_UInt32_Equals big v this obj = receiver big v this (\<lambda>x. Inr (x = obj))"

definition System_UInt32_Equals_Object :: "machine \<Rightarrow> bool \<Rightarrow> bytes \<Rightarrow> addr \<Rightarrow> addr \<Rightarrow> bool result" where
  "System_UInt32_Equals_Object m big v this obj = Equals_boxed m big v System_UInt32_TYPE this obj (\<lambda>(x :: u32) rhs. x = rhs)"

definition System_UInt32_TryParse :: "number_parser \<Rightarrow> errno \<Rightarrow> strings \<Rightarrow> addr \<Rightarrow> addr \<Rightarrow> (u32 \<times> bool \<times> errno) result" where
  "System_UInt32_TryParse wtou32 e s str pResult =
     bind_result (parse_text wtou32 e s str pResult) (\<lambda>(value, ok, e). Inr (of_int value, ok, e))"

section \<open>System.Int64\<close>

definition System_Int64_TYPE :: runtime_type where
  "System_Int64_TYPE = primitive_type 0x17 ''System.Int64'' IL2C_TYPE_INTEGER 8"

definition System_Int64_ToString :: "bool \<Rightarrow> bytes \<Rightarrow> strings \<Rightarrow> addr \<Rightarrow> addr \<Rightarrow> (addr \<times> strings) result" where
  "System_Int64_ToString big v s pNew this = receiver big v this (\<lambda>x :: u64. integer_ToString 24 (\<lambda>b. il2c_i64tow x b 10) s pNew)"

definition System_Int64_GetHashCode :: "bool \<Rightarrow> bytes \<Rightarrow> addr \<Rightarrow> 32 word result" where
  "System_Int64_GetHashCode big v this = receiver big v this (\<lambda>x :: u64. Inr (ucast x XOR ucast (signed_drop_bit 32 x)))"

definition System_Int64_Equals :: "bool \<Rightarrow> bytes \<Rightarrow> addr \<Rightarrow> u64 \<Rightarrow> bool result" where
  "System_Int64_Equals big v this obj = receiver big v this (\<lambda>x. Inr (x = obj))"

definition System_Int64_Equals_Object :: "machine \<Rightarrow> bool \<Rightarrow> bytes \<Rightarrow> addr \<Rightarrow> addr \<Rightarrow> bool result" where
  "System_Int64_Equals_Object m big v this obj = Equals_boxed m big v System_Int64_TYPE this obj (\<lambda>(x :: u64) rhs. x = rhs)"

definition System_Int64_TryParse :: "number_parser \<Rightarrow> errno \<Rightarrow> strings \<Rightarrow> addr \<Rightarrow> addr \<Rightarrow> (u64 \<times> bool \<times> errno) result" where
  "System_Int64_TryParse wtoi64 e s str pResult =
     bind_result (parse_text wtoi64 e s str pResult) (\<lambda>(value, ok, e). Inr (of_int value, ok, e))"

section \<open>System.UInt64\<close>

definition System_UInt64_TYPE :: runtime_type where
  "System_UInt64_TYPE = primitive_type 0x18 ''System.UInt64'' IL2C_TYPE_UNSIGNED_INTEGER 8"

definition System_UInt64_ToString :: "bool \<Rightarrow> bytes \<Rightarrow> strings \<Rightarrow> addr \<Rightarrow> addr \<Rightarrow> (addr \<times> strings) result" where
  "System_UInt64_ToString big v s pNew this = receiver big v this (\<lambda>x :: u64. integer_ToString 24 (\<lambda>b. il2c_u64tow x b 10) s pNew)"

definition System_UInt64_GetHashCode :: "bool \<Rightarrow> bytes \<Rightarrow> addr \<Rightarrow> 32 word result" where
  "System_UInt64_GetHashCode big v this = receiver big v this (\<lambda>x :: u64. Inr (ucast x XOR ucast (drop_bit 32 x)))"

definition System_UInt64_Equals :: "bool \<Rightarrow> bytes \<Rightarrow> addr \<Rightarrow> u64 \<Rightarrow> bool result" where
  "System_UInt64_Equals big v this obj = receiver big v this (\<lambda>x. Inr (x = obj))"

definition System_UInt64_Equals_Object :: "machine \<Rightarrow> bool \<Rightarrow> bytes \<Rightarrow> addr \<Rightarrow> addr \<Rightarrow> bool result" where
  "System_UInt64_Equals_Object m big v this obj = Equals_boxed m big v System_UInt64_TYPE this obj (\<lambda>(x :: u64) rhs. x = rhs)"

definition System_UInt64_TryParse :: "number_parser \<Rightarrow> errno \<Rightarrow> strings \<Rightarrow> addr \<Rightarrow> addr \<Rightarrow> (u64 \<times> bool \<times> errno) result" where
  "System_UInt64_TryParse wtou64 e s str pResult =
     bind_result (parse_text wtou64 e s str pResult) (\<lambda>(value, ok, e). Inr (of_int value, ok, e))"

section \<open>System.IntPtr\<close>

definition System_IntPtr_TYPE :: runtime_type where
  "System_IntPtr_TYPE = primitive_type 0x19 ''System.IntPtr'' IL2C_TYPE_INTEGER 8"

definition System_IntPtr_ToString :: "bool \<Rightarrow> bytes \<Rightarrow> strings \<Rightarrow> addr \<Rightarrow> addr \<Rightarrow> (addr \<times> strings) result" where
  "System_IntPtr_ToString big v s pNew this = receiver big v this (\<lambda>x :: u64. integer_ToString 24 (\<lambda>b. il2c_i64tow x b 10) s pNew)"

definition System_IntPtr_GetHashCode :: "bool \<Rightarrow> bytes \<Rightarrow> addr \<Rightarrow> 32 word result" where
  "System_IntPtr_GetHashCode big v this = receiver big v this (\<lambda>x :: u64. Inr (ucast x XOR ucast (signed_drop_bit 32 x)))"

definition System_IntPtr_Equals :: "bool \<Rightarrow> bytes \<Rightarrow> addr \<Rightarrow> u64 \<Rightarrow> bool result" where
  "System_IntPtr_Equals big v this obj = receiver big v this (\<lambda>x. Inr (x = obj))"

definition System_IntPtr_Equals_Object :: "machine \<Rightarrow> bool \<Rightarrow> bytes \<Rightarrow> addr \<Rightarrow> addr \<Rightarrow> bool result" where
  "System_IntPtr_Equals_Object m big v this obj = Equals_boxed m big v System_IntPtr_TYPE this obj (\<lambda>(x :: u64) rhs. x = rhs)"

section \<open>System.UIntPtr\<close>

definition System_UIntPtr_TYPE :: runtime_type where
  "System_UIntPtr_TYPE = primitive_type 0x1a ''System.UIntPtr'' IL2C_TYPE_UNSIGNED_INTEGER 8"

definition System_UIntPtr_ToString :: "bool \<Rightarrow> bytes \<Rightarrow> strings \<Rightarrow> addr \<Rightarrow> addr \<Rightarrow> (addr \<times> strings) result" where
  "System_UIntPtr_ToString big v s pNew this = receiver big v this (\<lambda>x :: u64. integer_ToString 24 (\<lambda>b. il2c_u64tow x b 10) s pNew)"

definition System_UIntPtr_GetHashCode :: "bool \<Rightarrow> bytes \<Rightarrow> addr \<Rightarrow> 32 word result" where
  "System_UIntPtr_GetHashCode big v this = receiver big v this (\<lambda>x :: u64. Inr (ucast x XOR ucast (drop_bit 32 x)))"

definition System_UIntPtr_Equals :: "bool \<Rightarrow> bytes \<Rightarrow> addr \<Rightarrow> u64 \<Rightarrow> bool result" where
  "System_UIntPtr_Equals big v this obj = receiver big v this (\<lambda>x. Inr (x = obj))"

definition System_UIntPtr_Equals_Object :: "machine \<Rightarrow> bool \<Rightarrow> bytes \<Rightarrow> addr \<Rightarrow> addr \<Rightarrow> bool result" where
  "System_UIntPtr_Equals_Object m big v this obj = Equals_boxed m big v System_UIntPtr_TYPE this obj (\<lambda>(x :: u64) rhs. x = rhs)"

section \<open>System.Char\<close>

definition System_Char_TYPE :: runtime_type where
  "System_Char_TYPE = primitive_type 0x1B ''System.Char'' IL2C_TYPE_UNSIGNED_INTEGER 4"

definition System_Char_ToString :: "bool \<Rightarrow> bytes \<Rightarrow> strings \<Rightarrow> addr \<Rightarrow> addr \<Rightarrow> (addr \<times> strings) result" where
  "System_Char_ToString big v s pNew this = bind_result (deref big v this) (\<lambda>x. il2c_new_string s pNew [x, 0])"

definition System_Char_GetHashCode :: "bool \<Rightarrow> bytes \<Rightarrow> addr \<Rightarrow> 32 word result" where
  "System_Char_GetHashCode big v this = receiver big v this (\<lambda>x :: wchar. Inr x)"

definition System_Char_Equals :: "bool \<Rightarrow> bytes \<Rightarrow> addr \<Rightarrow> wchar \<Rightarrow> bool result" where
  "System_Char_Equals big v this obj = receiver big v this (\<lambda>x. Inr (x = obj))"

definition System_Char_Equals_Object :: "machine \<Rightarrow> bool \<Rightarrow> bytes \<Rightarrow> addr \<Rightarrow> addr \<Rightarrow> bool result" where
  "System_Char_Equals_Object m big v this obj = Equals_boxed m big v System_Char_TYPE this obj (\<lambda>(x :: wchar) rhs. x = rhs)"

definition System_Char_TryParse :: "strings \<Rightarrow> addr \<Rightarrow> addr \<Rightarrow> (wchar \<times> bool) result" where
  "System_Char_TryParse s str pResult =
     il2c_assert (str \<noteq> NULL) (il2c_assert (pResult \<noteq> NULL)
     (bind_result (get_string s str) (\<lambda>body. bind_result (array_read body 0) (\<lambda>ch. Inr (ch, ch \<noteq> 0)))))"

section \<open>System.Boolean\<close>

definition System_Boolean_TYPE :: runtime_type where
  "System_Boolean_TYPE = primitive_type 0x1C ''System.Boolean'' IL2C_TYPE_UNSIGNED_INTEGER 1"

text \<open>The constant string objects; like the empty string they are no heap addresses.\<close>

definition System_Boolean_True :: addr where "System_Boolean_True = 24"
definition System_Boolean_False :: addr where "System_Boolean_False = 32"

definition System_Boolean_ToString :: "bool \<Rightarrow> bytes \<Rightarrow> addr \<Rightarrow> addr result" where
  "System_Boolean_ToString big v this = bind_result (deref big v this) (\<lambda>x :: u8.
     Inr (if x \<noteq> 0 then System_Boolean_True else System_Boolean_False))"

definition System_Boolean_GetHashCode :: "bool \<Rightarrow> bytes \<Rightarrow> addr \<Rightarrow> 32 word result" where
  "System_Boolean_GetHashCode big v this = receiver big v this (\<lambda>x :: u8. Inr (if x \<noteq> 0 then 1 else 0))"

definition System_Boolean_Equals :: "bool \<Rightarrow> bytes \<Rightarrow> addr \<Rightarrow> bool \<Rightarrow> bool result" where
  "System_Boolean_Equals big v this obj = receiver big v this (\<lambda>x :: u8. Inr ((x \<noteq> 0) = obj))"

definition System_Boolean_Equals_Object :: "machine \<Rightarrow> bool \<Rightarrow> bytes \<Rightarrow> addr \<Rightarrow> addr \<Rightarrow> bool result" where
  "System_Boolean_Equals_Object m big v this obj =
     Equals_boxed m big v System_Boolean_TYPE this obj (\<lambda>(x :: u8) rhs. (x \<noteq> 0) = (rhs \<noteq> 0))"

text \<open>\<open>wcscasecmp\<close> against a text of ASCII letters: equal up to the case of ASCII letters.\<close>

definition lower :: "wchar \<Rightarrow> wchar" where
  "lower c = (if 0x41 \<le> c \<and> c \<le> 0x5A then c + 0x20 else c)"

definition wcsicmp_equal :: "wchar list \<Rightarrow> wchar list \<Rightarrow> bool result" where
  "wcsicmp_equal b str = bind_result (cstr_len b) (\<lambda>_. Inr (map lower (cstr_text b) = map lower str))"

definition System_Boolean_TryParse :: "strings \<Rightarrow> addr \<Rightarrow> addr \<Rightarrow> (bool \<times> bool) result" where
  "System_Boolean_TryParse s str pResult =
     il2c_assert (str \<noteq> NULL) (il2c_assert (pResult \<noteq> NULL)
     (bind_result (get_string s str) (\<lambda>body.
      bind_result (wcsicmp_equal body (wide ''True'')) (\<lambda>t.
      if t then Inr (True, True)
      else bind_result (wcsicmp_equal body (wide ''False'')) (\<lambda>f.
      if f then Inr (False, True) else Inr (False, False))))))"

section \<open>The contract of the parsers\<close>

text \<open>
  What \<open>wcstol\<close> and \<open>wcstoul\<close> of a \<open>long\<close> of \<open>n\<close> bits make of an integer.  The unsigned
  parser negates a number with a minus sign in its own type.
\<close>

definition long_outcome :: "nat \<Rightarrow> int \<Rightarrow> int \<times> errno" where
  "long_outcome n z = (clamp_long n z, if clamp_long n z = z then NoError else ERANGE)"

definition ulong_outcome :: "nat \<Rightarrow> int \<Rightarrow> int \<times> errno" where
  "ulong_outcome n z = (if \<bar>z\<bar> < 2 ^ n then (z mod 2 ^ n, NoError) else (2 ^ n - 1, ERANGE))"

locale integer_parser =
  fixes parse :: number_parser and answer :: "int \<Rightarrow> int \<times> errno"
  assumes parses: "\<not> is_digit 10 c \<Longrightarrow>
    parse (replicate k 0x20 @ integer_text z @ c # r) 10 = Inr (fst (answer z), Some (c # r), snd (answer z))"
begin

lemma parse_text_number:
  assumes "s str = Some (replicate k 0x20 @ integer_text z @ c # r)" "\<not> is_digit 10 c" "str \<noteq> NULL" "pResult \<noteq> NULL"
  shows "parse_text parse e s str pResult =
    (let e' = (if snd (answer z) = NoError then e else snd (answer z)) in Inr (fst (answer z), e' = NoError, e'))"
proof -
  have "integer_text z \<noteq> []" by (simp add: integer_text_parts)
  then have "replicate k 0x20 @ integer_text z @ c # r \<noteq> c # r"
    by (metis append_assoc append_is_Nil_conv self_append_conv2)
  then show ?thesis
    using assms parses [OF assms(2)] by (simp add: parse_text_def get_string_def Let_def)
qed

lemma parse_text_back:
  assumes "str \<noteq> NULL" "pResult \<noteq> NULL" "answer z = (z, NoError)"
  shows "parse_text parse NoError (s(str \<mapsto> integer_text z @ [0])) str pResult = Inr (z, True, NoError)"
  using parse_text_number [of "s(str \<mapsto> integer_text z @ [0])" str 0 z 0 "[]" pResult NoError] assms by simp

lemma parse_text_sticky:
  assumes "e \<noteq> NoError" "parse_text parse e s str pResult = Inr (value, ok, e')"
  shows "\<not> ok \<and> e' \<noteq> NoError"
  using assms by (auto simp: parse_text_def Let_def split: option.splits prod.splits if_splits)

end

interpretation wtoi64: integer_parser "il2c_wtoi32 64" "long_outcome 64"
  by unfold_locales (simp add: wtoi32_integer_text long_outcome_def)

interpretation wtoi32: integer_parser "il2c_wtoi32 32" "long_outcome 32"
  by unfold_locales (simp add: wtoi32_integer_text long_outcome_def)

section \<open>Values\<close>

lemma le_value_range: "0 \<le> le_value bs \<and> le_value bs < 256 ^ length bs"
proof (induction bs)
  case (Cons b bs)
  moreover have "uint b < 256" "0 \<le> uint b" using uint_lt2p [of b] by simp_all
  ultimately show ?case by auto
qed simp

lemma load_uint_range: "0 \<le> load_uint big v p n \<and> load_uint big v p n < 2 ^ (8 * n)"
  using le_value_range [of "in_order big (map v [p..<p + n])"]
  by (simp add: load_uint_def power_mult [of 2 8])

lemma sint_of_to_sint:
  assumes "LENGTH('w::len) = 8 * n"
  shows "sint (word_of_int x :: 'w word) = to_sint n x"
proof -
  obtain k where k: "LENGTH('w) = Suc k" using len_gt_0 [where ?'a = 'w] by (cases "LENGTH('w)") auto
  show ?thesis
    unfolding sint_cases to_sint_def to_uint_def Let_def assms [symmetric] uint_word_of_int k by simp
qed

lemma uint_of_loaded:
  assumes "LENGTH('w::len) = 8 * n"
  shows "uint (word_of_int (load_uint big v p n) :: 'w word) = load_uint big v p n"
  using load_uint_range [of big v p n] by (simp add: uint_word_of_int assms)

lemma sint_widened:
  "sint (scast (x :: u8) :: u32) = sint x" "sint (scast (y :: u16) :: u32) = sint y"
  "sint (ucast (x :: u8) :: u32) = uint x" "sint (ucast (y :: u16) :: u32) = uint y"
proof -
  show "sint (scast x :: u32) = sint x" "sint (scast y :: u32) = sint y"
    by (simp_all add: sint_up_scast is_up)
  have "uint (ucast x :: u32) = uint x" "uint (ucast y :: u32) = uint y" by (simp_all add: uint_up_ucast is_up)
  moreover have "uint x < 2 ^ 31" "uint y < 2 ^ 31"
    using uint_lt2p [of x] uint_lt2p [of y] by simp_all
  ultimately show "sint (ucast x :: u32) = uint x" "sint (ucast y :: u32) = uint y"
    by (simp_all add: sint_cases)
qed

lemma integer_ToString_text:
  assumes "tow (replicate n 0) = Inr (put_text (integer_text z) (replicate n 0))" "length (integer_text z) < 2 ^ 31"
  shows "integer_ToString n tow s pNew = Inr (pNew, s(pNew \<mapsto> integer_text z @ [0]))"
  using assms new_string_ok [of "integer_text z" s pNew]
  by (simp add: integer_ToString_def put_text_def)

lemma text_fits: "\<bar>z\<bar> < 10 ^ k \<Longrightarrow> 0 < k \<Longrightarrow> k + 1 < n \<Longrightarrow> length (integer_text z) < n"
  using integer_text_length [of k z] by (auto split: if_splits)

lemma i32_ToString:
  assumes "\<bar>sint x\<bar> < 10 ^ k" "0 < k" "k + 1 < n" "n < 100"
  shows "integer_ToString n (\<lambda>b. il2c_i32tow x b 10) s pNew = Inr (pNew, s(pNew \<mapsto> integer_text (sint x) @ [0]))"
  using assms text_fits [OF assms(1,2,3)] by (intro integer_ToString_text i32tow_text) simp_all

lemma i64_ToString:
  "integer_ToString 24 (\<lambda>b. il2c_i64tow x b 10) s pNew = Inr (pNew, s(pNew \<mapsto> integer_text (sint x) @ [0]))"
  using signed_text_length(2) [of x] by (intro integer_ToString_text i64tow_text) simp_all

lemma u32_ToString:
  "integer_ToString 14 (\<lambda>b. il2c_u32tow x b 10) s pNew = Inr (pNew, s(pNew \<mapsto> integer_text (uint x) @ [0]))"
proof -
  have "\<bar>uint x\<bar> < 10 ^ 10" using uint_lt2p [of x] by simp
  then have "length (integer_text (uint x)) < 14" by (rule text_fits) simp_all
  then show ?thesis
    using u32tow_text [of 10 x "replicate 14 0"] by (intro integer_ToString_text) (simp_all add: unsigned_integer_text)
qed

lemma u64_ToString:
  "integer_ToString 24 (\<lambda>b. il2c_u64tow x b 10) s pNew = Inr (pNew, s(pNew \<mapsto> integer_text (uint x) @ [0]))"
proof -
  have "\<bar>uint x\<bar> < 10 ^ 20" using uint_lt2p [of x] by simp
  then have "length (integer_text (uint x)) < 24" by (rule text_fits) simp_all
  then show ?thesis
    using u64tow_text [of 10 x "replicate 24 0"] by (intro integer_ToString_text) (simp_all add: unsigned_integer_text)
qed

lemma typed_values:
  "typed_value big v p System_Byte_TYPE = load_uint big v p 1" "typed_value big v p System_SByte_TYPE = load_sint big v p 1"
  "typed_value big v p System_Int16_TYPE = load_sint big v p 2" "typed_value big v p System_UInt16_TYPE = load_uint big v p 2"
  "typed_value big v p System_Int32_TYPE = load_sint big v p 4" "typed_value big v p System_UInt32_TYPE = load_uint big v p 4"
  "typed_value big v p System_Int64_TYPE = load_sint big v p 8" "typed_value big v p System_UInt64_TYPE = load_uint big v p 8"
  by (simp_all add: typed_value_def is_unsigned_def System_Byte_TYPE_def System_SByte_TYPE_def System_Int16_TYPE_def
      System_UInt16_TYPE_def System_Int32_TYPE_def System_UInt32_TYPE_def System_Int64_TYPE_def System_UInt64_TYPE_def
      primitive_type_def IL2C_TYPE_INTEGER_def IL2C_TYPE_UNSIGNED_INTEGER_def IL2C_TYPE_VALUE_def)

lemma load_sint_range: "0 < n \<Longrightarrow> - (2 ^ (8 * n - 1)) \<le> load_sint big v p n \<and> load_sint big v p n < 2 ^ (8 * n - 1)"
  using load_uint_range [of big v p n]
  by (cases "8 * n") (auto simp: load_sint_def to_sint_def to_uint_def Let_def)

lemmas load_ranges =
  load_uint_range [of _ _ _ 1, simplified] load_uint_range [of _ _ _ 2, simplified]
  load_uint_range [of _ _ _ 4, simplified] load_uint_range [of _ _ _ 8, simplified]
  load_sint_range [of 1, simplified] load_sint_range [of 2, simplified]
  load_sint_range [of 4, simplified] load_sint_range [of 8, simplified]

text \<open>A number is printed as its decimal text, and parsing the new string gives it back.\<close>

definition parses_back ::
  "(strings \<Rightarrow> addr \<Rightarrow> (addr \<times> strings) result) \<Rightarrow> (strings \<Rightarrow> addr \<Rightarrow> ('w::len word \<times> bool \<times> errno) result) \<Rightarrow> int \<Rightarrow> bool" where
  "parses_back str parse z \<longleftrightarrow> (\<forall>s pNew. pNew \<noteq> NULL \<longrightarrow> str s pNew = Inr (pNew, s(pNew \<mapsto> integer_text z @ [0])) \<and>
     parse (s(pNew \<mapsto> integer_text z @ [0])) pNew = Inr (word_of_int z, True, NoError))"

lemma parses_backI:
  assumes wto: "integer_parser wto answer" and z: "answer z = (z, NoError)" and "pResult \<noteq> NULL"
    and str: "\<And>s pNew. str s pNew = Inr (pNew, s(pNew \<mapsto> integer_text z @ [0]))"
    and parse: "\<And>s q. parse s q = bind_result (parse_text wto NoError s q pResult) (\<lambda>(value, ok, e). Inr (word_of_int value, g value ok, e))"
      "g z True"
  shows "parses_back str parse z"
  using integer_parser.parse_text_back [OF wto _ assms(3) z] by (simp add: parses_back_def str parse)

text \<open>What the four parsers do on a platform whose \<open>long\<close> has \<open>n\<close> bits.\<close>

definition platform_parsers :: "nat \<Rightarrow> number_parser \<Rightarrow> number_parser \<Rightarrow> number_parser \<Rightarrow> number_parser \<Rightarrow> bool" where
  "platform_parsers n wtoi32 wtou32 wtoi64 wtou64 \<longleftrightarrow> n \<in> {32, 64} \<and>
     integer_parser wtoi32 (long_outcome n) \<and> integer_parser wtou32 (ulong_outcome n) \<and>
     integer_parser wtoi64 (long_outcome 64) \<and> integer_parser wtou64 (ulong_outcome 64)"

lemma outcomes_in_range:
  "n \<in> {32, 64} \<Longrightarrow> - (2 ^ 31) \<le> z \<Longrightarrow> z < 2 ^ 31 \<Longrightarrow> long_outcome n z = (z, NoError)"
  "- (2 ^ 63) \<le> z \<Longrightarrow> z < 2 ^ 63 \<Longrightarrow> long_outcome 64 z = (z, NoError)"
  "n \<in> {32, 64} \<Longrightarrow> 0 \<le> z \<Longrightarrow> z < 2 ^ 32 \<Longrightarrow> ulong_outcome n z = (z, NoError)"
  "0 \<le> z \<Longrightarrow> z < 2 ^ 64 \<Longrightarrow> ulong_outcome 64 z = (z, NoError)"
  by (auto simp: long_outcome_def ulong_outcome_def clamp_long_def)

lemma small_back:
  assumes "platform_parsers n wtoi32 wtou32 wtoi64 wtou64" "pResult \<noteq> NULL" "this \<noteq> NULL"
  shows "parses_back (\<lambda>s q. System_Byte_ToString big v s q this) (\<lambda>s q. System_Byte_TryParse wtou32 NoError s q pResult)
      (typed_value big v this System_Byte_TYPE)"
    "parses_back (\<lambda>s q. System_SByte_ToString big v s q this) (\<lambda>s q. System_SByte_TryParse wtoi32 NoError s q pResult)
      (typed_value big v this System_SByte_TYPE)"
    "parses_back (\<lambda>s q. System_Int16_ToString big v s q this) (\<lambda>s q. System_Int16_TryParse wtoi32 NoError s q pResult)
      (typed_value big v this System_Int16_TYPE)"
    "parses_back (\<lambda>s q. System_UInt16_ToString big v s q this) (\<lambda>s q. System_UInt16_TryParse wtou32 NoError s q pResult)
      (typed_value big v this System_UInt16_TYPE)"
proof -
  note r = load_ranges [of big v this]
  have p: "integer_parser wtoi32 (long_outcome n)" "integer_parser wtou32 (ulong_outcome n)" "n \<in> {32, 64}"
    using assms(1) by (simp_all add: platform_parsers_def)
  show "parses_back (\<lambda>s q. System_Byte_ToString big v s q this) (\<lambda>s q. System_Byte_TryParse wtou32 NoError s q pResult)
      (typed_value big v this System_Byte_TYPE)"
  proof (rule parses_backI [where g = "\<lambda>value ok. ok \<and> value \<le> 255", OF p(2) _ assms(2)])
    show "System_Byte_ToString big v s pNew this = Inr (pNew, s(pNew \<mapsto> integer_text (typed_value big v this System_Byte_TYPE) @ [0]))" for s pNew
      using r(1) i32_ToString [of "ucast (word_of_int (load_uint big v this 1) :: u8)" 3 5 s pNew] assms(3)
      by (simp add: System_Byte_ToString_def receiver_def deref_def sint_widened uint_of_loaded typed_values)
  qed (use r(1) outcomes_in_range(3) [OF p(3)] in \<open>auto simp: System_Byte_TryParse_def typed_values\<close>)
  show "parses_back (\<lambda>s q. System_SByte_ToString big v s q this) (\<lambda>s q. System_SByte_TryParse wtoi32 NoError s q pResult)
      (typed_value big v this System_SByte_TYPE)"
  proof (rule parses_backI [where g = "\<lambda>value ok. ok \<and> value \<le> 127 \<and> value \<ge> -128", OF p(1) _ assms(2)])
    show "System_SByte_ToString big v s pNew this = Inr (pNew, s(pNew \<mapsto> integer_text (typed_value big v this System_SByte_TYPE) @ [0]))" for s pNew
      using r(5) i32_ToString [of "scast (word_of_int (load_uint big v this 1) :: u8)" 3 5 s pNew] assms(3)
      by (simp add: System_SByte_ToString_def receiver_def deref_def sint_widened sint_of_to_sint [of 1] typed_values load_sint_def abs_less_iff)
  qed (use r(5) outcomes_in_range(1) [OF p(3)] in \<open>auto simp: System_SByte_TryParse_def typed_values\<close>)
  show "parses_back (\<lambda>s q. System_Int16_ToString big v s q this) (\<lambda>s q. System_Int16_TryParse wtoi32 NoError s q pResult)
      (typed_value big v this System_Int16_TYPE)"
  proof (rule parses_backI [where g = "\<lambda>value ok. ok \<and> value \<le> 32767 \<and> value \<ge> -32768", OF p(1) _ assms(2)])
    show "System_Int16_ToString big v s pNew this = Inr (pNew, s(pNew \<mapsto> integer_text (typed_value big v this System_Int16_TYPE) @ [0]))" for s pNew
      using r(6) i32_ToString [of "scast (word_of_int (load_uint big v this 2) :: u16)" 5 7 s pNew] assms(3)
      by (simp add: System_Int16_ToString_def deref_def sint_widened sint_of_to_sint [of 2] typed_values load_sint_def abs_less_iff)
  qed (use r(6) outcomes_in_range(1) [OF p(3)] in \<open>auto simp: System_Int16_TryParse_def typed_values\<close>)
  show "parses_back (\<lambda>s q. System_UInt16_ToString big v s q this) (\<lambda>s q. System_UInt16_TryParse wtou32 NoError s q pResult)
      (typed_value big v this System_UInt16_TYPE)"
  proof (rule parses_backI [where g = "\<lambda>value ok. ok \<and> value \<le> 65535", OF p(2) _ assms(2)])
    show "System_UInt16_ToString big v s pNew this = Inr (pNew, s(pNew \<mapsto> integer_text (typed_value big v this System_UInt16_TYPE) @ [0]))" for s pNew
      using r(2) i32_ToString [of "ucast (word_of_int (load_uint big v this 2) :: u16)" 5 7 s pNew] assms(3)
      by (simp add: System_UInt16_ToString_def receiver_def deref_def sint_widened uint_of_loaded typed_values)
  qed (use r(2) outcomes_in_range(3) [OF p(3)] in \<open>auto simp: System_UInt16_TryParse_def typed_values\<close>)
qed

lemma large_back:
  assumes "platform_parsers n wtoi32 wtou32 wtoi64 wtou64" "pResult \<noteq> NULL" "this \<noteq> NULL"
  shows "parses_back (\<lambda>s q. System_Int32_ToString big v s q this) (\<lambda>s q. System_Int32_TryParse wtoi32 NoError s q pResult)
      (typed_value big v this System_Int32_TYPE)"
    "parses_back (\<lambda>s q. System_UInt32_ToString big v s q this) (\<lambda>s q. System_UInt32_TryParse wtou32 NoError s q pResult)
      (typed_value big v this System_UInt32_TYPE)"
    "parses_back (\<lambda>s q. System_Int64_ToString big v s q this) (\<lambda>s q. System_Int64_TryParse wtoi64 NoError s q pResult)
      (typed_value big v this System_Int64_TYPE)"
    "parses_back (\<lambda>s q. System_UInt64_ToString big v s q this) (\<lambda>s q. System_UInt64_TryParse wtou64 NoError s q pResult)
      (typed_value big v this System_UInt64_TYPE)"
proof -
  note r = load_ranges [of big v this]
  have p: "integer_parser wtoi32 (long_outcome n)" "integer_parser wtou32 (ulong_outcome n)" "n \<in> {32, 64}"
      "integer_parser wtoi64 (long_outcome 64)" "integer_parser wtou64 (ulong_outcome 64)"
    using assms(1) by (simp_all add: platform_parsers_def)
  show "parses_back (\<lambda>s q. System_Int32_ToString big v s q this) (\<lambda>s q. System_Int32_TryParse wtoi32 NoError s q pResult)
      (typed_value big v this System_Int32_TYPE)"
  proof (rule parses_backI [where g = "\<lambda>value ok. ok", OF p(1) _ assms(2)])
    show "System_Int32_ToString big v s pNew this = Inr (pNew, s(pNew \<mapsto> integer_text (typed_value big v this System_Int32_TYPE) @ [0]))" for s pNew
      using r(7) i32_ToString [of "word_of_int (load_uint big v this 4)" 10 14 s pNew] assms(3)
      by (simp add: System_Int32_ToString_def receiver_def deref_def sint_of_to_sint [of 4] typed_values load_sint_def abs_less_iff)
  qed (use r(7) outcomes_in_range(1) [OF p(3)] in \<open>auto simp: System_Int32_TryParse_def typed_values\<close>)
  show "parses_back (\<lambda>s q. System_UInt32_ToString big v s q this) (\<lambda>s q. System_UInt32_TryParse wtou32 NoError s q pResult)
      (typed_value big v this System_UInt32_TYPE)"
  proof (rule parses_backI [where g = "\<lambda>value ok. ok", OF p(2) _ assms(2)])
    show "System_UInt32_ToString big v s pNew this = Inr (pNew, s(pNew \<mapsto> integer_text (typed_value big v this System_UInt32_TYPE) @ [0]))" for s pNew
      using assms(3) by (simp add: System_UInt32_ToString_def receiver_def deref_def u32_ToString uint_of_loaded typed_values)
  qed (use r(3) outcomes_in_range(3) [OF p(3)] in \<open>auto simp: System_UInt32_TryParse_def typed_values\<close>)
  show "parses_back (\<lambda>s q. System_Int64_ToString big v s q this) (\<lambda>s q. System_Int64_TryParse wtoi64 NoError s q pResult)
      (typed_value big v this System_Int64_TYPE)"
  proof (rule parses_backI [where g = "\<lambda>value ok. ok", OF p(4) _ assms(2)])
    show "System_Int64_ToString big v s pNew this = Inr (pNew, s(pNew \<mapsto> integer_text (typed_value big v this System_Int64_TYPE) @ [0]))" for s pNew
      using assms(3) by (simp add: System_Int64_ToString_def receiver_def deref_def i64_ToString sint_of_to_sint [of 8] typed_values load_sint_def)
  qed (use r(8) outcomes_in_range(2) in \<open>auto simp: System_Int64_TryParse_def typed_values\<close>)
  show "parses_back (\<lambda>s q. System_UInt64_ToString big v s q this) (\<lambda>s q. System_UInt64_TryParse wtou64 NoError s q pResult)
      (typed_value big v this System_UInt64_TYPE)"
  proof (rule parses_backI [where g = "\<lambda>value ok. ok", OF p(5) _ assms(2)])
    show "System_UInt64_ToString big v s pNew this = Inr (pNew, s(pNew \<mapsto> integer_text (typed_value big v this System_UInt64_TYPE) @ [0]))" for s pNew
      using assms(3) by (simp add: System_UInt64_ToString_def receiver_def deref_def u64_ToString uint_of_loaded typed_values)
  qed (use r(4) outcomes_in_range(4) in \<open>auto simp: System_UInt64_TryParse_def typed_values\<close>)
qed

text \<open>The answer of a \<open>TryParse\<close>: accepted or not, with the number when accepted, and \<open>il2c_errno\<close>.\<close>

definition decides :: "('w::len word \<times> bool \<times> errno) result \<Rightarrow> bool \<Rightarrow> int \<Rightarrow> errno \<Rightarrow> bool" where
  "decides r accepted z e \<longleftrightarrow> (\<exists>x. r = Inr (x, accepted, e) \<and> (accepted \<longrightarrow> x = word_of_int z))"

definition fits_long :: "nat \<Rightarrow> int \<Rightarrow> bool" where
  "fits_long n z \<longleftrightarrow> - (2 ^ (n - 1)) \<le> z \<and> z < 2 ^ (n - 1)"

definition fits_ulong :: "nat \<Rightarrow> int \<Rightarrow> bool" where
  "fits_ulong n z \<longleftrightarrow> \<bar>z\<bar> < 2 ^ n"

lemma long_outcome_cases:
  "long_outcome n z = (if fits_long n z then (z, NoError) else (clamp_long n z, ERANGE))"
  by (auto simp: long_outcome_def fits_long_def clamp_long_def min_def max_def)

lemma decidesI:
  assumes "integer_parser wto answer" and "s str = Some (replicate k 0x20 @ integer_text z @ c # r)" "\<not> is_digit 10 c"
    and "str \<noteq> NULL" "pResult \<noteq> NULL" and "answer z = (if fits then (y, NoError) else (y', ERANGE))"
    and "f = bind_result (parse_text wto e s str pResult) (\<lambda>(value, ok, e). Inr (word_of_int value, ok \<and> g value, e))"
    and "fits \<Longrightarrow> g y \<Longrightarrow> word_of_int y = (word_of_int z :: 'w::len word)"
  shows "decides (f :: ('w word \<times> bool \<times> errno) result) (e = NoError \<and> fits \<and> g y) z (if fits then e else ERANGE)"
  using assms(6,8) integer_parser.parse_text_number [where s = s and str = str and e = e, OF assms(1-5)]
  by (auto simp: decides_def assms(7) Let_def)

lemma try_parse_decides:
  assumes "platform_parsers n wtoi32 wtou32 wtoi64 wtou64"
    and s: "s str = Some (replicate k 0x20 @ integer_text z @ c # r)" "\<not> is_digit 10 c" "str \<noteq> NULL" "pResult \<noteq> NULL"
  shows "decides (System_SByte_TryParse wtoi32 e s str pResult) (e = NoError \<and> -128 \<le> z \<and> z \<le> 127) z (if fits_long n z then e else ERANGE)"
    "decides (System_Int16_TryParse wtoi32 e s str pResult) (e = NoError \<and> -32768 \<le> z \<and> z \<le> 32767) z (if fits_long n z then e else ERANGE)"
    "decides (System_Int32_TryParse wtoi32 e s str pResult) (e = NoError \<and> fits_long n z) z (if fits_long n z then e else ERANGE)"
    "decides (System_Int64_TryParse wtoi64 e s str pResult) (e = NoError \<and> fits_long 64 z) z (if fits_long 64 z then e else ERANGE)"
proof -
  have p: "integer_parser wtoi32 (long_outcome n)" "integer_parser wtoi64 (long_outcome 64)" and n: "n \<in> {32, 64}"
    using assms(1) by (simp_all add: platform_parsers_def)
  note I = decidesI [where s = s and str = str, OF p(1) s long_outcome_cases [of n z]] and I64 = decidesI [where s = s and str = str, OF p(2) s long_outcome_cases [of 64 z]]
  have small: "fits_long n z \<and> y \<longleftrightarrow> y" if "y \<Longrightarrow> - (2 ^ 31) \<le> z \<and> z < 2 ^ 31" for y
    using n that by (auto simp: fits_long_def)
  show "decides (System_SByte_TryParse wtoi32 e s str pResult) (e = NoError \<and> -128 \<le> z \<and> z \<le> 127) z (if fits_long n z then e else ERANGE)"
    using I [where g = "\<lambda>value. value \<le> 127 \<and> value \<ge> -128" and e = e, OF System_SByte_TryParse_def]
      small [of "z \<le> 127 \<and> z \<ge> -128"] by (simp add: conj_commute)
  show "decides (System_Int16_TryParse wtoi32 e s str pResult) (e = NoError \<and> -32768 \<le> z \<and> z \<le> 32767) z (if fits_long n z then e else ERANGE)"
    using I [where g = "\<lambda>value. value \<le> 32767 \<and> value \<ge> -32768" and e = e, OF System_Int16_TryParse_def]
      small [of "z \<le> 32767 \<and> z \<ge> -32768"] by (simp add: conj_commute)
  show "decides (System_Int32_TryParse wtoi32 e s str pResult) (e = NoError \<and> fits_long n z) z (if fits_long n z then e else ERANGE)"
    using I [where g = "\<lambda>value. True" and e = e and f = "System_Int32_TryParse wtoi32 e s str pResult"]
    by (simp add: System_Int32_TryParse_def)
  show "decides (System_Int64_TryParse wtoi64 e s str pResult) (e = NoError \<and> fits_long 64 z) z (if fits_long 64 z then e else ERANGE)"
    using I64 [where g = "\<lambda>value. True" and e = e and f = "System_Int64_TryParse wtoi64 e s str pResult"]
    by (simp add: System_Int64_TryParse_def)
qed

lemma try_parse_unsigned_decides:
  assumes "platform_parsers n wtoi32 wtou32 wtoi64 wtou64"
    and s: "s str = Some (replicate k 0x20 @ integer_text z @ c # r)" "\<not> is_digit 10 c" "str \<noteq> NULL" "pResult \<noteq> NULL"
  shows "decides (System_Byte_TryParse wtou32 e s str pResult) (e = NoError \<and> fits_ulong n z \<and> z mod 2 ^ n \<le> 255) z (if fits_ulong n z then e else ERANGE)"
    "decides (System_UInt16_TryParse wtou32 e s str pResult) (e = NoError \<and> fits_ulong n z \<and> z mod 2 ^ n \<le> 65535) z (if fits_ulong n z then e else ERANGE)"
    "decides (System_UInt32_TryParse wtou32 e s str pResult) (e = NoError \<and> fits_ulong n z) z (if fits_ulong n z then e else ERANGE)"
    "decides (System_UInt64_TryParse wtou64 e s str pResult) (e = NoError \<and> fits_ulong 64 z) z (if fits_ulong 64 z then e else ERANGE)"
proof -
  have p: "integer_parser wtou32 (ulong_outcome n)" "integer_parser wtou64 (ulong_outcome 64)" and n: "n \<in> {32, 64}"
    using assms(1) by (simp_all add: platform_parsers_def)
  have out: "ulong_outcome k z = (if fits_ulong k z then (z mod 2 ^ k, NoError) else (2 ^ k - 1, ERANGE))" for k :: nat
    by (simp add: ulong_outcome_def fits_ulong_def)
  note I = decidesI [where s = s and str = str, OF p(1) s out [of n]] and I64 = decidesI [where s = s and str = str, OF p(2) s out [of 64]]
  have word: "(word_of_int (z mod 2 ^ n) :: u8) = word_of_int z" "(word_of_int (z mod 2 ^ n) :: u16) = word_of_int z"
    "(word_of_int (z mod 2 ^ n) :: u32) = word_of_int z" "(word_of_int (z mod 2 ^ 64) :: u64) = word_of_int z"
    using n by (auto simp: word_of_int_eq_iff take_bit_eq_mod mod_mod_cancel)
  show "decides (System_Byte_TryParse wtou32 e s str pResult) (e = NoError \<and> fits_ulong n z \<and> z mod 2 ^ n \<le> 255) z (if fits_ulong n z then e else ERANGE)"
    by (rule I [where g = "\<lambda>value. value \<le> 255" and e = e, OF System_Byte_TryParse_def word(1)])
  show "decides (System_UInt16_TryParse wtou32 e s str pResult) (e = NoError \<and> fits_ulong n z \<and> z mod 2 ^ n \<le> 65535) z (if fits_ulong n z then e else ERANGE)"
    by (rule I [where g = "\<lambda>value. value \<le> 65535" and e = e, OF System_UInt16_TryParse_def word(2)])
  show "decides (System_UInt32_TryParse wtou32 e s str pResult) (e = NoError \<and> fits_ulong n z) z (if fits_ulong n z then e else ERANGE)"
    using I [where g = "\<lambda>value. True" and e = e and f = "System_UInt32_TryParse wtou32 e s str pResult"] word(3)
    by (simp add: System_UInt32_TryParse_def)
  show "decides (System_UInt64_TryParse wtou64 e s str pResult) (e = NoError \<and> fits_ulong 64 z) z (if fits_ulong 64 z then e else ERANGE)"
    using I64 [where g = "\<lambda>value. True" and e = e and f = "System_UInt64_TryParse wtou64 e s str pResult"] word(4)
    by (simp add: System_UInt64_TryParse_def)
qed

lemma loads_agree:
  assumes "\<forall>i < n. v' (q + i) = v (p + i)"
  shows "load_uint big v' q n = load_uint big v p n"
proof -
  have "map v' [q..<q + n] = map v [p..<p + n]"
    using assms by (intro nth_equalityI) simp_all
  then show ?thesis by (simp add: load_uint_def)
qed

text \<open>The texts of the two booleans, in any letter case, and of a character.\<close>

lemma boolean_and_char_back:
  assumes "s str = Some (b @ 0 # r)" "0 \<notin> set b" "str \<noteq> NULL" "pResult \<noteq> NULL"
  shows "map lower b = wide ''true'' \<Longrightarrow> System_Boolean_TryParse s str pResult = Inr (True, True)"
    "map lower b = wide ''false'' \<Longrightarrow> System_Boolean_TryParse s str pResult = Inr (False, True)"
    "map lower b \<notin> {wide ''true'', wide ''false''} \<Longrightarrow> System_Boolean_TryParse s str pResult = Inr (False, False)"
    "System_Char_TryParse s str pResult = Inr (if b = [] then (0, False) else (hd b, True))"
proof -
  have low: "map lower (wide ''True'') = wide ''true''" "map lower (wide ''False'') = wide ''false''" "wide ''true'' \<noteq> wide ''false''"
    by (simp_all add: wide_def lower_def)
  show "map lower b = wide ''true'' \<Longrightarrow> System_Boolean_TryParse s str pResult = Inr (True, True)"
    "map lower b = wide ''false'' \<Longrightarrow> System_Boolean_TryParse s str pResult = Inr (False, True)"
    "map lower b \<notin> {wide ''true'', wide ''false''} \<Longrightarrow> System_Boolean_TryParse s str pResult = Inr (False, False)"
    using assms low by (auto simp: System_Boolean_TryParse_def get_string_def wcsicmp_equal_def)
  show "System_Char_TryParse s str pResult = Inr (if b = [] then (0, False) else (hd b, True))"
    using assms by (cases b) (auto simp: System_Char_TryParse_def get_string_def)
qed

section \<open>Properties\<close>


text \<open>
  A \<open>wcstoul\<close> of \<open>n\<close> bits made of the runtime's own parser: it reads the number in 128 bits
  and reduces it.
\<close>

definition sample_wcstoul :: "nat \<Rightarrow> number_parser" where
  "sample_wcstoul n body base =
     bind_result (il2c_wtoi32 128 body base) (\<lambda>(value, endPtr, e).
       Inr (if \<bar>value\<bar> < 2 ^ n then value mod 2 ^ n else 2 ^ n - 1, endPtr, if \<bar>value\<bar> < 2 ^ n then NoError else ERANGE))"

lemma sample_wcstoul_parses:
  assumes "n \<in> {32, 64}"
  shows "integer_parser (sample_wcstoul n) (ulong_outcome n)"
proof
  fix c k z r assume c: "\<not> is_digit 10 c"
  have "\<bar>clamp_long 128 z\<bar> < 2 ^ n \<longleftrightarrow> \<bar>z\<bar> < 2 ^ n" "\<bar>z\<bar> < 2 ^ n \<Longrightarrow> clamp_long 128 z = z"
    using assms by (auto simp: clamp_long_def abs_less_iff min_def max_def)
  then show "sample_wcstoul n (replicate k 32 @ integer_text z @ c # r) 10 =
      Inr (fst (ulong_outcome n z), Some (c # r), snd (ulong_outcome n z))"
    using wtoi32_integer_text [of 128 c k z r] c by (simp add: sample_wcstoul_def ulong_outcome_def)
qed

lemma sample_platform:
  "platform_parsers 64 (il2c_wtoi32 64) (sample_wcstoul 64) (il2c_wtoi32 64) (sample_wcstoul 64)"
  using sample_wcstoul_parses [of 64] wtoi64.integer_parser_axioms by (simp add: platform_parsers_def)






end
