(* ===== verification/Runtime_Exceptions.thy ===== *)
theory Runtime_Exceptions
  imports Exception_Frames Type_Objects Primitive_Types
begin

text \<open>
  The exceptions that the runtime itself raises (src/Core/il2c_exception.c, the constructors
  and type records of src/System/NullReferenceException.c and its siblings) and the signal
  handler that turns an invalid access into one.  Raising allocates: a whole collection, a
  new object, its message, then a throw that cuts the stack of the theory above.  The last
  section is about what the collector keeps of an exception: the message is a field of the
  base type, and the mark handler does not look there.
\<close>

section \<open>The types\<close>

definition System_Exception_VTABLE :: vtable where
  "System_Exception_VTABLE = \<lparr>adjustor_offset = 0, Finalize = System_Object_Finalize\<rparr>"

definition System_Exception_TYPE :: runtime_type where
  "System_Exception_TYPE = RuntimeType 0x30 ''System.Exception'' 0 16 (Some System_Object_TYPE)
     (Some System_Exception_VTABLE) None [(None, off_message)] []"

definition System_NullReferenceException_TYPE :: runtime_type where
  "System_NullReferenceException_TYPE = RuntimeType 0x31 ''System.NullReferenceException'' 0 16
     (Some System_Exception_TYPE) (Some System_Exception_VTABLE) None [] []"

definition System_InvalidCastException_TYPE :: runtime_type where
  "System_InvalidCastException_TYPE = RuntimeType 0x32 ''System.InvalidCastException'' 0 16
     (Some System_Exception_TYPE) (Some System_Exception_VTABLE) None [] []"

definition System_IndexOutOfRangeException_TYPE :: runtime_type where
  "System_IndexOutOfRangeException_TYPE = RuntimeType 0x33 ''System.IndexOutOfRangeException'' 0 16
     (Some System_Exception_TYPE) (Some System_Exception_VTABLE) None [] []"

definition System_FormatException_TYPE :: runtime_type where
  "System_FormatException_TYPE = RuntimeType 0x34 ''System.FormatException'' 0 16
     (Some System_Exception_TYPE) (Some System_Exception_VTABLE) None [] []"

lemmas exception_types = System_Exception_TYPE_def System_NullReferenceException_TYPE_def
  System_InvalidCastException_TYPE_def System_IndexOutOfRangeException_TYPE_def System_FormatException_TYPE_def

text \<open>The constructors with a message are the base's.\<close>

definition System_NullReferenceException_ctor_String :: "machine \<Rightarrow> addr \<Rightarrow> addr \<Rightarrow> machine result" where
  "System_NullReferenceException_ctor_String = System_Exception_ctor_String"

definition System_InvalidCastException_ctor_String :: "machine \<Rightarrow> addr \<Rightarrow> addr \<Rightarrow> machine result" where
  "System_InvalidCastException_ctor_String = System_Exception_ctor_String"

definition System_IndexOutOfRangeException_ctor_String :: "machine \<Rightarrow> addr \<Rightarrow> addr \<Rightarrow> machine result" where
  "System_IndexOutOfRangeException_ctor_String = System_Exception_ctor_String"

definition System_FormatException_ctor_String :: "machine \<Rightarrow> addr \<Rightarrow> addr \<Rightarrow> machine result" where
  "System_FormatException_ctor_String = System_Exception_ctor_String"

section \<open>Raising\<close>

text \<open>
  The four functions have this one shape: a new object of the type, its constructor, the
  throw in the thread context \<open>tls\<close>.  The value is the state, the exception, and where
  control goes.
\<close>

type_synonym raised = "((machine \<times> unwind_state) \<times> addr \<times> transfer) result option"

definition raise_new ::
  "environment \<Rightarrow> runtime_type \<Rightarrow> runtime_type \<Rightarrow> (machine \<Rightarrow> addr \<Rightarrow> addr \<Rightarrow> machine result) \<Rightarrow> addr
    \<Rightarrow> addr \<Rightarrow> machine \<times> unwind_state \<Rightarrow> raised" where
  "raise_new env threadType ty ctor message tls = (\<lambda>(m, s).
     and_then (il2c_get_uninitialized_object env threadType m tls ty) (\<lambda>(m, ctx, ex).
     and_then (Some (ctor m ex message)) (\<lambda>m.
     map_option (\<lambda>r. bind_result r (\<lambda>(ms, t). Inr (ms, ex, t))) (restore_frame ctx m (il2c_throw s ex)))))"

text \<open>The messages are constant strings; the record has their addresses.\<close>

record exception_messages =
  il2c_null_reference_message :: addr
  il2c_invalid_cast_message :: addr
  il2c_index_out_of_range_message :: addr
  il2c_format_message :: addr

definition il2c_throw_nullreferenceexception ::
  "environment \<Rightarrow> runtime_type \<Rightarrow> exception_messages \<Rightarrow> addr \<Rightarrow> machine \<times> unwind_state \<Rightarrow> raised" where
  "il2c_throw_nullreferenceexception env threadType msgs =
     raise_new env threadType System_NullReferenceException_TYPE System_NullReferenceException_ctor_String
       (il2c_null_reference_message msgs)"

definition il2c_throw_invalidcastexception ::
  "environment \<Rightarrow> runtime_type \<Rightarrow> exception_messages \<Rightarrow> addr \<Rightarrow> machine \<times> unwind_state \<Rightarrow> raised" where
  "il2c_throw_invalidcastexception env threadType msgs =
     raise_new env threadType System_InvalidCastException_TYPE System_InvalidCastException_ctor_String
       (il2c_invalid_cast_message msgs)"

definition il2c_throw_indexoutofrangeexception ::
  "environment \<Rightarrow> runtime_type \<Rightarrow> exception_messages \<Rightarrow> addr \<Rightarrow> machine \<times> unwind_state \<Rightarrow> raised" where
  "il2c_throw_indexoutofrangeexception env threadType msgs =
     raise_new env threadType System_IndexOutOfRangeException_TYPE System_IndexOutOfRangeException_ctor_String
       (il2c_index_out_of_range_message msgs)"

definition il2c_throw_formatexception ::
  "environment \<Rightarrow> runtime_type \<Rightarrow> exception_messages \<Rightarrow> addr \<Rightarrow> machine \<times> unwind_state \<Rightarrow> raised" where
  "il2c_throw_formatexception env threadType msgs =
     raise_new env threadType System_FormatException_TYPE System_FormatException_ctor_String
       (il2c_format_message msgs)"

text \<open>
  The disposition of SIGSEGV is the C library's state; the handler sets it to itself again,
  then raises.
\<close>

datatype sighandler = SIG_DFL | SIGSEGV_handler

definition il2c_SIGSEGV_handler ::
  "environment \<Rightarrow> runtime_type \<Rightarrow> exception_messages \<Rightarrow> addr \<Rightarrow> machine \<times> unwind_state \<Rightarrow> sighandler
    \<Rightarrow> sighandler \<times> raised" where
  "il2c_SIGSEGV_handler env threadType msgs tls ms disposition =
     (SIGSEGV_handler, il2c_throw_nullreferenceexception env threadType msgs tls ms)"

section \<open>What is raised\<close>

text \<open>A new exception of one of the types is an ordinary plain object.\<close>

definition exception_type_ok :: "runtime_type \<Rightarrow> bool" where
  "exception_type_ok ty \<longleftrightarrow> plain_type ty 16 \<and> bodySize ty = 16 \<and> flags ty AND IL2C_TYPE_VARIABLE \<noteq> IL2C_TYPE_VARIABLE"

lemma exception_types_ok:
  "exception_type_ok System_Exception_TYPE" "exception_type_ok System_NullReferenceException_TYPE"
  "exception_type_ok System_InvalidCastException_TYPE" "exception_type_ok System_IndexOutOfRangeException_TYPE"
  "exception_type_ok System_FormatException_TYPE"
  by (simp_all add: exception_type_ok_def exception_types plain_type_def has_handler_def IL2C_TYPE_WITH_MARK_HANDLER_def
      IL2C_TYPE_VALUE_def IL2C_TYPE_VARIABLE_def layout_ok_def System_Exception_VTABLE_def off_message_def)

text \<open>A throw changes the frames of the thread and nothing else of the machine.\<close>

lemma restore_frame_machine:
  "restore_frame ctx m thrown = Some (Inr ((m', s'), t)) \<Longrightarrow> \<exists>th fs. bodies m ctx = ThreadBody th \<and>
     m' = m\<lparr>bodies := (bodies m)(ctx := ThreadBody (th\<lparr>frames := fs\<rparr>))\<rparr>"
  by (cases thrown) (auto simp: restore_frame_def update_thread_def bind_result_def split: sum.splits object_body.splits prod.splits)

text \<open>The frames of a thread stay through a collection and the creation of an object.\<close>

lemma created_stack:
  assumes "holds_stack self (m0, s) st" "collected m0 m R" "created m m' p ty N self body" "self \<noteq> object_of p"
  shows "holds_stack self (m', s) st"
proof -
  obtain th0 where th0: "bodies m0 self = ThreadBody th0" "frames th0 = methods st" using assms(1) by (auto simp: holds_stack_def)
  have "body_sim (bodies m0 self) (bodies m self)" using assms(2) by (simp add: collected_def same_memory_def)
  then obtain th where "bodies m self = ThreadBody th" "frames th = methods st"
    using th0 by (auto elim: body_simE)
  then show ?thesis using assms(1,3,4) by (auto simp: holds_stack_def created_def)
qed

text \<open>The anchor of a registered thread makes its object reachable, whatever its frames.\<close>

lemma anchored_reaches:
  assumes "self \<in> registered (g_pRootReferences m)" "self \<in> objects m" "\<not> const_object m self"
    and "has_handler (htype (header_of m self))" "bodies m self = ThreadBody th" "pTemporaryReferenceAnchor th = a"
    and "a \<in> objects m" "\<not> const_object m a" "vptrs m a = Some vt" "adjustor_offset vt = 0"
  shows "reaches m (root_set m) a"
proof (rule reaches_child)
  show "reaches m (root_set m) self" using assms(1-3) by (intro reaches_root) (simp_all add: root_set_def)
  have "a \<noteq> NULL" using assms(7) by (auto simp: objects_def object_of_def sizeof_REF_HEADER_def)
  moreover have "a \<in> set (object_refs m self (htype (header_of m self)))"
    using assms(4-6) by (auto simp: object_refs_def thread_refs_def)
  ultimately show "a \<in> set (children m self)"
    using assms(9,10) by (force simp: children_def adjusted_def image_iff)
qed (use assms in auto)

lemma raise_new_result:
  assumes can: "can_create env m0 hs self (sizeof_REF_HEADER + 16)" and ty: "exception_type_ok ty"
    and ctor: "ctor = System_Exception_ctor_String"
    and held: "holds_stack self (m0, s) st" and handles: "\<And>ex. ex \<noteq> NULL \<Longrightarrow> throw_stack ex st \<noteq> None"
  shows "\<exists>m' s' ex st' t. raise_new env threadType ty ctor message self (m0, s) = Some (Inr ((m', s'), ex, t)) \<and>
    throw_stack ex st = Some (st', t) \<and> holds_stack self (m', s') st' \<and>
    ex \<in> objects m' \<and> ex \<notin> {a. reaches m0 (root_set m0) a} \<and> htype (header_of m' ex) = ty \<and> vptrs m' ex = vptr0 ty \<and>
    System_Exception_get_Message m' ex = Inr message \<and> reaches m' (root_set m') ex \<and>
    (\<forall>a. reaches m0 (root_set m0) a \<longrightarrow> a \<in> objects m')"
proof -
  have plain: "plain_type ty 16" "bodySize ty = 16" and var: "flags ty AND IL2C_TYPE_VARIABLE \<noteq> IL2C_TYPE_VARIABLE"
    using ty by (simp_all add: exception_type_ok_def)
  have layout: "layout_ok ty 16" using plain(1) by (simp add: plain_type_def)
  have fill: "\<forall>m p. bodies m (object_of p) = PlainBody \<longrightarrow> vptrs m (object_of p) = vptr0 ty \<longrightarrow>
      (Inr m :: machine result) = Inr (m\<lparr>bodies := (bodies m)(object_of p := PlainBody), cells := copies_nothing p (cells m)\<rparr>)"
    by (simp add: plain_body_unchanged)
  have new: "\<forall>m m' p. created m m' p ty (sizeof_REF_HEADER + 16) self PlainBody \<longrightarrow>
      fresh_block m p (sizeof_REF_HEADER + 16) \<longrightarrow> cells m' = cleared m p (sizeof_REF_HEADER + 16) \<longrightarrow>
      p = env_malloc env m (sizeof_REF_HEADER + 16) \<longrightarrow> collected m0 m {a. reaches m0 (root_set m0) a} \<longrightarrow>
      object_ok m' (object_of p) ty \<and> refs_valid m' (object_refs m' (object_of p) ty)"
    using created_plain [OF _ plain(1)] null_refs_valid by simp
  have size: "0 < (16 :: nat)" "sizeof_REF_HEADER + 16 < 2 ^ 64" by (simp_all add: sizeof_REF_HEADER_def)
  from creation_in_heap [where copy = copies_nothing and threadType = threadType, OF can size layout fill copies_nothing_inside new]
  obtain m m1 p where m1: "create_object env threadType m0 self ty 16 (\<lambda>m pReference. Inr m) = Some (Inr (m1, self, object_of p))"
      "collected m0 m {a. reaches m0 (root_set m0) a}" "created m m1 p ty (sizeof_REF_HEADER + 16) self PlainBody"
      "fresh_block m p (sizeof_REF_HEADER + 16)" "gc_ready (env_thread env) m1 (p # filter (survives m0) hs)"
      "running_thread m1 (p # filter (survives m0) hs) self"
    by blast
  define ex where "ex = object_of p"
  define m2 where "m2 = m1\<lparr>cells := (cells m1)(ex + off_message := message)\<rparr>"
  have ex0: "ex \<noteq> NULL" by (simp add: ex_def object_of_def sizeof_REF_HEADER_def)
  have got: "il2c_get_uninitialized_object env threadType m0 self ty = Some (Inr (m1, self, ex))"
    using m1(1) plain(2) var layout by (auto simp: il2c_get_uninitialized_object_def layout_ok_def sizeof_pointer_def ex_def)
  have no_p: "headers m p = None" using m1(4) by (simp add: fresh_block_def)
  have kept: "a \<in> objects m" if "reaches m0 (root_set m0) a" for a
    using collected_graph(1) [OF m1(2) refl, of a] that reaches_object [OF that] by simp
  have self: "self \<in> objects m1" "reaches m1 (root_set m1) self" using self_header [OF m1(6,5)] by simp_all
  obtain th where th: "bodies m self = ThreadBody th"
      "bodies m1 = (bodies m)(self := ThreadBody (th\<lparr>pTemporaryReferenceAnchor := ex\<rparr>), ex := PlainBody)"
    using m1(3) by (auto simp: created_def ex_def)
  have "ex \<noteq> self" using m1(6) th(2) by (auto simp: running_thread_def)
  have "holds_stack self (m1, s) st"
    using created_stack [OF held m1(2,3)] \<open>ex \<noteq> self\<close> by (simp add: ex_def)
  then have held2: "holds_stack self (m2, s) st" by (simp add: holds_stack_def m2_def)
  obtain st' t where spec: "throw_stack ex st = Some (st', t)" using handles [OF ex0] by auto
  from throw_step [OF held2 ex0 spec] obtain m' s' where
    r: "restore_frame self m2 (il2c_throw s ex) = Some (Inr ((m', s'), t))" "holds_stack self (m', s') st'" by blast
  from restore_frame_machine [OF r(1)] obtain th2 fs where m': "bodies m2 self = ThreadBody th2"
    "m' = m2\<lparr>bodies := (bodies m2)(self := ThreadBody (th2\<lparr>frames := fs\<rparr>))\<rparr>" by blast
  have raised: "raise_new env threadType ty ctor message self (m0, s) = Some (Inr ((m', s'), ex, t))"
    using ex0 r(1) by (simp add: raise_new_def got ctor System_Exception_ctor_String_def m2_def)
  have same: "objects m' = objects m1" "header_of m' = header_of m1" "vptrs m' = vptrs m1" "const_object m' = const_object m1"
      "g_pRootReferences m' = g_pRootReferences m1" "cells m' = (cells m1)(ex + off_message := message)"
    by (simp_all add: m' m2_def objects_def header_of_def const_object_def fun_eq_iff)
  have head: "ex \<in> objects m1" "htype (header_of m1 ex) = ty" "vptrs m1 ex = vptr0 ty"
    using m1(3) by (auto simp: created_def ex_def)
  have live: "\<not> const_object m1 ex" "\<not> const_object m1 self"
    using m1(5,6) head(1) self(1) by (auto simp: gc_ready_def between_collections_def running_thread_def ex_def)
  obtain vt where vt: "vptr0 ty = Some vt" "adjustor_offset vt = 0" using layout by (auto simp: layout_ok_def)
  have "pTemporaryReferenceAnchor th2 = ex" using th m'(1) \<open>ex \<noteq> self\<close> by (auto simp: m2_def)
  then have "reaches m' (root_set m') ex"
    using m1(6) self(1) live head vt
    by (intro anchored_reaches [where self = self and th = "th2\<lparr>frames := fs\<rparr>" and vt = vt])
      (simp_all add: same running_thread_def, simp add: m')
  moreover have "System_Exception_get_Message m' ex = Inr message"
    using ex0 by (simp add: System_Exception_get_Message_def same)
  moreover have "a \<in> objects m'" if "reaches m0 (root_set m0) a" for a
  proof -
    have "objects m1 = insert ex (objects m)" using m1(3) by (simp add: created_def objects_def ex_def)
    then show ?thesis using kept [OF that] by (simp add: same)
  qed
  moreover have "\<not> reaches m0 (root_set m0) ex"
    using kept [of ex] no_p by (auto simp: ex_def)
  ultimately show ?thesis using raised spec r(2) head same by auto
qed

text \<open>
  C14: The runtime's own exceptions are raised as an exception of the program is.  From a heap
  in which an object can be created and a stack whose try blocks take every exception, each of
  the four functions and the handler of SIGSEGV returns: a new object of its type with
  its message and its vtable, thrown to the try block that the stack says; the two lists hold
  the stack cut there, everything reachable before is kept, and the exception itself is
  reachable after the jump, by the anchor, though no frame of the program holds it yet.
\<close>

theorem runtime_exception_raised:
  assumes "can_create env m0 hs self (sizeof_REF_HEADER + 16)"
    and "holds_stack self (m0, s) st" and "\<And>ex. ex \<noteq> NULL \<Longrightarrow> throw_stack ex st \<noteq> None"
    and "(raise, ty, message) \<in> {
      (il2c_throw_nullreferenceexception env threadType msgs, System_NullReferenceException_TYPE, il2c_null_reference_message msgs),
      (il2c_throw_invalidcastexception env threadType msgs, System_InvalidCastException_TYPE, il2c_invalid_cast_message msgs),
      (il2c_throw_indexoutofrangeexception env threadType msgs, System_IndexOutOfRangeException_TYPE, il2c_index_out_of_range_message msgs),
      (il2c_throw_formatexception env threadType msgs, System_FormatException_TYPE, il2c_format_message msgs),
      (\<lambda>tls ms. snd (il2c_SIGSEGV_handler env threadType msgs tls ms disposition), System_NullReferenceException_TYPE,
        il2c_null_reference_message msgs)}"
  shows "\<exists>m' s' ex st' t. raise self (m0, s) = Some (Inr ((m', s'), ex, t)) \<and>
    throw_stack ex st = Some (st', t) \<and> holds_stack self (m', s') st' \<and>
    ex \<in> objects m' \<and> ex \<notin> {a. reaches m0 (root_set m0) a} \<and> htype (header_of m' ex) = ty \<and> vptrs m' ex = vptr0 ty \<and>
    System_Exception_get_Message m' ex = Inr message \<and> reaches m' (root_set m') ex \<and>
    (\<forall>a. reaches m0 (root_set m0) a \<longrightarrow> a \<in> objects m')"
proof -
  have "\<exists>ctor. raise self (m0, s) = raise_new env threadType ty ctor message self (m0, s) \<and>
      ctor = System_Exception_ctor_String \<and> exception_type_ok ty"
    using assms(4) exception_types_ok
    by (auto simp: il2c_throw_nullreferenceexception_def il2c_throw_invalidcastexception_def
        il2c_throw_indexoutofrangeexception_def il2c_throw_formatexception_def il2c_SIGSEGV_handler_def
        System_NullReferenceException_ctor_String_def System_InvalidCastException_ctor_String_def
        System_IndexOutOfRangeException_ctor_String_def System_FormatException_ctor_String_def)
  then show ?thesis using raise_new_result [OF assms(1) _ _ assms(2,3)] by metis
qed

section \<open>The message of a derived exception\<close>

text \<open>
  The finding: \<open>il2c_mark_handler_recursive\<close> takes the mark targets of the object's own type,
  and a derived type lists only the fields that it declares.  Of an object whose type lists
  none, inherited references are not followed: if nothing else refers to the message, a
  collection frees it and keeps the exception that points to it.
\<close>

lemma no_children: "\<not> has_handler (htype (header_of m a)) \<Longrightarrow> markTargets (htype (header_of m a)) = [] \<Longrightarrow> children m a = []"
  by (simp add: children_def object_refs_def adjusted_def)

lemma inherited_message_freed:
  assumes run: "gc_ready t m hs" "none_due m hs" "finalizer finalize ready once" "finalizers_ready ready m hs"
      "stores_nothing finalize" "\<forall>p \<in> set hs. releasable m p (characteristic (the (headers m p)))" "card (objects m) \<le> room"
    and a: "reaches m (root_set m) a" "\<not> has_handler (htype (header_of m a))" "markTargets (htype (header_of m a)) = []"
    and x: "System_Exception_get_Message m a = Inr x" "\<not> const_object m x" "x \<notin> root_set m"
    and only: "\<And>b. reaches m (root_set m) b \<Longrightarrow> b \<noteq> a \<Longrightarrow> x \<notin> set (children m b)"
  shows "\<exists>m'. il2c_collect t room finalize m = Some (Inr m') \<and> a \<in> objects m' \<and>
    System_Exception_get_Message m' a = Inr x \<and> x \<notin> objects m'"
proof -
  from collect_collected [OF run] obtain m' where m': "il2c_collect t room finalize m = Some (Inr m')"
    "collected m m' {a. reaches m (root_set m) a}" by blast
  have gone: "\<not> reaches m (root_set m) x"
  proof
    assume "reaches m (root_set m) x"
    then show False
    proof (cases rule: reaches.cases)
      case (reaches_child y)
      then show False using only [of y] no_children [OF a(2,3)] by (cases "y = a") auto
    qed (use x(3) in simp)
  qed
  have "cells m' = cells m" using m'(2) by (simp add: collected_def same_memory_def)
  then have "System_Exception_get_Message m' a = Inr x" using x(1) by (simp add: System_Exception_get_Message_def)
  then show ?thesis using m' a(1) gone x(2) collected_graph(1) [OF m'(2) refl] reaches_object [OF a(1)] by auto
qed

section \<open>An example\<close>

text \<open>
  The thread 1000 runs a method whose variable is the format exception 2000, made with the
  string 3000 as its message.
\<close>

definition sample_string_type :: runtime_type where
  "sample_string_type = RuntimeType 0x35 ''System.String'' IL2C_TYPE_VARIABLE 0 (Some System_Object_TYPE)
     (Some System_Object_VTABLE) None [] []"

definition sample_failed :: machine where
  "sample_failed = sample_raised\<lparr>
     headers := (headers sample_raised)(
       1976 \<mapsto> \<lparr>pNext = 2976, htype = System_FormatException_TYPE, characteristic = 0x40000000\<rparr>,
       2976 \<mapsto> \<lparr>pNext = NULL, htype = sample_string_type, characteristic = 0x40000000\<rparr>),
     cells := (\<lambda>_. NULL)(2008 := 3000)\<rparr>"

lemma sample_failed_fields:
  "headers sample_failed 976 = Some \<lparr>pNext = 1976, htype = sample_thread_type, characteristic = 0x40000000\<rparr>"
  "headers sample_failed 1976 = Some \<lparr>pNext = 2976, htype = System_FormatException_TYPE, characteristic = 0x40000000\<rparr>"
  "headers sample_failed 2976 = Some \<lparr>pNext = NULL, htype = sample_string_type, characteristic = 0x40000000\<rparr>"
  "dom (headers sample_failed) = {976, 1976, 2976}" "objects sample_failed = {1000, 2000, 3000}"
  "vptrs sample_failed = vptrs sample_raised" "bodies sample_failed = bodies sample_raised"
  "g_pBeginHeader sample_failed = 976" "g_CollectionMarkIndex sample_failed = 0" "g_ExecutingCollection sample_failed = 0"
  "g_pRootReferences sample_failed = sample_roots" "g_pBeginStaticFields sample_failed = []" "g_pFixedReferences sample_failed = []"
  "g_GlobalLockForCollect sample_failed = \<lparr>lock_alive = True, owner = None, held = 0\<rparr>" "cells sample_failed = (\<lambda>_. NULL)(2008 := 3000)"
  by (auto simp: sample_failed_def sample_raised_fields objects_def object_of_def sizeof_REF_HEADER_def)

lemma sample_failed_graph:
  "header_of sample_failed 1000 = \<lparr>pNext = 1976, htype = sample_thread_type, characteristic = 0x40000000\<rparr>"
  "header_of sample_failed 2000 = \<lparr>pNext = 2976, htype = System_FormatException_TYPE, characteristic = 0x40000000\<rparr>"
  "header_of sample_failed 3000 = \<lparr>pNext = NULL, htype = sample_string_type, characteristic = 0x40000000\<rparr>"
  "static_refs sample_failed = []" "\<not> has_handler System_FormatException_TYPE" "\<not> has_handler sample_string_type"
  "object_refs m a System_FormatException_TYPE = []" "object_refs m a sample_string_type = []"
  "bodies m 1000 = bodies sample_raised 1000 \<Longrightarrow> object_refs m 1000 sample_thread_type = [NULL, 2000]"
  by (auto simp: header_of_def il2c_get_header_def sizeof_REF_HEADER_def sample_failed_fields sample_raised_fields static_refs_def
      has_handler_def sample_thread_type_def exception_types sample_string_type_def IL2C_TYPE_WITH_MARK_HANDLER_def object_refs_def
      thread_refs_def frame_refs_def sample_thread_def zero_thread_def sample_method_def IL2C_TYPE_VALUE_def IL2C_TYPE_VARIABLE_def)

lemma sample_failed_live: "\<not> const_object sample_failed 1000" "\<not> const_object sample_failed 2000" "\<not> const_object sample_failed 3000"
  by (simp_all add: const_object_def sample_failed_graph)

lemma sample_failed_ready: "gc_ready 1 sample_failed [976, 1976, 2976]"
proof -
  have "between_collections sample_failed [976, 1976, 2976]"
    by (simp add: between_collections_def sample_failed_fields mark_index_ok_def sample_failed_live il2c_get_header_def
        sizeof_REF_HEADER_def)
  moreover have "object_ok sample_failed 1000 sample_thread_type" "object_ok sample_failed 2000 System_FormatException_TYPE"
      "object_ok sample_failed 3000 sample_string_type"
    by (simp_all add: object_ok_def sample_failed_graph sample_started_graph(6) sample_failed_fields sample_raised_fields
          has_vptr0_def sample_thread_def zero_thread_def sample_method_def GC_Mark.frame_ok_def)
      (simp_all add: sample_thread_type_def exception_types sample_string_type_def IL2C_TYPE_VALUE_def IL2C_TYPE_VARIABLE_def)
  then have "heap_layout sample_failed"
    by (simp add: heap_layout_def roots_valid_def sample_failed_graph sample_started_graph(3,4) sample_failed_fields
        sample_raised_fields refs_valid_def System_Object_VTABLE_def)
  moreover have "locks_ready 1 sample_failed"
    by (simp add: locks_ready_def sample_started_graph(3) sample_failed_fields sample_raised_fields takeable_def thread_ready_def
        has_vptr0_def sample_thread_def il2c_initialize_monitor_lock_def)
  moreover have "vtables_ok sample_failed [976, 1976, 2976]"
    by (simp add: vtables_ok_def sample_failed_fields sample_raised_fields object_of_def sizeof_REF_HEADER_def sample_thread_type_def
        exception_types sample_string_type_def System_Object_VTABLE_def System_Exception_VTABLE_def)
  ultimately show ?thesis by (simp add: gc_ready_def)
qed

lemma sample_failed_reaches:
  "root_set sample_failed = {1000}" "reaches sample_failed {1000} 1000" "reaches sample_failed {1000} 2000"
  "children sample_failed 1000 = [2000]" "reaches sample_failed {1000} a \<Longrightarrow> a \<in> {1000, 2000}"
proof -
  show "root_set sample_failed = {1000}"
    by (simp add: root_set_def sample_failed_graph sample_failed_fields sample_started_graph adjusted_def)
  show children: "children sample_failed 1000 = [2000]"
    by (simp add: children_def sample_failed_graph adjusted_def sample_failed_fields sample_raised_fields System_Object_VTABLE_def)
  have leaf: "children sample_failed 2000 = []"
    by (rule no_children) (simp_all add: sample_failed_graph, simp add: exception_types)
  show first: "reaches sample_failed {1000} 1000"
    using sample_failed_live by (intro reaches_root) (simp_all add: sample_failed_fields)
  show "reaches sample_failed {1000} 2000"
    by (rule reaches_child [OF first]) (simp_all add: children sample_failed_live sample_failed_fields)
  show "a \<in> {1000, 2000}" if "reaches sample_failed {1000} a"
    using that by (induction rule: reaches.induct) (auto simp: children leaf)
qed

lemma sample_failed_calm: "none_due sample_failed [976, 1976, 2976]" "finalizers_ready runtime_ready sample_failed [976, 1976, 2976]"
  "\<forall>p \<in> set [976, 1976, 2976]. releasable sample_failed p (characteristic (the (headers sample_failed p)))"
  "card (objects sample_failed) \<le> 3"
proof -
  show "none_due sample_failed [976, 1976, 2976]"
    using sample_failed_reaches(2) by (simp add: none_due_def object_of_def sizeof_REF_HEADER_def needs_finalizer_def
        sample_failed_fields sample_failed_reaches(1) exception_types sample_string_type_def System_Object_VTABLE_def
        System_Exception_VTABLE_def)
  show "finalizers_ready runtime_ready sample_failed [976, 1976, 2976]"
    by (rule runtime_finalizers_ready)
      (simp add: runtime_ready_def sample_failed_fields sample_raised_fields object_of_def sizeof_REF_HEADER_def sample_thread_type_def
        System_Threading_Thread_VTABLE_def System_Object_VTABLE_def System_Object_Finalize_def needs_finalizer_def
        System_Exception_VTABLE_def sample_string_type_def exception_types
        System_Threading_Thread_Finalize_code_def sample_thread_def il2c_initialize_monitor_lock_def)
qed (simp_all add: sample_failed_fields releasable_def)

text \<open>The finding on the example: the message is gone, the exception still points to it.\<close>

lemma message_lost:
  "\<exists>m'. il2c_collect 1 3 (runtime_finalize 1) sample_failed = Some (Inr m') \<and> 2000 \<in> objects m' \<and>
    System_Exception_get_Message m' 2000 = Inr 3000 \<and> 3000 \<notin> objects m'"
proof (rule inherited_message_freed [OF sample_failed_ready sample_failed_calm(1) runtime.finalizer_axioms [of 1]
      sample_failed_calm(2) runtime_stores_nothing [of 1] sample_failed_calm(3,4)])
  show "3000 \<notin> set (children sample_failed b)" if "reaches sample_failed (root_set sample_failed) b" "b \<noteq> 2000" for b
    using that sample_failed_reaches(5) [of b] by (simp add: sample_failed_reaches(1,4))
qed (simp_all add: sample_failed_reaches sample_failed_graph sample_failed_live System_Exception_get_Message_def
    sample_failed_fields off_message_def, simp add: exception_types)

definition sample_raising :: environment where
  "sample_raising = sample_environment\<lparr>env_stack := 3\<rparr>"

lemma sample_failed_fresh:
  assumes c: "collected sample_failed m {a. reaches sample_failed (root_set sample_failed) a}"
  shows "fresh_block m 8000 40"
proof -
  have mem: "same_memory sample_failed m" using c by (simp add: collected_def)
  have obj: "objects m \<subseteq> {1000, 2000, 3000}" using collected_graph(1) [OF c refl] sample_failed_fields(5) by auto
  have "8000 \<notin> dom (headers m)" using obj object_of_objects [of 8000 m] by (auto simp: object_of_def sizeof_REF_HEADER_def)
  moreover have "static_refs (m\<lparr>cells := c\<rparr>) = static_refs m" for c
    using mem by (simp add: static_refs_def same_memory_def sample_failed_fields)
  moreover have "object_refs (m\<lparr>cells := c\<rparr>) a (htype (header_of m a)) = object_refs m a (htype (header_of m a))"
    if "a \<in> objects m" for a c
  proof -
    have ty: "htype (header_of m a) = htype (header_of sample_failed a)" using collected_graph(2) [OF c refl that] by simp
    have "body_sim (bodies sample_failed 1000) (bodies m 1000)" using mem by (simp add: same_memory_def)
    then obtain th where "bodies m 1000 = ThreadBody th" "frames th = [sample_method]"
      by (elim body_simE) (auto simp: sample_failed_fields sample_raised_fields sample_thread_def)
    then have "object_refs (m\<lparr>cells := c\<rparr>) 1000 sample_thread_type = object_refs m 1000 sample_thread_type"
      by (simp add: object_refs_def thread_refs_def sample_running_facts(6) frame_refs_def sample_method_def)
    then show ?thesis using that obj by (auto simp: ty sample_failed_graph)
  qed
  moreover have "vptrs m = vptrs sample_raised" using mem by (simp add: same_memory_def sample_failed_fields)
  ultimately show ?thesis
    by (auto simp: fresh_block_def in_block_def sample_raised_def)
qed

lemma sample_failed_can_create: "can_create sample_raising sample_failed [976, 1976, 2976] 1000 (sizeof_REF_HEADER + 16)"
proof -
  have "running_thread sample_failed [976, 1976, 2976] 1000"
    unfolding running_thread_def
    by (simp add: sample_failed_fields sample_raised_fields sample_failed_graph sample_started_graph(3,6) il2c_get_header_def
        sizeof_REF_HEADER_def)
  then show ?thesis
    unfolding can_create_def
    using sample_failed_ready sample_failed_calm sample_failed_fresh runtime.finalizer_axioms [of 1] runtime_stores_nothing [of 1]
    by (auto simp: sample_raising_def sample_environment_def sizeof_REF_HEADER_def)
qed

text \<open>
  A null reference in that method: the exception at 8024 goes to the finally block 60.
\<close>

lemma runtime_exception_raised_witness:
  "\<exists>m' s' ex st'. il2c_throw_nullreferenceexception sample_raising sample_thread_type
      \<lparr>il2c_null_reference_message = 5000, il2c_invalid_cast_message = 5100, il2c_index_out_of_range_message = 5200,
       il2c_format_message = 5300\<rparr> 1000 (sample_failed, sample_unwinding sample_tries) =
      Some (Inr ((m', s'), ex, LongJmp 60 (-1))) \<and>
    holds_stack 1000 (m', s') (Try 60 (\<lambda>_. -1) ex # tl sample_tries) \<and>
    System_Exception_get_Message m' ex = Inr 5000 \<and> reaches m' (root_set m') ex \<and> 2000 \<in> objects m'"
proof -
  have held: "holds_stack 1000 (sample_failed, sample_unwinding sample_tries) sample_tries"
    using sample_raised_holds(1) by (simp add: holds_stack_def sample_failed_fields)
  have throws: "throw_stack ex sample_tries = Some (Try 60 (\<lambda>_. -1) ex # tl sample_tries, LongJmp 60 (-1))" for ex
    by (simp add: sample_tries_def)
  have "reaches sample_failed (root_set sample_failed) 2000" by (simp add: sample_failed_reaches)
  then show ?thesis
    using runtime_exception_raised [OF sample_failed_can_create held, where threadType = sample_thread_type and
        raise = "il2c_throw_nullreferenceexception sample_raising sample_thread_type
          \<lparr>il2c_null_reference_message = 5000, il2c_invalid_cast_message = 5100, il2c_index_out_of_range_message = 5200,
           il2c_format_message = 5300\<rparr>" and ty = System_NullReferenceException_TYPE and message = 5000 and
        msgs = "\<lparr>il2c_null_reference_message = 5000, il2c_invalid_cast_message = 5100, il2c_index_out_of_range_message = 5200,
           il2c_format_message = 5300\<rparr>"]
    by (fastforce simp: throws)
qed

end
