(* ===== verification/Final_Shutdown.thy ===== *)
theory Final_Shutdown
  imports Allocation
begin

text \<open>
  The beginning and the end of the runtime (src/Core/il2c.c): \<open>il2c_initialize\<close> and
  \<open>il2c_shutdown\<close>, with the collection of the final shutdown (src/Core/il2c_gc.c).  The
  lemmas follow the rounds of that collection: the first one finalizes and frees, the second
  one frees what the first has finalized, and then nothing remains.
\<close>

section \<open>Operations\<close>

text \<open>
  The runtime's globals besides the machine: the counter that type initializers compare and
  the slot for thread contexts, a handle the platform allocates.
\<close>

record runtime =
  rt_machine :: machine
  g_InitializerCount :: u64
  g_TlsIndex :: "addr option"

definition il2c_initialize :: "addr \<Rightarrow> runtime \<Rightarrow> runtime" where
  "il2c_initialize tls_alloc r =
     r\<lparr>g_InitializerCount := g_InitializerCount r + 1, g_TlsIndex := Some tls_alloc,
       rt_machine := (rt_machine r)\<lparr>g_pBeginHeader := NULL, g_pBeginStaticFields := [], g_pRootReferences := [],
         g_pFixedReferences := [], g_MonitorLockBlockInformations := replicate 7 None,
         g_GlobalLockForCollect := il2c_initialize_monitor_lock\<rparr>\<rparr>"

definition il2c_shutdown ::
  "int \<Rightarrow> (addr \<Rightarrow> machine \<Rightarrow> addr \<Rightarrow> machine result) \<Rightarrow> runtime \<Rightarrow> runtime result option" where
  "il2c_shutdown t finalize r =
     and_then (il2c_collect_for_final_shutdown t finalize (rt_machine r)) (\<lambda>m.
       Some (Inr (r\<lparr>rt_machine := m\<lparr>g_GlobalLockForCollect := il2c_destroy_monitor_lock (g_GlobalLockForCollect m)\<rparr>,
                    g_TlsIndex := None\<rparr>)))"

section \<open>One round\<close>

definition is_initialized :: "machine \<Rightarrow> addr \<Rightarrow> bool" where
  "is_initialized m p \<longleftrightarrow> bit (characteristic (the (headers m p))) 30"

text \<open>A heap in a final collection: every initialized object carries the mark index of the round before.\<close>

definition shutdown_heap :: "machine \<Rightarrow> addr list \<Rightarrow> bool" where
  "shutdown_heap m hs \<longleftrightarrow> 1 \<le> g_ExecutingCollection m \<and> mark_index_ok (g_CollectionMarkIndex m) \<and>
     header_list m (g_pBeginHeader m) hs \<and> distinct hs \<and> vtables_ok m hs \<and>
     (\<forall>p \<in> set hs. (is_initialized m p \<longrightarrow> bit (characteristic (the (headers m p))) 29 = bit (g_CollectionMarkIndex m) 29) \<and>
        releasable m p (characteristic (the (headers m p))))"

definition drop_roots :: "machine \<Rightarrow> machine" where
  "drop_roots m = m\<lparr>g_pRootReferences := [], g_pFixedReferences := []\<rparr>"

text \<open>The finalizers are ready when the roots are gone.\<close>

definition shutdown_ready :: "(addr \<Rightarrow> machine \<Rightarrow> addr \<Rightarrow> bool) \<Rightarrow> machine \<Rightarrow> addr list \<Rightarrow> bool" where
  "shutdown_ready ready m hs \<longleftrightarrow> (\<forall>p \<in> set hs. \<forall>m'. is_initialized m p \<longrightarrow> needs_finalizer m p \<longrightarrow> up_to_locks (drop_roots m) m' \<longrightarrow>
     ready (Finalize (the (vptr0 (htype (the (headers m p)))))) m' (object_of p))"

lemma all_roots_dropped: "unregister_all_in blks = []"
  by (induction blks) simp_all

lemma round_decisions:
  assumes "shutdown_heap m hs" "p \<in> set hs" and m1: "headers m1 = headers m"
      "g_CollectionMarkIndex m1 = g_CollectionMarkIndex m XOR IL2C_CHARACTERISTIC_MARK_INDEX"
  shows "garbage m1 p \<longleftrightarrow> is_initialized m p" "to_finalize m1 p \<longleftrightarrow> is_initialized m p \<and> needs_finalizer m p"
    "dead m1 p \<longleftrightarrow> is_initialized m p \<and> \<not> needs_finalizer m p"
proof -
  obtain h where h: "headers m p = Some h"
    using assms(1,2) header_list_dom unfolding shutdown_heap_def by blast
  have bits: "is_initialized m p \<longleftrightarrow> bit (characteristic h) 30" "is_initialized m p \<Longrightarrow> bit (characteristic h) 29 \<longleftrightarrow> bit (g_CollectionMarkIndex m) 29"
      "mark_index_ok (g_CollectionMarkIndex m)"
    using assms(1,2) h by (auto simp: shutdown_heap_def is_initialized_def)
  have pay: "payload m1 p = Some (htype h, characteristic h)" using h m1 by (simp add: payload_def)
  have "sweep_test (g_CollectionMarkIndex m1) (characteristic h) \<longleftrightarrow> is_initialized m p"
    unfolding sweep_test_def sweep_test_iff [OF mark_index_flip(1) [OF bits(3)], folded m1(2)]
    using bits mark_index_flip(2) by (auto simp: m1(2))
  then show g: "garbage m1 p \<longleftrightarrow> is_initialized m p" by (simp add: garbage_def pay)
  then show f: "to_finalize m1 p \<longleftrightarrow> is_initialized m p \<and> needs_finalizer m p"
    using h by (auto simp: to_finalize_def pay needs_finalizer_def)
  show "dead m1 p \<longleftrightarrow> is_initialized m p \<and> \<not> needs_finalizer m p" using g f by (auto simp: dead_def)
qed

lemma shutdown_round_result:
  assumes heap: "shutdown_heap m hs" and fin: "finalizer finalize ready True"
    and ready: "\<forall>p \<in> set hs. is_initialized m p \<longrightarrow> needs_finalizer m p \<longrightarrow>
      ready (Finalize (the (vptr0 (htype (the (headers m p)))))) (drop_roots (flip_mark_index m)) (object_of p)"
  defines "fs \<equiv> filter (\<lambda>p. is_initialized m p \<longrightarrow> needs_finalizer m p) hs"
  shows "\<exists>m'. shutdown_round t finalize m = Some (Inr (m', of_nat (length fs))) \<and> shutdown_heap m' fs \<and>
    (\<forall>p \<in> set fs. is_initialized m' p = is_initialized m p \<and> (is_initialized m' p \<longrightarrow> \<not> needs_finalizer m' p)) \<and> (\<forall>p \<in> set hs - set fs. headers m' p = None) \<and>
    (\<forall>p. p \<notin> set hs \<longrightarrow> payload m' p = payload m p) \<and> block_counts m' = block_counts m \<and> g_pRootReferences m' = [] \<and>
    g_ExecutingCollection m' = g_ExecutingCollection m \<and> g_GlobalLockForCollect m' = g_GlobalLockForCollect m"
proof -
  define m1 where "m1 = drop_roots (flip_mark_index m)"
  have round: "shutdown_round t finalize m = il2c_step3_sweep_garbage t finalize m1"
    by (simp add: shutdown_round_def m1_def drop_roots_def flip_mark_index_def set_roots_def Let_def
        il2c_unregister_all_root_references_for_final_shutdown_def get_roots_def all_roots_dropped)
  have fields: "headers m1 = headers m" "g_CollectionMarkIndex m1 = g_CollectionMarkIndex m XOR IL2C_CHARACTERISTIC_MARK_INDEX"
      "g_ExecutingCollection m1 = g_ExecutingCollection m" "g_pBeginHeader m1 = g_pBeginHeader m" "vptrs m1 = vptrs m"
      "g_pRootReferences m1 = []" "g_GlobalLockForCollect m1 = g_GlobalLockForCollect m" "block_counts m1 = block_counts m"
    by (simp_all add: m1_def drop_roots_def flip_mark_index_def block_counts_def)
  have rel: "releasable m1 p c = releasable m p c" for p c
    by (simp add: m1_def drop_roots_def flip_mark_index_def releasable_def)
  note d = round_decisions [OF heap _ fields(1,2)]
  have seg: "header_list m1 (g_pBeginHeader m1) hs"
    using heap segment_cong [of hs m1 m] by (simp add: fields shutdown_heap_def)
  have sweep: "\<forall>p \<in> set hs. sweepable ready m1 p"
  proof
    fix p assume p: "p \<in> set hs"
    then obtain h where h: "headers m p = Some h"
      using heap header_list_dom unfolding shutdown_heap_def by blast
    have "vptr0 (htype h) \<noteq> None" "vptrs m (object_of p) = vptr0 (htype h)"
      using heap p h by (auto simp: shutdown_heap_def vtables_ok_def)
    then show "sweepable ready m1 p"
      using d(2) [OF p] ready [folded m1_def] p h by (auto simp: sweepable_def payload_def fields)
  qed
  have free: "\<forall>p \<in> set hs. dead m1 p \<longrightarrow> releasable m1 p (characteristic (the (headers m1 p)))"
    using heap by (simp add: rel fields shutdown_heap_def)
  have exec: "1 \<le> g_ExecutingCollection m1" "distinct hs" using heap by (simp_all add: fields shutdown_heap_def)
  have filters: "filter (\<lambda>p. \<not> dead m1 p) hs = fs" unfolding fs_def using d(3) by (intro filter_cong) auto
  from sweep_result [OF fin exec(1) seg exec(2) sweep free, of t]
  obtain m' where m': "il2c_step3_sweep_garbage t finalize m1 = Some (Inr (m', of_nat (length fs)))"
      "header_list m' (g_pBeginHeader m') fs" "\<forall>p \<in> set hs. dead m1 p \<longrightarrow> headers m' p = None"
      "\<forall>p. \<not> (p \<in> set hs \<and> dead m1 p) \<longrightarrow> swept True m1 m' (set hs) p"
      "g_CollectionMarkIndex m' = g_CollectionMarkIndex m1" "g_ExecutingCollection m' = g_ExecutingCollection m1"
      "vptrs m' = vptrs m1" "g_pRootReferences m' = g_pRootReferences m1" "g_GlobalLockForCollect m' = g_GlobalLockForCollect m1"
      "\<forall>p c. \<not> (p \<in> set hs \<and> dead m1 p) \<longrightarrow> releasable m1 p c \<longrightarrow> releasable m' p c" "block_counts m' = block_counts m1"
    unfolding filters by blast
  have kept: "\<exists>h h'. headers m p = Some h \<and> headers m' p = Some h' \<and> htype h' = htype h \<and> releasable m' p (characteristic h) \<and>
      (if is_initialized m p then finalized_header True h h' else characteristic h' = characteristic h)"
    if "p \<in> set fs" for p
  proof -
    have p: "p \<in> set hs" "is_initialized m p \<longrightarrow> needs_finalizer m p" using that by (simp_all add: fs_def)
    then have s: "swept True m1 m' (set hs) p" "releasable m' p (characteristic (the (headers m p)))"
      using m'(4,10) d(3) [OF p(1)] heap by (auto simp: rel shutdown_heap_def)
    obtain h where h: "headers m p = Some h" using p(1) heap header_list_dom unfolding shutdown_heap_def by blast
    show ?thesis
    proof (cases "is_initialized m p")
      case True
      then show ?thesis using s d(2) [OF p(1)] p h by (auto simp: swept_def fields finalized_header_def)
    next
      case False
      then have "payload m' p = Some (htype h, characteristic h)"
        using s(1) d(2) [OF p(1)] h by (simp add: swept_def payload_def fields)
      then show ?thesis using s(2) h False by (auto simp: payload_def)
    qed
  qed
  have idx: "mark_index_ok (g_CollectionMarkIndex m)" using heap by (simp add: shutdown_heap_def)
  have heap': "shutdown_heap m' fs"
    unfolding shutdown_heap_def
  proof (intro conjI ballI)
    show "1 \<le> g_ExecutingCollection m'" "header_list m' (g_pBeginHeader m') fs" "distinct fs"
      "mark_index_ok (g_CollectionMarkIndex m')"
      using exec m' mark_index_flip(1) [OF idx] by (simp_all add: fields fs_def)
    show "vtables_ok m' fs"
      unfolding vtables_ok_def
    proof
      fix p assume p: "p \<in> set fs"
      then have "p \<in> set hs" by (simp add: fs_def)
      then show "vptr0 (htype (the (headers m' p))) \<noteq> None \<and> vptrs m' (object_of p) = vptr0 (htype (the (headers m' p)))"
        using kept [OF p] heap m'(7) by (fastforce simp: fields shutdown_heap_def vtables_ok_def)
    qed
  next
    fix p assume p: "p \<in> set fs"
    then obtain h h' where h: "headers m p = Some h" "headers m' p = Some h'" "releasable m' p (characteristic h)"
        "if is_initialized m p then finalized_header True h h' else characteristic h' = characteristic h" using kept by blast
    have bits: "is_initialized m p \<longrightarrow> bit (characteristic h) 29 = bit (g_CollectionMarkIndex m) 29"
      using heap h(1) p by (auto simp: shutdown_heap_def fs_def)
    have init: "is_initialized m' p = is_initialized m p"
      using h by (auto simp: is_initialized_def finalized_header_def split: if_splits)
    show "is_initialized m' p \<longrightarrow> bit (characteristic (the (headers m' p))) 29 = bit (g_CollectionMarkIndex m') 29"
      using bits h m'(5) mark_index_flip(2) init by (auto simp: finalized_header_def fields)
    show "releasable m' p (characteristic (the (headers m' p)))"
      using h releasable_cong [of m' m' "characteristic h'" "characteristic h" p]
      by (auto simp: finalized_header_def split: if_splits)
  qed
  have finished: "\<forall>p \<in> set fs. is_initialized m' p = is_initialized m p \<and> (is_initialized m' p \<longrightarrow> \<not> needs_finalizer m' p)"
  proof
    fix p assume "p \<in> set fs"
    from kept [OF this] show "is_initialized m' p = is_initialized m p \<and> (is_initialized m' p \<longrightarrow> \<not> needs_finalizer m' p)"
      by (auto simp: needs_finalizer_def finalized_header_def is_initialized_def split: if_splits dest: spec [of _ 30])
  qed
  have "\<forall>p \<in> set hs - set fs. headers m' p = None" using m'(3) d(3) by (auto simp: fs_def)
  moreover have "payload m' p = payload m p" if "p \<notin> set hs" for p
    using that m'(4) by (auto simp: swept_def payload_def fields)
  ultimately show ?thesis using m' heap' finished round by (auto simp: fields)
qed

section \<open>The final collection\<close>

lemma release_single_blocks:
  assumes "set (map (map_option (\<lambda>info. length (blocks info))) bs) \<subseteq> {None, Some 1}"
  shows "release_buckets bs = Inr (replicate (length bs) None)"
  using assms by (induction bs) (auto simp: release_bucket_def split: option.splits)

lemma exhaust_result:
  assumes heap: "shutdown_heap m hs" and fin: "finalizer finalize ready True" and len: "length hs < 2 ^ 64"
    and init: "\<forall>p \<in> set hs. is_initialized m p"
    and ready: "\<forall>p \<in> set hs. is_initialized m p \<longrightarrow> needs_finalizer m p \<longrightarrow>
      ready (Finalize (the (vptr0 (htype (the (headers m p)))))) (drop_roots (flip_mark_index m)) (object_of p)"
  shows "\<exists>m'. exhaust_instances t finalize m = Some (Inr m') \<and> g_pBeginHeader m' = NULL \<and>
    (\<forall>p \<in> set hs. headers m' p = None) \<and> (\<forall>p. p \<notin> set hs \<longrightarrow> payload m' p = payload m p) \<and>
    block_counts m' = block_counts m \<and> g_pRootReferences m' = [] \<and> mark_index_ok (g_CollectionMarkIndex m') \<and>
    g_ExecutingCollection m' = g_ExecutingCollection m \<and> g_GlobalLockForCollect m' = g_GlobalLockForCollect m"
proof -
  define fs where "fs = filter (\<lambda>p. is_initialized m p \<longrightarrow> needs_finalizer m p) hs"
  obtain m1 where m1: "shutdown_round t finalize m = Some (Inr (m1, of_nat (length fs)))" "shutdown_heap m1 fs"
      "\<forall>p \<in> set fs. is_initialized m1 p = is_initialized m p \<and> (is_initialized m1 p \<longrightarrow> \<not> needs_finalizer m1 p)" "\<forall>p \<in> set hs - set fs. headers m1 p = None"
      "\<forall>p. p \<notin> set hs \<longrightarrow> payload m1 p = payload m p" "block_counts m1 = block_counts m" "g_pRootReferences m1 = []"
      "g_ExecutingCollection m1 = g_ExecutingCollection m" "g_GlobalLockForCollect m1 = g_GlobalLockForCollect m"
    using shutdown_round_result [where t = t, OF heap fin ready] unfolding fs_def by blast
  show ?thesis
  proof (cases "fs = []")
    case True
    then have "exhaust_instances t finalize m = Some (Inr m1)" using m1(1) by (subst exhaust_instances.simps) simp
    then show ?thesis using m1 True by (auto simp: shutdown_heap_def)
  next
    case False
    have "length fs < 2 ^ 64" using len length_filter_le [of "\<lambda>p. is_initialized m p \<longrightarrow> needs_finalizer m p" hs] unfolding fs_def by linarith
    then have n: "(of_nat (length fs) :: u64) \<noteq> 0"
      using False by (simp add: word_unat_eq_iff unsigned_of_nat take_bit_nat_eq_self)
    have none: "filter (\<lambda>p. is_initialized m1 p \<longrightarrow> needs_finalizer m1 p) fs = []" "\<forall>p \<in> set fs. is_initialized m1 p \<and> \<not> needs_finalizer m1 p"
      using m1(3) init by (auto simp: fs_def)
    obtain m2 where m2: "shutdown_round t finalize m1 = Some (Inr (m2, 0))" "shutdown_heap m2 []"
        "\<forall>p \<in> set fs. headers m2 p = None" "\<forall>p. p \<notin> set fs \<longrightarrow> payload m2 p = payload m1 p"
        "block_counts m2 = block_counts m1" "g_pRootReferences m2 = []"
        "g_ExecutingCollection m2 = g_ExecutingCollection m1" "g_GlobalLockForCollect m2 = g_GlobalLockForCollect m1"
      using shutdown_round_result [where t = t, OF m1(2) fin] none(2) unfolding none(1) by auto
    have "exhaust_instances t finalize m1 = Some (Inr m2)" using m2(1) by (subst exhaust_instances.simps) simp
    then have "exhaust_instances t finalize m = Some (Inr m2)" using m1(1) n by (subst exhaust_instances.simps) simp
    moreover have "headers m2 p = None" if "p \<in> set hs" for p
    proof (cases "p \<in> set fs")
      case False
      then have "payload m2 p = payload m1 p" "headers m1 p = None" using m2(4) m1(4) that by auto
      then show ?thesis by (simp add: payload_def)
    qed (use m2(3) in simp)
    moreover have "payload m2 p = payload m p" if "p \<notin> set hs" for p
      using that m1(5) m2(4) by (auto simp: fs_def)
    ultimately show ?thesis using m2 m1 by (auto simp: shutdown_heap_def)
  qed
qed

text \<open>What a shutdown needs of the heap.\<close>

definition can_shut_down ::
  "int \<Rightarrow> (addr \<Rightarrow> machine \<Rightarrow> addr \<Rightarrow> machine result) \<Rightarrow> (addr \<Rightarrow> machine \<Rightarrow> addr \<Rightarrow> bool) \<Rightarrow> machine \<Rightarrow> addr list \<Rightarrow> bool" where
  "can_shut_down t finalize ready m hs \<longleftrightarrow> between_collections m hs \<and> vtables_ok m hs \<and> locks_ready t m \<and>
     finalizer finalize ready True \<and> shutdown_ready ready m hs \<and> length hs < 2 ^ 64 \<and>
     (\<forall>p \<in> set hs. releasable m p (characteristic (the (headers m p)))) \<and> set (block_counts m) \<subseteq> {None, Some 1}"

lemma final_collection_begins:
  assumes "locks_ready t m" and "shutdown_ready ready m hs" and heap: "shutdown_heap (m\<lparr>g_ExecutingCollection := 1\<rparr>) hs"
  shows "\<exists>m1. collect_begin t (m\<lparr>g_ExecutingCollection := 1\<rparr>) = Inr m1 \<and> shutdown_heap m1 hs \<and> headers m1 = headers m \<and>
    block_counts m1 = block_counts m \<and> g_ExecutingCollection m1 = 1 \<and> takeable t (g_GlobalLockForCollect m1) \<and>
    (\<forall>p \<in> set hs. is_initialized m1 p \<longrightarrow> needs_finalizer m1 p \<longrightarrow>
      ready (Finalize (the (vptr0 (htype (the (headers m1 p)))))) (drop_roots (flip_mark_index m1)) (object_of p))"
proof -
  let ?m0 = "m\<lparr>g_ExecutingCollection := 1\<rparr>"
  have "locks_ready t ?m0" using assms(1) by (simp add: locks_ready_def thread_ready_def has_vptr0_def)
  from collect_begin_result [OF this] obtain l bs where b: "collect_begin t ?m0 = Inr (?m0\<lparr>g_GlobalLockForCollect := l, bodies := bs\<rparr>)"
      "takeable t l" "up_to_locks ?m0 (?m0\<lparr>g_GlobalLockForCollect := l, bodies := bs\<rparr>)" by auto
  define m1 where "m1 = ?m0\<lparr>g_GlobalLockForCollect := l, bodies := bs\<rparr>"
  have fields: "headers m1 = headers m" "g_CollectionMarkIndex m1 = g_CollectionMarkIndex m" "g_pBeginHeader m1 = g_pBeginHeader m"
      "vptrs m1 = vptrs m" "block_counts m1 = block_counts m" "g_ExecutingCollection m1 = 1" "g_GlobalLockForCollect m1 = l"
    by (simp_all add: m1_def block_counts_def)
  have rel: "releasable m1 p c = releasable ?m0 p c" for p c by (simp add: m1_def releasable_def)
  have "shutdown_heap m1 hs"
    using heap segment_cong [of hs m1 ?m0]
    by (auto simp: shutdown_heap_def vtables_ok_def fields rel is_initialized_def)
  moreover have "needs_finalizer m1 = needs_finalizer m" "is_initialized m1 = is_initialized m"
    by (simp_all add: fun_eq_iff needs_finalizer_def is_initialized_def fields)
  moreover have "up_to_locks (drop_roots m) (drop_roots (flip_mark_index m1))"
    using b(3) by (simp add: up_to_locks_def drop_roots_def flip_mark_index_def m1_def)
  ultimately show ?thesis
    using b(1,2) assms(2) unfolding m1_def [symmetric] by (intro exI [of _ m1]) (auto simp: fields shutdown_ready_def)
qed

lemma final_shutdown_result:
  assumes "can_shut_down t finalize ready m hs"
  shows "\<exists>m'. il2c_collect_for_final_shutdown t finalize m = Some (Inr m') \<and> g_pBeginHeader m' = NULL \<and>
    (\<forall>p \<in> set hs. headers m' p = None) \<and> (\<forall>p. p \<notin> set hs \<longrightarrow> payload m' p = payload m p) \<and>
    g_pRootReferences m' = [] \<and> mark_index_ok (g_CollectionMarkIndex m') \<and> g_ExecutingCollection m' = 0 \<and>
    set (g_MonitorLockBlockInformations m') \<subseteq> {None} \<and> lock_alive (g_GlobalLockForCollect m')"
proof -
  note a = assms [unfolded can_shut_down_def]
  have exec: "g_ExecutingCollection m = 0" using a by (simp add: between_collections_def)
  have "shutdown_heap (m\<lparr>g_ExecutingCollection := 1\<rparr>) hs"
    using a segment_cong [of hs "m\<lparr>g_ExecutingCollection := 1\<rparr>" m]
    by (auto simp: shutdown_heap_def between_collections_def vtables_ok_def is_initialized_def releasable_def)
  from final_collection_begins [OF _ _ this, of t ready] a obtain m1 where
    m1: "collect_begin t (m\<lparr>g_ExecutingCollection := 1\<rparr>) = Inr m1" and heap: "shutdown_heap m1 hs"
    and fields: "headers m1 = headers m" "block_counts m1 = block_counts m" "g_ExecutingCollection m1 = 1" "takeable t (g_GlobalLockForCollect m1)"
    and ready: "\<forall>p \<in> set hs. is_initialized m1 p \<longrightarrow> needs_finalizer m1 p \<longrightarrow>
      ready (Finalize (the (vptr0 (htype (the (headers m1 p)))))) (drop_roots (flip_mark_index m1)) (object_of p)" by auto
  have all: "\<forall>p \<in> set hs. is_initialized m1 p" using a by (simp add: between_collections_def is_initialized_def fields)
  from exhaust_result [where ready = ready and t = t and finalize = finalize, OF heap _ _ all ready] a
  obtain m2 where m2: "exhaust_instances t finalize m1 = Some (Inr m2)" "g_pBeginHeader m2 = NULL"
      "\<forall>p \<in> set hs. headers m2 p = None" "\<forall>p. p \<notin> set hs \<longrightarrow> payload m2 p = payload m1 p"
      "block_counts m2 = block_counts m1" "g_pRootReferences m2 = []" "mark_index_ok (g_CollectionMarkIndex m2)"
      "g_ExecutingCollection m2 = g_ExecutingCollection m1" "g_GlobalLockForCollect m2 = g_GlobalLockForCollect m1"
    by blast
  let ?bs = "replicate (length (g_MonitorLockBlockInformations m2)) None"
  define m3 where "m3 = m2\<lparr>g_MonitorLockBlockInformations := ?bs\<rparr>"
  have "set (block_counts m2) \<subseteq> {None, Some 1}" using a m2(5) by (simp add: fields)
  then have release: "il2c_release_all_monitor_lock_for_final_shutdown m2 = Inr m3"
    using release_single_blocks by (simp add: il2c_release_all_monitor_lock_for_final_shutdown_def block_counts_def m3_def)
  have "takeable t (g_GlobalLockForCollect m3)" "1 \<le> g_ExecutingCollection m3" "\<forall>a \<in> registered (g_pRootReferences m3). thread_ready t m3 a"
    using m2 fields by (simp_all add: m3_def registered_def)
  from collect_end_result [OF this] obtain l' bs' where e: "collect_end t m3 = Inr (m3\<lparr>bodies := bs', g_GlobalLockForCollect := l',
      g_ExecutingCollection := g_ExecutingCollection m3 - 1\<rparr>)" "takeable t l'" by blast
  let ?m4 = "m3\<lparr>bodies := bs', g_GlobalLockForCollect := l', g_ExecutingCollection := g_ExecutingCollection m3 - 1\<rparr>"
  have "il2c_collect_for_final_shutdown t finalize m = Some (Inr ?m4)"
    using exec m1 m2(1) release e(1) by (simp add: il2c_collect_for_final_shutdown_def)
  moreover have "payload ?m4 p = payload m p" if "p \<notin> set hs" for p
    using that m2(4) by (simp add: payload_def m3_def fields)
  ultimately show ?thesis
    using m2 e(2) by (intro exI [of _ ?m4]) (auto simp: m3_def fields takeable_def)
qed

section \<open>An object that is never initialized\<close>

text \<open>From the second round on only uninitialized objects can remain, and they remain forever.\<close>

definition stuck :: "machine \<Rightarrow> addr list \<Rightarrow> bool" where
  "stuck m hs \<longleftrightarrow> shutdown_heap m hs \<and> length hs < 2 ^ 64 \<and> (\<exists>p \<in> set hs. \<not> is_initialized m p) \<and>
     (\<forall>p \<in> set hs. is_initialized m p \<longrightarrow> \<not> needs_finalizer m p)"

lemma stuck_round:
  assumes heap: "shutdown_heap m hs" and fin: "finalizer finalize ready True" and len: "length hs < 2 ^ 64"
    and some: "\<exists>p \<in> set hs. \<not> is_initialized m p"
    and ready: "\<forall>p \<in> set hs. is_initialized m p \<longrightarrow> needs_finalizer m p \<longrightarrow>
      ready (Finalize (the (vptr0 (htype (the (headers m p)))))) (drop_roots (flip_mark_index m)) (object_of p)"
  shows "\<exists>m' n fs. shutdown_round t finalize m = Some (Inr (m', n)) \<and> n \<noteq> 0 \<and> stuck m' fs"
proof -
  define fs where "fs = filter (\<lambda>p. is_initialized m p \<longrightarrow> needs_finalizer m p) hs"
  obtain m1 where m1: "shutdown_round t finalize m = Some (Inr (m1, of_nat (length fs)))" "shutdown_heap m1 fs"
      "\<forall>p \<in> set fs. is_initialized m1 p = is_initialized m p \<and> (is_initialized m1 p \<longrightarrow> \<not> needs_finalizer m1 p)"
    using shutdown_round_result [where t = t, OF heap fin ready] unfolding fs_def by blast
  have l: "length fs < 2 ^ 64" using len length_filter_le [of "\<lambda>p. is_initialized m p \<longrightarrow> needs_finalizer m p" hs] unfolding fs_def by linarith
  obtain p where p: "p \<in> set fs" "\<not> is_initialized m p" using some by (auto simp: fs_def)
  then have "fs \<noteq> []" by auto
  then have "(of_nat (length fs) :: u64) \<noteq> 0"
    using l by (simp add: word_unat_eq_iff unsigned_of_nat take_bit_nat_eq_self)
  moreover have "stuck m1 fs" using m1(2,3) l p by (auto simp: stuck_def)
  ultimately show ?thesis using m1(1) by blast
qed

lemma stuck_never_returns:
  assumes "stuck m hs" and fin: "finalizer finalize ready True"
  shows "exhaust_instances t finalize m = None"
proof -
  let ?P = "\<lambda>t' f m (r :: machine result). t' = t \<longrightarrow> f = finalize \<longrightarrow> (\<forall>hs. \<not> stuck m hs)"
  have "?P t finalize m r" if ret: "exhaust_instances t finalize m = Some r" for m r
  proof (rule exhaust_instances.raw_induct [where P = ?P, OF _ ret])
    fix step :: "int \<Rightarrow> (addr \<Rightarrow> machine \<Rightarrow> addr \<Rightarrow> machine result) \<Rightarrow> machine \<Rightarrow> machine result option" and t' f m r
    assume IH: "\<And>t' f m r. step t' f m = Some r \<Longrightarrow> ?P t' f m r"
      and ret: "(case shutdown_round t' f m of None \<Rightarrow> None | Some (Inl e) \<Rightarrow> Some (Inl e)
        | Some (Inr (m', remains)) \<Rightarrow> if remains = 0 then Some (Inr m') else step t' f m') = Some r"
    show "?P t' f m r"
    proof (intro impI allI notI)
      fix hs assume same: "t' = t" "f = finalize" and heap: "stuck m hs"
      then obtain m' n fs where "shutdown_round t finalize m = Some (Inr (m', n))" "n \<noteq> 0" "stuck m' fs"
        using stuck_round [where t = t, OF _ fin, of m hs] unfolding stuck_def by blast
      with ret same IH [of t finalize m' r] show False by auto
    qed
  qed
  with assms(1) show ?thesis by (cases "exhaust_instances t finalize m") auto
qed

section \<open>Properties\<close>

text \<open>
  C9: the runtime always shuts down, and starts again.  From a heap between collections, with
  finalizers that keep their contract and register no object again, \<open>il2c_shutdown\<close> returns:
  every object of the heap has been freed (constants are left alone), no root, monitor or
  running collection is left; and \<open>il2c_initialize\<close> after it gives an empty heap that is ready
  for collections.
\<close>

theorem shutdown_frees_everything:
  assumes "can_shut_down t finalize ready (rt_machine r) hs"
  shows "\<exists>r'. il2c_shutdown t finalize r = Some (Inr r') \<and> g_TlsIndex r' = None \<and>
    g_pBeginHeader (rt_machine r') = NULL \<and> (\<forall>p \<in> set hs. headers (rt_machine r') p = None) \<and>
    (\<forall>p. p \<notin> set hs \<longrightarrow> payload (rt_machine r') p = payload (rt_machine r) p) \<and>
    g_pRootReferences (rt_machine r') = [] \<and> set (g_MonitorLockBlockInformations (rt_machine r')) \<subseteq> {None} \<and>
    gc_ready t' (rt_machine (il2c_initialize index r')) []"
proof -
  let ?m = "rt_machine r"
  obtain m' where m': "il2c_collect_for_final_shutdown t finalize ?m = Some (Inr m')" "g_pBeginHeader m' = NULL"
      "\<forall>p \<in> set hs. headers m' p = None" "\<forall>p. p \<notin> set hs \<longrightarrow> payload m' p = payload ?m p" "g_pRootReferences m' = []"
      "mark_index_ok (g_CollectionMarkIndex m')" "g_ExecutingCollection m' = 0" "set (g_MonitorLockBlockInformations m') \<subseteq> {None}"
    using final_shutdown_result [OF assms] by blast
  define r' where "r' = r\<lparr>rt_machine := m'\<lparr>g_GlobalLockForCollect := il2c_destroy_monitor_lock (g_GlobalLockForCollect m')\<rparr>, g_TlsIndex := None\<rparr>"
  let ?n = "rt_machine (il2c_initialize index r')"
  have between: "between_collections ?m hs" using assms by (simp add: can_shut_down_def)
  have kept: "p \<notin> set hs \<and> payload m' p = payload ?m p" if "headers m' p \<noteq> None" for p
    using that m'(3,4) by (cases "p \<in> set hs") auto
  have "dom (headers m') \<subseteq> dom (headers ?m)"
  proof
    fix p assume "p \<in> dom (headers m')"
    then show "p \<in> dom (headers ?m)" using kept [of p] by (cases "headers ?m p") (auto simp: payload_def)
  qed
  then have fin: "finite (dom (headers m'))" using between finite_subset by (auto simp: between_collections_def)
  have const: "const_object ?n a" if a: "a \<in> objects ?n" for a
  proof -
    obtain p where p: "a = object_of p" "headers m' p \<noteq> None"
      using a by (auto simp: objects_def il2c_initialize_def r'_def)
    then have k: "p \<notin> set hs" "payload m' p = payload ?m p" using kept by auto
    obtain h' where h': "headers m' p = Some h'" using p(2) by blast
    then obtain h where h: "headers m' p = Some h'" "headers ?m p = Some h" "characteristic h' = characteristic h"
      using k(2) by (cases "headers ?m p") (auto simp: payload_def)
    then have "object_of p \<in> objects ?m" by (simp add: domIff)
    then have "const_object ?m a" using between k(1) p(1) unfolding between_collections_def by fastforce
    then show ?thesis using h p(1) by (simp add: const_object_def il2c_initialize_def r'_def)
  qed
  have "gc_ready t' ?n []"
    using const fin m'
    by (auto simp: gc_ready_def between_collections_def heap_layout_def roots_valid_def static_refs_def refs_valid_def
        registered_def locks_ready_def vtables_ok_def takeable_def)
       (auto simp: il2c_initialize_def r'_def il2c_initialize_monitor_lock_def registered_def)
  moreover have "il2c_shutdown t finalize r = Some (Inr r')" using m'(1) by (simp add: il2c_shutdown_def r'_def)
  ultimately show ?thesis using m' by (intro exI [of _ r']) (simp add: r'_def payload_def)
qed

text \<open>
  C37: the one way a shutdown never returns.  With the same finalizers, when the list of
  objects holds one whose allocation was never completed (\<open>IL2C_CHARACTERISTIC_INITIALIZED\<close> not
  set, as between the allocation and the end of a constructor on another thread), the loop
  of the final collection never ends by itself: the object is never swept and always remains,
  so only another thread that completes the allocation can end the loop.
\<close>

theorem shutdown_waits_for_uninitialized:
  assumes "g_ExecutingCollection (rt_machine r) = 0" and "shutdown_heap ((rt_machine r)\<lparr>g_ExecutingCollection := 1\<rparr>) hs"
    and "locks_ready t (rt_machine r)" and "finalizer finalize ready True" "shutdown_ready ready (rt_machine r) hs"
    and "length hs < 2 ^ 64" and "p \<in> set hs" "\<not> is_initialized (rt_machine r) p"
  shows "il2c_shutdown t finalize r = None"
proof -
  from final_collection_begins [OF assms(3,5,2)] obtain m1 where
    m1: "collect_begin t ((rt_machine r)\<lparr>g_ExecutingCollection := 1\<rparr>) = Inr m1" and heap: "shutdown_heap m1 hs"
    and "headers m1 = headers (rt_machine r)"
    and ready: "\<forall>p \<in> set hs. is_initialized m1 p \<longrightarrow> needs_finalizer m1 p \<longrightarrow>
      ready (Finalize (the (vptr0 (htype (the (headers m1 p)))))) (drop_roots (flip_mark_index m1)) (object_of p)" by blast
  then have "\<exists>p \<in> set hs. \<not> is_initialized m1 p" using assms(7,8) by (auto simp: is_initialized_def)
  from stuck_round [where t = t and ready = ready, OF heap assms(4,6) this ready]
  obtain m2 n fs where "shutdown_round t finalize m1 = Some (Inr (m2, n))" "n \<noteq> 0" "stuck m2 fs" by blast
  then have "exhaust_instances t finalize m1 = None"
    using stuck_never_returns [OF _ assms(4)] by (subst exhaust_instances.simps) simp
  then show ?thesis using m1 assms(1) by (simp add: il2c_shutdown_def il2c_collect_for_final_shutdown_def)
qed

text \<open>
  Witnesses: the heap with one running thread, whose object has a finalizer; and the same heap
  before its object is initialized.
\<close>

lemma sample_shutdown:
  "can_shut_down 1 (runtime_finalize 1) runtime_ready sample_running [976]"
proof -
  have can: "can_create sample_environment sample_running [976] 1000 0" by (rule sample_can_create)
  have "runtime_ready c m' 1000" if "up_to_locks (drop_roots sample_running) m'"
      "c \<in> {System_Object_Finalize, System_Threading_Thread_Finalize_code}" for c m'
  proof -
    have "body_sim (bodies sample_running 1000) (bodies m' 1000)" using that(1) by (simp add: up_to_locks_def drop_roots_def)
    then show ?thesis
      using that(2) by (cases rule: body_simE)
        (auto simp: runtime_ready_def sample_running_def zero_thread_def il2c_initialize_monitor_lock_def)
  qed
  moreover have "Finalize (the (vptr0 (htype (the (headers sample_running 976))))) = System_Threading_Thread_Finalize_code"
    by (simp add: sample_running_facts(2) sample_thread_type_def System_Threading_Thread_VTABLE_def)
  ultimately have "shutdown_ready runtime_ready sample_running [976]"
    by (simp add: shutdown_ready_def object_of_def sizeof_REF_HEADER_def)
  moreover have "set (block_counts sample_running) \<subseteq> {None, Some 1}"
    by (simp add: block_counts_def sample_running_def empty_machine_def)
  ultimately show ?thesis
    using can runtime.finalizer_axioms [of 1]
    by (auto simp: can_shut_down_def can_create_def gc_ready_def sample_environment_def)
qed

definition sample_runtime :: "machine \<Rightarrow> runtime" where
  "sample_runtime m = \<lparr>rt_machine = m, g_InitializerCount = 1, g_TlsIndex = Some 40\<rparr>"

lemma shutdown_frees_everything_witness:
  "\<exists>r'. il2c_shutdown 1 (runtime_finalize 1) (sample_runtime sample_running) = Some (Inr r') \<and>
    g_pBeginHeader (rt_machine r') = NULL \<and> headers (rt_machine r') 976 = None"
proof -
  have "can_shut_down 1 (runtime_finalize 1) runtime_ready (rt_machine (sample_runtime sample_running)) [976]"
    using sample_shutdown by (simp add: sample_runtime_def)
  from shutdown_frees_everything [OF this, where t' = 1 and index = 40] show ?thesis by auto
qed

lemma shutdown_waits_for_uninitialized_witness:
  "il2c_shutdown 1 (runtime_finalize 1) (sample_runtime (set_characteristic sample_running 976 0)) = None"
proof -
  let ?m = "set_characteristic sample_running 976 0" and ?m1 = "(set_characteristic sample_running 976 0)\<lparr>g_ExecutingCollection := 1\<rparr>"
  have h: "headers ?m 976 = Some \<lparr>pNext = NULL, htype = sample_thread_type, characteristic = 0\<rparr>"
    by (simp add: set_characteristic_def sample_running_facts(2))
  have f: "g_ExecutingCollection ?m = 0" "g_CollectionMarkIndex ?m = 0" "g_pBeginHeader ?m = 976"
      "vptrs ?m 1000 = Some System_Threading_Thread_VTABLE"
    by (simp_all add: set_characteristic_def sample_running_def empty_machine_def)
  have un: "\<not> is_initialized ?m 976" "\<not> is_initialized ?m1 976" by (simp_all add: is_initialized_def h)
  have "locks_ready 1 sample_running"
    using sample_can_create [of 0] by (simp add: can_create_def gc_ready_def sample_environment_def)
  then have "locks_ready 1 ?m" by (simp add: locks_ready_def thread_ready_def set_characteristic_def has_vptr0_def)
  moreover have "shutdown_heap ?m1 [976]"
    using un(2) h f by (simp add: shutdown_heap_def vtables_ok_def mark_index_ok_def releasable_def sample_thread_type_def
        object_of_def sizeof_REF_HEADER_def)
  moreover have "shutdown_ready runtime_ready ?m [976]" using un(1) by (simp add: shutdown_ready_def)
  ultimately show ?thesis
    using shutdown_waits_for_uninitialized [of "sample_runtime ?m" "[976]" 1 "runtime_finalize 1" runtime_ready 976]
      runtime.finalizer_axioms [of 1] f(1) un(1) by (simp add: sample_runtime_def)
qed

end
