(* ===== verification/Fmod.thy ===== *)
theory Fmod
  imports IL2C_Base
begin

text \<open>
  The remainder of two doubles (src/Platform/fmod.c, built where the platform's C library
  has none, \<open>IL2C_USE_FMOD\<close>).  It works on the bits of the two numbers: the significands
  are made to have 53 bits, and a long division subtracts and shifts.

  A finite double is a whole number of units of \<open>2 ^ -1074\<close>, its magnitude, with a sign; the
  theorem says that the magnitude of the result is the remainder of the magnitudes.  The
  two products in the code are the C implementation's double arithmetic and are arguments.
\<close>

section \<open>Operations\<close>

text \<open>The fields of a double.\<close>

definition exponent :: "u64 \<Rightarrow> nat" where "exponent u = unat (drop_bit 52 u AND 0x7FF)"
definition sign :: "u64 \<Rightarrow> u64" where "sign u = drop_bit 63 u"

text \<open>
  The first loop counts the exponent down over the leading zeros of a subnormal number: it
  does not end for 0.
\<close>

partial_function (option) count_down :: "int \<Rightarrow> u64 \<Rightarrow> int option" where
  "count_down e i = (if drop_bit 63 i = 0 then count_down (e - 1) (push_bit 1 i) else Some e)"

definition normalize_bits :: "u64 \<Rightarrow> (int \<times> u64) option" where
  "normalize_bits u =
     (if exponent u = 0 then
        map_option (\<lambda>e. (e, push_bit (nat (- e + 1)) u)) (count_down 0 (push_bit 12 u))
      else Some (int (exponent u), (u AND drop_bit 12 (-1)) OR push_bit 52 1))"

text \<open>The long division; \<open>None\<close> is the early return of a zero.\<close>

function divide_loop :: "int \<Rightarrow> int \<Rightarrow> u64 \<Rightarrow> u64 \<Rightarrow> u64 option" where
  "divide_loop ex ey uxi uy =
     (if ex > ey then
        let i = uxi - uy in
        if drop_bit 63 i = 0 then
          if i = 0 then None else divide_loop (ex - 1) ey (push_bit 1 i) uy
        else divide_loop (ex - 1) ey (push_bit 1 uxi) uy
      else Some uxi)"
  by auto
termination by (relation "measure (\<lambda>(ex, ey, _). nat (ex - ey))") auto

declare divide_loop.simps [simp del]

definition divide_last :: "u64 \<Rightarrow> u64 \<Rightarrow> u64 option" where
  "divide_last uxi uy =
     (let i = uxi - uy in if drop_bit 63 i = 0 then if i = 0 then None else Some i else Some uxi)"

partial_function (option) shift_up :: "int \<Rightarrow> u64 \<Rightarrow> (int \<times> u64) option" where
  "shift_up e u = (if drop_bit 52 u = 0 then shift_up (e - 1) (push_bit 1 u) else Some (e, u))"

definition scale :: "int \<Rightarrow> u64 \<Rightarrow> u64" where
  "scale e u = (if e > 0 then (u - push_bit 52 1) OR push_bit 52 (of_int e) else drop_bit (nat (- e + 1)) u)"

definition il2c_fmod :: "(u64 \<Rightarrow> u64 \<Rightarrow> u64) \<Rightarrow> (u64 \<Rightarrow> u64 \<Rightarrow> u64) \<Rightarrow> u64 \<Rightarrow> u64 \<Rightarrow> u64 option" where
  "il2c_fmod fmul fdiv x y =
     (if push_bit 1 y = 0 \<or> exponent x = 0x7FF then Some (fdiv (fmul x y) (fmul x y))
      else if push_bit 1 x \<le> push_bit 1 y then
        Some (if push_bit 1 x = push_bit 1 y then fmul 0 x else x)
      else
        Option.bind (normalize_bits x) (\<lambda>(ex, uxi).
        Option.bind (normalize_bits y) (\<lambda>(ey, uy).
          (case divide_loop ex ey uxi uy of None \<Rightarrow> Some (fmul 0 x)
           | Some uxi \<Rightarrow>
              (case divide_last uxi uy of None \<Rightarrow> Some (fmul 0 x)
               | Some uxi \<Rightarrow>
                  map_option (\<lambda>(e, u). scale e u OR push_bit 63 (sign x)) (shift_up (if ex > ey then ey else ex) uxi))))))"

section \<open>The numbers\<close>

text \<open>The magnitude in units of the smallest subnormal number.\<close>

definition fraction :: "u64 \<Rightarrow> nat" where "fraction u = unat u mod 2 ^ 52"

definition magnitude :: "u64 \<Rightarrow> nat" where
  "magnitude u = (if exponent u = 0 then fraction u else (2 ^ 52 + fraction u) * 2 ^ (exponent u - 1))"

definition is_finite :: "u64 \<Rightarrow> bool" where "is_finite u \<longleftrightarrow> exponent u \<noteq> 0x7FF"
definition is_nan :: "u64 \<Rightarrow> bool" where "is_nan u \<longleftrightarrow> exponent u = 0x7FF \<and> fraction u \<noteq> 0"

lemma unat_drop: "unat (drop_bit n (u :: u64)) = unat u div 2 ^ n"
  using unat_drop_bit_eq [of n u] drop_bit_eq_div [of n "unat u"] by (rule trans)

lemma unat_push: "unat (push_bit n (u :: u64)) = (unat u * 2 ^ n) mod 2 ^ 64"
proof -
  have "unat (push_bit n u) = take_bit LENGTH(64) (push_bit n (unat u))" by (rule unsigned_push_bit_eq)
  then show ?thesis unfolding push_bit_eq_mult [of n "unat u"] take_bit_eq_mod by simp
qed

lemma unat_bound: "unat (u :: u64) < 2 ^ 64"
  using unsigned_less [of u] by simp

lemma exponent_nat: "exponent u = unat u div 2 ^ 52 mod 2 ^ 11"
proof -
  have "(0x7FF :: u64) = mask 11" by (simp add: mask_eq_exp_minus_1)
  then have "exponent u = unat (take_bit 11 (drop_bit 52 u))" by (simp only: exponent_def take_bit_eq_mask)
  also have "\<dots> = take_bit 11 (unat (drop_bit 52 u))" by (rule unsigned_take_bit_eq)
  finally show ?thesis by (simp only: unat_drop take_bit_eq_mod)
qed

lemma drop_zero_iff: "drop_bit n (u :: u64) = 0 \<longleftrightarrow> unat u < 2 ^ n"
proof -
  have "drop_bit n u = 0 \<longleftrightarrow> unat (drop_bit n u) = 0" by (rule unat_eq_zero [symmetric])
  then show ?thesis by (simp only: unat_drop div_eq_0_iff) simp
qed

lemma push_one: "unat (u :: u64) < 2 ^ 63 \<Longrightarrow> unat (push_bit 1 u) = 2 * unat u"
  unfolding unat_push by simp

text \<open>The three fields make up the number.\<close>

lemma split_at: "f < n \<Longrightarrow> (a * n + f) div n = a \<and> (a * n + f) mod n = (f :: nat)"
  by simp

lemma nat_fields: "(q :: nat) = q div 2 ^ 63 * 2 ^ 63 + q div 2 ^ 52 mod 2 ^ 11 * 2 ^ 52 + q mod 2 ^ 52"
proof -
  define a b c f where "a = q div 2 ^ 52" and "b = a div 2 ^ 11" and "c = a mod 2 ^ 11" and "f = q mod 2 ^ 52"
  have top: "q div 2 ^ 63 = b" by (simp add: a_def b_def div_mult2_eq [symmetric])
  have "b * 2 ^ 11 + c = a" unfolding b_def c_def by (rule div_mult_mod_eq)
  moreover have "a * 2 ^ 52 + f = q" unfolding a_def f_def by (rule div_mult_mod_eq)
  ultimately have "q = b * 2 ^ 63 + c * 2 ^ 52 + f" by simp
  then show ?thesis unfolding top a_def [symmetric] c_def [symmetric] f_def [symmetric] .
qed

lemma fields: "unat (u :: u64) = unat (sign u) * 2 ^ 63 + exponent u * 2 ^ 52 + fraction u" "fraction u < 2 ^ 52"
  "exponent u < 2 ^ 11" "unat (sign u) \<le> 1"
proof -
  show "fraction u < 2 ^ 52" "exponent u < 2 ^ 11" by (simp_all add: fraction_def exponent_nat)
  have s: "unat (sign u) = unat u div 2 ^ 63" unfolding sign_def by (rule unat_drop)
  then show "unat (sign u) \<le> 1" using unat_bound [of u] by simp
  show "unat u = unat (sign u) * 2 ^ 63 + exponent u * 2 ^ 52 + fraction u"
    unfolding s exponent_nat fraction_def by (rule nat_fields)
qed

lemma fields_unique:
  assumes "unat (u :: u64) = s * 2 ^ 63 + e * 2 ^ 52 + f" and "f < 2 ^ 52" "e < 2 ^ 11"
  shows "unat (sign u) = s" "exponent u = e" "fraction u = f"
proof -
  have q: "unat u = (s * 2 ^ 11 + e) * 2 ^ 52 + f" using assms(1) by simp
  have d: "unat u div 2 ^ 52 = s * 2 ^ 11 + e" "unat u mod 2 ^ 52 = f"
    using split_at [OF assms(2), of "s * 2 ^ 11 + e"] unfolding q by blast+
  show "fraction u = f" by (simp only: fraction_def d)
  show "exponent u = e" unfolding exponent_nat d using assms(3) by simp
  have "unat u div 2 ^ 63 = unat u div 2 ^ 52 div 2 ^ 11" by (simp add: div_mult2_eq [symmetric])
  then show "unat (sign u) = s" unfolding sign_def unat_drop d using assms(3) by simp
qed

section \<open>The loops\<close>

lemma shift_exists:
  assumes "0 < n" and "(n :: nat) < 2 ^ Suc b"
  shows "\<exists>k. 2 ^ b \<le> n * 2 ^ k \<and> n * 2 ^ k < 2 ^ Suc b"
proof -
  define k where "k = (LEAST k. 2 ^ b \<le> n * 2 ^ k)"
  have "2 ^ b \<le> n * 2 ^ b" using assms(1) by simp
  then have k: "2 ^ b \<le> n * 2 ^ k" unfolding k_def by (rule LeastI)
  have "n * 2 ^ k < 2 ^ Suc b"
  proof (cases k)
    case 0
    then show ?thesis using assms(2) by simp
  next
    case (Suc i)
    then have "\<not> 2 ^ b \<le> n * 2 ^ i" unfolding k_def by (intro not_less_Least) simp
    then show ?thesis using Suc by simp
  qed
  with k show ?thesis by blast
qed

lemma count_down_result:
  "2 ^ 63 \<le> unat i * 2 ^ k \<Longrightarrow> unat i * 2 ^ k < 2 ^ 64 \<Longrightarrow> count_down e i = Some (e - int k)"
proof (induction k arbitrary: e i)
  case 0
  then have "drop_bit 63 i \<noteq> 0" unfolding drop_zero_iff by simp
  then show ?case by (subst count_down.simps) simp
next
  case (Suc k)
  have "unat i \<le> unat i * 2 ^ k" by simp
  moreover have "unat i * 2 ^ k < 2 ^ 63" using Suc.prems(2) by simp
  ultimately have small: "unat i < 2 ^ 63" by (rule le_less_trans)
  then have "drop_bit 63 i = 0" unfolding drop_zero_iff .
  moreover have "count_down (e - 1) (push_bit 1 i) = Some (e - 1 - int k)"
    using Suc.prems push_one [OF small] by (intro Suc.IH) simp_all
  ultimately show ?case by (subst count_down.simps) simp
qed

lemma shift_up_result:
  "2 ^ 52 \<le> unat u * 2 ^ k \<Longrightarrow> unat u * 2 ^ k < 2 ^ 53 \<Longrightarrow>
   \<exists>v. shift_up e u = Some (e - int k, v) \<and> unat v = unat u * 2 ^ k"
proof (induction k arbitrary: e u)
  case 0
  then have "drop_bit 52 u \<noteq> 0" unfolding drop_zero_iff by simp
  then show ?case by (subst shift_up.simps) simp
next
  case (Suc k)
  have "unat u \<le> unat u * 2 ^ k" by simp
  moreover have "unat u * 2 ^ k < 2 ^ 52" using Suc.prems(2) by simp
  ultimately have small: "unat u < 2 ^ 52" by (rule le_less_trans)
  then have "drop_bit 52 u = 0" unfolding drop_zero_iff .
  moreover have "unat (push_bit 1 u) = 2 * unat u" using small by (intro push_one) simp
  then have "\<exists>v. shift_up (e - 1) (push_bit 1 u) = Some (e - 1 - int k, v) \<and> unat v = unat (push_bit 1 u) * 2 ^ k"
    using Suc.prems by (intro Suc.IH) simp_all
  ultimately show ?case using \<open>unat (push_bit 1 u) = 2 * unat u\<close> by (subst shift_up.simps) (auto simp: algebra_simps)
qed

text \<open>The subtraction of words decides the comparison, since both are far below the top bit.\<close>

lemma subtract_test:
  assumes "unat (u :: u64) < 2 ^ 54" "unat v < 2 ^ 54"
  shows "drop_bit 63 (u - v) = 0 \<longleftrightarrow> unat v \<le> unat u" and "unat v \<le> unat u \<Longrightarrow> unat (u - v) = unat u - unat v"
proof -
  show diff: "unat v \<le> unat u \<Longrightarrow> unat (u - v) = unat u - unat v"
    by (simp add: unat_sub word_le_nat_alt)
  have "unat (u - v) \<ge> 2 ^ 63" if "\<not> unat v \<le> unat u"
  proof -
    have "unat (u - v) = 2 ^ 64 + unat u - unat v"
      using that unat_sub_if' [of u v] by simp
    then show ?thesis using assms that by simp
  qed
  then show "drop_bit 63 (u - v) = 0 \<longleftrightarrow> unat v \<le> unat u"
    unfolding drop_zero_iff using diff assms by (cases "unat v \<le> unat u") auto
qed

lemma divide_loop_result:
  assumes "2 ^ 52 \<le> unat uy" "unat uy < 2 ^ 53" "0 < unat uxi" "unat uxi < 2 * unat uy"
  shows "case divide_loop ex ey uxi uy of
      None \<Rightarrow> (unat uxi * 2 ^ nat (ex - ey)) mod unat uy = 0
    | Some v \<Rightarrow> 0 < unat v \<and> unat v < 2 * unat uy \<and> unat v mod unat uy = (unat uxi * 2 ^ nat (ex - ey)) mod unat uy"
  using assms
proof (induction ex ey uxi uy rule: divide_loop.induct)
  case (1 ex ey uxi uy)
  show ?case
  proof (cases "ex > ey")
    case False
    then show ?thesis using "1.prems" by (subst divide_loop.simps) simp
  next
    case True
    define d where "d = nat (ex - 1 - ey)"
    have d: "nat (ex - ey) = Suc d" using True by (simp add: d_def)
    have bounds: "unat uxi < 2 ^ 54" "unat uy < 2 ^ 54" using "1.prems" by simp_all
    note test = subtract_test [OF bounds]
    show ?thesis
    proof (cases "unat uy \<le> unat uxi")
      case ge: True
      then have top: "drop_bit 63 (uxi - uy) = 0" using test(1) by simp
      show ?thesis
      proof (cases "uxi - uy = 0")
        case eq: True
        then have "unat uxi = unat uy" by simp
        then show ?thesis using True top eq by (subst divide_loop.simps) simp
      next
        case ne: False
        have i: "unat (uxi - uy) = unat uxi - unat uy" by (rule test(2) [OF ge])
        have p: "unat (push_bit 1 (uxi - uy)) = 2 * (unat uxi - unat uy)"
          using push_one [of "uxi - uy"] i "1.prems" by simp
        have "0 < unat (uxi - uy)" using ne by (simp add: unat_gt_0)
        then have "unat uy < unat uxi" using i by simp
        then have IH: "case divide_loop (ex - 1) ey (push_bit 1 (uxi - uy)) uy of
            None \<Rightarrow> (unat (push_bit 1 (uxi - uy)) * 2 ^ nat (ex - 1 - ey)) mod unat uy = 0
          | Some v \<Rightarrow> 0 < unat v \<and> unat v < 2 * unat uy \<and>
              unat v mod unat uy = (unat (push_bit 1 (uxi - uy)) * 2 ^ nat (ex - 1 - ey)) mod unat uy"
          using "1.prems" True top ne p by (intro "1.IH"(1)) simp_all
        have run: "divide_loop ex ey uxi uy = divide_loop (ex - 1) ey (push_bit 1 (uxi - uy)) uy"
          using True top ne by (subst divide_loop.simps) (simp only: Let_def if_True if_False simp_thms)
        have same: "(2 * (unat uxi - unat uy) * 2 ^ d) mod unat uy = (unat uxi * 2 ^ Suc d) mod unat uy"
        proof -
          have "unat uxi * 2 ^ Suc d = 2 * (unat uxi - unat uy) * 2 ^ d + 2 * 2 ^ d * unat uy"
            using ge by (simp add: algebra_simps diff_mult_distrib2)
          then show ?thesis by simp
        qed
        show ?thesis using IH unfolding run p d d_def [symmetric] same .
      qed
    next
      case lt: False
      then have top: "drop_bit 63 (uxi - uy) \<noteq> 0" using test(1) by simp
      have p: "unat (push_bit 1 uxi) = 2 * unat uxi" using "1.prems" by (intro push_one) simp
      have IH: "case divide_loop (ex - 1) ey (push_bit 1 uxi) uy of
            None \<Rightarrow> (unat (push_bit 1 uxi) * 2 ^ nat (ex - 1 - ey)) mod unat uy = 0
          | Some v \<Rightarrow> 0 < unat v \<and> unat v < 2 * unat uy \<and>
              unat v mod unat uy = (unat (push_bit 1 uxi) * 2 ^ nat (ex - 1 - ey)) mod unat uy"
        using "1.prems" True top p lt by (intro "1.IH"(2)) simp_all
      have run: "divide_loop ex ey uxi uy = divide_loop (ex - 1) ey (push_bit 1 uxi) uy"
        using True top by (subst divide_loop.simps) (simp only: Let_def if_True if_False simp_thms)
      have same: "2 * unat uxi * 2 ^ d = unat uxi * 2 ^ Suc d" by simp
      show ?thesis using IH unfolding run p d d_def [symmetric] same .
    qed
  qed
qed

lemma divide_last_result:
  assumes "unat uy < 2 ^ 53" "0 < unat v" "unat v < 2 * unat uy"
  shows "case divide_last v uy of None \<Rightarrow> unat v mod unat uy = 0
    | Some w \<Rightarrow> unat w = unat v mod unat uy \<and> 0 < unat w"
proof -
  have bounds: "unat v < 2 ^ 54" "unat uy < 2 ^ 54" using assms by simp_all
  note test = subtract_test [OF bounds]
  show ?thesis
  proof (cases "unat uy \<le> unat v")
    case True
    then have "unat v mod unat uy = unat v - unat uy" using assms by (simp add: mod_if)
    moreover have "unat (v - uy) = unat v - unat uy" by (rule test(2) [OF True])
    moreover have "v - uy = 0 \<longleftrightarrow> unat (v - uy) = 0" by (rule unat_eq_zero [symmetric])
    ultimately show ?thesis using test(1) True by (simp add: divide_last_def Let_def del: unat_eq_zero)
  next
    case False
    then show ?thesis using test(1) assms by (simp add: divide_last_def Let_def)
  qed
qed

section \<open>The significands\<close>

text \<open>A positive magnitude is a 53-bit significand and an exponent.\<close>

lemma normalize_bits_result:
  assumes "0 < magnitude u"
  shows "\<exists>e m. normalize_bits u = Some (e, m) \<and> 2 ^ 52 \<le> unat m \<and> unat m < 2 ^ 53 \<and>
    unat m * 2 ^ nat (e + 52) = magnitude u * 2 ^ 53 \<and> -51 \<le> e \<and> e \<le> max 0 (int (exponent u))"
proof (cases "exponent u = 0")
  case True
  have f: "0 < fraction u" "fraction u < 2 ^ 52" using assms True fields(2) by (simp_all add: magnitude_def)
  have u: "unat u = unat (sign u) * 2 ^ 63 + fraction u" using fields(1) [of u] True by simp
  have "\<exists>k. 2 ^ 51 \<le> fraction u * 2 ^ k \<and> fraction u * 2 ^ k < 2 ^ Suc 51" using f by (intro shift_exists) simp_all
  then obtain k where k: "2 ^ 51 \<le> fraction u * 2 ^ k" "fraction u * 2 ^ k < 2 ^ 52" by auto
  have "(2 :: nat) ^ k \<le> fraction u * 2 ^ k" using f(1) by simp
  then have "(2 :: nat) ^ k < 2 ^ 52" using k(2) by (rule le_less_trans)
  then have k51: "k \<le> 51" using power_less_imp_less_exp [of "2 :: nat" k 52] by simp
  have push: "unat (push_bit (Suc n) u) = (fraction u * 2 ^ Suc n) mod 2 ^ 64" for n
  proof -
    have "unat u * 2 ^ Suc n = fraction u * 2 ^ Suc n + (unat (sign u) * 2 ^ n) * 2 ^ 64"
      unfolding u by (simp add: algebra_simps)
    then show ?thesis unfolding unat_push by (simp only: mod_mult_self1)
  qed
  have i: "unat (push_bit 12 u) = fraction u * 2 ^ 12"
    using push [of 11] f(2) by simp
  have count: "count_down 0 (push_bit 12 u) = Some (- int k)"
    using count_down_result [of "push_bit 12 u" k 0] k by (simp add: i)
  have m: "unat (push_bit (Suc k) u) = fraction u * 2 ^ Suc k"
    using push [of k] k(2) by simp
  have Suc: "nat (- (- int k) + 1) = Suc k" by simp
  have run: "normalize_bits u = Some (- int k, push_bit (Suc k) u)"
    by (simp only: normalize_bits_def True if_True simp_thms count option.map Suc)
  have "nat (- int k + 52) + Suc k = 53" using k51 by simp
  then have "fraction u * 2 ^ Suc k * 2 ^ nat (- int k + 52) = magnitude u * 2 ^ 53"
    using True by (simp only: magnitude_def if_True simp_thms mult.assoc power_add [symmetric] add.commute)
  then show ?thesis using run m k k51 by (intro exI [of _ "- int k"] exI [of _ "push_bit (Suc k) u"]) simp
next
  case False
  define m where "m = (u AND drop_bit 12 (-1)) OR push_bit 52 1"
  have mask: "drop_bit 12 (- 1 :: u64) = mask 52" by (simp add: mask_eq_exp_minus_1)
  have "unat (u AND drop_bit 12 (-1)) = fraction u"
    unfolding mask take_bit_eq_mask [symmetric] fraction_def take_bit_eq_mod [of 52 "unat u", symmetric] by (rule unsigned_take_bit_eq)
  moreover have "m = (u AND drop_bit 12 (-1)) + push_bit 52 1"
    unfolding m_def by (rule disjunctive_add [symmetric]) (simp only: mask bit_and_iff bit_mask_iff bit_push_bit_iff, auto)
  ultimately have m: "unat m = fraction u + 2 ^ 52"
    using fields(2) [of u] by (simp add: unat_word_ariths(1) del: push_bit_of_1) simp
  have run: "normalize_bits u = Some (int (exponent u), m)" using False by (simp add: normalize_bits_def m_def)
  have "nat (int (exponent u) + 52) = (exponent u - 1) + 53" using False by simp
  then have "unat m * 2 ^ nat (int (exponent u) + 52) = magnitude u * 2 ^ 53"
    using False by (simp only: m magnitude_def if_False power_add mult.assoc add.commute)
  then show ?thesis using run m fields(2) [of u] by (intro exI [of _ "int (exponent u)"] exI [of _ m]) simp
qed

text \<open>Putting the result together again.\<close>

lemma unat_fields3:
  assumes "f < 2 ^ 52" "e < 2 ^ 11"
  shows "unat ((of_nat f OR push_bit 52 (of_nat e)) OR push_bit 63 (sign x)) = unat (sign x) * 2 ^ 63 + e * 2 ^ 52 + f"
proof -
  have f: "unat (of_nat f :: u64) = f" using assms(1) by (simp add: unsigned_of_nat take_bit_eq_mod)
  have e: "unat (push_bit 52 (of_nat e :: u64)) = e * 2 ^ 52"
    unfolding unat_push using assms(2) by (simp add: unsigned_of_nat take_bit_eq_mod)
  have s: "unat (push_bit 63 (sign x)) = unat (sign x) * 2 ^ 63"
    unfolding unat_push using fields(4) [of x] by simp
  have "(of_nat f :: u64) = take_bit 52 (of_nat f)" "(of_nat e :: u64) = take_bit 11 (of_nat e)"
    using assms by (simp_all only: take_bit_of_nat take_bit_nat_eq_self)
  then have low: "bit (of_nat f :: u64) n \<Longrightarrow> n < 52" "bit (of_nat e :: u64) n \<Longrightarrow> n < 11" for n
    by (metis bit_take_bit_iff)+
  have "of_nat f OR push_bit 52 (of_nat e) = (of_nat f :: u64) + push_bit 52 (of_nat e)"
    by (intro disjunctive_add [symmetric]) (auto simp: bit_push_bit_iff dest: low(1))
  moreover have "(of_nat f OR push_bit 52 (of_nat e)) OR push_bit 63 (sign x) = (of_nat f OR push_bit 52 (of_nat e)) + push_bit 63 (sign x)"
    using low by (intro disjunctive_add [symmetric]) (fastforce simp: bit_push_bit_iff bit_or_iff)
  ultimately have "(of_nat f OR push_bit 52 (of_nat e)) OR push_bit 63 (sign x) = of_nat f + push_bit 52 (of_nat e) + push_bit 63 (sign x)"
    by simp
  then show ?thesis
    using assms fields(4) [of x] by (simp only: unat_word_ariths(1) f e s) simp
qed

lemma scale_result:
  assumes u: "2 ^ 52 \<le> unat u" "unat u < 2 ^ 53" and e: "e < 0x7FF"
  shows "sign (scale e u OR push_bit 63 (sign x)) = sign x \<and> exponent (scale e u OR push_bit 63 (sign x)) = nat e \<and>
    magnitude (scale e u OR push_bit 63 (sign x)) =
      (if e > 0 then unat u * 2 ^ (nat e - 1) else unat u div 2 ^ nat (- e + 1))"
proof -
  define f where "f = (if e > 0 then unat u - 2 ^ 52 else unat u div 2 ^ nat (- e + 1))"
  have f: "f < 2 ^ 52"
  proof (cases "e > 0")
    case True
    then show ?thesis using u by (simp add: f_def)
  next
    case False
    then have "(2 :: nat) ^ 1 \<le> 2 ^ nat (- e + 1)" by (intro power_increasing) simp_all
    then have "unat u div 2 ^ nat (- e + 1) \<le> unat u div 2" using div_le_mono2 [of 2 "2 ^ nat (- e + 1)" "unat u"] by simp
    then show ?thesis using False u(2) by (simp add: f_def)
  qed
  have ne: "nat e < 2 ^ 11" using e by simp
  have scale: "scale e u = of_nat f OR push_bit 52 (of_nat (nat e))"
  proof (cases "e > 0")
    case True
    have "unat (push_bit 52 1 :: u64) = 2 ^ 52" by simp
    then have "unat (u - push_bit 52 1) = unat u - 2 ^ 52" using u(1) by (subst unat_sub) (simp_all add: word_le_nat_alt)
    moreover have "of_nat (unat (u - push_bit 52 1)) = u - push_bit 52 1" by simp
    ultimately have "u - push_bit 52 1 = of_nat f" using True by (simp only: f_def if_True)
    moreover have "(of_int e :: u64) = of_nat (nat e)" using True by simp
    ultimately show ?thesis using True by (simp only: scale_def if_True)
  next
    case False
    have "of_nat (unat (drop_bit (nat (- e + 1)) u)) = drop_bit (nat (- e + 1)) u" by simp
    then have "drop_bit (nat (- e + 1)) u = of_nat f" using False by (simp only: unat_drop f_def if_False)
    moreover have "push_bit 52 (of_nat (nat e) :: u64) = 0" using False by simp
    ultimately show ?thesis using False by (simp only: scale_def if_False or.right_neutral)
  qed
  note result = fields_unique [OF unat_fields3 [OF f ne, of x] f ne, folded scale]
  show ?thesis
  proof (intro conjI)
    show "sign (scale e u OR push_bit 63 (sign x)) = sign x" using result(1) by (simp only: word_unat_eq_iff)
    show "exponent (scale e u OR push_bit 63 (sign x)) = nat e" by (rule result(2))
    show "magnitude (scale e u OR push_bit 63 (sign x)) =
      (if e > 0 then unat u * 2 ^ (nat e - 1) else unat u div 2 ^ nat (- e + 1))"
      unfolding magnitude_def result using u by (simp add: f_def)
  qed
qed

section \<open>The order of the magnitudes\<close>

lemma magnitude_less:
  assumes "exponent x * 2 ^ 52 + fraction x < exponent y * 2 ^ 52 + fraction y"
  shows "magnitude x < magnitude y"
proof (cases "exponent x = exponent y")
  case True
  then show ?thesis using assms by (auto simp: magnitude_def)
next
  case False
  have less: "exponent x < exponent y"
  proof (rule ccontr)
    assume "\<not> exponent x < exponent y"
    then have "(exponent y + 1) * 2 ^ 52 \<le> exponent x * 2 ^ 52" using False by (intro mult_le_mono1) simp
    then show False using assms fields(2) [of y] by simp
  qed
  then obtain d where d: "exponent y - 1 = d" "exponent x \<le> d" "exponent y \<noteq> 0" by auto
  have "magnitude x < 2 ^ 52 * 2 ^ d"
  proof (cases "exponent x")
    case 0
    have "(2 :: nat) ^ 52 * 1 \<le> 2 ^ 52 * 2 ^ d" by (rule mult_le_mono2) simp
    then have "fraction x < 2 ^ 52 * 2 ^ d" using fields(2) [of x] by linarith
    then show ?thesis using 0 by (simp add: magnitude_def)
  next
    case (Suc e)
    have "magnitude x < 2 ^ 53 * 2 ^ e" using Suc fields(2) [of x] by (simp add: magnitude_def)
    also have "\<dots> = 2 ^ 52 * 2 ^ Suc e" by simp
    also have "\<dots> \<le> 2 ^ 52 * 2 ^ d" using d(2) Suc by (intro mult_le_mono2 power_increasing) simp_all
    finally show ?thesis .
  qed
  also have "\<dots> \<le> magnitude y" using d by (simp add: magnitude_def)
  finally show ?thesis .
qed

lemma push_one_fields: "unat (push_bit 1 u) = 2 * (exponent u * 2 ^ 52 + fraction u)"
proof -
  have "unat u * 2 ^ 1 = 2 * (exponent u * 2 ^ 52 + fraction u) + unat (sign u) * 2 ^ 64"
    by (subst fields(1)) (simp add: algebra_simps)
  moreover have "2 * (exponent u * 2 ^ 52 + fraction u) < 2 ^ 64" using fields(2,3) [of u] by simp
  ultimately show ?thesis unfolding unat_push by simp
qed

lemma magnitude_order:
  "push_bit 1 x = push_bit 1 y \<longleftrightarrow> magnitude x = magnitude y" "push_bit 1 x \<le> push_bit 1 y \<longleftrightarrow> magnitude x \<le> magnitude y"
  "push_bit 1 y = 0 \<longleftrightarrow> magnitude y = 0"
proof -
  let ?k = "\<lambda>u. exponent u * 2 ^ 52 + fraction u"
  have mono: "?k x < ?k y \<Longrightarrow> magnitude x < magnitude y" for x y by (rule magnitude_less)
  have same: "?k x = ?k y \<Longrightarrow> magnitude x = magnitude y" for x y
  proof -
    assume "?k x = ?k y"
    then have "exponent x = exponent y" "fraction x = fraction y"
      using split_at [OF fields(2) [of x], of "exponent x"] split_at [OF fields(2) [of y], of "exponent y"] by metis+
    then show ?thesis by (simp add: magnitude_def)
  qed
  have word: "push_bit 1 x = push_bit 1 y \<longleftrightarrow> ?k x = ?k y" "push_bit 1 x \<le> push_bit 1 y \<longleftrightarrow> ?k x \<le> ?k y" for x y
    by (simp_all only: word_unat_eq_iff word_le_nat_alt push_one_fields
        nat_mult_eq_cancel_disj nat_mult_le_cancel_disj) simp_all
  show "push_bit 1 x = push_bit 1 y \<longleftrightarrow> magnitude x = magnitude y" "push_bit 1 x \<le> push_bit 1 y \<longleftrightarrow> magnitude x \<le> magnitude y"
    unfolding word using mono [of x y] mono [of y x] same [of x y] by linarith+
  have "push_bit 1 y = 0 \<longleftrightarrow> unat (push_bit 1 y) = 0" by (rule unat_eq_zero [symmetric])
  then show "push_bit 1 y = 0 \<longleftrightarrow> magnitude y = 0"
    unfolding push_one_fields by (auto simp: magnitude_def)
qed

section \<open>The remainder\<close>

lemma normalized_order:
  assumes "2 ^ 52 \<le> unat my" "unat mx < 2 ^ 53" "-51 \<le> ex" "-51 \<le> ey"
    and "unat mx * 2 ^ nat (ex + 52) = X * 2 ^ 53" "unat my * 2 ^ nat (ey + 52) = Y * 2 ^ 53" and "Y < X"
  shows "ey \<le> ex"
proof (rule ccontr)
  assume "\<not> ey \<le> ex"
  then have "Suc (nat (ex + 52)) \<le> nat (ey + 52)" using assms(3) by simp
  then have "(2 :: nat) ^ Suc (nat (ex + 52)) \<le> 2 ^ nat (ey + 52)" by (rule power_increasing) simp
  then have "2 ^ 52 * 2 ^ Suc (nat (ex + 52)) \<le> unat my * 2 ^ nat (ey + 52)" using assms(1) by (intro mult_le_mono)
  moreover have "unat mx * 2 ^ nat (ex + 52) < 2 ^ 53 * 2 ^ nat (ex + 52)" using assms(2) by (rule mult_less_mono1) simp
  moreover have "(2 :: nat) ^ 53 * 2 ^ nat (ex + 52) = 2 ^ 52 * 2 ^ Suc (nat (ex + 52))" by simp
  ultimately have "X * 2 ^ 53 < Y * 2 ^ 53" unfolding assms(5,6) by linarith
  then show False using assms(7) by simp
qed

text \<open>Scaling the remainder of the significands gives the remainder of the magnitudes, exactly.\<close>

lemma rescaled:
  assumes "(w :: nat) * 2 ^ nat (ey + 52) = R * 2 ^ 53" and "-51 \<le> ey"
  shows "(if ey - int j > 0 then w * 2 ^ j * 2 ^ (nat (ey - int j) - 1) else w * 2 ^ j div 2 ^ nat (- (ey - int j) + 1)) = R"
proof (cases "ey - int j > 0")
  case True
  have "nat (ey + 52) = (j + (nat (ey - int j) - 1)) + 53" using True by simp
  then have "w * 2 ^ (j + (nat (ey - int j) - 1)) * 2 ^ 53 = R * 2 ^ 53"
    using assms(1) by (simp only: power_add mult.assoc)
  then have "w * 2 ^ (j + (nat (ey - int j) - 1)) = R" by (simp only: mult_cancel2) simp
  then show ?thesis using True by (simp only: if_True power_add mult.assoc)
next
  case False
  have "nat (- (ey - int j) + 1) + nat (ey + 52) = 53 + j" using False assms(2) by simp
  then have "R * 2 ^ nat (- (ey - int j) + 1) * 2 ^ nat (ey + 52) = R * 2 ^ 53 * 2 ^ j"
    by (simp only: mult.assoc power_add [symmetric])
  also have "\<dots> = w * 2 ^ j * 2 ^ nat (ey + 52)" unfolding assms(1) [symmetric] by (simp only: mult.assoc mult.commute mult.left_commute)
  finally have "w * 2 ^ j = R * 2 ^ nat (- (ey - int j) + 1)" by simp
  then show ?thesis using False by simp
qed

lemma fmod_result:
  assumes x: "is_finite x" and y: "is_finite y" "magnitude y \<noteq> 0" and zero: "fmul 0 x = push_bit 63 (sign x)"
  shows "\<exists>r. il2c_fmod fmul fdiv x y = Some r \<and> magnitude r = magnitude x mod magnitude y \<and> sign r = sign x \<and> is_finite r"
proof -
  let ?X = "magnitude x" and ?Y = "magnitude y"
  have zero': "magnitude (push_bit 63 (sign x)) = 0 \<and> sign (push_bit 63 (sign x)) = sign x \<and> is_finite (push_bit 63 (sign x))"
  proof -
    have "unat (push_bit 63 (sign x)) = unat (sign x) * 2 ^ 63 + 0 * 2 ^ 52 + 0"
      unfolding unat_push using fields(4) [of x] by simp
    from fields_unique [OF this] show ?thesis by (simp add: magnitude_def is_finite_def word_unat_eq_iff)
  qed
  have guard: "\<not> (push_bit 1 y = 0 \<or> exponent x = 0x7FF)"
    using x y(2) magnitude_order(3) [of y] by (simp only: is_finite_def not_False_eq_True de_Morgan_disj simp_thms)
  show ?thesis
  proof (cases "?X \<le> ?Y")
    case True
    then have run: "il2c_fmod fmul fdiv x y = Some (if ?X = ?Y then push_bit 63 (sign x) else x)"
      using guard by (simp only: il2c_fmod_def magnitude_order(1,2) zero if_False if_True)
    then show ?thesis using zero' x True by (intro exI [of _ "if ?X = ?Y then push_bit 63 (sign x) else x"]) simp
  next
    case False
    obtain ex mx where nx: "normalize_bits x = Some (ex, mx)" "2 ^ 52 \<le> unat mx" "unat mx < 2 ^ 53"
        "unat mx * 2 ^ nat (ex + 52) = ?X * 2 ^ 53" "-51 \<le> ex" "ex \<le> max 0 (int (exponent x))"
      using normalize_bits_result [of x] False by auto
    obtain ey my where ny: "normalize_bits y = Some (ey, my)" "2 ^ 52 \<le> unat my" "unat my < 2 ^ 53"
        "unat my * 2 ^ nat (ey + 52) = ?Y * 2 ^ 53" "-51 \<le> ey" "ey \<le> max 0 (int (exponent y))"
      using normalize_bits_result [of y] y(2) by auto
    have le: "ey \<le> ex" using False by (intro normalized_order [OF ny(2) nx(3) nx(5) ny(5) nx(4) ny(4)]) simp
    define d where "d = nat (ex - ey)"
    define W where "W = (unat mx * 2 ^ d) mod unat my"
    have "nat (ex + 52) = d + nat (ey + 52)" using le ny(5) by (simp add: d_def nat_add_distrib [symmetric])
    then have mx: "unat mx * 2 ^ d * 2 ^ nat (ey + 52) = ?X * 2 ^ 53" using nx(4) by (simp only: power_add mult.assoc)
    have W: "W * 2 ^ nat (ey + 52) = (?X mod ?Y) * 2 ^ 53"
      unfolding W_def mult_mod_left mx ny(4) ..
    have loop: "case divide_loop ex ey mx my of None \<Rightarrow> W = 0
      | Some v \<Rightarrow> 0 < unat v \<and> unat v < 2 * unat my \<and> unat v mod unat my = W"
      unfolding W_def d_def using nx(2,3) ny(2,3) by (intro divide_loop_result) simp_all
    have last: "(if ex > ey then ey else ex) = ey" using le by auto
    have run: "il2c_fmod fmul fdiv x y =
      (case divide_loop ex ey mx my of None \<Rightarrow> Some (push_bit 63 (sign x))
       | Some v \<Rightarrow> (case divide_last v my of None \<Rightarrow> Some (push_bit 63 (sign x))
         | Some w \<Rightarrow> map_option (\<lambda>(e, u). scale e u OR push_bit 63 (sign x)) (shift_up ey w)))"
      using guard False by (simp only: il2c_fmod_def magnitude_order(1,2) zero if_False nx(1) ny(1) bind.bind_lunit prod.case last)
    show ?thesis
    proof (cases "W = 0")
      case True
      then have "?X mod ?Y = 0" using W by simp
      moreover have "il2c_fmod fmul fdiv x y = Some (push_bit 63 (sign x))"
      proof (cases "divide_loop ex ey mx my")
        case None
        then show ?thesis using run by simp
      next
        case (Some v)
        then have v: "0 < unat v" "unat v < 2 * unat my" "unat v mod unat my = 0" using loop True by simp_all
        then have "divide_last v my = None" using divide_last_result [OF ny(3) v(1,2)] by (auto split: option.splits)
        then show ?thesis using run Some by simp
      qed
      ultimately show ?thesis using zero' by simp
    next
      case nz: False
      then obtain v where v: "divide_loop ex ey mx my = Some v" "0 < unat v" "unat v < 2 * unat my" "unat v mod unat my = W"
        using loop by (auto split: option.splits)
      obtain w where w: "divide_last v my = Some w" "unat w = W"
        using divide_last_result [OF ny(3) v(2,3)] v(4) nz by (auto split: option.splits)
      have "0 < unat my" using ny(2) by simp
      then have "W < unat my" unfolding W_def by (rule mod_less_divisor)
      then have "W < 2 ^ 53" using ny(3) by simp
      then have "\<exists>k. 2 ^ 52 \<le> W * 2 ^ k \<and> W * 2 ^ k < 2 ^ Suc 52" using nz by (intro shift_exists) simp_all
      then obtain j where j: "2 ^ 52 \<le> W * 2 ^ j" "W * 2 ^ j < 2 ^ 53" by auto
      from shift_up_result [of w j ey] obtain u where u: "shift_up ey w = Some (ey - int j, u)" "unat u = W * 2 ^ j"
        using j w(2) by auto
      have e: "ey - int j < 0x7FF" using ny(6) y(1) fields(3) [of y] by (simp add: is_finite_def)
      have "2 ^ 52 \<le> unat u" "unat u < 2 ^ 53" using j u(2) by simp_all
      note scaled = scale_result [OF this e, of x]
      have "magnitude (scale (ey - int j) u OR push_bit 63 (sign x)) = ?X mod ?Y"
        using scaled rescaled [OF W ny(5), of j] unfolding u(2) by metis
      moreover have "sign (scale (ey - int j) u OR push_bit 63 (sign x)) = sign x" using scaled by blast
      moreover have "is_finite (scale (ey - int j) u OR push_bit 63 (sign x))"
        using scaled e by (simp add: is_finite_def)
      ultimately show ?thesis using run v(1) w(1) u(1) by simp
    qed
  qed
qed

section \<open>Properties\<close>

text \<open>
  C38: the remainder of two finite doubles is exact.  For every finite dividend and every finite
  divisor other than 0, subnormal numbers included, \<open>il2c_fmod\<close> returns, and the result has
  the sign of the dividend and exactly the remainder of the magnitudes; its loops all end.
  Of the arithmetic of the C implementation only \<open>0 * x\<close> is used, a zero with the sign of \<open>x\<close>.
\<close>

theorem fmod_exact:
  assumes "is_finite x" and "is_finite y" and "magnitude y \<noteq> 0"
    and "\<forall>u. is_finite u \<longrightarrow> fmul 0 u = push_bit 63 (sign u)"
  shows "\<exists>r. il2c_fmod fmul fdiv x y = Some r \<and> sign r = sign x \<and> is_finite r \<and>
    magnitude r < magnitude y \<and> (\<exists>q. magnitude x = q * magnitude y + magnitude r)"
proof -
  obtain r where r: "il2c_fmod fmul fdiv x y = Some r" "magnitude r = magnitude x mod magnitude y" "sign r = sign x" "is_finite r"
    using fmod_result [OF assms(1-3)] assms(1,4) by blast
  have "magnitude x = magnitude x div magnitude y * magnitude y + magnitude r" unfolding r(2) by simp
  then have "\<exists>q. magnitude x = q * magnitude y + magnitude r" ..
  moreover have "magnitude r < magnitude y" using assms(3) unfolding r(2) by simp
  ultimately show ?thesis using r(1,3,4) by blast
qed

text \<open>5.5 modulo 2 and the smallest subnormal number modulo the largest double.\<close>

definition zero_times :: "u64 \<Rightarrow> u64 \<Rightarrow> u64" where "zero_times a b = push_bit 63 (sign b)"

lemma fmod_exact_witness:
  "\<exists>r. il2c_fmod zero_times zero_times 0x4016000000000000 0x4000000000000000 = Some r \<and> magnitude r < 2 ^ 1075"
proof -
  have "exponent 0x4016000000000000 = 1025" "exponent 0x4000000000000000 = 1024" "fraction 0x4000000000000000 = 0"
    by (simp_all add: exponent_def fraction_def)
  then have "is_finite 0x4016000000000000" "is_finite 0x4000000000000000" "magnitude 0x4000000000000000 = 2 ^ 52 * 2 ^ 1023"
    by (simp_all only: is_finite_def magnitude_def) simp_all
  moreover have "(2 :: nat) ^ 52 * 2 ^ 1023 = 2 ^ 1075" by (simp only: power_add [symmetric]) simp
  ultimately show ?thesis
    using fmod_exact [of "0x4016000000000000" "0x4000000000000000" zero_times zero_times] by (auto simp: zero_times_def)
qed

text \<open>
  The special operands.  An infinite or undefined dividend and a zero divisor give the
  undefined quotient of the two products, and an infinite divisor gives the dividend, as they
  should.  The test for an undefined divisor is commented out in the code: such a divisor also gives
  the dividend, where the result should be undefined.
\<close>

theorem fmod_special:
  assumes "\<forall>a b. magnitude b = 0 \<or> \<not> is_finite a \<longrightarrow> is_nan (fdiv (fmul a b) (fmul a b))"
  shows "(\<not> is_finite x \<or> magnitude y = 0 \<longrightarrow> (\<exists>r. il2c_fmod fmul fdiv x y = Some r \<and> is_nan r)) \<and>
    (is_finite x \<and> \<not> is_finite y \<longrightarrow> il2c_fmod fmul fdiv x y = Some x) \<and>
    (is_finite x \<and> is_nan y \<longrightarrow> (\<exists>r. il2c_fmod fmul fdiv x y = Some r \<and> \<not> is_nan r))"
proof -
  have first: "\<exists>r. il2c_fmod fmul fdiv x y = Some r \<and> is_nan r" if "\<not> is_finite x \<or> magnitude y = 0"
  proof -
    have "push_bit 1 y = 0 \<or> exponent x = 0x7FF" using that magnitude_order(3) [of y] by (auto simp only: is_finite_def)
    then have "il2c_fmod fmul fdiv x y = Some (fdiv (fmul x y) (fmul x y))" by (simp only: il2c_fmod_def if_True)
    then show ?thesis using assms that by blast
  qed
  have second: "il2c_fmod fmul fdiv x y = Some x" if "is_finite x" "\<not> is_finite y"
  proof -
    have "exponent x < 0x7FF" using fields(3) [of x] that(1) by (simp add: is_finite_def)
    then have "magnitude x < magnitude y" using fields(2) [of x] that(2) by (intro magnitude_less) (simp add: is_finite_def)
    then have order: "magnitude x \<le> magnitude y" "magnitude x \<noteq> magnitude y" by simp_all
    have "\<not> (push_bit 1 y = 0 \<or> exponent x = 0x7FF)"
      using that \<open>magnitude x < magnitude y\<close> magnitude_order(3) [of y] by (auto simp only: is_finite_def)
    then show ?thesis using order by (simp only: il2c_fmod_def magnitude_order(1,2) if_False if_True)
  qed
  show ?thesis using first second by (auto simp: is_nan_def is_finite_def)
qed

text \<open>7.0 modulo an undefined number is 7.0.\<close>

lemma fmod_special_witness:
  "il2c_fmod (\<lambda>_ _. 0x7FF8000000000000) (\<lambda>_ _. 0x7FF8000000000000) 0x401C000000000000 0x7FF8000000000000 =
     Some 0x401C000000000000"
proof -
  have "is_nan 0x7FF8000000000000" by (simp add: is_nan_def exponent_def fraction_def)
  moreover have "is_finite 0x401C000000000000" by (simp add: is_finite_def exponent_def)
  moreover have "\<not> is_finite 0x7FF8000000000000" by (simp add: is_finite_def exponent_def)
  ultimately show ?thesis
    using fmod_special [of "\<lambda>_ _. 0x7FF8000000000000" "\<lambda>_ _. 0x7FF8000000000000" "0x401C000000000000" "0x7FF8000000000000"]
    by blast
qed

end
