(* ===== verification/Floating_Point.thy ===== *)
theory Floating_Point
  imports Fmod Primitive_Types
begin

text \<open>
  System.Double and System.Single (src/System/Double.c, Single.c).
  A floating-point number is its bits; the comparisons are those of IEEE 754, written out on
  the bits.  Printing and parsing a number are the C library's and are arguments; what the
  console gets is a list of outputs.
\<close>

section \<open>Comparisons\<close>

text \<open>
  The bits below the sign, as a number with the sign: it orders all numbers but the undefined
  ones, whose bits are above those of infinity.
\<close>

definition float_key :: "'w::len word \<Rightarrow> int" where
  "float_key x = (let n = 2 ^ (LENGTH('w) - 1); k = unat x mod n in if unat x < n then int k else - int k)"

definition float_nan :: "'w::len word \<Rightarrow> 'w word \<Rightarrow> bool" where
  "float_nan infinity x \<longleftrightarrow> \<bar>float_key x\<bar> > float_key infinity"

definition float_eq :: "'w::len word \<Rightarrow> 'w word \<Rightarrow> 'w word \<Rightarrow> bool" where
  "float_eq infinity x y \<longleftrightarrow> \<not> float_nan infinity x \<and> \<not> float_nan infinity y \<and> float_key x = float_key y"

definition float_le :: "'w::len word \<Rightarrow> 'w word \<Rightarrow> 'w word \<Rightarrow> bool" where
  "float_le infinity x y \<longleftrightarrow> \<not> float_nan infinity x \<and> \<not> float_nan infinity y \<and> float_key x \<le> float_key y"

text \<open>What both \<open>TryParse\<close> functions share: the value parsed is stored in every case.\<close>

definition parse_float ::
  "(wchar list \<Rightarrow> ('w::len word \<times> wchar list option \<times> errno) result) \<Rightarrow> 'w word \<Rightarrow> 'w word \<Rightarrow> 'w word \<Rightarrow>
     errno \<Rightarrow> strings \<Rightarrow> addr \<Rightarrow> addr \<Rightarrow> ('w word \<times> bool \<times> errno) result" where
  "parse_float wto infinity least greatest e s str pResult =
     bind_result (parse_text (\<lambda>body base. bind_result (wto body) (\<lambda>(d, p, e). Inr (uint d, p, e))) e s str pResult)
       (\<lambda>(value, ok, e). let d = word_of_int value in
          Inr (d, ok \<and> float_le infinity d greatest \<and> float_le infinity least d, e))"

section \<open>System.Double\<close>

definition System_Double_TYPE :: runtime_type where
  "System_Double_TYPE = primitive_type 0x1D ''System.Double'' IL2C_TYPE_VALUE 8"

definition DBL_INFINITY :: u64 where "DBL_INFINITY = 0x7FF0000000000000"
definition DBL_GREATEST :: u64 where "DBL_GREATEST = 0x7FEFFFFFFFFFFFFF"
definition DBL_LEAST :: u64 where "DBL_LEAST = 0xFFEFFFFFFFFFFFFF"

definition System_Double_ToString :: "(u64 \<Rightarrow> wchar list) \<Rightarrow> bool \<Rightarrow> bytes \<Rightarrow> strings \<Rightarrow> addr \<Rightarrow> addr \<Rightarrow> (addr \<times> strings) result" where
  "System_Double_ToString snwprintf big v s pNew this =
     bind_result (deref big v this) (\<lambda>x :: u64. il2c_new_string s pNew (snwprintf x))"

definition System_Double_GetHashCode :: "bool \<Rightarrow> bytes \<Rightarrow> addr \<Rightarrow> u32 result" where
  "System_Double_GetHashCode big v this = receiver big v this (\<lambda>x :: u64. Inr (ucast x XOR ucast (drop_bit 32 x)))"

definition System_Double_Equals :: "bool \<Rightarrow> bytes \<Rightarrow> addr \<Rightarrow> u64 \<Rightarrow> bool result" where
  "System_Double_Equals big v this obj = receiver big v this (\<lambda>x. Inr (float_eq DBL_INFINITY x obj))"

definition System_Double_Equals_Object :: "machine \<Rightarrow> bool \<Rightarrow> bytes \<Rightarrow> addr \<Rightarrow> addr \<Rightarrow> bool result" where
  "System_Double_Equals_Object m big v this obj = Equals_boxed m big v System_Double_TYPE this obj (float_eq DBL_INFINITY)"

definition System_Double_TryParse ::
  "(wchar list \<Rightarrow> (u64 \<times> wchar list option \<times> errno) result) \<Rightarrow> errno \<Rightarrow> strings \<Rightarrow> addr \<Rightarrow> addr \<Rightarrow> (u64 \<times> bool \<times> errno) result" where
  "System_Double_TryParse wcstod e s str pResult = parse_float wcstod DBL_INFINITY DBL_LEAST DBL_GREATEST e s str pResult"

section \<open>System.Single\<close>

definition System_Single_TYPE :: runtime_type where
  "System_Single_TYPE = primitive_type 0x1E ''System.Single'' IL2C_TYPE_VALUE 4"

definition FLT_INFINITY :: u32 where "FLT_INFINITY = 0x7F800000"
definition FLT_GREATEST :: u32 where "FLT_GREATEST = 0x7F7FFFFF"
definition FLT_LEAST :: u32 where "FLT_LEAST = 0xFF7FFFFF"

definition System_Single_ToString :: "(u32 \<Rightarrow> wchar list) \<Rightarrow> bool \<Rightarrow> bytes \<Rightarrow> strings \<Rightarrow> addr \<Rightarrow> addr \<Rightarrow> (addr \<times> strings) result" where
  "System_Single_ToString snwprintf big v s pNew this =
     bind_result (deref big v this) (\<lambda>x :: u32. il2c_new_string s pNew (snwprintf x))"

definition System_Single_GetHashCode :: "bool \<Rightarrow> bytes \<Rightarrow> addr \<Rightarrow> u32 result" where
  "System_Single_GetHashCode big v this = receiver big v this (\<lambda>x :: u32. Inr x)"

definition System_Single_Equals :: "bool \<Rightarrow> bytes \<Rightarrow> addr \<Rightarrow> u32 \<Rightarrow> bool result" where
  "System_Single_Equals big v this obj = receiver big v this (\<lambda>x. Inr (float_eq FLT_INFINITY x obj))"

definition System_Single_Equals_Object :: "machine \<Rightarrow> bool \<Rightarrow> bytes \<Rightarrow> addr \<Rightarrow> addr \<Rightarrow> bool result" where
  "System_Single_Equals_Object m big v this obj = Equals_boxed m big v System_Single_TYPE this obj (float_eq FLT_INFINITY)"

definition System_Single_TryParse ::
  "(wchar list \<Rightarrow> (u32 \<times> wchar list option \<times> errno) result) \<Rightarrow> errno \<Rightarrow> strings \<Rightarrow> addr \<Rightarrow> addr \<Rightarrow> (u32 \<times> bool \<times> errno) result" where
  "System_Single_TryParse wcstof e s str pResult = parse_float wcstof FLT_INFINITY FLT_LEAST FLT_GREATEST e s str pResult"

section \<open>The order of doubles\<close>

text \<open>The magnitude as a function of the bits below the sign.\<close>

definition magnitude_of :: "nat \<Rightarrow> nat" where
  "magnitude_of k = (if k div 2 ^ 52 = 0 then k mod 2 ^ 52 else (2 ^ 52 + k mod 2 ^ 52) * 2 ^ (k div 2 ^ 52 - 1))"

lemma below_sign: "unat (u :: u64) mod 2 ^ 63 = exponent u * 2 ^ 52 + fraction u"
proof -
  have "exponent u * 2 ^ 52 + fraction u < 2 ^ 63" using fields(2,3) [of u] by simp
  then show ?thesis using split_at [of "exponent u * 2 ^ 52 + fraction u" "2 ^ 63" "unat (sign u)"] fields(1) [of u]
    by (simp only: add.assoc)
qed

lemma magnitude_below_sign: "magnitude u = magnitude_of (unat u mod 2 ^ 63)"
proof -
  show ?thesis using split_at [OF fields(2) [of u], of "exponent u"]
    by (simp only: magnitude_of_def magnitude_def below_sign)
qed

lemma magnitude_step: "magnitude_of k < magnitude_of (Suc k)"
proof -
  define e f where "e = k div 2 ^ 52" and "f = k mod 2 ^ 52"
  have k: "k = e * 2 ^ 52 + f" "f < 2 ^ 52" unfolding e_def f_def by simp_all
  show ?thesis
  proof (cases "Suc f < 2 ^ 52")
    case True
    have "Suc k = e * 2 ^ 52 + Suc f" using k(1) by simp
    then have "Suc k div 2 ^ 52 = e" "Suc k mod 2 ^ 52 = Suc f" using split_at [OF True, of e] by (simp_all only:)
    then show ?thesis unfolding magnitude_of_def e_def [symmetric] f_def [symmetric] by simp
  next
    case False
    then have f: "Suc f = 2 ^ 52" using k(2) by simp
    then have "Suc k = Suc e * 2 ^ 52 + 0" using k(1) by simp
    then have s: "Suc k div 2 ^ 52 = Suc e" "Suc k mod 2 ^ 52 = 0"
      using split_at [of 0 "2 ^ 52" "Suc e"] by (simp_all only:) simp_all
    have "magnitude_of (Suc k) = 2 ^ 52 * 2 ^ e" unfolding magnitude_of_def s by simp
    moreover have "magnitude_of k = (if e = 0 then f else (2 ^ 52 + f) * 2 ^ (e - 1))"
      unfolding magnitude_of_def e_def f_def ..
    moreover have "(2 ^ 52 + f) * 2 ^ (e - 1) < 2 ^ 52 * 2 ^ e" if "e \<noteq> 0"
    proof -
      have "2 ^ 52 + f < 2 ^ 53" using k(2) by simp
      then have "(2 ^ 52 + f) * 2 ^ (e - 1) < 2 ^ 53 * 2 ^ (e - 1)" by simp
      also have "\<dots> = 2 ^ 52 * 2 ^ e" using that by (cases e) simp_all
      finally show ?thesis .
    qed
    ultimately show ?thesis using k(2) by (cases "e = 0") simp_all
  qed
qed

lemma magnitude_mono: "magnitude_of j < magnitude_of k \<longleftrightarrow> j < k"
  using strict_mono_less [of magnitude_of j k] lift_Suc_mono_less [of magnitude_of, OF magnitude_step]
  by (auto simp: strict_mono_def)

text \<open>A finite double's value in units of the smallest subnormal number.\<close>

definition double_value :: "u64 \<Rightarrow> int" where
  "double_value u = (if unat u < 2 ^ 63 then int (magnitude u) else - int (magnitude u))"

lemma double_key: "float_key (u :: u64) = (if unat u < 2 ^ 63 then int (unat u mod 2 ^ 63) else - int (unat u mod 2 ^ 63))"
  by (simp add: float_key_def Let_def)

lemma magnitude_zero: "magnitude_of 0 = 0" "0 < magnitude_of k \<longleftrightarrow> 0 < k"
proof -
  show "magnitude_of 0 = 0" by (simp add: magnitude_of_def)
  then show "0 < magnitude_of k \<longleftrightarrow> 0 < k" using magnitude_mono [of 0 k] by simp
qed

lemma double_key_order: "float_key x < float_key y \<longleftrightarrow> double_value x < double_value y"
proof -
  define j k where "j = unat x mod 2 ^ 63" and "k = unat y mod 2 ^ 63"
  have m: "magnitude x = magnitude_of j" "magnitude y = magnitude_of k" by (simp_all only: magnitude_below_sign j_def k_def)
  have "j < k \<longleftrightarrow> magnitude_of j < magnitude_of k" "k < j \<longleftrightarrow> magnitude_of k < magnitude_of j"
    "0 < magnitude_of j \<longleftrightarrow> 0 < j" "0 < magnitude_of k \<longleftrightarrow> 0 < k"
    using magnitude_mono magnitude_zero(2) by blast+
  then show ?thesis
    unfolding double_key double_value_def m j_def [symmetric] k_def [symmetric] by (cases "unat x < 2 ^ 63"; cases "unat y < 2 ^ 63") auto
qed

lemma double_nan: "float_nan DBL_INFINITY u \<longleftrightarrow> is_nan u"
proof -
  have "float_key DBL_INFINITY = int (0x7FF * 2 ^ 52)" by (simp add: double_key DBL_INFINITY_def)
  moreover have "\<bar>float_key u\<bar> = int (exponent u * 2 ^ 52 + fraction u)" unfolding double_key below_sign by simp
  moreover have "0x7FF * 2 ^ 52 < exponent u * 2 ^ 52 + fraction u \<longleftrightarrow> exponent u = 0x7FF \<and> fraction u \<noteq> 0"
    using fields(2,3) [of u] by (simp, arith)
  ultimately show ?thesis unfolding float_nan_def is_nan_def of_nat_less_iff by (simp only: of_nat_less_iff)
qed

text \<open>On finite doubles the comparisons are those of the values; nothing compares with an undefined one.\<close>

lemma double_comparisons:
  assumes "is_finite x" "is_finite y"
  shows "float_eq DBL_INFINITY x y \<longleftrightarrow> double_value x = double_value y"
    "float_le DBL_INFINITY x y \<longleftrightarrow> double_value x \<le> double_value y"
  using assms double_key_order [of x y] double_key_order [of y x]
  by (auto simp: float_eq_def float_le_def double_nan is_nan_def is_finite_def)

lemma undefined_compares_with_nothing:
  "is_nan x \<Longrightarrow> \<not> float_eq DBL_INFINITY x y \<and> \<not> float_eq DBL_INFINITY y x \<and> \<not> float_le DBL_INFINITY x y \<and> \<not> float_le DBL_INFINITY y x"
  by (simp add: float_eq_def float_le_def double_nan)

section \<open>The operations\<close>

text \<open>Equal doubles have the same bits and so the same hash, with one exception: the two zeros.\<close>

lemma signed_inject:
  fixes j k n :: nat
  assumes "j < 2 * n" "k < 2 * n" "key = (\<lambda>j. if j < n then int (j mod n) else - int (j mod n))" "key j = key k" "key j \<noteq> 0"
  shows "j = k"
proof -
  have "i mod n = (if i < n then i else i - n)" if "i < 2 * n" for i
    using that by (simp add: le_mod_geq)
  then show ?thesis using assms by (auto split: if_splits)
qed

lemma double_key_inject: "float_key (x :: u64) = float_key y \<Longrightarrow> float_key x \<noteq> 0 \<Longrightarrow> x = y"
  using signed_inject [of "unat x" "2 ^ 63" "unat y", OF _ _ refl] unat_bound [of x] unat_bound [of y]
  unfolding double_key by (simp add: word_unat_eq_iff)

lemma equal_doubles_same_bits:
  assumes "float_eq DBL_INFINITY x y" "double_value x \<noteq> 0"
  shows "x = y"
proof -
  have "double_value 0 = 0" "float_key (0 :: u64) = 0" by (simp_all add: double_value_def double_key magnitude_below_sign magnitude_zero)
  then have "float_key x \<noteq> 0" using assms(2) double_key_order [of x 0] double_key_order [of 0 x] by linarith
  then show ?thesis using assms(1) by (intro double_key_inject) (simp_all add: float_eq_def)
qed

lemma zeros_hash_apart:
  assumes "deref big v p = Inr (0 :: u64)" "deref big v q = Inr (0x8000000000000000 :: u64)" "p \<noteq> NULL" "q \<noteq> NULL"
  shows "System_Double_Equals big v p 0x8000000000000000 = Inr True"
    "System_Double_GetHashCode big v p = Inr 0" "System_Double_GetHashCode big v q = Inr 0x80000000"
proof -
  have "float_eq DBL_INFINITY 0 (0x8000000000000000 :: u64)"
    by (simp add: float_eq_def float_nan_def double_key DBL_INFINITY_def)
  then show "System_Double_Equals big v p 0x8000000000000000 = Inr True"
    using assms by (simp add: System_Double_Equals_def receiver_def)
  show "System_Double_GetHashCode big v p = Inr 0" "System_Double_GetHashCode big v q = Inr 0x80000000"
    using assms by (simp_all add: System_Double_GetHashCode_def receiver_def drop_bit_eq_div)
qed

text \<open>An undefined double is not even equal to itself.\<close>

lemma undefined_not_equal_to_itself:
  "deref big v p = Inr x \<Longrightarrow> p \<noteq> NULL \<Longrightarrow> is_nan x \<Longrightarrow> System_Double_Equals big v p x = Inr False"
  by (simp add: System_Double_Equals_def receiver_def undefined_compares_with_nothing)

text \<open>What \<open>TryParse\<close> accepts is finite, and after one failure it accepts nothing.\<close>

lemma parsed_double:
  assumes "System_Double_TryParse wcstod e s str pResult = Inr (d, True, e')"
  shows "is_finite d" "e = NoError" "e' = NoError"
proof -
  have "float_le DBL_INFINITY d DBL_GREATEST" "float_le DBL_INFINITY DBL_LEAST d" "e' = NoError" "e = NoError"
    using assms by (auto simp: System_Double_TryParse_def parse_float_def parse_text_def Let_def split: prod.splits option.splits if_splits)
  then show "e = NoError" "e' = NoError" by simp_all
  have "float_key DBL_GREATEST = int (0x7FF * 2 ^ 52 - 1)" "float_key DBL_LEAST = - int (0x7FF * 2 ^ 52 - 1)"
    by (simp_all add: double_key DBL_GREATEST_def DBL_LEAST_def)
  then have "\<bar>float_key d\<bar> < int (0x7FF * 2 ^ 52)"
    using \<open>float_le DBL_INFINITY d DBL_GREATEST\<close> \<open>float_le DBL_INFINITY DBL_LEAST d\<close> by (simp add: float_le_def abs_less_iff)
  then have "exponent d * 2 ^ 52 + fraction d < 0x7FF * 2 ^ 52" unfolding double_key below_sign by (simp split: if_splits)
  then show "is_finite d" by (auto simp: is_finite_def)
qed

end
