(* ===== verification/String_Format.thy ===== *)
theory String_Format
  imports Wide_String
begin

text \<open>
  The composite format engine (src/System/String.c, \<open>il2c_format_string__\<close>): a state
  machine over the format text that calls a token writer for literal text and an argument
  writer for every item \<open>{n}\<close> or \<open>{n:format}\<close>.  The writers are function pointers with a
  state; here they are arguments, and what the engine relies on (a writer reads only the
  cells it is told the length of) is the interface \<open>format_writers\<close>, interpreted for
  the passes of \<open>String.Format\<close> and of the debug log.
  The engine is shown equal to a reference reader that cuts the text into segments.
\<close>

section \<open>The engine\<close>

definition IL2C_STRING_FORMAT_SUCCEEDED :: int where "IL2C_STRING_FORMAT_SUCCEEDED = 0"
definition IL2C_STRING_FORMAT_INVALID :: int where "IL2C_STRING_FORMAT_INVALID = -1"
definition IL2C_STRING_FORMAT_ARGUMENT_ABSOLUTE_LIMIT :: int where
  "IL2C_STRING_FORMAT_ARGUMENT_ABSOLUTE_LIMIT = -2"

datatype states = state_fetch | state_index0 | state_index | state_format

type_synonym 's token_writer = "wchar list \<Rightarrow> nat \<Rightarrow> 's \<Rightarrow> (int \<times> 's) result"
type_synonym 's argument_writer = "nat \<Rightarrow> wchar list option \<Rightarrow> nat \<Rightarrow> 's \<Rightarrow> (int \<times> 's) result"

text \<open>Call a writer; go on only when it succeeds.\<close>

definition and_continue :: "(int \<times> 's) result \<Rightarrow> ('s \<Rightarrow> (int \<times> 's) result) \<Rightarrow> (int \<times> 's) result" where
  "and_continue call k =
     bind_result call (\<lambda>(result, s). if result \<noteq> IL2C_STRING_FORMAT_SUCCEEDED then Inr (result, s) else k s)"

text \<open>
  One turn of the loop reads the cell at \<open>index\<close>; \<open>i\<close> is the index after it.  The format is
  shorter than \<open>2 ^ 32\<close> characters, so the indices do not wrap.
\<close>

function format_loop ::
  "'s token_writer \<Rightarrow> 's argument_writer \<Rightarrow> wchar list \<Rightarrow> states \<Rightarrow> nat \<Rightarrow> nat \<Rightarrow> nat \<Rightarrow> nat \<Rightarrow> 's \<Rightarrow> (int \<times> 's) result" where
  "format_loop tw aw fmt state argumentIndex start index formatStart s =
     bind_result (array_read fmt index) (\<lambda>ch.
     let i = Suc index; digit = unat (ch - 0x30); is_dec = ch \<ge> 0x30 \<and> ch \<le> 0x39 in
     case state of
       state_fetch \<Rightarrow>
         if ch = 0x7B then format_loop tw aw fmt state_index0 0 start i formatStart s
         else if ch = 0 then
           (if i - 1 > start
            then and_continue (tw (drop start fmt) (i - 1 - start) s)
                   (\<lambda>s. Inr (IL2C_STRING_FORMAT_SUCCEEDED, s))
            else Inr (IL2C_STRING_FORMAT_SUCCEEDED, s))
         else format_loop tw aw fmt state_fetch argumentIndex start i formatStart s
     | state_index0 \<Rightarrow>
         if is_dec then
           and_continue
             (if i - 2 > start then tw (drop start fmt) (i - 2 - start) s
              else Inr (IL2C_STRING_FORMAT_SUCCEEDED, s))
             (\<lambda>s. let calculated = argumentIndex * 10 + digit in
                if calculated > 65535 then Inr (IL2C_STRING_FORMAT_ARGUMENT_ABSOLUTE_LIMIT, s)
                else format_loop tw aw fmt state_index calculated start i formatStart s)
         else if ch = 0x7B then
           and_continue
             (if i - 1 > start then tw (drop start fmt) (i - 1 - start) s
              else Inr (IL2C_STRING_FORMAT_SUCCEEDED, s))
             (\<lambda>s. format_loop tw aw fmt state_fetch argumentIndex i i formatStart s)
         else if ch \<noteq> 0x20 then Inr (IL2C_STRING_FORMAT_INVALID, s)
         else format_loop tw aw fmt state_index0 argumentIndex start i formatStart s
     | state_index \<Rightarrow>
         if is_dec then
           (let calculated = argumentIndex * 10 + digit in
            if calculated > 65535 then Inr (IL2C_STRING_FORMAT_ARGUMENT_ABSOLUTE_LIMIT, s)
            else format_loop tw aw fmt state_index calculated start i formatStart s)
         else if ch = 0x3A then format_loop tw aw fmt state_format argumentIndex start i i s
         else if ch = 0x7D then
           and_continue (aw argumentIndex None 0 s)
             (\<lambda>s. format_loop tw aw fmt state_fetch argumentIndex i i formatStart s)
         else Inr (IL2C_STRING_FORMAT_INVALID, s)
     | state_format \<Rightarrow>
         if ch = 0x7D then
           and_continue (aw argumentIndex (Some (drop formatStart fmt)) (i - formatStart - 1) s)
             (\<lambda>s. format_loop tw aw fmt state_fetch argumentIndex i i formatStart s)
         else if ch = 0 then Inr (IL2C_STRING_FORMAT_INVALID, s)
         else format_loop tw aw fmt state_format argumentIndex start i formatStart s)"
  by pat_completeness auto
termination
  by (relation "measure (\<lambda>(_, _, fmt, _, _, _, index, _, _). length fmt - index)")
     (auto simp: array_read_def split: if_splits)

declare format_loop.simps [simp del]

definition il2c_format_string ::
  "wchar list \<Rightarrow> 's token_writer \<Rightarrow> 's argument_writer \<Rightarrow> 's \<Rightarrow> (int \<times> 's) result" where
  "il2c_format_string pCompositeFormat pTokenWriter pArgumentWriter s =
     format_loop pTokenWriter pArgumentWriter pCompositeFormat state_fetch 0 0 0 0 s"

section \<open>The reference reader\<close>

text \<open>
  A segment is literal text or an item with its index and format.  The reader returns the
  segments before the first error and the code the text ends with.  The literal text in front
  of an item loses the brace; blanks after the brace stay with it (\<open>butlast\<close> of the raw text).
\<close>

datatype segment = Token "wchar list" | Item nat "wchar list option"

definition token :: "wchar list \<Rightarrow> segment list" where
  "token str = (if str = [] then [] else [Token str])"

definition put_first :: "segment list \<Rightarrow> segment list \<times> int \<Rightarrow> segment list \<times> int" where
  "put_first segs r = (segs @ fst r, snd r)"

datatype reader = Literal "wchar list" | Brace "wchar list" | Index nat | Format nat "wchar list"

fun read_segments :: "reader \<Rightarrow> wchar list \<Rightarrow> segment list \<times> int" where
  "read_segments (Literal str) [] = (token str, 0)"
| "read_segments _ [] = ([], -1)"
| "read_segments (Literal str) (c # cs) =
     (if c = 0x7B then read_segments (Brace (str @ [c])) cs else read_segments (Literal (str @ [c])) cs)"
| "read_segments (Brace raw) (c # cs) =
     (if c \<ge> 0x30 \<and> c \<le> 0x39
      then put_first (token (butlast raw)) (read_segments (Index (unat (c - 0x30))) cs)
      else if c = 0x7B then put_first (token raw) (read_segments (Literal []) cs)
      else if c = 0x20 then read_segments (Brace (raw @ [c])) cs
      else ([], -1))"
| "read_segments (Index n) (c # cs) =
     (if c \<ge> 0x30 \<and> c \<le> 0x39
      then if n * 10 + unat (c - 0x30) > 65535 then ([], -2)
           else read_segments (Index (n * 10 + unat (c - 0x30))) cs
      else if c = 0x3A then read_segments (Format n []) cs
      else if c = 0x7D then put_first [Item n None] (read_segments (Literal []) cs)
      else ([], -1))"
| "read_segments (Format n f) (c # cs) =
     (if c = 0x7D then put_first [Item n (Some f)] (read_segments (Literal []) cs)
      else read_segments (Format n (f @ [c])) cs)"

definition segments :: "wchar list \<Rightarrow> segment list \<times> int" where
  "segments str = read_segments (Literal []) str"

text \<open>Running the writers over segments.\<close>

primrec run_segment ::
  "(wchar list \<Rightarrow> 's \<Rightarrow> (int \<times> 's) result) \<Rightarrow> (nat \<Rightarrow> wchar list option \<Rightarrow> 's \<Rightarrow> (int \<times> 's) result)
    \<Rightarrow> segment \<Rightarrow> 's \<Rightarrow> (int \<times> 's) result" where
  "run_segment t a (Token str) s = t str s"
| "run_segment t a (Item n f) s = a n f s"

fun run_segments ::
  "(wchar list \<Rightarrow> 's \<Rightarrow> (int \<times> 's) result) \<Rightarrow> (nat \<Rightarrow> wchar list option \<Rightarrow> 's \<Rightarrow> (int \<times> 's) result)
    \<Rightarrow> segment list \<Rightarrow> int \<Rightarrow> 's \<Rightarrow> (int \<times> 's) result" where
  "run_segments t a [] code s = Inr (code, s)"
| "run_segments t a (x # xs) code s = and_continue (run_segment t a x s) (run_segments t a xs code)"

lemma and_continue_cong [fundef_cong]:
  "c = c' \<Longrightarrow> (\<And>s. c' = Inr (0, s) \<Longrightarrow> k s = k' s) \<Longrightarrow> and_continue c k = and_continue c' k'"
  by (auto simp: and_continue_def IL2C_STRING_FORMAT_SUCCEEDED_def split: prod.splits intro!: bind_result_cong)

lemma run_segments_append:
  "run_segments t a (xs @ ys) code s = and_continue (run_segments t a xs 0 s) (run_segments t a ys code)"
proof (induction xs arbitrary: s)
  case Nil
  then show ?case by (simp add: and_continue_def IL2C_STRING_FORMAT_SUCCEEDED_def)
next
  case (Cons x xs)
  show ?case
    by (cases "run_segment t a x s") (auto simp: Cons and_continue_def split: prod.splits)
qed

section \<open>The interface of the writers\<close>

locale format_writers =
  fixes token_writer :: "'s token_writer" and argument_writer :: "'s argument_writer"
    and write_token :: "wchar list \<Rightarrow> 's \<Rightarrow> (int \<times> 's) result"
    and write_argument :: "nat \<Rightarrow> wchar list option \<Rightarrow> 's \<Rightarrow> (int \<times> 's) result"
  assumes token_reads_length: "0 < n \<Longrightarrow> n \<le> length p \<Longrightarrow> token_writer p n s = write_token (take n p) s"
    and argument_plain: "argument_writer i None 0 s = write_argument i None s"
    and argument_reads_length:
      "n < length p \<Longrightarrow> argument_writer i (Some p) n s = write_argument i (Some (take n p)) s"
begin

text \<open>Where the engine stands, as a reader.\<close>

fun reader_of :: "wchar list \<Rightarrow> states \<Rightarrow> nat \<Rightarrow> nat \<Rightarrow> nat \<Rightarrow> reader" where
  "reader_of u state_fetch n start f = Literal (drop start u)"
| "reader_of u state_index0 n start f = Brace (drop start u)"
| "reader_of u state_index n start f = Index n"
| "reader_of u state_format n start f = Format n (drop f u)"

fun engine_ok :: "wchar list \<Rightarrow> states \<Rightarrow> nat \<Rightarrow> nat \<Rightarrow> nat \<Rightarrow> bool" where
  "engine_ok u state_fetch n start f \<longleftrightarrow> start \<le> length u"
| "engine_ok u state_index0 n start f \<longleftrightarrow> start < length u \<and> n = 0"
| "engine_ok u state_index n start f \<longleftrightarrow> start \<le> length u"
| "engine_ok u state_format n start f \<longleftrightarrow> start \<le> length u \<and> f \<le> length u"

abbreviation run :: "segment list \<times> int \<Rightarrow> 's \<Rightarrow> (int \<times> 's) result" where
  "run r \<equiv> run_segments write_token write_argument (fst r) (snd r)"

lemma run_put_token:
  "run (put_first (token str) r) s =
    and_continue (if str = [] then Inr (0, s) else write_token str s) (run r)"
  by (simp add: put_first_def token_def and_continue_def IL2C_STRING_FORMAT_SUCCEEDED_def)

lemma token_call:
  assumes "start \<le> k" "k \<le> length u"
  shows "(if start < k then token_writer (drop start (u @ q)) (k - start) s else Inr (0, s)) =
    (if take (k - start) (drop start u) = [] then Inr (0, s) else write_token (take (k - start) (drop start u)) s)"
  using assms by (auto simp: token_reads_length)

lemma engine_reads:
  assumes "engine_ok u st n start f" "0 \<notin> set str"
  shows "format_loop token_writer argument_writer (u @ str @ 0 # r) st n start (length u) f s =
    run (read_segments (reader_of u st n start f) str) s"
  using assms
proof (induction str arbitrary: u st n start f s)
  case Nil
  note unfold = format_loop.simps [of token_writer argument_writer "u @ [] @ 0 # r" st n start "length u" f s]
  show ?case
  proof (cases st)
    case state_fetch
    then have "start \<le> length u" using Nil by simp
    from token_call [OF this order.refl, of "0 # r" s] show ?thesis unfolding unfold using state_fetch
      by (auto simp: token_def IL2C_STRING_FORMAT_SUCCEEDED_def and_continue_def Let_def
          split: prod.splits intro!: bind_result_cong)
  qed (use unfold in \<open>simp_all add: Let_def IL2C_STRING_FORMAT_INVALID_def\<close>)
next
  case (Cons c str)
  have c: "c \<noteq> 0" "0 \<notin> set str" using Cons.prems by auto
  define fmt where "fmt = u @ c # str @ 0 # r"
  have read: "array_read fmt (length u) = Inr c" by (simp add: fmt_def nth_append)
  note unfold = format_loop.simps [of token_writer argument_writer fmt st n start "length u" f s] read bind_result_simps
  have IH: "format_loop token_writer argument_writer fmt st' n' start' (Suc (length u)) f' =
      run (read_segments (reader_of (u @ [c]) st' n' start' f') str)"
    if "engine_ok (u @ [c]) st' n' start' f'" for st' n' start' f'
    using Cons.IH [OF that c(2)] by (intro ext) (simp add: fmt_def)
  have "format_loop token_writer argument_writer fmt st n start (length u) f s =
      run (read_segments (reader_of u st n start f) (c # str)) s"
  proof (cases st)
    case state_fetch
    then show ?thesis unfolding unfold using c Cons.prems(1)
      by (simp add: Let_def IH)
  next
    case state_index0
    then have st: "start < length u" "n = 0" using Cons.prems(1) by simp_all
    have last: "(if start < length u - Suc 0 then token_writer (drop start fmt) (length u - Suc start) s else Inr (0, s)) =
        (if butlast (drop start u) = [] then Inr (0, s) else write_token (butlast (drop start u)) s)"
    proof -
      have *: "butlast (drop start u) = take (length u - 1 - start) (drop start u)" by (simp add: butlast_conv_take)
      have "start \<le> length u - 1" using st by simp
      then show ?thesis using token_call [of start "length u - 1" u "c # str @ 0 # r" s, folded fmt_def *]
        by (auto split: if_splits)
    qed
    have all: "(if start < length u then token_writer (drop start fmt) (length u - start) s else Inr (0, s)) =
        (if drop start u = [] then Inr (0, s) else write_token (drop start u) s)"
      using token_call [OF less_imp_le [OF st(1)] order.refl, of "c # str @ 0 # r" s, folded fmt_def] by simp
    show ?thesis
    proof (cases "c \<ge> 0x30 \<and> c \<le> 0x39")
      case True
      then have "unat (c - 0x30) \<le> 65535"
        using uint_minus_simple_alt [of "0x30" c] by (auto simp add: word_le_def unat_eq_nat_uint nat_le_iff simp del: nat_uint_eq)
      then show ?thesis unfolding unfold using state_index0 st True last
        by (simp add: Let_def IH run_put_token IL2C_STRING_FORMAT_SUCCEEDED_def split: if_split_asm)
    next
      case False
      then show ?thesis unfolding unfold using state_index0 st all
        by (auto simp add: Let_def IH run_put_token IL2C_STRING_FORMAT_SUCCEEDED_def
            IL2C_STRING_FORMAT_INVALID_def)
    qed
  next
    case state_index
    then show ?thesis unfolding unfold using Cons.prems(1)
      by (simp add: Let_def IH argument_plain put_first_def IL2C_STRING_FORMAT_INVALID_def
          IL2C_STRING_FORMAT_ARGUMENT_ABSOLUTE_LIMIT_def)
  next
    case state_format
    then have "f \<le> length u" using Cons.prems(1) by simp
    then have "argument_writer n (Some (drop f fmt)) (length u - f) s = write_argument n (Some (drop f u)) s"
      using argument_reads_length [of "length u - f" "drop f fmt" n s] by (simp add: fmt_def)
    then show ?thesis unfolding unfold using state_format c Cons.prems(1)
      by (simp add: Let_def IH put_first_def)
  qed
  then show ?case by (simp add: fmt_def)
qed

theorem engine_equals_reader:
  "0 \<notin> set str \<Longrightarrow>
    il2c_format_string (str @ 0 # r) token_writer argument_writer s = run (segments str) s"
  using engine_reads [of "[]" state_fetch 0 0 0 str r s] by (simp add: il2c_format_string_def segments_def)

end

end
