(* ===== verification/Composite_Format.thy ===== *)
theory Composite_Format
  imports String_Format
begin

text \<open>
  \<open>String.Format\<close> (src/System/String.c): \<open>System_String_InternalFormat\<close> runs the format
  engine three times, to count the items, to convert the arguments and add up the length, and
  to write the text into a string of exactly that length.  The counters are \<open>uint16_t\<close>
  and \<open>uint32_t\<close>; they are numbers here, with the wrap-around written out.
  The virtual \<open>ToString\<close> calls, the type test for IFormattable and the addresses the
  allocator chooses are an argument (\<open>object_calls\<close>).  The execution frame that roots the
  converted strings during the call belongs to the allocation theory.
\<close>

section \<open>The passes\<close>

record object_calls =
  adjusted :: "addr \<Rightarrow> addr"              \<comment> \<open>\<open>il2c_adjusted_reference\<close>\<close>
  is_formattable :: "addr \<Rightarrow> bool"        \<comment> \<open>\<open>il2c_isinst(.., System_IFormattable)\<close>\<close>
  ToString_IFormattable :: "strings \<Rightarrow> addr \<Rightarrow> addr \<Rightarrow> (addr \<times> strings) result"
  ToString :: "strings \<Rightarrow> addr \<Rightarrow> (addr \<times> strings) result"
  new_address :: "strings \<Rightarrow> addr"

record format_state =
  argumentCount :: nat
  formatItemCount :: nat
  formatItemIndex :: nat
  total_length :: nat
  ppArgs :: "addr list"
  ppFormattedString :: "addr list"
  pWriteTarget :: "(wchar list \<times> nat) option"  \<comment> \<open>the buffer and the position in it\<close>
  store :: strings

definition IL2C_STRING_FORMAT_ARGUMENT_INDEX_OUT_OF_RANGE :: int where
  "IL2C_STRING_FORMAT_ARGUMENT_INDEX_OUT_OF_RANGE = -3"

definition InternalFormatStep1Writer :: "format_state token_writer" where
  "InternalFormatStep1Writer pTokenFrom tokenLength p = Inr (0, p)"

definition InternalFormatStep1ArgumentWriter :: "format_state argument_writer" where
  "InternalFormatStep1ArgumentWriter argumentIndex pFormatFrom formatLength p =
     il2c_assert (pWriteTarget p = None)
     (if argumentIndex \<ge> argumentCount p then Inr (IL2C_STRING_FORMAT_ARGUMENT_INDEX_OUT_OF_RANGE, p)
      else Inr (0, p\<lparr>formatItemCount := (formatItemCount p + 1) mod 2 ^ 16\<rparr>))"

definition InternalFormatStep2Writer :: "format_state token_writer" where
  "InternalFormatStep2Writer pTokenFrom tokenLength p =
     il2c_assert (pWriteTarget p = None)
     (Inr (0, p\<lparr>total_length := (total_length p + tokenLength) mod 2 ^ 32\<rparr>))"

text \<open>The conversion of one argument.\<close>

definition argument_string ::
  "object_calls \<Rightarrow> strings \<Rightarrow> addr \<Rightarrow> wchar list option \<Rightarrow> nat \<Rightarrow> (addr \<times> strings) result" where
  "argument_string calls s pArg pFormatFrom formatLength =
     (if pArg \<noteq> NULL then
        if is_formattable calls pArg then
          if formatLength \<ge> 1 then
            (case pFormatFrom of None \<Rightarrow> Inl AssertionFailed
             | Some f \<Rightarrow>
                 bind_result (il2c_new_string_with_length s (new_address calls s) f (of_nat formatLength))
                   (\<lambda>(pFormatString, s). ToString_IFormattable calls s (adjusted calls pArg) pFormatString))
          else ToString_IFormattable calls s (adjusted calls pArg) NULL
        else ToString calls s (adjusted calls pArg)
      else Inr (System_String_Empty, s))"

definition InternalFormatStep2ArgumentWriter :: "object_calls \<Rightarrow> format_state argument_writer" where
  "InternalFormatStep2ArgumentWriter calls argumentIndex pFormatFrom formatLength p =
     il2c_assert (pWriteTarget p = None)
     (il2c_assert (formatItemIndex p < formatItemCount p)
     (il2c_assert (argumentIndex < argumentCount p)
     (let slot = formatItemIndex p; p = p\<lparr>formatItemIndex := (formatItemIndex p + 1) mod 2 ^ 16\<rparr> in
      bind_result (array_read (ppFormattedString p) slot) (\<lambda>old.
      il2c_assert (old = NULL)
      (bind_result (array_read (ppArgs p) argumentIndex) (\<lambda>pArg.
       bind_result (argument_string calls (store p) pArg pFormatFrom formatLength) (\<lambda>(str, s).
       bind_result (array_write (ppFormattedString p) slot str) (\<lambda>slots.
       bind_result (get_string s str) (\<lambda>b.
       bind_result (cstr_len b) (\<lambda>n.
         Inr (0, p\<lparr>ppFormattedString := slots, store := s,
                   total_length := (total_length p + n) mod 2 ^ 32\<rparr>)))))))))))"

fun write_chars :: "wchar list \<Rightarrow> nat \<Rightarrow> wchar list \<times> nat \<Rightarrow> (wchar list \<times> nat) result" where
  "write_chars p 0 (buffer, i) = Inr (buffer, i)"
| "write_chars [] (Suc n) (buffer, i) = Inl BadAccess"
| "write_chars (c # p) (Suc n) (buffer, i) =
     bind_result (array_write buffer i c) (\<lambda>buffer. write_chars p n (buffer, Suc i))"

fun write_cstr :: "wchar list \<Rightarrow> wchar list \<times> nat \<Rightarrow> (wchar list \<times> nat) result" where
  "write_cstr [] (buffer, i) = Inl BadAccess"
| "write_cstr (c # p) (buffer, i) =
     (if c = 0 then Inr (buffer, i)
      else bind_result (array_write buffer i c) (\<lambda>buffer. write_cstr p (buffer, Suc i)))"

definition with_target ::
  "format_state \<Rightarrow> (wchar list \<times> nat \<Rightarrow> (wchar list \<times> nat) result) \<Rightarrow> (int \<times> format_state) result" where
  "with_target p f =
     (case pWriteTarget p of None \<Rightarrow> Inl AssertionFailed
      | Some target \<Rightarrow> bind_result (f target) (\<lambda>target. Inr (0, p\<lparr>pWriteTarget := Some target\<rparr>)))"

definition InternalFormatStep3Writer :: "format_state token_writer" where
  "InternalFormatStep3Writer pTokenFrom tokenLength p =
     il2c_assert (formatItemIndex p \<le> formatItemCount p)
     (with_target p (write_chars pTokenFrom tokenLength))"

definition InternalFormatStep3ArgumentWriter :: "format_state argument_writer" where
  "InternalFormatStep3ArgumentWriter argumentIndex pFormatFrom formatLength p =
     il2c_assert (formatItemIndex p < formatItemCount p)
     (il2c_assert (argumentIndex < argumentCount p)
     (bind_result (array_read (ppFormattedString p) (formatItemIndex p)) (\<lambda>str.
      il2c_assert (str \<noteq> NULL)
      (bind_result (get_string (store p) str) (\<lambda>b.
       with_target (p\<lparr>formatItemIndex := (formatItemIndex p + 1) mod 2 ^ 16\<rparr>) (write_cstr b))))))"

section \<open>The formatter\<close>

text \<open>The result code, the string when the code is 0, and the store.\<close>

definition System_String_InternalFormat ::
  "object_calls \<Rightarrow> strings \<Rightarrow> addr \<Rightarrow> addr list \<Rightarrow> (int \<times> addr \<times> strings) result" where
  "System_String_InternalFormat calls s pFormat args =
     bind_result (get_string s pFormat) (\<lambda>fmt.
     let state = \<lparr>argumentCount = length args, formatItemCount = 0, formatItemIndex = 0, total_length = 0,
                  ppArgs = args, ppFormattedString = [], pWriteTarget = None, store = s\<rparr> in
     bind_result (il2c_format_string fmt InternalFormatStep1Writer InternalFormatStep1ArgumentWriter state) (\<lambda>(result, state).
     if result \<noteq> IL2C_STRING_FORMAT_SUCCEEDED then Inr (result, NULL, store state)
     else
       let state = state\<lparr>ppFormattedString := replicate (formatItemCount state) NULL\<rparr> in
       bind_result (il2c_format_string fmt InternalFormatStep2Writer (InternalFormatStep2ArgumentWriter calls) state) (\<lambda>(result, state).
       if result \<noteq> IL2C_STRING_FORMAT_SUCCEEDED then Inr (result, NULL, store state)
       else
         let pString = new_address calls (store state);
             body = new_string_internal ((total_length state + 1) mod 2 ^ 32 * sizeof_wchar);
             state = state\<lparr>pWriteTarget := Some (body, 0), formatItemIndex := 0\<rparr> in
         bind_result (il2c_format_string fmt InternalFormatStep3Writer InternalFormatStep3ArgumentWriter state) (\<lambda>(result, state).
         il2c_assert (result = IL2C_STRING_FORMAT_SUCCEEDED)
         (il2c_assert (formatItemIndex state = formatItemCount state)
         (case pWriteTarget state of None \<Rightarrow> Inl AssertionFailed
          | Some (body, i) \<Rightarrow>
              bind_result (array_write body i 0) (\<lambda>body.
              il2c_assert (i = total_length state)
              (Inr (result, pString, (store state)(pString \<mapsto> body))))))))))"

text \<open>The public overloads differ in how the arguments arrive: one, two, three, or an array.\<close>

definition format_or_throw ::
  "object_calls \<Rightarrow> strings \<Rightarrow> addr \<Rightarrow> addr list \<Rightarrow> (addr \<times> strings) result" where
  "format_or_throw calls s format args =
     bind_result (System_String_InternalFormat calls s format args) (\<lambda>(result, pString, s).
       if result \<noteq> 0 then Inl FormatException else Inr (pString, s))"

definition System_String_Format1 :: "object_calls \<Rightarrow> strings \<Rightarrow> addr \<Rightarrow> addr \<Rightarrow> (addr \<times> strings) result" where
  "System_String_Format1 calls s format arg0 = il2c_assert (format \<noteq> NULL) (format_or_throw calls s format [arg0])"

definition System_String_Format2 ::
  "object_calls \<Rightarrow> strings \<Rightarrow> addr \<Rightarrow> addr \<Rightarrow> addr \<Rightarrow> (addr \<times> strings) result" where
  "System_String_Format2 calls s format arg0 arg1 =
     il2c_assert (format \<noteq> NULL) (format_or_throw calls s format [arg0, arg1])"

definition System_String_Format3 ::
  "object_calls \<Rightarrow> strings \<Rightarrow> addr \<Rightarrow> addr \<Rightarrow> addr \<Rightarrow> addr \<Rightarrow> (addr \<times> strings) result" where
  "System_String_Format3 calls s format arg0 arg1 arg2 =
     il2c_assert (format \<noteq> NULL) (format_or_throw calls s format [arg0, arg1, arg2])"

text \<open>The array overload: the references of an argument array, \<open>None\<close> for a null array.  The item
  pointer of an empty array throws.\<close>

definition System_String_Format_Array ::
  "object_calls \<Rightarrow> strings \<Rightarrow> addr \<Rightarrow> addr list option \<Rightarrow> (addr \<times> strings) result" where
  "System_String_Format_Array calls s format args =
     il2c_assert (format \<noteq> NULL)
     (case args of None \<Rightarrow> Inl AssertionFailed
      | Some a \<Rightarrow>
          if length a > 65535 then Inl FormatException
          else if a = [] then Inl IndexOutOfRangeException
          else format_or_throw calls s format a)"

section \<open>The passes are writers\<close>

definition format_length :: "wchar list option \<Rightarrow> nat" where
  "format_length f = (case f of None \<Rightarrow> 0 | Some g \<Rightarrow> length g)"

interpretation pass1: format_writers InternalFormatStep1Writer InternalFormatStep1ArgumentWriter
    "\<lambda>str s. Inr (0, s)" "\<lambda>i f. InternalFormatStep1ArgumentWriter i f 0"
  by unfold_locales (simp_all add: InternalFormatStep1Writer_def InternalFormatStep1ArgumentWriter_def)

lemma new_string_takes_length:
  assumes "n \<le> length p"
  shows "il2c_new_string_with_length s a (take n p) (of_nat n) = il2c_new_string_with_length s a p (of_nat n)"
proof -
  have "unat (of_nat n :: u32) \<le> n" by (simp add: unsigned_of_nat take_bit_nat_less_eq_self)
  then show ?thesis using assms
    by (simp add: il2c_new_string_with_length_def array_copy_def min_absorb1 Let_def)
qed

lemma argument_string_takes_length:
  "n \<le> length p \<Longrightarrow> argument_string calls s a (Some (take n p)) n = argument_string calls s a (Some p) n"
  by (simp add: argument_string_def new_string_takes_length)

interpretation pass2: format_writers InternalFormatStep2Writer "InternalFormatStep2ArgumentWriter calls"
    "\<lambda>str. InternalFormatStep2Writer str (length str)"
    "\<lambda>i f. InternalFormatStep2ArgumentWriter calls i f (format_length f)"
  for calls
  by unfold_locales
    (simp_all add: InternalFormatStep2Writer_def InternalFormatStep2ArgumentWriter_def format_length_def
      argument_string_takes_length argument_string_def [where pFormatFrom = None])

lemma write_chars_take: "n \<le> length p \<Longrightarrow> write_chars (take n p) n = write_chars p n"
proof
  fix target
  show "n \<le> length p \<Longrightarrow> write_chars (take n p) n target = write_chars p n target"
    by (induction p n target rule: write_chars.induct) (auto intro!: bind_result_cong)
qed

interpretation pass3: format_writers InternalFormatStep3Writer InternalFormatStep3ArgumentWriter
    "\<lambda>str. InternalFormatStep3Writer str (length str)"
    "\<lambda>i f. InternalFormatStep3ArgumentWriter i f 0"
  by unfold_locales
    (simp_all add: InternalFormatStep3Writer_def InternalFormatStep3ArgumentWriter_def write_chars_take)

section \<open>Segments and texts\<close>

fun items_of :: "segment list \<Rightarrow> (nat \<times> wchar list option) list" where
  "items_of [] = []"
| "items_of (Token str # xs) = items_of xs"
| "items_of (Item n f # xs) = (n, f) # items_of xs"

primrec piece :: "segment \<Rightarrow> wchar list" where
  "piece (Token str) = str"
| "piece (Item n f) = (case f of None \<Rightarrow> [] | Some g \<Rightarrow> g)"

primrec reader_text :: "reader \<Rightarrow> wchar list" where
  "reader_text (Literal str) = str"
| "reader_text (Brace raw) = raw"
| "reader_text (Index n) = []"
| "reader_text (Format n f) = f"

lemma pieces_of_text:
  "x \<in> set (fst (read_segments rd str)) \<Longrightarrow>
    set (piece x) \<subseteq> set (reader_text rd) \<union> set str \<and> length (piece x) \<le> length (reader_text rd) + length str"
proof (induction rd str rule: read_segments.induct)
  case (4 raw c cs)
  then show ?case
    by (auto simp: put_first_def token_def dest: in_set_butlastD split: if_splits)
qed (auto simp: put_first_def token_def split: if_splits)

definition strings_grow :: "strings \<Rightarrow> strings \<Rightarrow> bool" where
  "strings_grow s s' \<longleftrightarrow> strings_ok s' \<and> s \<subseteq>\<^sub>m s'"

lemma text_of_grow: "s \<subseteq>\<^sub>m s' \<Longrightarrow> p \<in> dom s \<Longrightarrow> text_of s' p = text_of s p \<and> p \<in> dom s'"
  by (auto simp: text_of_def map_le_def dom_def)

text \<open>
  What the code relies on of the virtual calls: the allocator returns unused addresses, and
  \<open>ToString\<close> returns a string whose text depends on the object and the format text only
  (\<open>plain\<close>, \<open>formatted\<close>), leaving the existing strings alone.
\<close>

definition calls_ok ::
  "object_calls \<Rightarrow> (addr \<Rightarrow> wchar list) \<Rightarrow> (addr \<Rightarrow> wchar list \<Rightarrow> wchar list) \<Rightarrow> bool" where
  "calls_ok calls plain formatted \<longleftrightarrow>
     (\<forall>s. strings_ok s \<longrightarrow>
        s (new_address calls s) = None \<and> new_address calls s \<noteq> NULL
        \<and> (\<forall>a. \<exists>p s'. ToString calls s a = Inr (p, s') \<and> strings_grow s s' \<and> p \<in> dom s' \<and> text_of s' p = plain a)
        \<and> (\<forall>a q. q = NULL \<or> q \<in> dom s \<longrightarrow>
             (\<exists>p s'. ToString_IFormattable calls s a q = Inr (p, s') \<and> strings_grow s s' \<and> p \<in> dom s'
                \<and> text_of s' p = formatted a (text_of s q))))"

definition shown ::
  "object_calls \<Rightarrow> (addr \<Rightarrow> wchar list) \<Rightarrow> (addr \<Rightarrow> wchar list \<Rightarrow> wchar list) \<Rightarrow> addr list
    \<Rightarrow> nat \<Rightarrow> wchar list option \<Rightarrow> wchar list" where
  "shown calls plain formatted args n f =
     (let a = args ! n in
      if a = NULL then []
      else if is_formattable calls a then formatted (adjusted calls a) (case f of None \<Rightarrow> [] | Some g \<Rightarrow> g)
      else plain (adjusted calls a))"

primrec segment_text :: "(nat \<Rightarrow> wchar list option \<Rightarrow> wchar list) \<Rightarrow> segment \<Rightarrow> wchar list" where
  "segment_text sh (Token str) = str"
| "segment_text sh (Item n f) = sh n f"

abbreviation segments_text :: "(nat \<Rightarrow> wchar list option \<Rightarrow> wchar list) \<Rightarrow> segment list \<Rightarrow> wchar list" where
  "segments_text sh segs \<equiv> concat (map (segment_text sh) segs)"

lemma argument_string_ok:
  assumes calls: "calls_ok calls plain formatted" and ok: "strings_ok s"
    and f: "0 \<notin> set (piece (Item n f))" "length (piece (Item n f)) < 2 ^ 31"
  shows "\<exists>p s'. argument_string calls s (args ! n) f (format_length f) = Inr (p, s')
    \<and> strings_grow s s' \<and> p \<in> dom s' \<and> text_of s' p = shown calls plain formatted args n f"
proof -
  let ?a = "args ! n"
  note contract = calls [unfolded calls_ok_def, rule_format]
  consider "?a = NULL" | "?a \<noteq> NULL" "\<not> is_formattable calls ?a"
    | "?a \<noteq> NULL" "is_formattable calls ?a" "format_length f = 0"
    | g where "?a \<noteq> NULL" "is_formattable calls ?a" "f = Some g" "g \<noteq> []"
    by (cases f) (auto simp: format_length_def)
  then show ?thesis
  proof cases
    case 1
    then show ?thesis using ok
      by (auto simp: argument_string_def shown_def strings_grow_def strings_ok_def text_of_def cstr_text_def)
  next
    case 2
    then show ?thesis using contract [OF ok] by (auto simp: argument_string_def shown_def)
  next
    case 3
    have "text_of s NULL = []" using ok by (auto simp: text_of_def strings_ok_def split: option.splits)
    moreover have "(case f of None \<Rightarrow> [] | Some g \<Rightarrow> g) = []" using 3(3) by (cases f) (auto simp: format_length_def)
    ultimately show ?thesis using 3 contract [OF ok] by (auto simp: argument_string_def shown_def)
  next
    case 4
    define b where "b = new_address calls s"
    define s1 where "s1 = s(b \<mapsto> g @ [0])"
    have b: "s b = None" "b \<noteq> NULL" using contract [OF ok] by (simp_all add: b_def)
    have g: "0 \<notin> set g" "length g < 2 ^ 31" using f 4 by simp_all
    have new: "il2c_new_string_with_length s b g (of_nat (length g)) = Inr (b, s1)"
      using new_string_ok [OF g, of s b "[]"] g(1) new_string_takes_length [of "length g" "g @ [0]" s b]
      by (simp add: il2c_new_string_def s1_def)
    have ok1: "strings_ok s1" "b \<in> dom s1" "text_of s1 b = g"
      using strings_ok_update [OF ok b g, of "[]"] g(1) by (simp_all add: s1_def text_of_def)
    obtain p s' where call: "ToString_IFormattable calls s1 (adjusted calls ?a) b = Inr (p, s')"
        "strings_grow s1 s'" "p \<in> dom s'" "text_of s' p = formatted (adjusted calls ?a) g"
      using contract [OF ok1(1)] ok1(2,3) by metis
    have "s \<subseteq>\<^sub>m s1" using b(1) by (auto simp: s1_def map_le_def dom_def)
    then have "strings_grow s s'" using call(2) by (auto simp: strings_grow_def intro: map_le_trans)
    then show ?thesis using 4 new call
      by (simp add: argument_string_def shown_def b_def [symmetric] format_length_def Suc_le_eq)
  qed
qed

section \<open>What each pass computes\<close>

lemma and_continue_0 [simp]: "and_continue (Inr (0, s)) k = k s"
  by (simp add: and_continue_def IL2C_STRING_FORMAT_SUCCEEDED_def)

lemma and_continue_error [simp]: "c \<noteq> 0 \<Longrightarrow> and_continue (Inr (c, s)) k = Inr (c, s)"
  by (simp add: and_continue_def IL2C_STRING_FORMAT_SUCCEEDED_def)

text \<open>Pass 1 counts the items and checks their indices.\<close>

lemma pass1_runs:
  assumes "pWriteTarget st = None" "formatItemCount st < 2 ^ 16"
  shows "\<exists>st'. pass1.run (segs, code) st =
      Inr (if \<forall>(n, f) \<in> set (items_of segs). n < argumentCount st then code else -3, st')
    \<and> store st' = store st
    \<and> ((\<forall>(n, f) \<in> set (items_of segs). n < argumentCount st) \<longrightarrow>
         st' = st\<lparr>formatItemCount := (formatItemCount st + length (items_of segs)) mod 2 ^ 16\<rparr>)"
  using assms
proof (induction segs arbitrary: st rule: items_of.induct)
  case 1
  then show ?case by simp
next
  case (2 str xs)
  then show ?case by simp
next
  case (3 n f xs)
  show ?case
  proof (cases "n < argumentCount st")
    case True
    let ?st = "st\<lparr>formatItemCount := Suc (formatItemCount st) mod 2 ^ 16\<rparr>"
    have "pass1.run (Item n f # xs, code) st = pass1.run (xs, code) ?st"
      using True 3(2) by (simp add: InternalFormatStep1ArgumentWriter_def)
    moreover have "pWriteTarget ?st = None" "formatItemCount ?st < 2 ^ 16" using 3(2) by simp_all
    ultimately show ?thesis using 3(1) [of ?st] True by (simp add: mod_simps)
  next
    case False
    then show ?thesis using 3(2)
      by (simp add: InternalFormatStep1ArgumentWriter_def IL2C_STRING_FORMAT_ARGUMENT_INDEX_OUT_OF_RANGE_def)
  qed
qed

text \<open>The converted strings hold the shown texts.\<close>

definition shows_items ::
  "(nat \<Rightarrow> wchar list option \<Rightarrow> wchar list) \<Rightarrow> strings \<Rightarrow> addr list \<Rightarrow> (nat \<times> wchar list option) list \<Rightarrow> bool" where
  "shows_items sh s ps items \<longleftrightarrow> list_all2 (\<lambda>p (n, f). p \<in> dom s \<and> text_of s p = sh n f) ps items"

lemma shows_items_length: "shows_items sh s ps items \<Longrightarrow> length ps = length items"
  by (simp add: shows_items_def list_all2_lengthD)

lemma shows_items_grow:
  assumes "s \<subseteq>\<^sub>m s'" "shows_items sh s ps items"
  shows "shows_items sh s' ps items"
  using assms(2) unfolding shows_items_def
proof (rule list_all2_mono)
  fix p x
  show "(\<lambda>(n, f). p \<in> dom s \<and> text_of s p = sh n f) x \<Longrightarrow> (\<lambda>(n, f). p \<in> dom s' \<and> text_of s' p = sh n f) x"
    using text_of_grow [OF assms(1), of p] by (cases x) simp
qed

lemma string_length:
  assumes "strings_ok s" "p \<in> dom s"
  shows "\<exists>b. get_string s p = Inr b \<and> cstr_len b = Inr (length (text_of s p))"
proof -
  obtain r where "s p = Some (text_of s p @ 0 # r)" "0 \<notin> set (text_of s p)"
    using string_body [OF assms] by metis
  then show ?thesis by (intro exI [of _ "text_of s p @ 0 # r"]) (simp add: get_string_def)
qed

text \<open>Pass 2 converts the arguments in order and adds up the lengths.\<close>

lemma pass2_runs:
  assumes calls: "calls_ok calls plain formatted"
    and sh_def: "sh = shown calls plain formatted args"
    and st: "pWriteTarget st = None" "ppArgs st = args" "argumentCount st = length args"
      "strings_ok (store st)" "total_length st < 2 ^ 32"
    and count: "formatItemCount st = formatItemIndex st + length (items_of segs)" "formatItemCount st < 2 ^ 16"
    and slots: "ppFormattedString st = ps0 @ replicate (length (items_of segs)) NULL" "length ps0 = formatItemIndex st"
    and items: "\<forall>(n, f) \<in> set (items_of segs). n < length args"
    and pieces: "\<forall>x \<in> set segs. 0 \<notin> set (piece x) \<and> length (piece x) < 2 ^ 31"
  shows "\<exists>ps s'. pass2.run calls (segs, code) st =
      Inr (code, st\<lparr>formatItemIndex := formatItemCount st, ppFormattedString := ps0 @ ps, store := s',
                   total_length := (total_length st + length (segments_text sh segs)) mod 2 ^ 32\<rparr>)
    \<and> strings_grow (store st) s' \<and> shows_items sh s' ps (items_of segs)"
  using st count slots items pieces
proof (induction segs arbitrary: st ps0 rule: items_of.induct)
  case 1
  then show ?case
    by (intro exI [of _ "[]"] exI [of _ "store st"]) (simp add: strings_grow_def shows_items_def)
next
  case (2 str xs)
  define st1 where "st1 = st\<lparr>total_length := (total_length st + length str) mod 2 ^ 32\<rparr>"
  have "pass2.run calls (Token str # xs, code) st = pass2.run calls (xs, code) st1"
    using 2(2) by (simp add: InternalFormatStep2Writer_def st1_def)
  moreover obtain ps s' where "pass2.run calls (xs, code) st1 =
      Inr (code, st1\<lparr>formatItemIndex := formatItemCount st1, ppFormattedString := ps0 @ ps, store := s',
                   total_length := (total_length st1 + length (segments_text sh xs)) mod 2 ^ 32\<rparr>)"
      "strings_grow (store st1) s'" "shows_items sh s' ps (items_of xs)"
    using 2(1) [of st1 ps0] 2(2-) by (auto simp: st1_def)
  ultimately show ?case
    by (intro exI [of _ ps] exI [of _ s']) (simp add: st1_def mod_simps add.assoc)
next
  case (3 n f xs)
  let ?k = "formatItemIndex st"
  obtain p s1 where p: "argument_string calls (store st) (args ! n) f (format_length f) = Inr (p, s1)"
      "strings_grow (store st) s1" "p \<in> dom s1" "text_of s1 p = sh n f"
    using argument_string_ok [OF calls 3(5), of n f args] bspec [OF 3(12), of "Item n f"] unfolding sh_def by fastforce
  obtain b where b: "get_string s1 p = Inr b" "cstr_len b = Inr (length (sh n f))"
    using string_length [of s1 p] p by (auto simp: strings_grow_def)
  define st1 where "st1 = st\<lparr>formatItemIndex := Suc ?k, ppFormattedString := (ps0 @ [p]) @ replicate (length (items_of xs)) NULL,
      store := s1, total_length := (total_length st + length (sh n f)) mod 2 ^ 32\<rparr>"
  have "pass2.run calls (Item n f # xs, code) st = pass2.run calls (xs, code) st1"
    using 3(2-11) p(1) b
    by (simp add: InternalFormatStep2ArgumentWriter_def Let_def st1_def nth_append list_update_append)
  moreover obtain ps s' where r: "pass2.run calls (xs, code) st1 =
      Inr (code, st1\<lparr>formatItemIndex := formatItemCount st1, ppFormattedString := (ps0 @ [p]) @ ps, store := s',
                   total_length := (total_length st1 + length (segments_text sh xs)) mod 2 ^ 32\<rparr>)"
      "strings_grow s1 s'" "shows_items sh s' ps (items_of xs)"
    using 3(1) [of st1 "ps0 @ [p]"] 3(2-) p(2) by (auto simp: st1_def strings_grow_def)
  moreover have "shows_items sh s' (p # ps) (items_of (Item n f # xs))"
    using r(2,3) p(3,4) text_of_grow [of s1 s' p] by (auto simp: shows_items_def strings_grow_def)
  moreover have "strings_grow (store st) s'" using p(2) r(2) by (auto simp: strings_grow_def intro: map_le_trans)
  ultimately show ?case
    by (intro exI [of _ "p # ps"] exI [of _ s']) (simp add: st1_def mod_simps add.assoc)
qed

text \<open>Pass 3 writes the texts one after the other.\<close>

definition put_at :: "wchar list \<Rightarrow> nat \<Rightarrow> wchar list \<Rightarrow> wchar list" where
  "put_at buffer i str = take i buffer @ str @ drop (i + length str) buffer"

lemma put_at_put_at:
  assumes "i + length a + length b \<le> length buffer"
  shows "put_at (put_at buffer i a) (i + length a) b = put_at buffer i (a @ b)"
proof -
  have "min (length buffer) i = i" using assms by simp
  then show ?thesis by (simp add: put_at_def add.assoc add.commute add.left_commute)
qed

lemma put_at_length [simp]: "i + length a \<le> length buffer \<Longrightarrow> length (put_at buffer i a) = length buffer"
  by (simp add: put_at_def)

lemma put_at_one: "i < length buffer \<Longrightarrow> buffer[i := c] = put_at buffer i [c]"
  by (simp add: put_at_def upd_conv_take_nth_drop)

lemma write_chars_ok:
  "i + length str \<le> length buffer \<Longrightarrow>
    write_chars str (length str) (buffer, i) = Inr (put_at buffer i str, i + length str)"
proof (induction str arbitrary: buffer i)
  case Nil
  then show ?case by (simp add: put_at_def)
next
  case (Cons c str)
  then show ?case using put_at_put_at [of i "[c]" str buffer] by (simp add: put_at_one)
qed

lemma write_cstr_ok:
  "0 \<notin> set str \<Longrightarrow> i + length str \<le> length buffer \<Longrightarrow>
    write_cstr (str @ 0 # r) (buffer, i) = Inr (put_at buffer i str, i + length str)"
proof (induction str arbitrary: buffer i)
  case Nil
  then show ?case by (simp add: put_at_def)
next
  case (Cons c str)
  then show ?case using put_at_put_at [of i "[c]" str buffer] by (simp add: put_at_one)
qed

lemma pass3_runs:
  assumes st: "pWriteTarget st = Some (buffer, i)" "strings_ok (store st)"
    and count: "formatItemCount st = formatItemIndex st + length (items_of segs)" "formatItemCount st < 2 ^ 16"
    and slots: "ppFormattedString st = ps0 @ ps" "length ps0 = formatItemIndex st" "shows_items sh (store st) ps (items_of segs)"
    and items: "\<forall>(n, f) \<in> set (items_of segs). n < argumentCount st"
    and room: "i + length (segments_text sh segs) \<le> length buffer"
  shows "pass3.run (segs, code) st =
    Inr (code, st\<lparr>formatItemIndex := formatItemCount st,
      pWriteTarget := Some (put_at buffer i (segments_text sh segs), i + length (segments_text sh segs))\<rparr>)"
  using assms
proof (induction segs arbitrary: st buffer i ps0 ps rule: items_of.induct)
  case 1
  then show ?case by (simp add: put_at_def)
next
  case (2 str xs)
  define st1 where "st1 = st\<lparr>pWriteTarget := Some (put_at buffer i str, i + length str)\<rparr>"
  have "pass3.run (Token str # xs, code) st = pass3.run (xs, code) st1"
    using 2(2-) write_chars_ok [of i str buffer]
    by (simp add: InternalFormatStep3Writer_def with_target_def st1_def)
  also have "\<dots> = Inr (code, st1\<lparr>formatItemIndex := formatItemCount st1,
      pWriteTarget := Some (put_at (put_at buffer i str) (i + length str) (segments_text sh xs),
        i + length str + length (segments_text sh xs))\<rparr>)"
    using 2(2-) by (intro 2(1) [of st1 _ _ ps0 ps]) (auto simp: st1_def)
  finally show ?case using 2(10) by (simp add: st1_def put_at_put_at add.assoc)
next
  case (3 n f xs)
  obtain p qs where ps: "ps = p # qs" "p \<in> dom (store st)" "text_of (store st) p = sh n f"
      "shows_items sh (store st) qs (items_of xs)"
    using 3(8) by (auto simp: shows_items_def list_all2_Cons2)
  obtain r where b: "store st p = Some (sh n f @ 0 # r)" "0 \<notin> set (sh n f)" "p \<noteq> NULL"
    using string_body [OF 3(3) ps(2)] ps(3) by metis
  define st1 where "st1 = st\<lparr>formatItemIndex := Suc (formatItemIndex st),
      pWriteTarget := Some (put_at buffer i (sh n f), i + length (sh n f))\<rparr>"
  have "pass3.run (Item n f # xs, code) st = pass3.run (xs, code) st1"
    using 3(2-) ps(1) b write_cstr_ok [of "sh n f" i buffer r]
    by (simp add: InternalFormatStep3ArgumentWriter_def with_target_def st1_def nth_append get_string_def)
  also have "\<dots> = Inr (code, st1\<lparr>formatItemIndex := formatItemCount st1,
      pWriteTarget := Some (put_at (put_at buffer i (sh n f)) (i + length (sh n f)) (segments_text sh xs),
        i + length (sh n f) + length (segments_text sh xs))\<rparr>)"
    using 3(2-) ps by (intro 3(1) [of st1 _ _ "ps0 @ [p]" qs]) (auto simp: st1_def)
  finally show ?case using 3(10) by (simp add: st1_def put_at_put_at add.assoc)
qed

section \<open>The formatter\<close>

lemma segments_pieces:
  assumes "segments str = (segs, code)" "x \<in> set segs"
  shows "set (piece x) \<subseteq> set str" "length (piece x) \<le> length str"
  using pieces_of_text [of x "Literal []" str] assms by (simp_all add: segments_def)

lemma format_result:
  assumes calls: "calls_ok calls plain formatted" and ok: "strings_ok s" and fmt: "pFormat \<in> dom s"
    and segs: "segments (text_of s pFormat) = (segs, 0)"
    and items: "\<forall>(n, f) \<in> set (items_of segs). n < length args"
    and few: "length (items_of segs) < 2 ^ 16"
    and sh_def: "sh = shown calls plain formatted args"
    and short: "length (segments_text sh segs) < 2 ^ 31"
  shows "\<exists>p s'. System_String_InternalFormat calls s pFormat args = Inr (0, p, s'(p \<mapsto> segments_text sh segs @ [0]))
    \<and> strings_grow s s' \<and> s' p = None \<and> p \<noteq> NULL"
proof -
  let ?str = "text_of s pFormat" and ?T = "segments_text sh segs" and ?n = "length (items_of segs)"
  obtain r where b: "s pFormat = Some (?str @ 0 # r)" "0 \<notin> set ?str" "length ?str < 2 ^ 31"
    using string_body [OF ok fmt] by metis
  define st0 where "st0 = \<lparr>argumentCount = length args, formatItemCount = 0, formatItemIndex = 0, total_length = 0,
    ppArgs = args, ppFormattedString = [], pWriteTarget = None, store = s\<rparr>"
  have p1: "il2c_format_string (?str @ 0 # r) InternalFormatStep1Writer InternalFormatStep1ArgumentWriter st0 =
      Inr (0, st0\<lparr>formatItemCount := ?n\<rparr>)"
    using pass1.engine_equals_reader [OF b(2), of r st0] pass1_runs [of st0 segs 0] items few
    by (auto simp: segs st0_def)
  define st1 where "st1 = st0\<lparr>formatItemCount := ?n, ppFormattedString := replicate ?n NULL\<rparr>"
  have pieces: "\<forall>x \<in> set segs. 0 \<notin> set (piece x) \<and> length (piece x) < 2 ^ 31"
    using segments_pieces [OF segs] b(2,3) by (meson le_less_trans subsetD)
  obtain ps s' where p2: "il2c_format_string (?str @ 0 # r) InternalFormatStep2Writer (InternalFormatStep2ArgumentWriter calls) st1 =
      Inr (0, st1\<lparr>formatItemIndex := ?n, ppFormattedString := ps, store := s', total_length := length ?T\<rparr>)"
      and s': "strings_grow s s'" "shows_items sh s' ps (items_of segs)"
    using pass2.engine_equals_reader [OF b(2), of r calls st1]
      pass2_runs [OF calls sh_def, of st1 segs "[]" 0] items few ok pieces short
    by (auto simp: segs st1_def st0_def)
  define p where "p = new_address calls s'"
  have p: "s' p = None" "p \<noteq> NULL" using calls s'(1) by (auto simp: calls_ok_def p_def strings_grow_def)
  define st2 where "st2 = st1\<lparr>formatItemIndex := 0, ppFormattedString := ps, store := s', total_length := length ?T,
    pWriteTarget := Some (replicate (Suc (length ?T)) 0, 0)\<rparr>"
  have p3: "il2c_format_string (?str @ 0 # r) InternalFormatStep3Writer InternalFormatStep3ArgumentWriter st2 =
      Inr (0, st2\<lparr>formatItemIndex := ?n, pWriteTarget := Some (?T @ [0], length ?T)\<rparr>)"
    using pass3.engine_equals_reader [OF b(2), of r st2]
      pass3_runs [of st2 "replicate (Suc (length ?T)) 0" 0 segs "[]" ps sh 0] items few s'
      drop_replicate [of "length ?T" "Suc (length ?T)" "0 :: wchar"]
    by (simp add: segs st2_def st1_def st0_def strings_grow_def put_at_def)
  have "new_string_internal (Suc (length ?T) mod 2 ^ 32 * sizeof_wchar) = replicate (Suc (length ?T)) 0"
    using short new_string_internal_cells [of "Suc (length ?T)"] by (simp del: new_string_internal_cells)
  then have "System_String_InternalFormat calls s pFormat args = Inr (0, p, s'(p \<mapsto> ?T @ [0]))"
    using b(1) p1 p2 p3
    by (simp add: System_String_InternalFormat_def get_string_def Let_def st0_def [symmetric]
        IL2C_STRING_FORMAT_SUCCEEDED_def)
       (simp add: st1_def st0_def st2_def p_def)
  then show ?thesis using s'(1) p by blast
qed

lemma text_of_no_zero [simp]: "0 \<notin> set (text_of s p)"
  by (cases "s p") (simp_all add: text_of_def)

lemma shown_no_zero:
  assumes "calls_ok calls plain formatted" "strings_ok s" "0 \<notin> set (piece (Item n f))"
    "length (piece (Item n f)) < 2 ^ 31"
  shows "0 \<notin> set (shown calls plain formatted args n f)"
  using argument_string_ok [OF assms, of args] text_of_no_zero by metis

lemma item_in_segments: "Item n f \<in> set segs \<Longrightarrow> (n, f) \<in> set (items_of segs)"
  by (induction segs rule: items_of.induct) auto

lemma segments_text_no_zero:
  assumes calls: "calls_ok calls plain formatted" "strings_ok s" and fmt: "pFormat \<in> dom s"
    and segs: "segments (text_of s pFormat) = (segs, code)"
  shows "0 \<notin> set (segments_text (shown calls plain formatted args) segs)"
proof -
  obtain r where b: "length (text_of s pFormat) < 2 ^ 31"
    using string_body [OF calls(2) fmt] by metis
  have "0 \<notin> set (segment_text (shown calls plain formatted args) x)" if x: "x \<in> set segs" for x
  proof (cases x)
    case (Token str)
    then show ?thesis using segments_pieces(1) [OF segs x] text_of_no_zero by auto
  next
    case (Item n f)
    then have "0 \<notin> set (piece (Item n f))" "length (piece (Item n f)) < 2 ^ 31"
      using segments_pieces [OF segs x] text_of_no_zero b by (auto dest!: subsetD simp del: piece.simps)
    then show ?thesis using shown_no_zero [OF calls] Item by simp
  qed
  then show ?thesis by auto
qed

lemma format_error:
  assumes ok: "strings_ok s" and fmt: "pFormat \<in> dom s"
    and segs: "segments (text_of s pFormat) = (segs, code)"
    and bad: "code \<noteq> 0 \<or> (\<exists>(n, f) \<in> set (items_of segs). length args \<le> n)"
  shows "\<exists>c. c \<noteq> 0 \<and> System_String_InternalFormat calls s pFormat args = Inr (c, NULL, s)"
proof -
  obtain r where b: "s pFormat = Some (text_of s pFormat @ 0 # r)" "0 \<notin> set (text_of s pFormat)"
    using string_body [OF ok fmt] by metis
  define st0 where "st0 = \<lparr>argumentCount = length args, formatItemCount = 0, formatItemIndex = 0, total_length = 0,
    ppArgs = args, ppFormattedString = [], pWriteTarget = None, store = s\<rparr>"
  define good where "good \<longleftrightarrow> (\<forall>(n, f) \<in> set (items_of segs). n < length args)"
  obtain st' where "pass1.run (segs, code) st0 = Inr (if good then code else -3, st')" "store st' = s"
    using pass1_runs [of st0 segs code] by (auto simp: st0_def good_def)
  then have "il2c_format_string (text_of s pFormat @ 0 # r) InternalFormatStep1Writer InternalFormatStep1ArgumentWriter st0 =
      Inr (if good then code else -3, st')"
    using pass1.engine_equals_reader [OF b(2), of r st0] by (simp add: segs)
  moreover have "(if good then code else -3) \<noteq> 0" using bad by (auto simp: good_def not_less)
  ultimately show ?thesis using b(1) \<open>store st' = s\<close>
    by (intro exI [of _ "if good then code else -3"] conjI)
       (simp_all add: System_String_InternalFormat_def get_string_def Let_def st0_def [symmetric]
        IL2C_STRING_FORMAT_SUCCEEDED_def)
qed

section \<open>Properties\<close>



text \<open>
  C19: \<open>String.Format\<close> returns a new string whose text is the format with every item replaced
  by the text of its argument.  The three passes agree: no assertion fails, the body is
  exactly filled, and the strings that exist already are not touched.
\<close>

theorem string_format_substitutes:
  assumes calls: "calls_ok calls plain formatted" and ok: "strings_ok s" "pFormat \<in> dom s"
    and segs: "segments (text_of s pFormat) = (segs, 0)"
    and items: "\<forall>(n, f) \<in> set (items_of segs). n < length args" "length (items_of segs) < 2 ^ 16"
    and result: "result = segments_text (shown calls plain formatted args) segs" "length result < 2 ^ 31"
  shows "\<exists>p s'. format_or_throw calls s pFormat args = Inr (p, s') \<and> strings_ok s' \<and> s \<subseteq>\<^sub>m s'
    \<and> s p = None \<and> s' p = Some (result @ [0]) \<and> text_of s' p = result"
proof -
  obtain p s' where r: "System_String_InternalFormat calls s pFormat args = Inr (0, p, s'(p \<mapsto> result @ [0]))"
      "strings_grow s s'" "s' p = None" "p \<noteq> NULL"
    using format_result [OF calls ok segs items refl] result by auto
  have nz: "0 \<notin> set result" using segments_text_no_zero [OF calls ok segs] result(1) by simp
  have "strings_ok (s'(p \<mapsto> result @ [0]))"
    using strings_ok_update [of s' p result "[]"] r nz result(2) by (simp add: strings_grow_def)
  moreover have "s p = None" using r(2,3) by (auto simp: strings_grow_def map_le_def dom_def)
  ultimately show ?thesis using r nz
    by (intro exI [of _ p] exI [of _ "s'(p \<mapsto> result @ [0])"])
       (auto simp: format_or_throw_def text_of_def strings_grow_def map_le_def dom_def)
qed


section \<open>Witnesses\<close>

text \<open>Objects that print as \<open>*\<close>, and formattable ones that print their format.\<close>

definition fresh_address :: "strings \<Rightarrow> addr" where
  "fresh_address s = Suc (Max (insert System_String_Empty (dom s)))"

definition sample_calls :: object_calls where
  "sample_calls = \<lparr>adjusted = id, is_formattable = (\<lambda>a. a = 7),
     ToString_IFormattable = (\<lambda>s a q. Inr (fresh_address s, s(fresh_address s \<mapsto> text_of s q @ [0]))),
     ToString = (\<lambda>s a. Inr (fresh_address s, s(fresh_address s \<mapsto> [0x2A, 0]))),
     new_address = fresh_address\<rparr>"

lemma fresh_address_ok:
  assumes "strings_ok s"
  shows "s (fresh_address s) = None" "fresh_address s \<noteq> NULL"
proof -
  have "finite (insert System_String_Empty (dom s))" using assms by (simp add: strings_ok_def)
  from Max_ge [OF this] have "\<And>p. p \<in> dom s \<Longrightarrow> p < fresh_address s"
    by (simp add: fresh_address_def le_imp_less_Suc)
  then show "s (fresh_address s) = None" "fresh_address s \<noteq> NULL" by (auto simp: fresh_address_def)
qed

lemma fresh_string_grows:
  assumes ok: "strings_ok s" and str: "0 \<notin> set str" "length str < 2 ^ 31"
  shows "strings_grow s (s(fresh_address s \<mapsto> str @ [0]))" "text_of (s(fresh_address s \<mapsto> str @ [0])) (fresh_address s) = str"
  using fresh_address_ok [OF ok] strings_ok_update [OF ok fresh_address_ok [OF ok] str, of "[]"] str(1)
  by (auto simp: strings_grow_def text_of_def map_le_def dom_def)

lemma sample_calls_ok: "calls_ok sample_calls (\<lambda>a. [0x2A]) (\<lambda>a f. f)"
proof -
  have len: "length (text_of s q) < 2 ^ 31" if "strings_ok s" for s q
    using that by (cases "s q") (auto simp: text_of_def strings_ok_def)
  show ?thesis unfolding calls_ok_def
  proof (intro allI impI)
    fix s :: strings
    assume ok: "strings_ok s"
    show "s (new_address sample_calls s) = None \<and> new_address sample_calls s \<noteq> NULL
      \<and> (\<forall>a. \<exists>p s'. ToString sample_calls s a = Inr (p, s') \<and> strings_grow s s' \<and> p \<in> dom s' \<and> text_of s' p = [0x2A])
      \<and> (\<forall>a q. q = NULL \<or> q \<in> dom s \<longrightarrow>
           (\<exists>p s'. ToString_IFormattable sample_calls s a q = Inr (p, s') \<and> strings_grow s s' \<and> p \<in> dom s'
              \<and> text_of s' p = text_of s q))"
      using fresh_address_ok [OF ok] fresh_string_grows [OF ok, of "[0x2A]"]
        fresh_string_grows [OF ok text_of_no_zero len [OF ok]] by (simp add: sample_calls_def)
  qed
qed

text \<open>The format \<open>{0}!{1:x}\<close> and, for the rejection, \<open>{0}{2}\<close>.\<close>

definition format_strings :: strings where
  "format_strings = sample_strings(80 \<mapsto> [0x7B, 0x30, 0x7D, 0x21, 0x7B, 0x31, 0x3A, 0x78, 0x7D, 0],
     96 \<mapsto> [0x7B, 0x30, 0x7D, 0x7B, 0x32, 0x7D, 0])"

lemma format_strings_ok: "strings_ok format_strings" "80 \<in> dom format_strings" "96 \<in> dom format_strings"
    "text_of format_strings 80 = [0x7B, 0x30, 0x7D, 0x21, 0x7B, 0x31, 0x3A, 0x78, 0x7D]"
    "text_of format_strings 96 = [0x7B, 0x30, 0x7D, 0x7B, 0x32, 0x7D]"
  by (auto simp: strings_ok_def format_strings_def sample_strings_def System_String_Empty_def cstr_text_def
      text_of_def split: if_splits)

lemma string_format_substitutes_witness:
  "\<exists>p s'. format_or_throw sample_calls format_strings 80 [5, 7] = Inr (p, s') \<and> text_of s' p = [0x2A, 0x21, 0x78]"
proof -
  let ?segs = "[Item 0 None, Token [0x21], Item 1 (Some [0x78])]"
  have "segments (text_of format_strings 80) = (?segs, 0)"
    by (simp add: format_strings_ok(4) segments_def put_first_def token_def)
  moreover have "\<forall>(n, f) \<in> set (items_of ?segs). n < length [5, 7 :: addr]" "length (items_of ?segs) < 2 ^ 16" by simp_all
  moreover have "[0x2A, 0x21, 0x78] = segments_text (shown sample_calls (\<lambda>a. [0x2A]) (\<lambda>a f. f) [5, 7]) ?segs"
    by (simp add: shown_def sample_calls_def)
  moreover have "length [0x2A, 0x21, 0x78 :: wchar] < 2 ^ 31" by simp
  ultimately show ?thesis
    using string_format_substitutes [OF sample_calls_ok format_strings_ok(1,2)] by blast
qed


text \<open>
  What the engine does to blanks and to closing braces: a blank after an opening brace makes
  the brace part of the text, and a doubled closing brace stays doubled.
\<close>

lemma blank_item_leaks_brace:
  "segments [0x7B, 0x20, 0x30, 0x7D] = ([Token [0x7B], Item 0 None], 0)"
  "segments [0x7B, 0x7B, 0x61, 0x7D, 0x7D] = ([Token [0x7B], Token [0x61, 0x7D, 0x7D]], 0)"
  by (simp_all add: segments_def put_first_def token_def)

end
