(* ===== verification/Debug_Log.thy ===== *)
theory Debug_Log
  imports Composite_Format
begin

text \<open>
  The debug log formatter (src/Core/il2c_debug.c): \<open>il2c_runtime_debug_log_format\<close> runs
  the format engine twice over its variadic arguments, first to add up the length, then to
  fill a buffer of that length, to which it appends a line end.  The arguments are a list of
  the values that were passed; fetching one with another type than it was passed with has no
  meaning in C and is \<open>BadAccess\<close>.  The length is a \<open>uint16_t\<close>, with the wrap-around
  written out.  The result is what is handed to \<open>il2c_runtime_debug_log\<close>, if anything.
\<close>

section \<open>Arguments and state\<close>

datatype log_argument = Arg32 u32 | Arg64 u64 | ArgString "u8 list" | ArgWide "wchar list"

record log_state =
  va :: "log_argument list"
  log_argumentCount :: nat
  log_length :: nat
  pBuffer :: "wchar list \<times> nat"

section \<open>The writers\<close>

text \<open>The conversions that go through the local buffer; the two writers share these cases.\<close>

definition log_number :: "wchar \<Rightarrow> log_argument list \<Rightarrow> (wchar list \<times> log_argument list) result option" where
  "log_number c args =
     (let buffer = replicate 24 0;
          with32 = \<lambda>f. (case args of Arg32 v # rest \<Rightarrow> bind_result (f v) (\<lambda>b. Inr (b, rest)) | _ \<Rightarrow> Inl BadAccess);
          with64 = \<lambda>f. (case args of Arg64 v # rest \<Rightarrow> bind_result (f v) (\<lambda>b. Inr (b, rest)) | _ \<Rightarrow> Inl BadAccess) in
      if c = 0x64 then Some (with32 (\<lambda>v. il2c_i32tow v buffer 10))
      else if c = 0x75 then Some (with32 (\<lambda>v. il2c_u32tow v buffer 10))
      else if c = 0x78 then Some (with32 (\<lambda>v. il2c_u32tow v buffer 16))
      else if c = 0x44 then Some (with64 (\<lambda>v. il2c_i64tow v buffer 10))
      else if c = 0x55 then Some (with64 (\<lambda>v. il2c_u64tow v buffer 10))
      else if c = 0x58 then Some (with64 (\<lambda>v. il2c_u64tow v buffer 16))
      else if c = 0x70 then Some (with64 (\<lambda>v. il2c_u64tow v buffer 16))
      else None)"

definition log_writer_step1 :: "log_state token_writer" where
  "log_writer_step1 pTokenFrom tokenLength p =
     Inr (0, p\<lparr>log_length := (log_length p + tokenLength) mod 2 ^ 16\<rparr>)"

definition log_argument_writer_step1 :: "log_state argument_writer" where
  "log_argument_writer_step1 argumentIndex pFormatFrom formatLength p =
     (let count = log_argumentCount p; p = p\<lparr>log_argumentCount := (count + 1) mod 2 ^ 16\<rparr>;
          add = (\<lambda>n rest. Inr (0, p\<lparr>log_length := (n + log_length p) mod 2 ^ 16, va := rest\<rparr>)) in
      if argumentIndex \<noteq> count \<or> formatLength \<noteq> 1 then Inr (IL2C_STRING_FORMAT_INVALID, p)
      else (case pFormatFrom of
          None \<Rightarrow> Inl BadAccess
        | Some [] \<Rightarrow> Inl BadAccess
        | Some (c # _) \<Rightarrow>
            (case log_number c (va p) of
               Some r \<Rightarrow> bind_result r (\<lambda>(buffer, rest). bind_result (cstr_len buffer) (\<lambda>n. add n rest))
             | None \<Rightarrow>
                 if c = 0x73 then
                   (case va p of ArgString s # rest \<Rightarrow> bind_result (cstr_len s) (\<lambda>n. add n rest) | _ \<Rightarrow> Inl BadAccess)
                 else if c = 0x53 then
                   (case va p of ArgWide s # rest \<Rightarrow> bind_result (cstr_len s) (\<lambda>n. add n rest) | _ \<Rightarrow> Inl BadAccess)
                 else Inr (IL2C_STRING_FORMAT_INVALID, p))))"

text \<open>\<open>memcpy\<close> into the buffer; \<open>pBuffer\<close> moves on.\<close>

definition copy_to_buffer :: "wchar list \<Rightarrow> nat \<Rightarrow> log_state \<Rightarrow> (int \<times> log_state) result" where
  "copy_to_buffer src n p =
     bind_result (array_copy (fst (pBuffer p)) (snd (pBuffer p)) src 0 n)
       (\<lambda>b. Inr (0, p\<lparr>pBuffer := (b, snd (pBuffer p) + n)\<rparr>))"

definition log_writer_step2 :: "log_state token_writer" where
  "log_writer_step2 pTokenFrom tokenLength p = copy_to_buffer pTokenFrom tokenLength p"

text \<open>\<open>%s\<close> widens each \<open>char\<close>.\<close>

fun widen_cstr :: "bool \<Rightarrow> u8 list \<Rightarrow> wchar list result" where
  "widen_cstr schar [] = Inl BadAccess"
| "widen_cstr schar (c # s) =
     (if c = 0 then Inr [0] else bind_result (widen_cstr schar s) (\<lambda>r. Inr (of_int (char_value schar c) # r)))"

definition log_argument_writer_step2 :: "bool \<Rightarrow> log_state argument_writer" where
  "log_argument_writer_step2 schar argumentIndex pFormatFrom formatLength p =
     (case pFormatFrom of
        None \<Rightarrow> Inl BadAccess
      | Some [] \<Rightarrow> Inl BadAccess
      | Some (c # _) \<Rightarrow>
          (case log_number c (va p) of
             Some r \<Rightarrow> bind_result r (\<lambda>(buffer, rest). bind_result (cstr_len buffer) (\<lambda>n.
               copy_to_buffer buffer (n mod 2 ^ 16) (p\<lparr>va := rest\<rparr>)))
           | None \<Rightarrow>
               if c = 0x73 then
                 (case va p of
                    ArgString s # rest \<Rightarrow> bind_result (widen_cstr schar s) (\<lambda>w.
                      bind_result (write_cstr w (pBuffer p)) (\<lambda>b. Inr (0, p\<lparr>va := rest, pBuffer := b\<rparr>)))
                  | _ \<Rightarrow> Inl BadAccess)
               else if c = 0x53 then
                 (case va p of
                    ArgWide s # rest \<Rightarrow> bind_result (write_cstr s (pBuffer p)) (\<lambda>b. Inr (0, p\<lparr>va := rest, pBuffer := b\<rparr>))
                  | _ \<Rightarrow> Inl BadAccess)
               else Inr (IL2C_STRING_FORMAT_INVALID, p)))"

section \<open>The formatter\<close>

definition il2c_runtime_debug_log_format ::
  "bool \<Rightarrow> wchar list \<Rightarrow> log_argument list \<Rightarrow> wchar list option result" where
  "il2c_runtime_debug_log_format schar format args =
     bind_result (il2c_format_string format log_writer_step1 log_argument_writer_step1
         \<lparr>va = args, log_argumentCount = 0, log_length = 0, pBuffer = ([], 0)\<rparr>) (\<lambda>(result, state).
     if result = IL2C_STRING_FORMAT_SUCCEEDED then
       bind_result (il2c_format_string format log_writer_step2 (log_argument_writer_step2 schar)
         (state\<lparr>pBuffer := (replicate (log_length state + 3) 0, 0), va := args\<rparr>)) (\<lambda>(result, state).
       if result = IL2C_STRING_FORMAT_SUCCEEDED then
         (let (b, i) = pBuffer state in
          bind_result (array_write b i 0x0D) (\<lambda>b.
          bind_result (array_write b (i + 1) 0x0A) (\<lambda>b.
          bind_result (array_write b (i + 2) 0) (\<lambda>b. Inr (Some b)))))
       else Inr None)
     else Inr None)"

section \<open>The passes are writers\<close>

interpretation log1: format_writers log_writer_step1 log_argument_writer_step1
    "\<lambda>str. log_writer_step1 str (length str)" "\<lambda>i f. log_argument_writer_step1 i f (format_length f)"
proof unfold_locales
  fix n i :: nat and p :: "wchar list" and s :: log_state
  assume "n < length p"
  then show "log_argument_writer_step1 i (Some p) n s =
      log_argument_writer_step1 i (Some (take n p)) (format_length (Some (take n p))) s"
    by (cases n; cases p) (simp_all add: log_argument_writer_step1_def format_length_def Let_def)
qed (simp_all add: log_writer_step1_def format_length_def)

text \<open>
  The second pass trusts the first: it is a writer where every format is one character.  The
  contract is shown for the writer that refuses an empty format; a run of that writer that
  is not refused is a run of the code's.
\<close>

definition log_checked_writer :: "bool \<Rightarrow> log_state argument_writer" where
  "log_checked_writer schar i f n = (if n = 0 then (\<lambda>s. Inl AssertionFailed) else log_argument_writer_step2 schar i f n)"

interpretation log2: format_writers log_writer_step2 "log_checked_writer schar"
    "\<lambda>str. log_writer_step2 str (length str)" "\<lambda>i f. log_checked_writer schar i f (format_length f)"
  for schar
proof unfold_locales
  fix n i :: nat and p :: "wchar list" and s :: log_state
  show "0 < n \<Longrightarrow> n \<le> length p \<Longrightarrow> log_writer_step2 p n s = log_writer_step2 (take n p) (length (take n p)) s"
    by (simp add: log_writer_step2_def copy_to_buffer_def array_copy_def)
  show "n < length p \<Longrightarrow> log_checked_writer schar i (Some p) n s =
      log_checked_writer schar i (Some (take n p)) (format_length (Some (take n p))) s"
    by (cases n; cases p) (simp_all add: log_checked_writer_def log_argument_writer_step2_def format_length_def)
qed (simp_all add: log_checked_writer_def format_length_def)

definition same_unless_refused :: "'a result \<Rightarrow> 'a result \<Rightarrow> bool" where
  "same_unless_refused m m' \<longleftrightarrow> m = Inl AssertionFailed \<or> m' = m"

lemma same_unless_refused_refl: "same_unless_refused m m"
  by (simp add: same_unless_refused_def)

lemma same_unless_refused_if:
  "(b \<Longrightarrow> same_unless_refused x x') \<Longrightarrow> (\<not> b \<Longrightarrow> same_unless_refused y y') \<Longrightarrow> same_unless_refused (if b then x else y) (if b then x' else y')"
  by simp

lemma same_unless_refused_continue:
  "same_unless_refused c c' \<Longrightarrow> (\<And>s. same_unless_refused (k s) (k' s)) \<Longrightarrow> same_unless_refused (and_continue c k) (and_continue c' k')"
  by (cases c) (auto simp: same_unless_refused_def and_continue_def split: prod.splits)

lemma format_loop_mono:
  assumes weak: "\<And>i f n s. same_unless_refused (weak i f n s) (aw i f n s)"
  shows "same_unless_refused (format_loop tw weak fmt state k start index f s) (format_loop tw aw fmt state k start index f s)"
proof (induction "length fmt - index" arbitrary: state k start index f s rule: less_induct)
  case less
  show ?case
  proof (cases "index < length fmt")
    case True
    then have IH: "same_unless_refused (format_loop tw weak fmt state' k' start' (Suc index) f' s')
        (format_loop tw aw fmt state' k' start' (Suc index) f' s')" for state' k' start' f' s'
      using less [of "Suc index"] by simp
    show ?thesis using True
      by (subst (1 2) format_loop.simps)
         (cases state; simp only: array_read_nth bind_result_simps Let_def states.case;
          intro same_unless_refused_if same_unless_refused_continue same_unless_refused_refl IH weak)
  next
    case False
    then show ?thesis by (subst (1 2) format_loop.simps) (simp add: same_unless_refused_def array_read_def)
  qed
qed

lemma checked_run:
  "same_unless_refused (format_loop tw (log_checked_writer schar) fmt state k start index f s)
     (format_loop tw (log_argument_writer_step2 schar) fmt state k start index f s)"
  by (rule format_loop_mono) (simp add: same_unless_refused_def log_checked_writer_def)

section \<open>What is logged\<close>

text \<open>The text of an argument under a format character, where the two fit.\<close>

fun log_text :: "bool \<Rightarrow> wchar \<Rightarrow> log_argument \<Rightarrow> wchar list option" where
  "log_text schar c (Arg32 v) =
     (if c = 0x64 then Some (integer_text (sint v)) else if c = 0x75 then Some (digit_text False (unat v))
      else if c = 0x78 then Some (digit_text True (unat v)) else None)"
| "log_text schar c (Arg64 v) =
     (if c = 0x44 then Some (integer_text (sint v)) else if c = 0x55 then Some (digit_text False (unat v))
      else if c = 0x58 \<or> c = 0x70 then Some (digit_text True (unat v)) else None)"
| "log_text schar c (ArgString s) =
     (if c = 0x73 \<and> 0 \<in> set s then Some (map (\<lambda>c. of_int (char_value schar c)) (cstr_text s)) else None)"
| "log_text schar c (ArgWide s) = (if c = 0x53 \<and> 0 \<in> set s then Some (cstr_text s) else None)"

text \<open>The text of a whole log: item \<open>k\<close> takes argument \<open>k\<close> under a one-character format.\<close>

fun log_render :: "bool \<Rightarrow> nat \<Rightarrow> segment list \<Rightarrow> log_argument list \<Rightarrow> wchar list option" where
  "log_render schar k [] args = Some []"
| "log_render schar k (Token str # xs) args = map_option ((@) str) (log_render schar k xs args)"
| "log_render schar k (Item n (Some [c]) # xs) (a # args) =
     (if n = k then (case log_text schar c a of None \<Rightarrow> None | Some t \<Rightarrow> map_option ((@) t) (log_render schar (Suc k) xs args))
      else None)"
| "log_render schar k (Item n f # xs) args = None"

definition number_arg :: "log_argument \<Rightarrow> bool" where
  "number_arg a = (case a of Arg32 v \<Rightarrow> True | Arg64 v \<Rightarrow> True | _ \<Rightarrow> False)"

lemma number_text_lengths:
  fixes v :: u32 and w :: u64
  shows "length (digit_text False (unat v)) < 24" "length (digit_text True (unat v)) < 24"
    "length (digit_text False (unat w)) < 24" "length (digit_text True (unat w)) < 24"
    "length (integer_text (sint v)) < 24" "length (integer_text (sint w)) < 24"
  using digit_text_length [of 10 "unat v" False] digit_text_length [of 10 "unat v" True]
    digit_text_length [of 20 "unat w" False] digit_text_length [of 20 "unat w" True]
    unat_digits [of False 10 v] unat_digits [of True 10 v] unat_digits [of False 20 w] unat_digits [of True 20 w]
    signed_text_length(1) [of v] signed_text_length(2) [of w]
  by simp_all

lemma number_text_short:
  assumes "log_text schar c a = Some t" "number_arg a"
  shows "length t < 24" "0 \<notin> set t"
  using assms by (cases a; auto simp: number_arg_def number_text_lengths digit_text_no_zero split: if_splits)+

lemma log_number_ok:
  assumes "log_text schar c a = Some t"
  shows "log_number c (a # rest) =
    (if number_arg a then Some (Inr (put_text t (replicate 24 0), rest)) else None)"
  using assms
  by (cases a) (auto simp: log_number_def number_arg_def Let_def i32tow_text u32tow_text i64tow_text u64tow_text
      number_text_lengths split: if_splits)

lemma widen_cstr_ok:
  "0 \<in> set s \<Longrightarrow> widen_cstr schar s = Inr (map (\<lambda>c. of_int (char_value schar c)) (cstr_text s) @ [0])"
  by (induction s) (auto simp: cstr_text_def)

lemma cstr_len_put_text [simp]: "0 \<notin> set t \<Longrightarrow> cstr_len (put_text t buffer) = Inr (length t)"
  by (simp add: put_text_def)

lemma text_argument_cases:
  assumes "log_text schar c a = Some t" "\<not> number_arg a"
  obtains s where "a = ArgString s" "c = 0x73" "0 \<in> set s" "t = map (\<lambda>c. of_int (char_value schar c)) (cstr_text s)"
    | s where "a = ArgWide s" "c = 0x53" "c \<noteq> 0x73" "0 \<in> set s" "t = cstr_text s"
  using assms by (cases a) (auto simp: number_arg_def split: if_split_asm)

lemma widened_no_zero: "0 \<notin> set (map (\<lambda>c. of_int (char_value schar c) :: wchar) (cstr_text s))"
proof -
  have "of_int (char_value schar c) \<noteq> (0 :: wchar)" if "c \<noteq> 0" for c
  proof -
    have "char_value schar c \<noteq> 0" "\<bar>char_value schar c\<bar> < 2 ^ 32"
      using that sint_lt [of c] sint_ge [of c] uint_lt2p [of c] uint_ge_0 [of c] signed_eq_0_iff [of c]
        unsigned_eq_0_iff [of c, where ?'a = int]
      by (cases schar; simp add: char_value_def abs_less_iff del: uint_ge_0)+
    then have "\<not> 2 ^ 32 dvd char_value schar c" using zdvd_not_zless [of "\<bar>char_value schar c\<bar>" "2 ^ 32"] by auto
    then show ?thesis by (simp add: of_int_eq_0_iff word_of_int_eq_0_iff)
  qed
  then show ?thesis using cstr_text_no_zero [of s] by (auto simp: image_iff simp del: cstr_text_no_zero) metis
qed

lemma log_step1_item:
  assumes "log_text schar c a = Some t" "va p = a # rest" "log_argumentCount p = n"
  shows "log_argument_writer_step1 n (Some [c]) 1 p =
    Inr (0, p\<lparr>log_argumentCount := (n + 1) mod 2 ^ 16, log_length := (log_length p + length t) mod 2 ^ 16, va := rest\<rparr>)"
proof (cases "number_arg a")
  case True
  then show ?thesis using assms log_number_ok [OF assms(1), of rest] number_text_short [OF assms(1) True]
    by (simp add: log_argument_writer_step1_def Let_def add.commute)
next
  case False
  then show ?thesis using assms log_number_ok [OF assms(1), of rest]
    by (cases rule: text_argument_cases [OF assms(1) False])
       (simp_all add: log_argument_writer_step1_def Let_def cstr_len_iff add.commute)
qed

lemma array_copy_put_at:
  "i + length t \<le> length b \<Longrightarrow> array_copy b i (t @ r) 0 (length t) = Inr (put_at b i t)"
  by (simp add: array_copy_def put_at_def)

lemma log_step2_item:
  assumes "log_text schar c a = Some t" "va p = a # rest" "pBuffer p = (b, i)" "i + length t \<le> length b"
  shows "log_argument_writer_step2 schar n (Some [c]) 1 p =
    Inr (0, p\<lparr>va := rest, pBuffer := (put_at b i t, i + length t)\<rparr>)"
proof (cases "number_arg a")
  case True
  have "length t mod 2 ^ 16 = length t" using number_text_short(1) [OF assms(1) True] by simp
  then show ?thesis using assms True log_number_ok [OF assms(1), of rest] number_text_short(2) [OF assms(1) True]
      array_copy_put_at [of i t b]
    by (simp add: log_argument_writer_step2_def copy_to_buffer_def put_text_def)
next
  case False
  then show ?thesis using assms(1)
  proof (cases rule: text_argument_cases [OF assms(1) False])
    case (1 s)
    then show ?thesis using assms False log_number_ok [OF assms(1), of rest] widened_no_zero [of schar s]
      by (simp add: log_argument_writer_step2_def widen_cstr_ok write_cstr_ok)
  next
    case (2 s)
    then show ?thesis using assms False log_number_ok [OF assms(1), of rest] cstr_text_split [of s]
      by (auto simp: log_argument_writer_step2_def) (metis cstr_text_no_zero write_cstr_ok)
  qed
qed

text \<open>The two passes over the segments.\<close>

lemma log_render_cases:
  assumes "log_render schar k (Item n f # xs) args = Some t"
  obtains c a rest u v where "n = k" "f = Some [c]" "args = a # rest" "log_text schar c a = Some u"
    "log_render schar (Suc k) xs rest = Some v" "t = u @ v"
  using assms
  by (cases "(schar, k, Item n f # xs, args)" rule: log_render.cases) (auto split: if_split_asm option.splits)

lemma pass1_logs:
  assumes "log_render schar (log_argumentCount p) segs (va p) = Some t" "log_length p < 2 ^ 16"
    and "log_argumentCount p + length (items_of segs) < 2 ^ 16"
  shows "log1.run (segs, code) p =
    Inr (code, p\<lparr>va := drop (length (items_of segs)) (va p), log_argumentCount := log_argumentCount p + length (items_of segs),
      log_length := (log_length p + length t) mod 2 ^ 16\<rparr>)"
  using assms
proof (induction segs arbitrary: p t rule: items_of.induct)
  case 1
  then show ?case by simp
next
  case (2 str xs)
  then obtain u where u: "log_render schar (log_argumentCount p) xs (va p) = Some u" "t = str @ u" by auto
  define q where "q = p\<lparr>log_length := (log_length p + length str) mod 2 ^ 16\<rparr>"
  have "log1.run (Token str # xs, code) p = log1.run (xs, code) q"
    by (simp add: log_writer_step1_def q_def)
  then show ?case using 2(1) [of q u] 2(3,4) u by (simp add: q_def mod_simps add.assoc)
next
  case (3 n f xs)
  from 3(2) obtain c a rest u v where i: "n = log_argumentCount p" "f = Some [c]" "va p = a # rest" "log_text schar c a = Some u"
      "log_render schar (Suc n) xs rest = Some v" "t = u @ v"
    by (rule log_render_cases) blast
  define q where "q = p\<lparr>log_argumentCount := Suc n, log_length := (log_length p + length u) mod 2 ^ 16, va := rest\<rparr>"
  have "log1.run (Item n f # xs, code) p = log1.run (xs, code) q"
    using log_step1_item [OF i(4,3), of n] i(1,2) 3(4) by (simp add: format_length_def q_def)
  then show ?case using 3(1) [of q v] 3(3,4) i by (simp add: q_def mod_simps add.assoc)
qed

lemma write_cstr_overrun:
  "0 \<notin> set str \<Longrightarrow> i \<le> length b \<Longrightarrow> length b < i + length str \<Longrightarrow> write_cstr (str @ 0 # r) (b, i) = Inl BadAccess"
  by (induction str arbitrary: b i) (auto simp: array_write_def)

lemma copy_overrun: "length b < i + n \<Longrightarrow> array_copy b i src 0 n = Inl BadAccess"
  by (simp add: array_copy_def)

lemma log_step2_overrun:
  assumes "log_text schar c a = Some t" "va p = a # rest" "pBuffer p = (b, i)" "i \<le> length b" "length b < i + length t"
  shows "log_argument_writer_step2 schar n (Some [c]) 1 p = Inl BadAccess"
proof (cases "number_arg a")
  case True
  have "length t mod 2 ^ 16 = length t" using number_text_short(1) [OF assms(1) True] by simp
  then show ?thesis using assms True log_number_ok [OF assms(1), of rest] number_text_short(2) [OF assms(1) True]
    by (simp add: log_argument_writer_step2_def copy_to_buffer_def copy_overrun)
next
  case False
  then show ?thesis using assms(1)
  proof (cases rule: text_argument_cases [OF assms(1) False])
    case (1 s)
    then show ?thesis using assms False log_number_ok [OF assms(1), of rest] widened_no_zero [of schar s]
      by (simp add: log_argument_writer_step2_def widen_cstr_ok write_cstr_overrun)
  next
    case (2 s)
    then obtain r where "s = cstr_text s @ 0 # r" using cstr_text_split by auto
    then have "write_cstr s (b, i) = Inl BadAccess" using write_cstr_overrun [of "cstr_text s" i b r] 2 assms(4,5) by simp
    then show ?thesis using 2 assms log_number_ok [OF assms(1), of rest] False by (simp add: log_argument_writer_step2_def)
  qed
qed

lemma pass2_logs:
  assumes "log_render schar k segs (va p) = Some t" "pBuffer p = (b, i)" "i + length t \<le> length b"
  shows "log2.run schar (segs, code) p =
    Inr (code, p\<lparr>va := drop (length (items_of segs)) (va p), pBuffer := (put_at b i t, i + length t)\<rparr>)"
  using assms
proof (induction segs arbitrary: p k t b i rule: items_of.induct)
  case 1
  then show ?case by (simp add: put_at_def)
next
  case (2 str xs)
  then obtain u where u: "log_render schar k xs (va p) = Some u" "t = str @ u" by auto
  define q where "q = p\<lparr>pBuffer := (put_at b i str, i + length str)\<rparr>"
  have "log2.run schar (Token str # xs, code) p = log2.run schar (xs, code) q"
    using 2(3,4) u array_copy_put_at [of i str b "[]"] by (simp add: log_writer_step2_def copy_to_buffer_def q_def)
  then show ?case using 2(1) [of k q u] 2(4) u by (simp add: q_def put_at_put_at add.assoc)
next
  case (3 n f xs)
  from 3(2) obtain c a rest u v where i: "n = k" "f = Some [c]" "va p = a # rest" "log_text schar c a = Some u"
      "log_render schar (Suc k) xs rest = Some v" "t = u @ v"
    by (rule log_render_cases) blast
  define q where "q = p\<lparr>va := rest, pBuffer := (put_at b i u, i + length u)\<rparr>"
  have "log2.run schar (Item n f # xs, code) p = log2.run schar (xs, code) q"
    using log_step2_item [OF i(4,3) 3(3)] i 3(4) by (simp add: format_length_def log_checked_writer_def q_def)
  then show ?case using 3(1) [of "Suc k" q v] 3(4) i by (simp add: q_def put_at_put_at add.assoc)
qed

lemma pass2_overruns:
  assumes "log_render schar k segs (va p) = Some t" "pBuffer p = (b, i)" "i \<le> length b" "length b < i + length t"
  shows "log2.run schar (segs, code) p = Inl BadAccess"
  using assms
proof (induction segs arbitrary: p k t b i rule: items_of.induct)
  case 1
  then show ?case by simp
next
  case (2 str xs)
  then obtain u where u: "log_render schar k xs (va p) = Some u" "t = str @ u" by auto
  define q where "q = p\<lparr>pBuffer := (put_at b i str, i + length str)\<rparr>"
  show ?case
  proof (cases "i + length str \<le> length b")
    case True
    then have "log2.run schar (Token str # xs, code) p = log2.run schar (xs, code) q"
      using 2(3) array_copy_put_at [of i str b "[]"] by (simp add: log_writer_step2_def copy_to_buffer_def q_def)
    then show ?thesis using 2(1) [of k q u "put_at b i str" "i + length str"] 2(5) u True by (simp add: q_def)
  next
    case False
    then show ?thesis using 2(3) by (simp add: log_writer_step2_def copy_to_buffer_def copy_overrun and_continue_def)
  qed
next
  case (3 n f xs)
  from 3(2) obtain c a rest u v where i: "n = k" "f = Some [c]" "va p = a # rest" "log_text schar c a = Some u"
      "log_render schar (Suc k) xs rest = Some v" "t = u @ v"
    by (rule log_render_cases) blast
  define q where "q = p\<lparr>va := rest, pBuffer := (put_at b i u, i + length u)\<rparr>"
  show ?case
  proof (cases "i + length u \<le> length b")
    case True
    then have "log2.run schar (Item n f # xs, code) p = log2.run schar (xs, code) q"
      using log_step2_item [OF i(4,3) 3(3)] i by (simp add: format_length_def log_checked_writer_def q_def)
    then show ?thesis using 3(1) [of "Suc k" q v "put_at b i u" "i + length u"] 3(5) i True by (simp add: q_def)
  next
    case False
    then show ?thesis using log_step2_overrun [OF i(4,3) 3(3,4)] i
      by (simp add: format_length_def log_checked_writer_def and_continue_def)
  qed
qed

text \<open>The length wraps at \<open>2 ^ 16\<close>, so the buffer of a longer text is too small.\<close>

lemma debug_log_result:
  assumes "0 \<notin> set str" "segments str = (segs, 0)" "length (items_of segs) < 2 ^ 16"
    and "log_render schar 0 segs args = Some t"
  shows "il2c_runtime_debug_log_format schar (str @ 0 # r) args =
    (if length t < 2 ^ 16 then Inr (Some (t @ [0x0D, 0x0A, 0])) else Inl BadAccess)"
proof -
  define st where "st = \<lparr>va = args, log_argumentCount = 0, log_length = 0, pBuffer = ([], 0)\<rparr>"
  let ?n = "length (items_of segs)" and ?l = "length t mod 2 ^ 16"
  let ?b = "replicate (?l + 3) 0"
  have p1: "il2c_format_string (str @ 0 # r) log_writer_step1 log_argument_writer_step1 st =
      Inr (0, st\<lparr>va := drop ?n args, log_argumentCount := ?n, log_length := ?l\<rparr>)"
    using log1.engine_equals_reader [OF assms(1), of r st] pass1_logs [of schar st segs t 0] assms
    by (simp add: st_def)
  define st2 where "st2 = st\<lparr>va := args, log_argumentCount := ?n, log_length := ?l, pBuffer := (?b, 0)\<rparr>"
  define p2 where "p2 = il2c_format_string (str @ 0 # r) log_writer_step2 (log_argument_writer_step2 schar) st2"
  have unrefused: "p2 = log2.run schar (segs, 0) st2" if "log2.run schar (segs, 0) st2 \<noteq> Inl AssertionFailed"
    using that log2.engine_equals_reader [OF assms(1), of r schar st2] assms(2)
      checked_run [of log_writer_step2 schar "str @ 0 # r" state_fetch 0 0 0 0 st2]
    by (auto simp: p2_def il2c_format_string_def same_unless_refused_def)
  have log: "il2c_runtime_debug_log_format schar (str @ 0 # r) args =
      bind_result p2 (\<lambda>(result, state). if result = 0 then (let (b, i) = pBuffer state in
          bind_result (array_write b i 0x0D) (\<lambda>b. bind_result (array_write b (i + 1) 0x0A) (\<lambda>b.
          bind_result (array_write b (i + 2) 0) (\<lambda>b. Inr (Some b))))) else Inr None)"
    using p1 by (simp add: il2c_runtime_debug_log_format_def IL2C_STRING_FORMAT_SUCCEEDED_def st_def st2_def p2_def)
  show ?thesis
  proof (cases "length t < 2 ^ 16")
    case True
    then have "p2 = Inr (0, st2\<lparr>va := drop ?n args, pBuffer := (put_at ?b 0 t, length t)\<rparr>)"
      using unrefused pass2_logs [of schar 0 segs st2 t ?b 0 0] assms by (simp add: st2_def st_def)
    moreover have "put_at ?b 0 t = t @ [0, 0, 0]" using True by (simp add: put_at_def) (simp add: numeral_3_eq_3)
    ultimately show ?thesis using True log by (simp add: list_update_append)
  next
    case False
    then have "?l + 2 ^ 16 \<le> length t" using mod_less_eq_dividend [of "length t - 2 ^ 16" "2 ^ 16"]
        le_mod_geq [of "2 ^ 16" "length t"] by linarith
    then have "p2 = Inl BadAccess"
      using unrefused pass2_overruns [of schar 0 segs st2 t ?b 0 0] assms by (simp add: st2_def st_def)
    then show ?thesis using False log by simp
  qed
qed

section \<open>Properties\<close>



end
