(* ===== verification/Debug_Heap.thy ===== *)
theory Debug_Heap
  imports Boxing
begin

text \<open>
  The debug heap (src/Platform/heap.c, \<open>IL2C_USE_DEBUG_HEAP\<close>): every block gets a header in
  front of it and a guard word on either side, and \<open>il2c_free\<close> asserts that both guard
  words are unchanged.  Memory is bytes; the C allocator below is an argument, and so are the
  thread's identity and the allocation index to stop at.
\<close>

section \<open>Operations\<close>

record debug_heap =
  heap_bytes :: bytes
  g_HeapAllocationIndex :: int

text \<open>The members of \<open>IL2C_DEBUG_HEAP\<close> by their offsets.\<close>

definition off_Size :: nat where "off_Size = 0"
definition off_pFile :: nat where "off_pFile = 8"
definition off_Line :: nat where "off_Line = 16"
definition off_Index :: nat where "off_Index = 24"
definition off_AllocateId :: nat where "off_AllocateId = 32"
definition off_FreeId :: nat where "off_FreeId = 36"
definition off_HeadGuardBytes :: nat where "off_HeadGuardBytes = 40"
definition sizeof_DEBUG_HEAP :: nat where "sizeof_DEBUG_HEAP = 48"

definition IL2C_HEAP_GUARD_BYTES :: int where "IL2C_HEAP_GUARD_BYTES = 0xfdfdfdfdfdfdfdfd"

definition memset :: "bytes \<Rightarrow> addr \<Rightarrow> u8 \<Rightarrow> nat \<Rightarrow> bytes" where
  "memset v p c n = (\<lambda>a. if p \<le> a \<and> a < p + n then c else v a)"

definition il2c_malloc ::
  "bool \<Rightarrow> (nat \<Rightarrow> addr) \<Rightarrow> int \<Rightarrow> int \<Rightarrow> debug_heap \<Rightarrow> nat \<Rightarrow> addr \<Rightarrow> int \<Rightarrow> (debug_heap \<times> addr) result" where
  "il2c_malloc big malloc tid break_alloc h n pFile line =
     (let p0 = malloc ((sizeof_DEBUG_HEAP + n + 8) mod 2 ^ 64) in
      if p0 = NULL then Inr (h, NULL)
      else
        let v = store_int big (heap_bytes h) (p0 + off_Size) 8 (int n);
            v = store_int big v (p0 + off_pFile) 8 (int pFile);
            v = store_int big v (p0 + off_Line) 4 line;
            index = g_HeapAllocationIndex h + 1 in
        il2c_assert (index \<noteq> break_alloc)
        (let v = store_int big v (p0 + off_Index) 8 index;
             v = store_int big v (p0 + off_AllocateId) 4 tid;
             v = store_int big v (p0 + off_FreeId) 4 (- (2 ^ 31));
             v = store_int big v (p0 + off_HeadGuardBytes) 8 IL2C_HEAP_GUARD_BYTES;
             p = p0 + sizeof_DEBUG_HEAP;
             v = memset v p 0xcc n;
             v = store_int big v (p + n) 8 IL2C_HEAP_GUARD_BYTES in
         Inr (\<lparr>heap_bytes = v, g_HeapAllocationIndex = index\<rparr>, p)))"

text \<open>The block that goes back to the C allocator is part of the result.\<close>

definition il2c_free_block :: "bool \<Rightarrow> int \<Rightarrow> debug_heap \<Rightarrow> addr \<Rightarrow> (debug_heap \<times> addr option) result" where
  "il2c_free_block big tid h p =
     (if p = NULL then Inr (h, None)
      else
        let p0 = p - sizeof_DEBUG_HEAP;
            v = store_int big (heap_bytes h) (p0 + off_FreeId) 4 tid in
        il2c_assert (load_uint big v (p0 + off_HeadGuardBytes) 8 = IL2C_HEAP_GUARD_BYTES)
        (let n = nat (load_uint big v (p0 + off_Size) 8) in
         il2c_assert (load_uint big v (p + n) 8 = IL2C_HEAP_GUARD_BYTES)
           (Inr (h\<lparr>heap_bytes := memset v p 0xdd n\<rparr>, Some p0))))"

section \<open>Bytes\<close>

lemma load_same:
  assumes "\<And>a. p \<le> a \<Longrightarrow> a < p + n \<Longrightarrow> v a = w a"
  shows "load_uint big v p n = load_uint big w p n"
proof -
  have "map v [p..<p + n] = map w [p..<p + n]" using assms by simp
  then show ?thesis by (simp only: load_uint_def)
qed

lemma load_store_other:
  "q + m \<le> p \<or> p + n \<le> q \<Longrightarrow> load_uint big (store_int big' v q m x) p n = load_uint big v p n"
  by (rule load_same) (auto simp: store_int_def)

lemma load_memset_other: "q + m \<le> p \<or> p + n \<le> q \<Longrightarrow> load_uint big (memset v q c m) p n = load_uint big v p n"
  by (rule load_same) (auto simp: memset_def)

lemma store_outside: "a < q \<or> q + m \<le> a \<Longrightarrow> store_int big v q m x a = v a"
  by (auto simp: store_int_def)

lemma memset_outside: "a < q \<or> q + m \<le> a \<Longrightarrow> memset v q c m a = v a"
  by (auto simp: memset_def)

lemma le_value_inject: "length bs = length cs \<Longrightarrow> le_value bs = le_value cs \<longleftrightarrow> bs = cs"
proof (induction bs arbitrary: cs)
  case Nil
  then show ?case by simp
next
  case (Cons b bs)
  then obtain c ds where cs: "cs = c # ds" "length bs = length ds" by (cases cs) auto
  have "x + 256 * y = x' + 256 * y' \<longleftrightarrow> x = x' \<and> y = y'" if "0 \<le> x" "x < 256" "0 \<le> x'" "x' < 256" for x x' y y' :: int
  proof
    assume eq: "x + 256 * y = x' + 256 * y'"
    then have "(x + 256 * y) mod 256 = (x' + 256 * y') mod 256" by (rule arg_cong)
    then have "x = x'" using that by simp
    then show "x = x' \<and> y = y'" using eq by simp
  qed simp
  then have "uint b + 256 * le_value bs = uint c + 256 * le_value ds \<longleftrightarrow> uint b = uint c \<and> le_value bs = le_value ds"
    using uint_lt2p [of b] uint_lt2p [of c] uint_ge_0 [of b] uint_ge_0 [of c] by simp
  then show ?case using Cons.IH [OF cs(2)] by (simp add: cs word_uint_eq_iff)
qed

text \<open>A loaded integer tells whether any of its bytes has changed.\<close>

lemma load_changed:
  "load_uint big v p n = load_uint big w p n \<longleftrightarrow> (\<forall>a. p \<le> a \<and> a < p + n \<longrightarrow> v a = w a)"
proof -
  have "load_uint big v p n = load_uint big w p n \<longleftrightarrow> in_order big (map v [p..<p + n]) = in_order big (map w [p..<p + n])"
    unfolding load_uint_def by (rule le_value_inject) simp
  also have "\<dots> \<longleftrightarrow> map v [p..<p + n] = map w [p..<p + n]" by (metis in_order_facts(2))
  finally show ?thesis by auto
qed

section \<open>A block\<close>

lemmas heap_offsets = off_Size_def off_pFile_def off_Line_def off_Index_def off_AllocateId_def off_FreeId_def
  off_HeadGuardBytes_def sizeof_DEBUG_HEAP_def

definition block_made :: "bool \<Rightarrow> debug_heap \<Rightarrow> debug_heap \<Rightarrow> addr \<Rightarrow> nat \<Rightarrow> bool" where
  "block_made big h h' p n \<longleftrightarrow> sizeof_DEBUG_HEAP \<le> p \<and> g_HeapAllocationIndex h' = g_HeapAllocationIndex h + 1 \<and>
     load_uint big (heap_bytes h') (p - sizeof_DEBUG_HEAP) 8 = int n \<and>
     load_uint big (heap_bytes h') (p - 8) 8 = IL2C_HEAP_GUARD_BYTES \<and>
     load_uint big (heap_bytes h') (p + n) 8 = IL2C_HEAP_GUARD_BYTES \<and>
     (\<forall>a. p \<le> a \<and> a < p + n \<longrightarrow> heap_bytes h' a = 0xcc) \<and>
     (\<forall>a. a < p - sizeof_DEBUG_HEAP \<or> p + n + 8 \<le> a \<longrightarrow> heap_bytes h' a = heap_bytes h a)"

lemma malloc_result:
  assumes p0: "malloc ((sizeof_DEBUG_HEAP + n + 8) mod 2 ^ 64) = p0" "p0 \<noteq> NULL"
    and index: "g_HeapAllocationIndex h + 1 \<noteq> break_alloc" and n: "sizeof_DEBUG_HEAP + n + 8 < 2 ^ 64"
  shows "\<exists>h'. il2c_malloc big malloc tid break_alloc h n pFile line = Inr (h', p0 + sizeof_DEBUG_HEAP) \<and>
    block_made big h h' (p0 + sizeof_DEBUG_HEAP) n"
proof -
  let ?g = "\<lambda>v a k x. store_int big v (p0 + a) k x"
  define head where "head = ?g (?g (?g (?g (?g (?g (?g (heap_bytes h) off_Size 8 (int n)) off_pFile 8 (int pFile)) off_Line 4 line)
    off_Index 8 (g_HeapAllocationIndex h + 1)) off_AllocateId 4 tid) off_FreeId 4 (- (2 ^ 31))) off_HeadGuardBytes 8 IL2C_HEAP_GUARD_BYTES"
  define v where "v = store_int big (memset head (p0 + sizeof_DEBUG_HEAP) 0xcc n) (p0 + sizeof_DEBUG_HEAP + n) 8 IL2C_HEAP_GUARD_BYTES"
  have run: "il2c_malloc big malloc tid break_alloc h n pFile line =
      Inr (\<lparr>heap_bytes = v, g_HeapAllocationIndex = g_HeapAllocationIndex h + 1\<rparr>, p0 + sizeof_DEBUG_HEAP)"
    using p0 index by (simp only: il2c_malloc_def Let_def if_False il2c_assert_def if_True simp_thms v_def head_def)
  have guard: "to_uint 8 IL2C_HEAP_GUARD_BYTES = IL2C_HEAP_GUARD_BYTES" by (simp add: to_uint_def IL2C_HEAP_GUARD_BYTES_def)
  have size: "to_uint 8 (int n) = int n" using n by (simp add: to_uint_def sizeof_DEBUG_HEAP_def)
  have "load_uint big v p0 8 = load_uint big head p0 8"
    unfolding v_def by (subst load_store_other, simp add: heap_offsets, subst load_memset_other, simp add: heap_offsets, rule refl)
  also have "\<dots> = int n"
    unfolding head_def by (simp add: load_store_other heap_offsets load_store size)
  finally have 1: "load_uint big v p0 8 = int n" .
  have "load_uint big v (p0 + 40) 8 = load_uint big head (p0 + 40) 8"
    unfolding v_def by (subst load_store_other, simp add: heap_offsets, subst load_memset_other, simp add: heap_offsets, rule refl)
  also have "\<dots> = IL2C_HEAP_GUARD_BYTES" unfolding head_def off_HeadGuardBytes_def by (simp only: load_store guard)
  finally have 2: "load_uint big v (p0 + 40) 8 = IL2C_HEAP_GUARD_BYTES" .
  have 3: "load_uint big v (p0 + sizeof_DEBUG_HEAP + n) 8 = IL2C_HEAP_GUARD_BYTES" unfolding v_def by (simp only: load_store guard)
  have 4: "v a = 0xcc" if "p0 + sizeof_DEBUG_HEAP \<le> a" "a < p0 + sizeof_DEBUG_HEAP + n" for a
    using that by (simp add: v_def store_int_def memset_def)
  have 5: "v a = heap_bytes h a" if "a < p0 \<or> p0 + sizeof_DEBUG_HEAP + n + 8 \<le> a" for a
    using that by (elim disjE) (simp_all add: v_def head_def store_outside memset_outside heap_offsets)
  show ?thesis using run 1 2 3 4 5
    by (intro exI [of _ "\<lparr>heap_bytes = v, g_HeapAllocationIndex = g_HeapAllocationIndex h + 1\<rparr>"])
      (simp add: block_made_def sizeof_DEBUG_HEAP_def add.commute)
qed

lemma free_result:
  assumes made: "block_made big h h' p n" and n: "n < 2 ^ 64"
    and size_kept: "\<forall>a. p - sizeof_DEBUG_HEAP \<le> a \<and> a < p - sizeof_DEBUG_HEAP + 8 \<longrightarrow> w a = heap_bytes h' a"
  shows "il2c_free_block big tid (h'\<lparr>heap_bytes := w\<rparr>) p =
    (if \<forall>a. p - 8 \<le> a \<and> a < p \<or> p + n \<le> a \<and> a < p + n + 8 \<longrightarrow> w a = heap_bytes h' a
     then Inr (h'\<lparr>heap_bytes := memset (store_int big w (p - 12) 4 tid) p 0xdd n\<rparr>, Some (p - sizeof_DEBUG_HEAP))
     else Inl AssertionFailed)"
proof -
  define p0 where "p0 = p - sizeof_DEBUG_HEAP"
  have p: "p = p0 + 48" using made by (simp add: block_made_def p0_def sizeof_DEBUG_HEAP_def)
  define v where "v = store_int big w (p0 + 36) 4 tid"
  have loads: "load_uint big v p0 8 = load_uint big w p0 8" "load_uint big v (p0 + 40) 8 = load_uint big w (p0 + 40) 8"
      "load_uint big v (p + n) 8 = load_uint big w (p + n) 8"
    unfolding v_def by (subst load_store_other, simp add: p, rule refl)+
  have facts: "load_uint big (heap_bytes h') p0 8 = int n" "load_uint big (heap_bytes h') (p0 + 40) 8 = IL2C_HEAP_GUARD_BYTES"
      "load_uint big (heap_bytes h') (p + n) 8 = IL2C_HEAP_GUARD_BYTES"
    using made by (simp_all add: block_made_def p sizeof_DEBUG_HEAP_def add.commute)
  have "load_uint big w p0 8 = load_uint big (heap_bytes h') p0 8"
    using size_kept by (intro load_same) (simp add: p0_def)
  then have size: "nat (load_uint big v p0 8) = n" using loads(1) facts(1) by simp
  have guards: "load_uint big v (p0 + 40) 8 = IL2C_HEAP_GUARD_BYTES \<longleftrightarrow> (\<forall>a. p0 + 40 \<le> a \<and> a < p0 + 48 \<longrightarrow> w a = heap_bytes h' a)"
      "load_uint big v (p + n) 8 = IL2C_HEAP_GUARD_BYTES \<longleftrightarrow> (\<forall>a. p + n \<le> a \<and> a < p + n + 8 \<longrightarrow> w a = heap_bytes h' a)"
    unfolding loads using load_changed [of big w "p0 + 40" 8 "heap_bytes h'"] load_changed [of big w "p + n" 8 "heap_bytes h'"] facts(2,3)
    by (simp_all add: add.commute)
  have free: "il2c_free_block big tid (h'\<lparr>heap_bytes := w\<rparr>) p =
      il2c_assert (load_uint big v (p0 + 40) 8 = IL2C_HEAP_GUARD_BYTES)
       (il2c_assert (load_uint big v (p + n) 8 = IL2C_HEAP_GUARD_BYTES)
         (Inr (h'\<lparr>heap_bytes := memset v p 0xdd n\<rparr>, Some p0)))"
    using size by (simp add: il2c_free_block_def Let_def p v_def heap_offsets)
  show ?thesis unfolding free guards by (auto simp: il2c_assert_def p v_def sizeof_DEBUG_HEAP_def add.commute)
qed

section \<open>Property\<close>

text \<open>
  C39: the debug heap catches every overrun into its guard words and nothing else.  When the
  C allocator has memory, \<open>il2c_malloc\<close> makes a block of the requested size filled with
  0xcc and touches nothing outside it; and when the block is freed later, with the recorded
  size still in place, \<open>il2c_free\<close> fails exactly when some byte of one of the two guard
  words has changed.  Otherwise it overwrites the body with 0xdd and gives the block back.
\<close>

theorem debug_heap_detects_overruns:
  assumes "malloc ((sizeof_DEBUG_HEAP + n + 8) mod 2 ^ 64) \<noteq> NULL" and "g_HeapAllocationIndex h + 1 \<noteq> break_alloc"
    and "sizeof_DEBUG_HEAP + n + 8 < 2 ^ 64"
  shows "\<exists>h' p. il2c_malloc big malloc tid break_alloc h n pFile line = Inr (h', p) \<and>
    (\<forall>a. p \<le> a \<and> a < p + n \<longrightarrow> heap_bytes h' a = 0xcc) \<and>
    (\<forall>a. a < p - sizeof_DEBUG_HEAP \<or> p + n + 8 \<le> a \<longrightarrow> heap_bytes h' a = heap_bytes h a) \<and>
    (\<forall>w. (\<forall>a. p - sizeof_DEBUG_HEAP \<le> a \<and> a < p - sizeof_DEBUG_HEAP + 8 \<longrightarrow> w a = heap_bytes h' a) \<longrightarrow>
      il2c_free_block big tid' (h'\<lparr>heap_bytes := w\<rparr>) p =
        (if \<forall>a. p - 8 \<le> a \<and> a < p \<or> p + n \<le> a \<and> a < p + n + 8 \<longrightarrow> w a = heap_bytes h' a
         then Inr (h'\<lparr>heap_bytes := memset (store_int big w (p - 12) 4 tid') p 0xdd n\<rparr>, Some (p - sizeof_DEBUG_HEAP))
         else Inl AssertionFailed))"
proof -
  from malloc_result [where malloc = malloc and n = n and ?p0.0 = "malloc ((sizeof_DEBUG_HEAP + n + 8) mod 2 ^ 64)", OF refl assms(1-3)] obtain h' where
    h': "il2c_malloc big malloc tid break_alloc h n pFile line =
          Inr (h', malloc ((sizeof_DEBUG_HEAP + n + 8) mod 2 ^ 64) + sizeof_DEBUG_HEAP)"
      "block_made big h h' (malloc ((sizeof_DEBUG_HEAP + n + 8) mod 2 ^ 64) + sizeof_DEBUG_HEAP) n" by blast
  have "n < 2 ^ 64" using assms(3) by simp
  note free = free_result [OF h'(2) this]
  show ?thesis
    using h' free
    by (intro exI [of _ h'] exI [of _ "malloc ((sizeof_DEBUG_HEAP + n + 8) mod 2 ^ 64) + sizeof_DEBUG_HEAP"] conjI)
      (simp_all add: block_made_def)
qed

text \<open>A block of 5 bytes; writing byte 5, one past its end, is caught.\<close>

lemma debug_heap_detects_overruns_witness:
  "\<exists>h' p. il2c_malloc False (\<lambda>_. 1000) 1 0 \<lparr>heap_bytes = (\<lambda>_. 0), g_HeapAllocationIndex = 0\<rparr> 5 0 0 = Inr (h', p) \<and>
     heap_bytes h' p = 0xcc \<and>
     (\<forall>c. c \<noteq> heap_bytes h' (p + 5) \<longrightarrow>
       il2c_free_block False 1 (h'\<lparr>heap_bytes := (heap_bytes h')(p + 5 := c)\<rparr>) p = Inl AssertionFailed)"
proof -
  obtain h' p where h': "il2c_malloc False (\<lambda>_. 1000) 1 0 \<lparr>heap_bytes = (\<lambda>_. 0), g_HeapAllocationIndex = 0\<rparr> 5 0 0 = Inr (h', p)"
      "\<forall>a. p \<le> a \<and> a < p + 5 \<longrightarrow> heap_bytes h' a = 0xcc"
    and free: "\<forall>w. (\<forall>a. p - sizeof_DEBUG_HEAP \<le> a \<and> a < p - sizeof_DEBUG_HEAP + 8 \<longrightarrow> w a = heap_bytes h' a) \<longrightarrow>
      il2c_free_block False 1 (h'\<lparr>heap_bytes := w\<rparr>) p =
        (if \<forall>a. p - 8 \<le> a \<and> a < p \<or> p + 5 \<le> a \<and> a < p + 5 + 8 \<longrightarrow> w a = heap_bytes h' a
         then Inr (h'\<lparr>heap_bytes := memset (store_int False w (p - 12) 4 1) p 0xdd 5\<rparr>, Some (p - sizeof_DEBUG_HEAP))
         else Inl AssertionFailed)"
    using debug_heap_detects_overruns [of "\<lambda>_. 1000" 5 "\<lparr>heap_bytes = (\<lambda>_. 0), g_HeapAllocationIndex = 0\<rparr>" 0 False 1 0 0 1]
    by (auto simp: sizeof_DEBUG_HEAP_def)
  have p: "p = 1048" using h'(1) by (simp add: il2c_malloc_def Let_def sizeof_DEBUG_HEAP_def)
  have "il2c_free_block False 1 (h'\<lparr>heap_bytes := (heap_bytes h')(p + 5 := c)\<rparr>) p = Inl AssertionFailed"
    if "c \<noteq> heap_bytes h' (p + 5)" for c
  proof -
    have "\<not> (\<forall>a. p - 8 \<le> a \<and> a < p \<or> p + 5 \<le> a \<and> a < p + 5 + 8 \<longrightarrow> ((heap_bytes h')(p + 5 := c)) a = heap_bytes h' a)"
      using that by (auto intro: exI [of _ "p + 5"])
    moreover have "\<forall>a. p - sizeof_DEBUG_HEAP \<le> a \<and> a < p - sizeof_DEBUG_HEAP + 8 \<longrightarrow> ((heap_bytes h')(p + 5 := c)) a = heap_bytes h' a"
      by (simp add: p sizeof_DEBUG_HEAP_def)
    ultimately show ?thesis using free [rule_format, of "(heap_bytes h')(p + 5 := c)"] by (simp only: if_False)
  qed
  then show ?thesis using h' by (intro exI [of _ h'] exI [of _ p]) simp
qed

end
