(* ===== verification/Console_Line.thy ===== *)
theory Console_Line
  imports Primitive_Types
begin

text \<open>
  System.Console (src/System/Console.c) and the line input below it: \<open>il2c_readline\<close> of
  src/Platform/linux.c, which cuts the line end off what \<open>fgetws\<close> has read, and of
  src/Platform/uefi.c, which is a line editor over key strokes.  What the console gets is a
  list of outputs; the standard input is a list of characters, the keyboard a list of keys.
\<close>

section \<open>System.Console\<close>

datatype console = Write "wchar list" | WriteLine "wchar list"

definition System_Console_Write :: "strings \<Rightarrow> addr \<Rightarrow> console list result" where
  "System_Console_Write s text =
     (if text \<noteq> NULL then bind_result (get_string s text) (\<lambda>b. Inr [Write (cstr_text b)]) else Inr [])"

definition System_Console_WriteLine :: "console list" where
  "System_Console_WriteLine = [WriteLine []]"

definition System_Console_WriteLine_Int32 :: "u32 \<Rightarrow> console list result" where
  "System_Console_WriteLine_Int32 n = bind_result (il2c_i32tow n (replicate 14 0) 10) (\<lambda>b. Inr [WriteLine (cstr_text b)])"

definition System_Console_WriteLine_String :: "strings \<Rightarrow> addr \<Rightarrow> console list result" where
  "System_Console_WriteLine_String s text =
     (if text \<noteq> NULL then bind_result (get_string s text) (\<lambda>b. Inr [WriteLine (cstr_text b)]) else Inr [])"

definition MAX_READLINE :: nat where "MAX_READLINE = 128"

text \<open>\<open>il2c_readline\<close> fills a buffer of the size given, or answers false.\<close>

definition System_Console_ReadLine :: "(nat \<Rightarrow> wchar list option) \<Rightarrow> strings \<Rightarrow> addr \<Rightarrow> (addr \<times> strings) result" where
  "System_Console_ReadLine readline s pNew =
     (case readline MAX_READLINE of None \<Rightarrow> Inr (NULL, s) | Some buffer \<Rightarrow> il2c_new_string s pNew buffer)"

section \<open>Line input on Linux\<close>

text \<open>\<open>fgetws\<close>: at most \<open>n - 1\<close> characters, the line end included.\<close>

definition fgetws :: "nat \<Rightarrow> wchar list \<Rightarrow> (wchar list \<times> wchar list) option" where
  "fgetws n input =
     (if input = [] then None
      else let k = min (n - 1) (min (length input) (length (takeWhile (\<lambda>c. c \<noteq> 0x0A) input) + 1)) in
        Some (take k input @ [0], drop k input))"

definition wcschr :: "wchar list \<Rightarrow> wchar \<Rightarrow> nat option" where
  "wcschr buffer c = (let k = length (takeWhile (\<lambda>d. d \<noteq> c) (cstr_text buffer)) in
     if k < length (cstr_text buffer) then Some k else None)"

definition il2c_readline_linux :: "wchar list \<Rightarrow> int \<Rightarrow> wchar list option result \<times> wchar list" where
  "il2c_readline_linux input len =
     (if len < 1 then (Inl AssertionFailed, input)
      else case fgetws (nat (len - 1)) input of
        None \<Rightarrow> (Inr None, input)
      | Some (buffer, rest) \<Rightarrow>
          let cut = (\<lambda>k. bind_result (array_write buffer k 0) (\<lambda>b. Inr (Some b))) in
          (case (wcschr buffer 0x0D, wcschr buffer 0x0A) of
             (Some cr, Some lf) \<Rightarrow> (cut (if lf = cr + 1 then cr else lf), rest)
           | (None, Some lf) \<Rightarrow> (cut lf, rest)
           | (Some cr, None) \<Rightarrow> (cut cr, rest)
           | (None, None) \<Rightarrow> (Inr None, rest)))"

section \<open>Line input on UEFI\<close>

record efi_input_key =
  ScanCode :: u16
  UnicodeChar :: u16

text \<open>
  The loop over the keys: \<open>None\<close> in the list is a key stroke that could not be read, the
  outputs go to the screen.  The result is \<open>None\<close> while the loop waits for a further key.
\<close>

type_synonym keys = "efi_input_key option list"
type_synonym edited = "(u16 list \<times> nat \<times> u16 list list \<times> keys) result option"

function edit_line :: "int \<Rightarrow> keys \<Rightarrow> u16 list \<Rightarrow> nat \<Rightarrow> u16 list list \<Rightarrow> edited"
  and wait_key :: "int \<Rightarrow> keys \<Rightarrow> u16 list \<Rightarrow> nat \<Rightarrow> u16 list list \<Rightarrow> edited" where
  "edit_line len ks buffer index out =
     (if int index + 1 < len then wait_key len ks buffer index (out @ [[0x5F]]) else Some (Inr (buffer, index, out, ks)))"
| "wait_key len [] buffer index out = None"
| "wait_key len (None # ks) buffer index out = wait_key len ks buffer index out"
| "wait_key len (Some k # ks) buffer index out =
     (if ScanCode k \<noteq> 0 then wait_key len ks buffer index out
      else let out = out @ [[0x08, 0x20, 0x08]] in
        if UnicodeChar k < 0x20 then
          if UnicodeChar k = 0x08 then
            if index \<ge> 1 then edit_line len ks buffer (index - 1) (out @ [[0x08]]) else edit_line len ks buffer index out
          else if UnicodeChar k = 0x0D then Some (Inr (buffer, index, out, ks))
          else edit_line len ks buffer index out
        else (case array_write buffer index (UnicodeChar k) of
                Inl e \<Rightarrow> Some (Inl e)
              | Inr buffer \<Rightarrow> edit_line len ks buffer (index + 1) (out @ [[UnicodeChar k]])))"
  by pat_completeness auto
termination
  by (relation "measure (\<lambda>x. case x of Inl (_, ks, _) \<Rightarrow> 2 * length ks + 1 | Inr (_, ks, _) \<Rightarrow> 2 * length ks)") auto

declare edit_line.simps [simp del]

definition il2c_readline_uefi :: "u16 list \<Rightarrow> int \<Rightarrow> keys \<Rightarrow> (u16 list \<times> u16 list list \<times> keys) result option" where
  "il2c_readline_uefi buffer len ks =
     map_option (\<lambda>r. bind_result r (\<lambda>(buffer, index, out, ks).
       bind_result (array_write buffer index 0) (\<lambda>buffer. Inr (buffer, out @ [[0x0D, 0x0A]], ks))))
     (edit_line len ks buffer 0 [])"

section \<open>The console\<close>

text \<open>The console gets the decimal text of an integer; a null string is not written, nor is its line end.\<close>

lemma console_integer: "System_Console_WriteLine_Int32 n = Inr [WriteLine (integer_text (sint n))]"
proof -
  have "\<bar>sint n\<bar> < 10 ^ 10" using sint_lt [of n] sint_ge [of n] by (simp add: abs_less_iff)
  then have "length (integer_text (sint n)) < 14" by (rule text_fits) simp_all
  then show ?thesis by (simp add: System_Console_WriteLine_Int32_def i32tow_text)
qed

lemma console_null_line: "System_Console_WriteLine_String s NULL = Inr []"
  by (simp add: System_Console_WriteLine_String_def)

section \<open>Lines of text\<close>

lemma fgetws_line:
  assumes "0x0A \<notin> set line" "length line + 1 < n"
  shows "fgetws n (line @ 0x0A # rest) = Some (line @ [0x0A, 0], rest)"
proof -
  have "takeWhile (\<lambda>c. c \<noteq> 0x0A) (line @ 0x0A # rest) = line" using assms(1) by (auto simp: takeWhile_append)
  then show ?thesis using assms(2) by (simp add: fgetws_def Let_def)
qed

lemma wcschr_end:
  "0 \<notin> set line \<Longrightarrow> c \<notin> set line \<Longrightarrow> c \<noteq> 0 \<Longrightarrow> wcschr (line @ c # r @ [0]) c = Some (length line)"
  "0 \<notin> set line \<Longrightarrow> c \<notin> set line \<Longrightarrow> wcschr (line @ [0]) c = None"
proof -
  assume *: "0 \<notin> set line" "c \<notin> set line"
  have none: "takeWhile (\<lambda>d. d \<noteq> c) line = line" using *(2) by (auto simp: takeWhile_eq_all_conv)
  show "wcschr (line @ [0]) c = None" using *(1) unfolding wcschr_def Let_def by (simp add: none del: takeWhile_eq_all_conv)
  assume "c \<noteq> 0"
  moreover have "takeWhile (\<lambda>d. d \<noteq> 0) line = line" using *(1) by (auto simp: takeWhile_eq_all_conv)
  ultimately have "cstr_text (line @ c # r @ [0]) = line @ c # cstr_text (r @ [0])"
    using *(1) by (auto simp: cstr_text_def takeWhile_append)
  moreover have "takeWhile (\<lambda>d. d \<noteq> c) (line @ c # x) = line" for x using *(2) by (auto simp: takeWhile_append)
  ultimately show "wcschr (line @ c # r @ [0]) c = Some (length line)" by (simp add: wcschr_def)
qed

text \<open>A line comes back without its line end, in the Unix or the DOS form.\<close>

lemma linux_reads_line:
  assumes "\<forall>c \<in> set line. c \<noteq> 0 \<and> c \<noteq> 0x0A \<and> c \<noteq> 0x0D" "int (length line) + 3 < len"
  shows "\<exists>r. il2c_readline_linux (line @ 0x0A # rest) len = (Inr (Some (line @ 0 # r)), rest)"
    "\<exists>r. il2c_readline_linux (line @ 0x0D # 0x0A # rest) len = (Inr (Some (line @ 0 # r)), rest)"
proof -
  have f: "fgetws (nat (len - 1)) (line @ 0x0A # rest) = Some (line @ [0x0A, 0], rest)"
    using assms by (intro fgetws_line) auto
  have "wcschr (line @ [0x0A, 0]) 0x0A = Some (length line)"
    using wcschr_end(1) [of line "0x0A" "[]"] assms(1) by auto
  moreover have "wcschr (line @ [0x0A, 0]) 0x0D = None"
    using wcschr_end(2) [of "line @ [0x0A]" "0x0D"] assms(1) by auto
  ultimately show "\<exists>r. il2c_readline_linux (line @ 0x0A # rest) len = (Inr (Some (line @ 0 # r)), rest)"
    using f assms(2) by (simp add: il2c_readline_linux_def array_write_def list_update_append)
  have g: "fgetws (nat (len - 1)) ((line @ [0x0D]) @ 0x0A # rest) = Some ((line @ [0x0D]) @ [0x0A, 0], rest)"
    using assms by (intro fgetws_line) auto
  have "wcschr (line @ [0x0D, 0x0A, 0]) 0x0D = Some (length line)"
    using wcschr_end(1) [of line "0x0D" "[0x0A]"] assms(1) by auto
  moreover have "wcschr (line @ [0x0D, 0x0A, 0]) 0x0A = Some (length line + 1)"
    using wcschr_end(1) [of "line @ [0x0D]" "0x0A" "[]"] assms(1) by auto
  ultimately show "\<exists>r. il2c_readline_linux (line @ 0x0D # 0x0A # rest) len = (Inr (Some (line @ 0 # r)), rest)"
    using g assms(2) by (simp add: il2c_readline_linux_def array_write_def list_update_append)
qed

text \<open>The findings: a last line without a line end, and a line that fills the buffer, are read and dropped.\<close>

lemma linux_drops_last_line:
  assumes "\<forall>c \<in> set line. c \<noteq> 0 \<and> c \<noteq> 0x0A \<and> c \<noteq> 0x0D" "line \<noteq> []" "int (length line) + 2 < len"
  shows "il2c_readline_linux line len = (Inr None, [])"
proof -
  have none: "takeWhile (\<lambda>c. c \<noteq> 0x0A) line = line" using assms(1) by (auto simp: takeWhile_eq_all_conv)
  have "min (nat (len - 1) - 1) (min (length line) (length line + 1)) = length line" using assms(3) by auto
  then have "fgetws (nat (len - 1)) line = Some (line @ [0], [])"
    unfolding fgetws_def none Let_def using assms(2) by simp
  moreover have "wcschr (line @ [0]) 0x0A = None" "wcschr (line @ [0]) 0x0D = None"
    using assms(1) by (auto intro!: wcschr_end(2))
  ultimately show ?thesis using assms(3) by (simp add: il2c_readline_linux_def)
qed

section \<open>The line editor\<close>

text \<open>
  The reference: what is typed is a line at whose end characters are added and erased, until
  the return key or until the buffer is full.
\<close>

fun typed :: "int \<Rightarrow> keys \<Rightarrow> u16 list \<Rightarrow> (u16 list \<times> keys) option" where
  "typed len ks line =
     (if int (length line) + 1 < len then
        (case ks of [] \<Rightarrow> None
         | None # ks \<Rightarrow> typed len ks line
         | Some k # ks \<Rightarrow>
             if ScanCode k \<noteq> 0 then typed len ks line
             else if UnicodeChar k < 0x20 then
               if UnicodeChar k = 0x08 then typed len ks (butlast line)
               else if UnicodeChar k = 0x0D then Some (line, ks)
               else typed len ks line
             else typed len ks (line @ [UnicodeChar k]))
      else Some (line, ks))"

declare typed.simps [simp del]

text \<open>The buffer holds the line, and the line fits.\<close>

definition holds_line :: "int \<Rightarrow> u16 list \<Rightarrow> nat \<Rightarrow> u16 list \<Rightarrow> bool" where
  "holds_line len buffer index line \<longleftrightarrow>
     index = length line \<and> take index buffer = line \<and> int index < len \<and> len \<le> int (length buffer)"

definition agrees :: "int \<Rightarrow> edited \<Rightarrow> (u16 list \<times> keys) option \<Rightarrow> bool" where
  "agrees len r spec \<longleftrightarrow> (case spec of
       None \<Rightarrow> r = None
     | Some (line, ks) \<Rightarrow> \<exists>buffer out. r = Some (Inr (buffer, length line, out, ks)) \<and> holds_line len buffer (length line) line)"

lemma holds_line_simps:
  assumes "holds_line len buffer index line"
  shows "holds_line len buffer (index - 1) (butlast line)"
    "int index + 1 < len \<Longrightarrow> array_write buffer index c = Inr (buffer[index := c]) \<and> holds_line len (buffer[index := c]) (index + 1) (line @ [c])"
proof -
  have h: "index = length line" "take index buffer = line" "int index < len" "len \<le> int (length buffer)"
    using assms unfolding holds_line_def by blast+
  have "take (length line - 1) buffer = butlast line" using h(1,2) by (metis butlast_take h(3,4) le_trans less_imp_le_nat of_nat_le_iff of_nat_less_iff order_less_le_trans)
  then show "holds_line len buffer (index - 1) (butlast line)" using h by (simp add: holds_line_def)
  assume "int index + 1 < len"
  then have "index < length buffer" "int (index + 1) < len" using h(4) by linarith+
  moreover have "take (index + 1) (buffer[index := c]) = take index buffer @ [c]"
    using \<open>index < length buffer\<close> by (simp add: take_Suc_conv_app_nth)
  ultimately show "array_write buffer index c = Inr (buffer[index := c]) \<and> holds_line len (buffer[index := c]) (index + 1) (line @ [c])"
    using h(1,3,4) h(2) [unfolded h(1)] by (simp add: holds_line_def)
qed

lemma editor_agrees:
  "holds_line len buffer index line \<Longrightarrow> agrees len (edit_line len ks buffer index out) (typed len ks line)"
  "holds_line len buffer index line \<Longrightarrow> int index + 1 < len \<Longrightarrow> agrees len (wait_key len ks buffer index out) (typed len ks line)"
proof (induction len ks buffer index out and len ks buffer index out arbitrary: line and line rule: edit_line_wait_key.induct)
  case (1 len ks buffer index out)
  show ?case
  proof (cases "int index + 1 < len")
    case True
    then show ?thesis using 1 by (subst edit_line.simps) simp
  next
    case False
    then have "typed len ks line = Some (line, ks)"
      using "1.prems" by (subst typed.simps) (simp add: holds_line_def)
    then show ?thesis using False "1.prems" by (auto simp: edit_line.simps agrees_def holds_line_def)
  qed
next
  case (2 len buffer index out)
  then have "typed len [] line = None" by (subst typed.simps) (simp add: holds_line_def)
  then show ?case by (simp add: agrees_def)
next
  case (3 len ks buffer index out)
  then have "typed len (None # ks) line = typed len ks line"
    by (subst typed.simps) (simp add: holds_line_def)
  then show ?case using 3 by simp
next
  case (4 len k ks buffer index out)
  note step = holds_line_simps [OF "4.prems"(1)]
  have room: "int (length line) + 1 < len" and empty: "index = 0 \<longleftrightarrow> line = []" using "4.prems" by (auto simp: holds_line_def)
  show ?case
  proof (cases "ScanCode k \<noteq> 0")
    case True
    then have "typed len (Some k # ks) line = typed len ks line" using room by (subst typed.simps) simp
    then show ?thesis using 4 True by simp
  next
    case False
    note plain = this
    consider (erase) "UnicodeChar k = 0x08" | (ret) "UnicodeChar k = 0x0D" |
      (control) "UnicodeChar k < 0x20" "UnicodeChar k \<noteq> 0x08" "UnicodeChar k \<noteq> 0x0D" | (char) "\<not> UnicodeChar k < 0x20" by blast
    then show ?thesis
    proof cases
      case erase
      then have "typed len (Some k # ks) line = typed len ks (butlast line)" using room plain by (subst typed.simps) simp
      then show ?thesis using 4 plain erase step(1) empty by (cases "index \<ge> 1") auto
    next
      case ret
      then have "typed len (Some k # ks) line = Some (line, ks)" using room plain by (subst typed.simps) simp
      then show ?thesis using "4.prems" plain ret by (auto simp: agrees_def holds_line_def)
    next
      case control
      then have "typed len (Some k # ks) line = typed len ks line" using room plain by (subst typed.simps) simp
      then show ?thesis using 4 plain control by simp
    next
      case char
      then have "typed len (Some k # ks) line = typed len ks (line @ [UnicodeChar k])" using room plain by (subst typed.simps) simp
      then show ?thesis using 4 plain char step(2) by simp
    qed
  qed
qed

text \<open>The line read is the line typed; the loop waits as long as the line is not complete.\<close>

lemma uefi_reads_line:
  assumes "1 \<le> len" "len \<le> int (length buffer)"
  shows "case typed len ks [] of
      None \<Rightarrow> il2c_readline_uefi buffer len ks = None
    | Some (line, ks') \<Rightarrow> \<exists>buffer' out. il2c_readline_uefi buffer len ks = Some (Inr (buffer', out, ks')) \<and>
        take (length line + 1) buffer' = line @ [0]"
proof -
  have "holds_line len buffer 0 []" using assms by (simp add: holds_line_def)
  note a = editor_agrees(1) [OF this, of ks "[]"]
  show ?thesis
  proof (cases "typed len ks []")
    case None
    then show ?thesis using a by (simp add: agrees_def il2c_readline_uefi_def)
  next
    case (Some p)
    obtain line ks' where p: "p = (line, ks')" by (cases p)
    from a obtain buffer' out where e: "edit_line len ks buffer 0 [] = Some (Inr (buffer', length line, out, ks'))"
      "holds_line len buffer' (length line) line" by (auto simp: agrees_def Some p)
    have "length line < length buffer'" "take (length line) buffer' = line" using e(2) by (auto simp: holds_line_def)
    then have "take (length line + 1) (buffer'[length line := 0]) = line @ [0]" by (simp add: take_Suc_conv_app_nth)
    moreover have "il2c_readline_uefi buffer len ks = Some (Inr (buffer'[length line := 0], out @ [[0x0D, 0x0A]], ks'))"
      using e(1) \<open>length line < length buffer'\<close> by (simp add: il2c_readline_uefi_def)
    ultimately show ?thesis by (simp add: Some p)
  qed
qed

text \<open>The finding: a buffer of length 0 passes the test of the length and is written to.\<close>

lemma uefi_empty_buffer: "il2c_readline_uefi [] 0 ks = Some (Inl BadAccess)"
  by (simp add: il2c_readline_uefi_def edit_line.simps array_write_def)

end
