(* ===== verification/Platform_Services.thy ===== *)
theory Platform_Services
  imports Console_Line
begin

text \<open>
  What the runtime asks of its platform: the memory routines, the pool, the console output
  and the failed-assertion report of src/Platform/uefi.c, and \<open>il2c_sleep\<close> of
  src/Platform/uefi.c and src/Platform/linux.c.  The firmware is a list of service calls, its
  answers are arguments; \<open>nanosleep\<close> is the POSIX function, interrupted at given times.
\<close>

section \<open>Memory routines\<close>

text \<open>The three loops count down a \<open>size_t\<close> that was first incremented, which wraps for the largest one.\<close>

function copy_bytes :: "bytes \<Rightarrow> addr \<Rightarrow> addr \<Rightarrow> u64 \<Rightarrow> bytes" where
  "copy_bytes v t f n =
     (let n = n - 1 in if n \<ge> 1 then copy_bytes (v(t := v f)) (t + 1) (f + 1) n else v)"
  by pat_completeness auto

function set_bytes :: "bytes \<Rightarrow> addr \<Rightarrow> u8 \<Rightarrow> u64 \<Rightarrow> bytes" where
  "set_bytes v p ch n =
     (let n = n - 1 in if n \<ge> 1 then set_bytes (v(p := ch)) (p + 1) ch n else v)"
  by pat_completeness auto

function compare_bytes :: "bytes \<Rightarrow> addr \<Rightarrow> addr \<Rightarrow> u64 \<Rightarrow> int" where
  "compare_bytes v p1 p2 n =
     (let n = n - 1 in
      if n \<ge> 1 then
        if v p1 > v p2 then uint (v p1) - uint (v p2)
        else if v p1 < v p2 then uint (v p1) - uint (v p2)
        else compare_bytes v (p1 + 1) (p2 + 1) n
      else 0)"
  by pat_completeness auto

lemma counter_decreases: "1 \<le> n - 1 \<Longrightarrow> unat (n - 2) < unat (n - 1)" for n :: u64
proof -
  assume n: "1 \<le> n - 1"
  then have "n - 1 \<noteq> 0" by auto
  from unat_minus_one [OF this] have "unat (n - 2) = unat (n - 1) - 1" by (simp add: diff_diff_eq)
  moreover have "0 < unat (n - 1)" using \<open>n - 1 \<noteq> 0\<close> by (metis unat_gt_0)
  ultimately show ?thesis by simp
qed

termination copy_bytes
  by (relation "measure (\<lambda>(v, t, f, n). unat (n - 1))") (simp_all add: counter_decreases)

termination set_bytes
  by (relation "measure (\<lambda>(v, p, ch, n). unat (n - 1))") (simp_all add: counter_decreases)

termination compare_bytes
  by (relation "measure (\<lambda>(v, p1, p2, n). unat (n - 1))") (simp_all add: counter_decreases)

declare copy_bytes.simps [simp del] set_bytes.simps [simp del] compare_bytes.simps [simp del]

definition uefi_memcpy :: "bytes \<Rightarrow> addr \<Rightarrow> addr \<Rightarrow> u64 \<Rightarrow> bytes \<times> addr" where
  "uefi_memcpy v to from n = (copy_bytes v to from (n + 1), to)"

definition uefi_memset :: "bytes \<Rightarrow> addr \<Rightarrow> int \<Rightarrow> u64 \<Rightarrow> bytes \<times> addr" where
  "uefi_memset v p ch n = (set_bytes v p (word_of_int ch) (n + 1), p)"

definition uefi_memcmp :: "bytes \<Rightarrow> addr \<Rightarrow> addr \<Rightarrow> u64 \<Rightarrow> int" where
  "uefi_memcmp v buffer1 buffer2 n = compare_bytes v buffer1 buffer2 (n + 1)"

section \<open>The firmware\<close>

datatype device = ConOut | StdErr

text \<open>\<open>OutputString\<close> is called through one protocol instance with an instance as its argument.\<close>

datatype service =
    SetWatchdogTimer | ClearScreen device device
  | AllocatePool u64 | FreePool addr
  | CreateEvent | SetTimer addr u64 | WaitForEvent addr
  | OutputString device device "u16 list"

record firmware =
  g_pSystemTable :: addr
  g_TimerEvent :: addr
  services :: "service list"

definition serve :: "service list \<Rightarrow> firmware \<Rightarrow> firmware" where
  "serve calls fw = fw\<lparr>services := services fw @ calls\<rparr>"

text \<open>\<open>il2c_initialize\<close> up to the call of the runtime's own; reading through a null table is an invalid access.\<close>

definition il2c_initialize_uefi :: "addr \<Rightarrow> firmware \<Rightarrow> firmware result" where
  "il2c_initialize_uefi pSystemTable fw =
     (if pSystemTable = NULL then Inl BadAccess
      else Inr (serve [SetWatchdogTimer, ClearScreen ConOut ConOut] (fw\<lparr>g_pSystemTable := pSystemTable\<rparr>)))"

text \<open>\<open>answer\<close> is what the pool gives for the request: the block, or nothing on an error status.\<close>

definition il2c_malloc_uefi :: "addr option \<Rightarrow> u64 \<Rightarrow> firmware \<Rightarrow> firmware \<times> addr" where
  "il2c_malloc_uefi answer n fw =
     (if g_pSystemTable fw = NULL then (fw, NULL)
      else (serve [AllocatePool n] fw, case answer of None \<Rightarrow> NULL | Some p \<Rightarrow> p))"

definition il2c_free_uefi :: "addr \<Rightarrow> firmware \<Rightarrow> firmware" where
  "il2c_free_uefi block fw = (if g_pSystemTable fw \<noteq> NULL then serve [FreePool block] fw else fw)"

definition il2c_write_uefi :: "u16 list option \<Rightarrow> firmware \<Rightarrow> firmware" where
  "il2c_write_uefi s fw = (case s of
     Some t \<Rightarrow> if g_pSystemTable fw \<noteq> NULL then serve [OutputString ConOut ConOut t] fw else fw
   | None \<Rightarrow> fw)"

definition il2c_writeline_uefi :: "u16 list option \<Rightarrow> firmware \<Rightarrow> firmware" where
  "il2c_writeline_uefi s fw = (case s of
     Some t \<Rightarrow> if g_pSystemTable fw \<noteq> NULL
       then serve [OutputString ConOut ConOut t, OutputString ConOut ConOut [0x0D, 0x0A]] fw else fw
   | None \<Rightarrow> fw)"

text \<open>The report of a failed assertion, before the break into the debugger.\<close>

definition narrow :: "wchar list \<Rightarrow> u16 list" where
  "narrow = map ucast"

definition il2c_cause_assert :: "u16 list \<Rightarrow> u32 \<Rightarrow> u16 list \<Rightarrow> firmware \<Rightarrow> firmware result" where
  "il2c_cause_assert pFile line pExpr fw =
     (if g_pSystemTable fw = NULL then Inr fw
      else bind_result (il2c_i32tow line (replicate 14 0) 10) (\<lambda>buffer.
        Inr (serve [OutputString StdErr StdErr (narrow (map (\<lambda>c. of_nat (of_char c)) ''assert: '')),
          OutputString StdErr StdErr pFile, OutputString StdErr StdErr [0x28],
          OutputString StdErr StdErr (narrow (cstr_text buffer)), OutputString StdErr StdErr [0x29, 0x3A, 0x20],
          OutputString StdErr StdErr pExpr, OutputString ConOut StdErr [0x0D, 0x0A]] fw)))"

section \<open>Sleeping\<close>

text \<open>The timer event is created once; \<open>event\<close> is the firmware's answer.\<close>

definition il2c_sleep_uefi :: "addr \<Rightarrow> u32 \<Rightarrow> firmware \<Rightarrow> firmware result" where
  "il2c_sleep_uefi event milliseconds fw =
     (if g_pSystemTable fw = NULL then Inl BadAccess
      else let fw = (if g_TimerEvent fw = NULL then (serve [CreateEvent] fw)\<lparr>g_TimerEvent := event\<rparr> else fw) in
        il2c_assert (g_TimerEvent fw \<noteq> NULL)
        (Inr (serve [SetTimer (g_TimerEvent fw) (ucast milliseconds * 1000), WaitForEvent (g_TimerEvent fw)] fw)))"

record timespec =
  tv_sec :: int
  tv_nsec :: int

definition nanoseconds :: "timespec \<Rightarrow> int" where
  "nanoseconds ts = tv_sec ts * 10 ^ 9 + tv_nsec ts"

definition timespec_of :: "int \<Rightarrow> timespec" where
  "timespec_of n = \<lparr>tv_sec = n div 10 ^ 9, tv_nsec = n mod 10 ^ 9\<rparr>"

text \<open>
  \<open>nanosleep\<close> with the time until the next signal: the time it slept, and the remaining time
  if the signal came first.  A request that is not a time is \<open>EINVAL\<close>: it returns at once and
  stores nothing.
\<close>

definition nanosleep :: "timespec \<Rightarrow> timespec \<Rightarrow> nat list \<Rightarrow> nat \<times> timespec option \<times> nat list" where
  "nanosleep req rem es =
     (if \<not> (0 \<le> tv_sec req \<and> 0 \<le> tv_nsec req \<and> tv_nsec req < 10 ^ 9) then (0, Some rem, es)
      else case es of
        [] \<Rightarrow> (nat (nanoseconds req), None, [])
      | e # es \<Rightarrow> if int e < nanoseconds req then (e, Some (timespec_of (nanoseconds req - int e)), es)
                  else (nat (nanoseconds req), None, es))"

text \<open>Each round uses up to two signals; \<open>None\<close>: more rounds than the fuel.\<close>

fun sleep_loop :: "nat \<Rightarrow> timespec \<Rightarrow> timespec \<Rightarrow> nat list \<Rightarrow> nat \<Rightarrow> nat option" where
  "sleep_loop 0 tm1 tm2 es slept = None"
| "sleep_loop (Suc fuel) tm1 tm2 es slept = (case nanosleep tm1 tm2 es of
     (t, None, es) \<Rightarrow> Some (slept + t)
   | (t, Some tm2, es) \<Rightarrow> (case nanosleep tm2 tm1 es of
       (u, None, es) \<Rightarrow> Some (slept + t + u)
     | (u, Some tm1, es) \<Rightarrow> sleep_loop fuel tm1 tm2 es (slept + t + u)))"

definition il2c_sleep_linux :: "nat \<Rightarrow> timespec \<Rightarrow> u32 \<Rightarrow> nat list \<Rightarrow> nat option" where
  "il2c_sleep_linux fuel tm2 milliseconds es =
     sleep_loop fuel \<lparr>tv_sec = uint milliseconds div 1000, tv_nsec = uint milliseconds mod 1000 * 1000 * 1000\<rparr> tm2 es 0"

section \<open>The memory routines\<close>

text \<open>A counter that has been incremented counts the number asked for, the largest one included.\<close>

lemma copy_bytes_at:
  "(n :: u64) - 1 = of_nat k \<Longrightarrow> k < 2 ^ 64 \<Longrightarrow> t + k \<le> f \<or> f + k \<le> t \<or> t \<le> f \<Longrightarrow> copy_bytes v t f n = memcpy v t f k"
proof (induction k arbitrary: v t f n)
  case 0
  then show ?case by (simp add: copy_bytes.simps)
next
  case (Suc k)
  have "(of_nat (Suc k) :: u64) \<ge> 1" using Suc.prems(2)
    by (simp add: word_le_nat_alt unsigned_of_nat take_bit_nat_eq_self del: of_nat_Suc)
  then have "copy_bytes v t f n = copy_bytes (v(t := v f)) (t + 1) (f + 1) (n - 1)"
    unfolding copy_bytes.simps [of v t f n] Let_def using Suc.prems(1) by simp
  also have "\<dots> = memcpy (v(t := v f)) (t + 1) (f + 1) k"
    using Suc.prems by (intro Suc.IH) auto
  also have "\<dots> = memcpy v t f (Suc k)"
    using Suc.prems(3) by (auto simp: memcpy_def fun_eq_iff Suc_diff_Suc)
  finally show ?case .
qed

lemma uefi_memcpy_copies:
  assumes "to + unat n \<le> from \<or> from + unat n \<le> to \<or> to \<le> from"
  shows "uefi_memcpy v to from n = (memcpy v to from (unat n), to)"
  using copy_bytes_at [of "n + 1" "unat n" to "from" v] assms unsigned_less [of n] by (simp add: uefi_memcpy_def)

lemma set_bytes_at:
  "(n :: u64) - 1 = of_nat k \<Longrightarrow> k < 2 ^ 64 \<Longrightarrow> set_bytes v p ch n = (\<lambda>a. if p \<le> a \<and> a < p + k then ch else v a)"
proof (induction k arbitrary: v p n)
  case 0
  then show ?case by (auto simp: set_bytes.simps fun_eq_iff)
next
  case (Suc k)
  have "(of_nat (Suc k) :: u64) \<ge> 1" using Suc.prems(2)
    by (simp add: word_le_nat_alt unsigned_of_nat take_bit_nat_eq_self del: of_nat_Suc)
  then have "set_bytes v p ch n = set_bytes (v(p := ch)) (p + 1) ch (n - 1)"
    unfolding set_bytes.simps [of v p ch n] Let_def using Suc.prems(1) by simp
  also have "\<dots> = (\<lambda>a. if p + 1 \<le> a \<and> a < p + 1 + k then ch else (v(p := ch)) a)"
    using Suc.prems by (intro Suc.IH) auto
  also have "\<dots> = (\<lambda>a. if p \<le> a \<and> a < p + Suc k then ch else v a)" by auto
  finally show ?case .
qed

lemma uefi_memset_sets:
  "uefi_memset v p ch n = ((\<lambda>a. if p \<le> a \<and> a < p + unat n then word_of_int ch else v a), p)"
  using set_bytes_at [of "n + 1" "unat n" v p] unsigned_less [of n] by (simp add: uefi_memset_def)

text \<open>The comparison is that of the first bytes that differ.\<close>

lemma compare_bytes_at:
  "(n :: u64) - 1 = of_nat k \<Longrightarrow> k < 2 ^ 64 \<Longrightarrow> compare_bytes v p q n =
     (if \<exists>i<k. v (p + i) \<noteq> v (q + i) then let i = (LEAST i. v (p + i) \<noteq> v (q + i)) in uint (v (p + i)) - uint (v (q + i)) else 0)"
proof (induction k arbitrary: p q n)
  case 0
  then show ?case by (auto simp: compare_bytes.simps)
next
  case (Suc k)
  have "(of_nat (Suc k) :: u64) \<ge> 1" using Suc.prems(2)
    by (simp add: word_le_nat_alt unsigned_of_nat take_bit_nat_eq_self del: of_nat_Suc)
  then have step: "compare_bytes v p q n = (if v p \<noteq> v q then uint (v p) - uint (v q) else compare_bytes v (p + 1) (q + 1) (n - 1))"
    unfolding compare_bytes.simps [of v p q n] Let_def using Suc.prems(1) by auto
  show ?case
  proof (cases "v p = v q")
    case False
    then have "(LEAST i. v (p + i) \<noteq> v (q + i)) = 0" by (intro Least_equality) auto
    moreover have "\<exists>i<Suc k. v (p + i) \<noteq> v (q + i)" using False by (intro exI [of _ 0]) simp
    ultimately show ?thesis using False by (simp add: step)
  next
    case True
    have ex: "(\<exists>i<Suc k. v (p + i) \<noteq> v (q + i)) \<longleftrightarrow> (\<exists>i<k. v (p + 1 + i) \<noteq> v (q + 1 + i))"
      using True by (auto simp: less_Suc_eq_0_disj)
    have least: "(LEAST i. v (p + i) \<noteq> v (q + i)) = Suc (LEAST i. v (p + 1 + i) \<noteq> v (q + 1 + i))"
      if some: "\<exists>i<k. v (p + 1 + i) \<noteq> v (q + 1 + i)"
    proof -
      from some obtain i where "v (p + Suc i) \<noteq> v (q + Suc i)" by auto
      from Least_Suc [of "\<lambda>i. v (p + i) \<noteq> v (q + i)", OF this] True show ?thesis by simp
    qed
    have "compare_bytes v (p + 1) (q + 1) (n - 1) = (if \<exists>i<k. v (p + 1 + i) \<noteq> v (q + 1 + i)
        then let i = (LEAST i. v (p + 1 + i) \<noteq> v (q + 1 + i)) in uint (v (p + 1 + i)) - uint (v (q + 1 + i)) else 0)"
      using Suc.prems by (intro Suc.IH) auto
    then show ?thesis unfolding ex step using True least
      by (cases "\<exists>i<k. v (p + 1 + i) \<noteq> v (q + 1 + i)") (simp_all only: if_True if_False Let_def add_Suc_right simp_thms, simp_all)
  qed
qed

lemma uefi_memcmp_compares:
  "uefi_memcmp v p q n = (if \<exists>i < unat n. v (p + i) \<noteq> v (q + i)
     then let i = (LEAST i. v (p + i) \<noteq> v (q + i)) in uint (v (p + i)) - uint (v (q + i)) else 0)"
  unfolding uefi_memcmp_def using unsigned_less [of n, where 'a = nat] by (intro compare_bytes_at) simp_all

lemma uefi_memcmp_zero: "uefi_memcmp v p q n = 0 \<longleftrightarrow> (\<forall>i < unat n. v (p + i) = v (q + i))"
proof (cases "\<exists>i < unat n. v (p + i) \<noteq> v (q + i)")
  case True
  then have "v (p + (LEAST i. v (p + i) \<noteq> v (q + i))) \<noteq> v (q + (LEAST i. v (p + i) \<noteq> v (q + i)))"
    by (metis (mono_tags, lifting) LeastI)
  with True show ?thesis by (auto simp: uefi_memcmp_compares Let_def word_uint_eq_iff [symmetric])
qed (auto simp: uefi_memcmp_compares)

section \<open>Sleeping\<close>

definition is_time :: "timespec \<Rightarrow> bool" where
  "is_time ts \<longleftrightarrow> 0 \<le> tv_sec ts \<and> 0 \<le> tv_nsec ts \<and> tv_nsec ts < 10 ^ 9"

lemma timespec_of_nanoseconds: "0 \<le> n \<Longrightarrow> is_time (timespec_of n) \<and> nanoseconds (timespec_of n) = n"
  by (simp add: is_time_def timespec_of_def nanoseconds_def pos_imp_zdiv_nonneg_iff)

lemma nanosleep_time:
  assumes "is_time req"
  shows "nanosleep req rem es = (nat (nanoseconds req), None, []) \<and> es = [] \<or>
    (\<exists>e es'. es = e # es' \<and> (nanosleep req rem es = (nat (nanoseconds req), None, es') \<or>
       nanosleep req rem es = (e, Some (timespec_of (nanoseconds req - int e)), es') \<and> int e < nanoseconds req))"
  using assms by (cases es) (auto simp: nanosleep_def is_time_def)

lemma sleep_loop_total:
  "is_time tm1 \<Longrightarrow> length es < 2 * fuel \<Longrightarrow> sleep_loop fuel tm1 tm2 es slept = Some (slept + nat (nanoseconds tm1))"
proof (induction fuel arbitrary: tm1 tm2 es slept)
  case 0
  then show ?case by simp
next
  case (Suc fuel)
  consider "\<exists>es'. nanosleep tm1 tm2 es = (nat (nanoseconds tm1), None, es')"
    | e es' where "es = e # es'" "nanosleep tm1 tm2 es = (e, Some (timespec_of (nanoseconds tm1 - int e)), es')" "int e < nanoseconds tm1"
    using nanosleep_time [OF Suc.prems(1), of tm2 es] by blast
  then show ?case
  proof cases
    case 1
    then show ?thesis by auto
  next
    case 2
    define r where "r = timespec_of (nanoseconds tm1 - int e)"
    have r: "is_time r" "nanoseconds r = nanoseconds tm1 - int e" using timespec_of_nanoseconds 2(3) by (simp_all add: r_def)
    consider "\<exists>fs. nanosleep r tm1 es' = (nat (nanoseconds r), None, fs)"
      | f fs where "es' = f # fs" "nanosleep r tm1 es' = (f, Some (timespec_of (nanoseconds r - int f)), fs)" "int f < nanoseconds r"
      using nanosleep_time [OF r(1), of tm1 es'] by blast
    then show ?thesis
    proof cases
      case 1
      then show ?thesis using 2 r by (auto simp: r_def [symmetric])
    next
      case inner: 2
      define q where "q = timespec_of (nanoseconds r - int f)"
      have q: "is_time q" "nanoseconds q = nanoseconds r - int f" using timespec_of_nanoseconds inner(3) by (simp_all add: q_def)
      have "sleep_loop fuel q r fs (slept + e + f) = Some (slept + e + f + nat (nanoseconds q))"
        using Suc.prems(2) 2(1) inner(1) q(1) by (intro Suc.IH) auto
      moreover have "slept + e + f + nat (nanoseconds q) = slept + nat (nanoseconds tm1)" using q(2) r(2) inner(3) by simp
      moreover have "nanosleep tm1 tm2 es = (e, Some r, f # fs)" "nanosleep r tm1 (f # fs) = (f, Some q, fs)"
        using 2(2) inner(1,2) by (simp_all add: r_def q_def)
      ultimately show ?thesis by simp
    qed
  qed
qed

text \<open>
  However often signals interrupt it, the Linux loop sleeps for exactly the milliseconds
  asked for and returns: two signals a round.
\<close>

lemma linux_sleeps:
  assumes "length es < 2 * fuel"
  shows "il2c_sleep_linux fuel tm2 ms es = Some (unat ms * 10 ^ 6)"
proof -
  let ?ts = "\<lparr>tv_sec = uint ms div 1000, tv_nsec = uint ms mod 1000 * 1000 * 1000\<rparr>"
  have "0 \<le> uint ms mod 1000" "uint ms mod 1000 < 1000" by simp_all
  then have "is_time ?ts" by (simp add: is_time_def pos_imp_zdiv_nonneg_iff)
  moreover have "nanoseconds ?ts = uint ms * 10 ^ 6"
  proof -
    have "uint ms div 1000 * 10 ^ 9 + uint ms mod 1000 * 1000 * 1000 = (uint ms div 1000 * 1000 + uint ms mod 1000) * 10 ^ 6"
      by (simp only: distrib_right) simp
    then show ?thesis by (simp only: nanoseconds_def timespec.simps div_mult_mod_eq)
  qed
  ultimately have "il2c_sleep_linux fuel tm2 ms es = Some (0 + nat (uint ms * 10 ^ 6))"
    using sleep_loop_total [OF _ assms, of ?ts tm2 0] unfolding il2c_sleep_linux_def by metis
  then show ?thesis by (simp add: nat_mult_distrib)
qed

text \<open>
  The finding: a timer of the firmware counts in units of 100 nanoseconds, so the time that
  the UEFI version sets is a tenth of the milliseconds asked for.  The product does not wrap.
\<close>

lemma uefi_sleeps_a_tenth:
  assumes "g_pSystemTable fw \<noteq> NULL" "event \<noteq> NULL"
  shows "\<exists>fw' e trigger. il2c_sleep_uefi event ms fw = Inr fw' \<and> g_TimerEvent fw' = e \<and>
    (g_TimerEvent fw \<noteq> NULL \<longrightarrow> e = g_TimerEvent fw) \<and>
    services fw' = services fw @ (if g_TimerEvent fw = NULL then [CreateEvent] else []) @ [SetTimer e trigger, WaitForEvent e] \<and>
    10 * (unat trigger * 100) = unat ms * 10 ^ 6"
proof -
  have "unat (ucast ms * 1000 :: u64) = unat ms * 1000"
    using unsigned_less [of ms, where 'a = nat] by (simp add: unsigned_ucast_eq take_bit_nat_eq_self unat_word_ariths)
  then show ?thesis using assms by (auto simp: il2c_sleep_uefi_def serve_def Let_def)
qed

section \<open>The report of a failed assertion\<close>

text \<open>
  The line number fits its buffer.  The finding: the line end is sent through the console's
  function with the error device as its instance, every other part through the error device.
\<close>

lemma assert_report:
  assumes "g_pSystemTable fw \<noteq> NULL"
  shows "\<exists>out. il2c_cause_assert pFile line pExpr fw = Inr (fw\<lparr>services := services fw @ map (OutputString StdErr StdErr) out @
      [OutputString ConOut StdErr [0x0D, 0x0A]]\<rparr>) \<and>
    concat out = narrow (map (\<lambda>c. of_nat (of_char c)) ''assert: '') @ pFile @ [0x28] @ narrow (integer_text (sint line)) @
      [0x29, 0x3A, 0x20] @ pExpr"
proof -
  have "\<bar>sint line\<bar> < 10 ^ 10" using sint_lt [of line] sint_ge [of line] by (simp add: abs_less_iff)
  then have "length (integer_text (sint line)) < 14" by (rule text_fits) simp_all
  then have i32: "\<exists>b. il2c_i32tow line (replicate 14 0) 10 = Inr b \<and> cstr_text b = integer_text (sint line)"
    by (simp add: i32tow_text)
  show ?thesis
    by (rule exI [of _ "[narrow (map (\<lambda>c. of_nat (of_char c)) ''assert: ''), pFile, [0x28], narrow (integer_text (sint line)),
          [0x29, 0x3A, 0x20], pExpr]"]) (use i32 assms in \<open>auto simp: il2c_cause_assert_def serve_def\<close>)
qed

text \<open>Without the system table nothing is done: memory is refused, output is dropped.\<close>

lemma no_system_table:
  assumes "g_pSystemTable fw = NULL"
  shows "il2c_malloc_uefi answer n fw = (fw, NULL)" "il2c_free_uefi p fw = fw" "il2c_write_uefi s fw = fw"
    "il2c_writeline_uefi s fw = fw"
  using assms by (simp_all add: il2c_malloc_uefi_def il2c_free_uefi_def il2c_write_uefi_def il2c_writeline_uefi_def split: option.split)

end
