(* ===== verification/Spec2Isabelle.thy ===== *)
theory Spec2Isabelle
  imports IL2C_Base Machine Type_Cast Root_References GC_Handle Monitor_Lock
    GC_Mark GC_Reachability GC_Sweep GC_Collect Thread_Finalizer GC_Invariant Allocation
    Delegates App_Domain Exception_Unwind Exception_Frames Runtime_Exceptions
    Thread_Start Thread_Collect Final_Shutdown
    Boxing Primitive_Types Floating_Point Fmod Type_Objects
    Wide_Number Wide_String String_Format Composite_Format Debug_Log
    Debug_Heap Console_Line Platform_Services
begin

text \<open>
  Verification library for the IL2C runtime, the C code under IL2C.Runtime.

  IL2C translates .NET assemblies to C; the C code it emits is compiled together with a
  runtime that supplies what the .NET virtual machine would: a mark-and-sweep garbage
  collector, object headers and type records, casts and boxing, execution frames and
  exceptions, delegates, monitors and threads, and the few classes of the base library that
  a translated program cannot do without.  This library models that runtime.  Source paths
  below are relative to IL2C.Runtime.
\<close>

section \<open>The program and its parts\<close>

text \<open>
  The parts share one memory.  Every managed object has a header in front of it, and the
  headers form the list \<open>g_pBeginHeader\<close>.  Translated code keeps its references in execution
  frames, which are linked into the thread context, which is the body of a thread object,
  which is a root reference while the thread runs.  The allocator starts every allocation
  with a collection, links the new object's header and anchors the object in the
  thread context, since no frame refers to it yet.  The collector takes the locks of all
  running threads, inverts the mark index, marks from the static fields, the roots and the
  pinned references, calls the finalizers of what is unreachable and unlinks and frees the
  rest together with the monitor locks of the freed objects.  A throw jumps to an exception
  frame and cuts the list of execution frames at the same place.  Delegates carry the
  handlers of unhandled exceptions and the start routines of threads.  Strings, numbers and
  the console are above this, the platform's memory, locks and output below.
\<close>

section \<open>Theories and sources\<close>

text \<open>
  Base.
  \<^item> IL2C_Base: addresses, words, C outcomes as \<open>error + 'a\<close> (a failed \<open>il2c_assert\<close>, an
    access outside the memory that the code owns, native stack overflow, waiting for a lock, and the managed
    exceptions), C arrays with out-of-range access written out.
  \<^item> Machine (src/il2c_private.h, include/il2c.h): the record \<open>machine\<close> with headers, virtual
    table pointers, reference cells, typed bodies and the collector's globals; \<open>runtime_type\<close>
    is \<open>IL2C_RUNTIME_TYPE_DECL\<close> with the arrays behind it; addresses are real numbers of
    bytes, so an interface reference points inside its object, as in the code.

  Collector and memory.
  \<^item> Root_References (src/Core/il2c_allocator.c): the two chains of blocks of three slots; an
    interface \<open>reference_set\<close> with its laws, which GC_Handle (src/System/Runtime/InteropServices/GCHandle.c)
    uses for pinning.
  \<^item> GC_Mark and GC_Reachability (src/Core/il2c_gc.c, step 2, and the handlers of Array.c,
    Delegate.c and Thread.c): the recursive mark handlers.  \<open>marker\<close> is the interface of a
    routine that marks one object; step 2 marks exactly what \<open>reaches\<close> says.
  \<^item> GC_Sweep (step 3): the list surgery on the headers, for any code that keeps the interface
    \<open>finalizer\<close>; Thread_Finalizer shows that the runtime's own finalizers keep it.
  \<^item> GC_Collect: \<open>il2c_collect\<close> as a whole, System.GC, and the rounds of the final shutdown.
    GC_Invariant: \<open>gc_ready\<close>, what a heap between two collections is like, and that a
    collection preserves it.
  \<^item> Allocation (src/Core/il2c_allocator.c, il2c_thread.c, src/System/Array.c): creation of
    objects, threads and arrays, thread contexts, linking and unlinking of frames.
  \<^item> Debug_Heap (src/Platform/heap.c): the guard words around a block.

  Threads and locks.
  \<^item> Monitor_Lock (src/System/Threading/Monitor.c, src/Platform/pthread.c): the table of
    seven buckets of lock blocks over recursive mutexes, refined from one lock per object
    under any schedule.
  \<^item> Thread_Start (src/System/Threading/Thread.c, ThreadStart.c, ParameterizedThreadStart.c):
    starting and joining as a step relation of the new thread against all others, with its
    invariant; Thread_Collect: a collection is such a step of another thread.

  Exceptions.
  \<^item> Exception_Unwind (src/Core/il2c_exception.c, the \<open>il2c_try\<close> macros): the chain of
    exception frames, filters, finally blocks, rethrow, unhandled exceptions.
  \<^item> Exception_Frames: both chains together as one stack of methods and try blocks.
  \<^item> Runtime_Exceptions: the exceptions that the runtime raises itself and the signal handler.
  \<^item> Delegates (src/System/Delegate.c) and App_Domain (src/System/AppDomain.c): multicast
    delegates as lists, with the interface \<open>multicast\<close> of combining and removing.
  \<^item> Final_Shutdown (src/Core/il2c.c): from \<open>il2c_initialize\<close> to \<open>il2c_shutdown\<close>.

  Types and values.
  \<^item> Type_Cast, Boxing (src/Core/il2c.c): casts to classes and interfaces; boxing, unboxing and
    the widening \<open>il2c_box2\<close>, on values that are bytes in either byte order.
  \<^item> Primitive_Types (src/System/Byte.c and its eleven siblings), Floating_Point (Double.c,
    Single.c), Fmod (src/Platform/fmod.c): text, hash, equality and parsing of values, over the
    interface \<open>integer_parser\<close>; the remainder of doubles on their bits.
  \<^item> Type_Objects (Object.c, ValueType.c, Enum.c, Type.c, Exception.c, RuntimeHelpers.c,
    Interlocked.c): reflection.

  Text and platform.
  \<^item> Wide_Number (src/Platform/strings.c), Wide_String (src/System/String.c).
  \<^item> String_Format, Composite_Format, Debug_Log (src/System/String.c, src/Core/il2c_debug.c):
    the state machine of the format engine over the interface \<open>format_writers\<close>; the three
    passes of \<open>String.Format\<close> and the two of the debug log are its instances.
  \<^item> Console_Line (src/System/Console.c, readline of linux.c and uefi.c), Platform_Services
    (src/Platform/uefi.c, linux.c).
\<close>

section \<open>What the lemmas show\<close>

text \<open>
  \<^item> Memory safety of the collector: marking is exact, sweeping frees what is unmarked and
    finalizes before it frees, a collection frees exactly the unreachable objects and leaves a
    heap ready for the next one, a new object or array is kept through the next collection,
    and the final shutdown ends with an empty heap, or waits when an object was never initialized.
  \<^item> Control: a throw runs the finally blocks inside the first catching frame in order and
    enters that frame; the two chains refine one stack under every sequence of calls, throws
    and rethrows; a collection keeps the stack; the runtime's own exceptions reach the handler
    alive; a started thread runs its delegate once, cleans up, and is kept meanwhile.
  \<^item> Contracts: monitors refine one lock per object; delegates behave as lists of calls, with
    removal of the last occurrence; a cast decides the subtype relation; handles pin.
  \<^item> Text: integers survive printing and parsing, the parser clamps, formatting substitutes
    its items or rejects the format, strings behave as texts, the log stays in its buffer.
  \<^item> Many theories end a group with a lemma that the text calls a finding: it states what
    the code does in a case where it does not do what it means to.
\<close>

section \<open>Conventions, bounds and fuel\<close>

text \<open>
  The configuration is the 64-bit Linux build (LP64, 32-bit \<open>wchar_t\<close>); a theory about
  code of another platform says so.  A definition has the name of its C function without the
  trailing underscores; \<open>None\<close> is a run that does not end, \<open>Inl\<close> an error.

  \<^item> The native stack: \<open>il2c_mark_handler_for_objref\<close> has the number of nested calls that the
    stack has room for.  The theorems ask for as many as there are objects, which is enough as a
    call marks its object before it goes on; less is \<open>StackOverflow\<close>.
  \<^item> Loops over linked lists (\<open>sweep_step1\<close>, \<open>sweep_step2\<close>, \<open>throw_scan\<close>, \<open>caught_scan\<close>,
    \<open>propagate\<close>) and loops that wait (\<open>exhaust_instances\<close>, \<open>GC_WaitForPendingFinalizers\<close>) are
    partial functions; that they end is part of the theorems, from the finite list or chain.
    So are the shifting loops of Fmod, which end within 64 steps for a word that is not 0.
  \<^item> \<open>il2c_sleep_linux\<close> has the rounds of its loop as fuel: one more than half of the signals.
    \<open>search_bases\<close> has an address for every type object that it makes: the length of the
    base chain.  The line editor recurses over the keys that come.
  \<^item> Sizes are computed in 64 bits with the wrap-around written out; theorems that need a size
    to fit say so, and the finding next to them shows what happens otherwise.

  Code outside the sources is a parameter: \<open>malloc\<close> and \<open>AllocatePool\<close> (a block not in use, or
  null), \<open>swprintf\<close>, \<open>wcstod\<close>, \<open>wcstoul\<close>, the virtual \<open>ToString\<close> of a
  program's objects, finalizers of a program's types, filters and handlers, and other threads.
  Where a theorem relies on one, the documented behaviour is a hypothesis, and its
  witness is a concrete function that has it.
\<close>

section \<open>Not modelled\<close>

text \<open>
  \<^item> The translator (IL2C.Core, IL2C.Tasks) is C#.  Its output enters as frames, type records
    and sequences of runtime calls.
  \<^item> setjmp and longjmp are the outcome \<open>LongJmp\<close>; what the C compiler does to local variables
    of a frame that is jumped into is outside the model, and so are the installation of the signal
    handler and the signal mask.
  \<^item> Interleaving inside an operation: monitors and thread start are interleaved step by step,
    a collection is one step, taken while the collecting thread has all locks.  The atomic
    exchanges (msvc.h, gcc.h) are the updates that they perform.
  \<^item> The wrappers of pthread, Win32 and FreeRTOS, the output functions, the Windows driver and
    Arduino glue only call their platform.
  \<^item> debugbreak.h, the headers under src/Platform/efi and the assembly files are third-party
    declarations and code; the samples and the test templates are generated or vendored.
  \<^item> IDisposable, IFormattable, IFormatProvider, EventArgs and NativePointer declare types without
    operations.
\<close>

end
